(* ===== verification/Prelude.thy ===== *)
theory Prelude
  imports Main "HOL-Library.Word" "HOL-Library.Finite_Map" "HOL-Library.Char_ord"
    "HOL-Library.List_Lexorder" "HOL-Library.Product_Lexorder"
begin

section \<open>Shared vocabulary of the state-machine model\<close>

text \<open>
  Machine integers, strings, JSON values and finite maps as the components of the replicated
  state machine use them, with the lemmas that carry the component proofs.

  \<^item> Rust's \<open>u64\<close>, \<open>u32\<close>, \<open>u16\<close> are words of that width; \<open>usize\<close> lengths are \<open>nat\<close>;
    \<open>i64\<close> is \<open>int\<close> with the saturation of the source written out.
  \<^item> \<open>String\<close> is \<open>string\<close>, its UTF-8 bytes; \<open>Ord for str\<close> is the bytewise lexicographic order
    that \<open>Char_ord\<close> and \<open>List_Lexorder\<close> give.
  \<^item> \<open>HashMap\<close> and \<open>BTreeMap\<close> are finite maps. A \<open>BTreeMap\<close> is iterated in key order
    (\<open>entries\<close>). Where the order of a \<open>HashMap\<close> iteration can be observed, the order is a
    parameter of the model.
  \<^item> \<open>f32\<close> and \<open>f64\<close> values that are only stored are their bit patterns.
\<close>

named_theorems saturate \<open>bounds of the saturating operations\<close>
named_theorems evaluate \<open>equations that evaluate closed terms of the model\<close>

type_synonym u64 = "64 word"
type_synonym u32 = "32 word"
type_synonym u16 = "16 word"
type_synonym i64 = int
type_synonym f32 = "32 word"

subsection \<open>Saturating and checked arithmetic of the standard library\<close>

definition sat_add :: "'a::len word \<Rightarrow> 'a word \<Rightarrow> 'a word" where
  "sat_add a b = (if unat a + unat b < 2 ^ LENGTH('a) then a + b else - 1)"

definition sat_sub :: "'a::len word \<Rightarrow> 'a word \<Rightarrow> 'a word" where
  "sat_sub a b = (if a < b then 0 else a - b)"

definition checked_add :: "'a::len word \<Rightarrow> 'a word \<Rightarrow> 'a word option" where
  "checked_add a b = (if unat a + unat b < 2 ^ LENGTH('a) then Some (a + b) else None)"

definition i64_min :: i64 where "i64_min = - (2 ^ 63)"
definition i64_max :: i64 where "i64_max = 2 ^ 63 - 1"

definition i64_sat_add :: "i64 \<Rightarrow> i64 \<Rightarrow> i64" where
  "i64_sat_add a b = max i64_min (min i64_max (a + b))"

lemma unat_minus_one_word [simp, evaluate]: "unat (- 1 :: 'a::len word) = 2 ^ LENGTH('a) - 1"
  by (simp add: unsigned_minus_1_eq_mask mask_eq_exp_minus_1)

lemma unat_lt_2p: "unat (a :: 'a::len word) < 2 ^ LENGTH('a)"
  by (rule unsigned_less)

lemma unat_le_2p: "unat (a :: 'a::len word) \<le> 2 ^ LENGTH('a) - Suc 0"
  using unat_lt_2p [of a] by linarith

lemma unat_sat_add: "unat (sat_add a b) = min (2 ^ LENGTH('a) - 1) (unat a + unat (b :: 'a::len word))"
proof (cases "unat a + unat b < 2 ^ LENGTH('a)")
  case True
  then show ?thesis by (simp add: sat_add_def unat_word_ariths)
next
  case False
  then show ?thesis by (simp add: sat_add_def unat_minus_one_word)
qed

lemma sat_add_ge1 [saturate, simp]: "a \<le> sat_add a b"
  by (simp add: word_le_nat_alt unat_sat_add unat_le_2p)

lemma sat_add_ge2 [saturate, simp]: "b \<le> sat_add a b"
  by (simp add: word_le_nat_alt unat_sat_add unat_le_2p)

lemma sat_add_mono: "a \<le> a' \<Longrightarrow> b \<le> b' \<Longrightarrow> sat_add a b \<le> sat_add a' b'"
  by (simp add: word_le_nat_alt unat_sat_add)

lemma sat_add_0 [simp]: "sat_add a 0 = a" "sat_add 0 a = a"
  by (simp_all add: sat_add_def)

lemma sat_add_commute: "sat_add a b = sat_add b a"
  by (simp add: sat_add_def add.commute)

lemma sat_add_assoc: "sat_add (sat_add a b) c = sat_add a (sat_add b c)"
proof (rule word_unat_eq_iff [THEN iffD2])
  have "min M (min M (x + y) + z) = min M (x + min M (y + z))" for M x y z :: nat
    by arith
  then show "unat (sat_add (sat_add a b) c) = unat (sat_add a (sat_add b c))"
    by (simp only: unat_sat_add)
qed

lemma sat_add_gt: "a < - 1 \<Longrightarrow> 0 < b \<Longrightarrow> a < sat_add a b"
proof -
  assume "a < - 1" and "0 < b"
  then have "unat a < 2 ^ LENGTH('a) - 1" and "0 < unat b"
    by (simp_all add: word_less_nat_alt unat_minus_one_word)
  then show ?thesis by (simp add: word_less_nat_alt unat_sat_add)
qed

lemma unat_sat_sub: "unat (sat_sub a b) = unat a - unat b"
  by (simp add: sat_sub_def word_less_nat_alt unat_sub_if' not_less)

lemma sat_sub_le [saturate, simp]: "sat_sub a b \<le> a"
  by (simp add: word_le_nat_alt unat_sat_sub)

lemma unat_of_nat_small: "n < 2 ^ LENGTH('a) \<Longrightarrow> unat (word_of_nat n :: 'a::len word) = n"
  by (simp add: unat_of_nat)

lemma word_of_nat_eq_0: "n < 2 ^ LENGTH('a) \<Longrightarrow> (word_of_nat n :: 'a::len word) = 0 \<longleftrightarrow> n = 0"
  using unat_of_nat_small [of n] by (auto simp: word_unat_eq_iff)

lemma sat_sub_one_of_nat:
  "0 < n \<Longrightarrow> n < 2 ^ LENGTH('a) \<Longrightarrow> sat_sub (word_of_nat n :: 'a::len word) 1 = word_of_nat (n - 1)"
  using word_of_nat_eq_0 [of n] by (simp add: sat_sub_def of_nat_diff)

lemma checked_add_SomeD:
  "checked_add a b = Some c \<Longrightarrow> c = a + b \<and> unat c = unat a + unat b"
  by (auto simp: checked_add_def unat_word_ariths split: if_splits)

lemma i64_sat_add_range: "i64_min \<le> i64_sat_add a b" "i64_sat_add a b \<le> i64_max"
  by (auto simp: i64_sat_add_def i64_min_def i64_max_def)

lemma i64_sat_add_exact:
  "i64_min \<le> a + b \<Longrightarrow> a + b \<le> i64_max \<Longrightarrow> i64_sat_add a b = a + b"
  by (simp add: i64_sat_add_def)

subsection \<open>JSON values\<close>

text \<open>The shape of \<open>serde_json::Value\<close>. The state machine stores and returns such values and
  looks into none of them.\<close>

datatype json =
    JNull
  | JBool bool
  | JNumber int
  | JString string
  | JArray "json list"
  | JObject "(string \<times> json) list"

subsection \<open>Finite maps\<close>

text \<open>\<open>HashMap::retain\<close> and \<open>BTreeMap\<close> iteration.\<close>

definition fmretain :: "('k \<Rightarrow> 'v \<Rightarrow> bool) \<Rightarrow> ('k, 'v) fmap \<Rightarrow> ('k, 'v) fmap" where
  "fmretain P m = fmfilter (\<lambda>k. case fmlookup m k of Some v \<Rightarrow> P k v | None \<Rightarrow> False) m"

definition entries :: "('k::linorder, 'v) fmap \<Rightarrow> ('k \<times> 'v) list" where
  "entries m = map (\<lambda>k. (k, the (fmlookup m k))) (sorted_list_of_set (fset (fmdom m)))"

definition fmvalues :: "('k::linorder, 'v) fmap \<Rightarrow> 'v list" where
  "fmvalues m = map snd (entries m)"

lemma fmlookup_fmretain [simp]:
  "fmlookup (fmretain P m) k =
    (case fmlookup m k of Some v \<Rightarrow> if P k v then Some v else None | None \<Rightarrow> None)"
  by (simp add: fmretain_def split: option.split)

lemma fmlookup_fmretain_Some:
  "fmlookup (fmretain P m) k = Some v \<longleftrightarrow> fmlookup m k = Some v \<and> P k v"
  by (auto split: option.splits)

lemma fmretain_True: "(\<And>k v. fmlookup m k = Some v \<Longrightarrow> P k v) \<Longrightarrow> fmretain P m = m"
  by (rule fmap_ext) (auto split: option.split)

lemma fmretain_empty [simp]: "fmretain P fmempty = fmempty"
  by (simp add: fmretain_def)

lemma fmretain_upd [evaluate]:
  "fmretain P (fmupd k v m) =
    (if P k v then fmupd k v (fmretain P m) else fmretain P (fmdrop k m))"
  by (rule fmap_ext) (auto split: option.split)

lemma entries_iff: "(k, v) \<in> set (entries m) \<longleftrightarrow> fmlookup m k = Some v"
  by (auto simp: entries_def fmlookup_dom_iff image_iff)

lemma set_entries: "set (entries m) = {(k, v). fmlookup m k = Some v}"
  by (auto simp: entries_iff)

lemma distinct_map_fst_entries: "distinct (map fst (entries m))"
  by (simp add: entries_def comp_def)

lemma distinct_entries: "distinct (entries m)"
  using distinct_map_fst_entries [of m] by (rule distinct_map [THEN iffD1, THEN conjunct1])

lemma sorted_map_fst_entries: "sorted (map fst (entries m))"
  by (simp add: entries_def comp_def)

lemma set_map_fst_entries: "set (map fst (entries m)) = fset (fmdom m)"
  by (auto simp: entries_def image_iff)

lemma set_fmvalues: "set (fmvalues m) = {v. \<exists>k. fmlookup m k = Some v}"
  by (force simp: fmvalues_def set_entries)

lemma entries_empty [simp, evaluate]: "entries fmempty = []"
  by (simp add: entries_def)

lemma sorted_list_of_set_step [evaluate]:
  "finite A \<Longrightarrow> sorted_list_of_set (insert x A) = insort x (sorted_list_of_set (A - {x}))"
  by (simp add: sorted_list_of_set_insert_remove)

lemma fmretain_fmretain [simp]:
  "fmretain P (fmretain Q m) = fmretain (\<lambda>k v. Q k v \<and> P k v) m"
  by (rule fmap_ext) (auto split: option.split)

lemma fmretain_cong:
  "(\<And>k v. fmlookup m k = Some v \<Longrightarrow> P k v = Q k v) \<Longrightarrow> fmretain P m = fmretain Q m"
  by (rule fmap_ext) (auto split: option.split)

lemma fmdrop_retain: "fmdrop k m = fmretain (\<lambda>j _. j \<noteq> k) m"
  by (rule fmap_ext) (auto split: option.split)

lemma finite_fmlookup: "finite {k. fmlookup m k \<noteq> None}"
  by (rule finite_subset [of _ "fset (fmdom m)"]) (auto simp: fmlookup_dom_iff)

lemma fmdom_image_entries: "fset (fmdom m) = {k. fmlookup m k \<noteq> None}"
  by (auto simp: fmlookup_dom_iff)

lemma length_filter_fmvalues:
  "length (filter P (fmvalues m)) = card {k. \<exists>v. fmlookup m k = Some v \<and> P v}"
proof -
  let ?xs = "filter (\<lambda>kv. P (snd kv)) (entries m)"
  have "distinct (map fst ?xs)"
    using distinct_map_fst_entries [of m] by (rule distinct_map_filter)
  then have "card (set (map fst ?xs)) = length ?xs" using distinct_card by fastforce
  moreover have "set (map fst ?xs) = {k. \<exists>v. fmlookup m k = Some v \<and> P v}"
    by (force simp: set_entries)
  ultimately show ?thesis by (simp add: fmvalues_def filter_map comp_def)
qed

lemma fmmap_upd [simp, evaluate]: "fmmap f (fmupd k v m) = fmupd k (f v) (fmmap f m)"
  by (rule fmap_ext) simp

lemma fmmap_empty' [simp, evaluate]: "fmmap f fmempty = fmempty"
  by (rule fmap_ext) simp

lemma fmupd_upd [simp, evaluate]: "fmupd k v (fmupd k v' m) = fmupd k v m"
  by (rule fmap_ext) simp

lemma fmupd_same: "fmlookup m k = Some v \<Longrightarrow> fmupd k v m = m"
  by (rule fmap_ext) auto

lemma fmdrop_upd [simp, evaluate]: "fmdrop k (fmupd k' v m) = (if k = k' then fmdrop k m else fmupd k' v (fmdrop k m))"
  by (rule fmap_ext) auto

lemma fmdrop_empty' [simp, evaluate]: "fmdrop k fmempty = fmempty"
  by (rule fmap_ext) simp

lemma filter_sorted_list_of_set:
  "finite A \<Longrightarrow> filter P (sorted_list_of_set A) = sorted_list_of_set {x \<in> A. P x}"
  by (rule sorted_distinct_set_unique) (simp_all add: sorted_wrt_filter)

lemma entries_fmretain: "entries (fmretain P m) = filter (\<lambda>(k, v). P k v) (entries m)"
proof -
  have d: "fset (fmdom (fmretain P m)) = {k \<in> fset (fmdom m). P k (the (fmlookup m k))}"
    by (auto simp: fmdom_image_entries split: option.splits if_splits)
  have v: "the (fmlookup (fmretain P m) k) = the (fmlookup m k)" if "P k (the (fmlookup m k))" for k
    using that by (cases "fmlookup m k") simp_all
  have f: "finite {k \<in> fset (fmdom m). P k (the (fmlookup m k))}" by simp
  show ?thesis
    unfolding entries_def filter_map comp_def case_prod_conv d filter_sorted_list_of_set [OF finite_fset]
    by (rule map_cong [OF refl]) (simp only: set_sorted_list_of_set [OF f] mem_Collect_eq v)
qed

text \<open>Two texts split at a delimiter that neither first part contains.\<close>

lemma split_at_delimiter:
  "d \<notin> set a \<Longrightarrow> d \<notin> set b \<Longrightarrow> a @ d # x = b @ d # y \<longleftrightarrow> a = b \<and> x = y"
proof (induction a arbitrary: b)
  case (Cons c a)
  then show ?case by (cases b) auto
qed (auto simp: Cons_eq_append_conv)

end
