(* ===== verification/Indexed_Queue.thy ===== *)
theory Indexed_Queue
  imports Prelude
begin

section \<open>The keyed FIFO wait queue\<close>

text \<open>
  \<^verbatim>\<open>src/src/indexed_queue.rs\<close>: a doubly-linked list in a slab of slots, with a hash index from
  keys to slots. The first part is the contract, a list of key/value pairs with distinct keys,
  and the interface locale \<open>keyed_fifo\<close> with what clients derive from it. The second part is the
  slab itself, operation by operation, with every \<open>expect\<close> and out-of-range index as the result
  \<open>None\<close>. The last part proves that the slab keeps its links, index and free list consistent,
  never panics, and implements the list.
\<close>

subsection \<open>The contract: an association list in arrival order\<close>

type_synonym ('k, 'v) fifo = "('k \<times> 'v) list"

definition fifo_contains :: "'k \<Rightarrow> ('k, 'v) fifo \<Rightarrow> bool" where
  "fifo_contains k q = (k \<in> set (map fst q))"

definition fifo_push_back :: "'k \<Rightarrow> 'v \<Rightarrow> ('k, 'v) fifo \<Rightarrow> bool \<times> ('k, 'v) fifo" where
  "fifo_push_back k v q = (if fifo_contains k q then (False, q) else (True, q @ [(k, v)]))"

fun fifo_pop_front :: "('k, 'v) fifo \<Rightarrow> ('k \<times> 'v) option \<times> ('k, 'v) fifo" where
  "fifo_pop_front [] = (None, [])"
| "fifo_pop_front (x # q) = (Some x, q)"

definition fifo_remove :: "'k \<Rightarrow> ('k, 'v) fifo \<Rightarrow> 'v option \<times> ('k, 'v) fifo" where
  "fifo_remove k q = (map_of q k, filter (\<lambda>(k', _). k' \<noteq> k) q)"

definition fifo_get :: "'k \<Rightarrow> ('k, 'v) fifo \<Rightarrow> 'v option" where
  "fifo_get k q = map_of q k"

fun fifo_position_from :: "nat \<Rightarrow> 'k \<Rightarrow> ('k, 'v) fifo \<Rightarrow> nat option" where
  "fifo_position_from i k [] = None"
| "fifo_position_from i k ((k', v) # q) = (if k' = k then Some i else fifo_position_from (Suc i) k q)"

definition fifo_position :: "'k \<Rightarrow> ('k, 'v) fifo \<Rightarrow> nat option" where
  "fifo_position k q = fifo_position_from 0 k q"

definition fifo_ok :: "('k, 'v) fifo \<Rightarrow> bool" where
  "fifo_ok q = distinct (map fst q)"

lemmas fifo_defs = fifo_contains_def fifo_push_back_def fifo_remove_def fifo_get_def fifo_ok_def

lemma fifo_ok_Nil [simp]: "fifo_ok []"
  by (simp add: fifo_ok_def)

lemma fifo_ok_push_back: "fifo_ok q \<Longrightarrow> fifo_ok (snd (fifo_push_back k v q))"
  by (auto simp: fifo_defs)

lemma fifo_ok_filter: "fifo_ok q \<Longrightarrow> fifo_ok (filter P q)"
  by (simp add: fifo_ok_def distinct_map_filter)

lemma fifo_ok_remove: "fifo_ok q \<Longrightarrow> fifo_ok (snd (fifo_remove k q))"
  by (simp add: fifo_remove_def fifo_ok_filter)

lemma set_fifo_remove: "set (snd (fifo_remove k q)) = {x \<in> set q. fst x \<noteq> k}"
  by (auto simp: fifo_remove_def)

lemma fifo_get_iff: "fifo_ok q \<Longrightarrow> fifo_get k q = Some v \<longleftrightarrow> (k, v) \<in> set q"
  by (simp add: fifo_get_def fifo_ok_def)

lemma fifo_get_None: "fifo_get k q = None \<longleftrightarrow> \<not> fifo_contains k q"
  by (simp add: fifo_get_def fifo_contains_def map_of_eq_None_iff)

lemma fifo_remove_length:
  "fifo_contains k q \<Longrightarrow> length (snd (fifo_remove k q)) < length q"
  by (auto simp: fifo_remove_def fifo_contains_def intro!: length_filter_less)

lemma fifo_position_from_None: "fifo_position_from i k q = None \<longleftrightarrow> k \<notin> set (map fst q)"
  by (induction i k q rule: fifo_position_from.induct) auto

lemma fifo_position_None: "fifo_position k q = None \<longleftrightarrow> \<not> fifo_contains k q"
  by (simp add: fifo_position_def fifo_contains_def fifo_position_from_None)

lemma fifo_position_from_Some:
  "fifo_position_from i k q = Some n \<Longrightarrow> i \<le> n \<and> n - i < length q \<and> fst (q ! (n - i)) = k"
proof (induction i k q rule: fifo_position_from.induct)
  case (2 i k k' v q)
  then show ?case by (auto split: if_splits simp: Suc_diff_le nth_Cons')
qed simp

lemma fifo_position_Some:
  "fifo_position k q = Some n \<Longrightarrow> n < length q \<and> fst (q ! n) = k"
  by (auto simp: fifo_position_def dest: fifo_position_from_Some)

text \<open>Collecting the identities of the entries that fail a test and removing them one by one leaves
  the entries that pass it.\<close>

lemma fold_fifo_remove: "fold (\<lambda>i q. snd (fifo_remove i q)) ks q = filter (\<lambda>(i, _). i \<notin> set ks) q"
proof (induction ks arbitrary: q)
  case (Cons a ks)
  then show ?case by (auto simp: fifo_remove_def case_prod_unfold intro: filter_cong)
qed (simp add: case_prod_unfold)

lemma fifo_sweep:
  assumes "fifo_ok q"
  shows "fold (\<lambda>i q. snd (fifo_remove i q)) (map fst (filter (\<lambda>(_, w). \<not> P w) q)) q = filter (\<lambda>(_, w). P w) q"
proof -
  let ?ks = "map fst (filter (\<lambda>(_, w). \<not> P w) q)"
  have "(i \<notin> set ?ks) = P w" if x: "(i, w) \<in> set q" for i w
  proof (cases "P w")
    case True
    have "i \<notin> set ?ks"
    proof
      assume "i \<in> set ?ks"
      then obtain w' where w': "(i, w') \<in> set q" "\<not> P w'" by auto
      moreover have "distinct (map fst q)" using assms by (simp add: fifo_ok_def)
      then have "w' = w" using w'(1) x by (rule eq_key_imp_eq_value)
      ultimately show False using True by simp
    qed
    then show ?thesis using True by simp
  next
    case False
    then have "(i, w) \<in> set (filter (\<lambda>(_, w). \<not> P w) q)" using x by simp
    then have "fst (i, w) \<in> set ?ks" unfolding set_map by (rule imageI)
    then show ?thesis using False unfolding fst_conv by simp
  qed
  then have "(case x of (i, _) \<Rightarrow> i \<notin> set ?ks) = (case x of (_, w) \<Rightarrow> P w)" if "x \<in> set q" for x
    using that by (cases x) (simp only: prod.case)
  then show ?thesis unfolding fold_fifo_remove by (rule filter_cong [OF refl])
qed

subsection \<open>The interface\<close>

text \<open>
  A provider has a state \<open>'q\<close>, its invariant and the list it stands for. Every mutating
  operation returns \<open>None\<close> when it would panic; the laws say that it does not under the
  invariant and that it acts on the list as the contract does.
\<close>

locale keyed_fifo =
  fixes inv :: "'q \<Rightarrow> bool"
    and items :: "'q \<Rightarrow> ('k \<times> 'v) list"
    and empty :: 'q
    and push_back :: "'k \<Rightarrow> 'v \<Rightarrow> 'q \<Rightarrow> (bool \<times> 'q) option"
    and pop_front :: "'q \<Rightarrow> (('k \<times> 'v) option \<times> 'q) option"
    and remove :: "'k \<Rightarrow> 'q \<Rightarrow> ('v option \<times> 'q) option"
  assumes inv_empty: "inv empty" and items_empty: "items empty = []"
    and items_ok: "inv q \<Longrightarrow> fifo_ok (items q)"
    and push_back: "inv q \<Longrightarrow>
      \<exists>b q'. push_back k v q = Some (b, q') \<and> inv q' \<and> (b, items q') = fifo_push_back k v (items q)"
    and pop_front: "inv q \<Longrightarrow>
      \<exists>r q'. pop_front q = Some (r, q') \<and> inv q' \<and> (r, items q') = fifo_pop_front (items q)"
    and remove: "inv q \<Longrightarrow>
      \<exists>r q'. remove k q = Some (r, q') \<and> inv q' \<and> (r, items q') = fifo_remove k (items q)"
begin

text \<open>The sweeps of \<open>expire_due\<close>: collect the identities, then remove them one by one.\<close>

primrec remove_all :: "'k list \<Rightarrow> 'q \<Rightarrow> 'q option" where
  "remove_all [] q = Some q"
| "remove_all (k # ks) q = (case remove k q of None \<Rightarrow> None | Some (_, q') \<Rightarrow> remove_all ks q')"

lemma remove_all_filter:
  "inv q \<Longrightarrow> \<exists>q'. remove_all ks q = Some q' \<and> inv q' \<and>
     items q' = filter (\<lambda>(k, _). k \<notin> set ks) (items q)"
proof (induction ks arbitrary: q)
  case Nil
  then show ?case by (simp add: case_prod_unfold)
next
  case (Cons k ks)
  obtain r q1 where q1: "remove k q = Some (r, q1)" "inv q1"
    "items q1 = filter (\<lambda>(k', _). k' \<noteq> k) (items q)"
    using remove [OF Cons.prems, of k] by (auto simp: fifo_remove_def)
  obtain q' where "remove_all ks q1 = Some q'" "inv q'"
    "items q' = filter (\<lambda>(k, _). k \<notin> set ks) (items q1)"
    using Cons.IH [OF q1(2)] by blast
  then show ?case using q1
    by (auto simp: conj_commute case_prod_unfold intro!: filter_cong)
qed

text \<open>Draining from the front yields the entries in arrival order.\<close>

primrec drain :: "nat \<Rightarrow> 'q \<Rightarrow> (('k \<times> 'v) list \<times> 'q) option" where
  "drain 0 q = Some ([], q)"
| "drain (Suc n) q = (case pop_front q of None \<Rightarrow> None | Some (None, q') \<Rightarrow> Some ([], q')
     | Some (Some x, q') \<Rightarrow> (case drain n q' of None \<Rightarrow> None | Some (xs, q'') \<Rightarrow> Some (x # xs, q'')))"

lemma drain_take:
  "inv q \<Longrightarrow> \<exists>q'. drain n q = Some (take n (items q), q') \<and> inv q' \<and> items q' = drop n (items q)"
proof (induction n arbitrary: q)
  case (Suc n)
  obtain r q1 where q1: "pop_front q = Some (r, q1)" "inv q1"
    "(r, items q1) = fifo_pop_front (items q)"
    using pop_front [OF Suc.prems] by blast
  show ?case
  proof (cases "items q")
    case Nil
    then show ?thesis using q1 by simp
  next
    case (Cons x xs)
    then have r: "r = Some x" "items q1 = xs" using q1(3) by simp_all
    from Suc.IH [OF q1(2)] obtain q' where
      "drain n q1 = Some (take n xs, q')" "inv q'" "items q' = drop n xs"
      using r by blast
    then show ?thesis using q1(1) r Cons by simp
  qed
qed simp

text \<open>Building a queue from a sequence of pairs, as decoding a snapshot does: a duplicate key
  is refused.\<close>

primrec push_seq :: "('k \<times> 'v) list \<Rightarrow> 'q \<Rightarrow> (bool \<times> 'q) option" where
  "push_seq [] q = Some (True, q)"
| "push_seq (x # xs) q = (case push_back (fst x) (snd x) q of None \<Rightarrow> None
     | Some (b, q') \<Rightarrow> if b then push_seq xs q' else Some (False, q'))"

lemma push_seq_distinct:
  "inv q \<Longrightarrow> \<exists>b q'. push_seq xs q = Some (b, q') \<and> (b \<longleftrightarrow> fifo_ok (items q @ xs)) \<and>
     (b \<longrightarrow> inv q' \<and> items q' = items q @ xs)"
proof (induction xs arbitrary: q)
  case Nil
  then show ?case by (auto simp: items_ok)
next
  case (Cons x xs)
  obtain k v where x: "x = (k, v)" by fastforce
  obtain b q1 where q1: "push_back k v q = Some (b, q1)" "inv q1"
    "(b, items q1) = fifo_push_back k v (items q)"
    using push_back [OF Cons.prems, of k v] by blast
  show ?case
  proof (cases b)
    case False
    then have "fifo_contains k (items q)" using q1(3)
      by (simp add: fifo_push_back_def split: if_splits)
    then have "\<not> fifo_ok (items q @ x # xs)" by (auto simp: fifo_defs x)
    then show ?thesis using q1(1) False x by auto
  next
    case True
    then have "items q1 = items q @ [x]" using q1(3) x
      by (simp add: fifo_push_back_def split: if_splits)
    then show ?thesis using Cons.IH [OF q1(2)] q1(1) True x by simp
  qed
qed

end


subsection \<open>The slab\<close>

record ('k, 'v) node =
  n_key :: 'k
  n_value :: 'v
  n_prev :: "nat option"
  n_next :: "nat option"

type_synonym ('k, 'v) slots = "('k, 'v) node option list"

record ('k, 'v) indexed_queue =
  q_slab :: "('k, 'v) slots"
  q_free :: "nat list"
  q_index :: "('k, nat) fmap"
  q_head :: "nat option"
  q_tail :: "nat option"

definition RELEASE_EMPTY_CAPACITY_AT :: nat where "RELEASE_EMPTY_CAPACITY_AT = 1024"

definition iq_new :: "('k, 'v) indexed_queue" where
  "iq_new = \<lparr>q_slab = [], q_free = [], q_index = fmempty, q_head = None, q_tail = None\<rparr>"

definition iq_len :: "('k, 'v) indexed_queue \<Rightarrow> nat" where
  "iq_len q = fcard (fmdom (q_index q))"

definition iq_is_empty :: "('k, 'v) indexed_queue \<Rightarrow> bool" where
  "iq_is_empty q = (fmdom (q_index q) = {||})"

definition iq_contains :: "'k \<Rightarrow> ('k, 'v) indexed_queue \<Rightarrow> bool" where
  "iq_contains k q = (fmlookup (q_index q) k \<noteq> None)"

text \<open>\<open>self.slab[i].as_ref().expect(..)\<close>: \<open>None\<close> covers both the index panic and the \<open>expect\<close>.\<close>

definition slot :: "('k, 'v) slots \<Rightarrow> nat \<Rightarrow> ('k, 'v) node option" where
  "slot sl i = (if i < length sl then sl ! i else None)"

definition slot_update ::
  "nat \<Rightarrow> (('k, 'v) node \<Rightarrow> ('k, 'v) node) \<Rightarrow> ('k, 'v) slots \<Rightarrow> ('k, 'v) slots option" where
  "slot_update i f sl = (case slot sl i of None \<Rightarrow> None | Some n \<Rightarrow> Some (sl[i := Some (f n)]))"

text \<open>\<open>alloc\<close>: \<open>Vec::pop\<close> takes the last freed slot; a new slot goes at the end of the slab.\<close>

definition iq_alloc ::
  "('k, 'v) node \<Rightarrow> ('k, 'v) indexed_queue \<Rightarrow> (nat \<times> ('k, 'v) indexed_queue) option" where
  "iq_alloc n q =
    (if q_free q \<noteq> [] then
       (let i = last (q_free q) in
        if i < length (q_slab q)
        then Some (i, q\<lparr>q_free := butlast (q_free q), q_slab := (q_slab q)[i := Some n]\<rparr>)
        else None)
     else Some (length (q_slab q), q\<lparr>q_slab := q_slab q @ [Some n]\<rparr>))"

definition iq_push_back ::
  "'k \<Rightarrow> 'v \<Rightarrow> ('k, 'v) indexed_queue \<Rightarrow> (bool \<times> ('k, 'v) indexed_queue) option" where
  "iq_push_back k v q =
    (if iq_contains k q then Some (False, q)
     else case iq_alloc \<lparr>n_key = k, n_value = v, n_prev = q_tail q, n_next = None\<rparr> q of
       None \<Rightarrow> None
     | Some (idx, q1) \<Rightarrow>
         (case q_tail q1 of
            Some t \<Rightarrow> (case slot_update t (\<lambda>n. n\<lparr>n_next := Some idx\<rparr>) (q_slab q1) of
                None \<Rightarrow> None
              | Some sl \<Rightarrow> Some (True, q1\<lparr>q_slab := sl, q_tail := Some idx, q_index := fmupd k idx (q_index q1)\<rparr>))
          | None \<Rightarrow> Some (True, q1\<lparr>q_head := Some idx, q_tail := Some idx, q_index := fmupd k idx (q_index q1)\<rparr>)))"

text \<open>\<open>unlink\<close>. \<open>capacity\<close> is what \<open>slab.capacity()\<close> reports, an allocator detail: the results
  hold for every value of it.\<close>

definition iq_unlink ::
  "nat \<Rightarrow> nat \<Rightarrow> ('k, 'v) indexed_queue \<Rightarrow> (('k \<times> 'v) \<times> ('k, 'v) indexed_queue) option" where
  "iq_unlink capacity idx q =
    (case slot (q_slab q) idx of
       None \<Rightarrow> None
     | Some n \<Rightarrow>
         (let sl0 = (q_slab q)[idx := None] in
          case (case n_prev n of
                  Some p \<Rightarrow> map_option (\<lambda>sl. (sl, q_head q)) (slot_update p (\<lambda>m. m\<lparr>n_next := n_next n\<rparr>) sl0)
                | None \<Rightarrow> Some (sl0, n_next n)) of
            None \<Rightarrow> None
          | Some (sl1, hd1) \<Rightarrow>
              (case (case n_next n of
                       Some x \<Rightarrow> map_option (\<lambda>sl. (sl, q_tail q)) (slot_update x (\<lambda>m. m\<lparr>n_prev := n_prev n\<rparr>) sl1)
                     | None \<Rightarrow> Some (sl1, n_prev n)) of
                 None \<Rightarrow> None
               | Some (sl2, tl1) \<Rightarrow>
                   (let ix = fmdrop (n_key n) (q_index q);
                        q1 = q\<lparr>q_slab := sl2, q_head := hd1, q_tail := tl1, q_index := ix\<rparr>;
                        q2 = (if fmdom ix = {||} then
                                (if RELEASE_EMPTY_CAPACITY_AT \<le> capacity
                                 then q1\<lparr>q_head := None, q_tail := None, q_slab := [], q_free := [], q_index := fmempty\<rparr>
                                 else q1\<lparr>q_head := None, q_tail := None, q_free := q_free q1 @ [idx]\<rparr>)
                              else q1\<lparr>q_free := q_free q1 @ [idx]\<rparr>)
                    in Some ((n_key n, n_value n), q2)))))"

definition iq_pop_front ::
  "nat \<Rightarrow> ('k, 'v) indexed_queue \<Rightarrow> (('k \<times> 'v) option \<times> ('k, 'v) indexed_queue) option" where
  "iq_pop_front capacity q =
    (case q_head q of None \<Rightarrow> Some (None, q)
     | Some h \<Rightarrow> map_option (\<lambda>(kv, q'). (Some kv, q')) (iq_unlink capacity h q))"

definition iq_remove ::
  "nat \<Rightarrow> 'k \<Rightarrow> ('k, 'v) indexed_queue \<Rightarrow> ('v option \<times> ('k, 'v) indexed_queue) option" where
  "iq_remove capacity k q =
    (case fmlookup (q_index q) k of None \<Rightarrow> Some (None, q)
     | Some i \<Rightarrow> map_option (\<lambda>(kv, q'). (Some (snd kv), q')) (iq_unlink capacity i q))"

text \<open>\<open>get\<close>, \<open>front\<close>: the outer \<open>option\<close> is the panic.\<close>

definition iq_get :: "'k \<Rightarrow> ('k, 'v) indexed_queue \<Rightarrow> 'v option option" where
  "iq_get k q = (case fmlookup (q_index q) k of None \<Rightarrow> Some None
     | Some i \<Rightarrow> map_option (\<lambda>n. Some (n_value n)) (slot (q_slab q) i))"

definition iq_front :: "('k, 'v) indexed_queue \<Rightarrow> ('k \<times> 'v) option option" where
  "iq_front q = (case q_head q of None \<Rightarrow> Some None
     | Some i \<Rightarrow> map_option (\<lambda>n. Some (n_key n, n_value n)) (slot (q_slab q) i))"

text \<open>\<open>Iter\<close> and \<open>position\<close> follow the \<open>next\<close> links, which a cyclic slab would do forever: each
  step spends one unit of fuel. The fuel \<open>Suc (length (q_slab q))\<close> is enough, since a consistent
  slab visits every slot at most once.\<close>

fun iter_from :: "nat \<Rightarrow> ('k, 'v) slots \<Rightarrow> nat option \<Rightarrow> ('k \<times> 'v) list option" where
  "iter_from fuel sl None = Some []"
| "iter_from 0 sl (Some i) = None"
| "iter_from (Suc fuel) sl (Some i) = (case slot sl i of None \<Rightarrow> None
     | Some n \<Rightarrow> map_option (\<lambda>xs. (n_key n, n_value n) # xs) (iter_from fuel sl (n_next n)))"

definition iq_iter :: "('k, 'v) indexed_queue \<Rightarrow> ('k \<times> 'v) list option" where
  "iq_iter q = iter_from (Suc (length (q_slab q))) (q_slab q) (q_head q)"

fun position_from :: "nat \<Rightarrow> ('k, 'v) slots \<Rightarrow> nat \<Rightarrow> nat option \<Rightarrow> nat \<Rightarrow> nat option option" where
  "position_from fuel sl target None i = Some None"
| "position_from 0 sl target (Some c) i = None"
| "position_from (Suc fuel) sl target (Some c) i = (if c = target then Some (Some i)
     else case slot sl c of None \<Rightarrow> None
          | Some n \<Rightarrow> position_from fuel sl target (n_next n) (Suc i))"

definition iq_position :: "'k \<Rightarrow> ('k, 'v) indexed_queue \<Rightarrow> nat option option" where
  "iq_position k q = (case fmlookup (q_index q) k of None \<Rightarrow> Some None
     | Some target \<Rightarrow> position_from (Suc (length (q_slab q))) (q_slab q) target (q_head q) 0)"

text \<open>\<open>visit_seq\<close>: \<open>Inl\<close> is the decoding error of a duplicate key.\<close>

fun iq_visit_seq :: "('k \<times> 'v) list \<Rightarrow> ('k, 'v) indexed_queue \<Rightarrow> (string + ('k, 'v) indexed_queue) option" where
  "iq_visit_seq [] q = Some (Inr q)"
| "iq_visit_seq ((k, v) # xs) q = (case iq_push_back k v q of None \<Rightarrow> None
     | Some (b, q') \<Rightarrow> if b then iq_visit_seq xs q'
                       else Some (Inl ''duplicate key in serialized IndexedQueue''))"

definition iq_deserialize :: "('k \<times> 'v) list \<Rightarrow> (string + ('k, 'v) indexed_queue) option" where
  "iq_deserialize xs = iq_visit_seq xs iq_new"


text \<open>\<open>get_mut\<close>, with the caller's write as a function on the value.\<close>

definition iq_get_mut :: "'k \<Rightarrow> ('v \<Rightarrow> 'v) \<Rightarrow> ('k, 'v) indexed_queue \<Rightarrow> (bool \<times> ('k, 'v) indexed_queue) option" where
  "iq_get_mut k f q = (case fmlookup (q_index q) k of None \<Rightarrow> Some (False, q)
     | Some i \<Rightarrow> map_option (\<lambda>sl. (True, q\<lparr>q_slab := sl\<rparr>))
         (slot_update i (\<lambda>n. n\<lparr>n_value := f (n_value n)\<rparr>) (q_slab q)))"

subsection \<open>Consistency of the slab\<close>

text \<open>What \<open>debug_validate\<close> asserts: the chain from \<open>head\<close> to \<open>tail\<close> is doubly linked and visits
  every occupied slot once, the index maps each key to its slot, and the free list holds exactly
  the vacant slots. The witness \<open>ids\<close> is the sequence of slots visited.\<close>

definition ofirst :: "nat list \<Rightarrow> nat option \<Rightarrow> nat option" where
  "ofirst xs nx = (case xs of [] \<Rightarrow> nx | x # _ \<Rightarrow> Some x)"

definition olast :: "nat option \<Rightarrow> nat list \<Rightarrow> nat option" where
  "olast p xs = (if xs = [] then p else Some (last xs))"

fun lseg :: "('k, 'v) slots \<Rightarrow> nat option \<Rightarrow> nat list \<Rightarrow> nat option \<Rightarrow> bool" where
  "lseg sl p [] nx = True"
| "lseg sl p (i # is) nx = (case slot sl i of None \<Rightarrow> False
     | Some n \<Rightarrow> n_prev n = p \<and> n_next n = ofirst is nx \<and> lseg sl (Some i) is nx)"

definition entry_at :: "('k, 'v) slots \<Rightarrow> nat \<Rightarrow> 'k \<times> 'v" where
  "entry_at sl i = (n_key (the (slot sl i)), n_value (the (slot sl i)))"

definition index_ok :: "('k, nat) fmap \<Rightarrow> ('k, 'v) slots \<Rightarrow> nat list \<Rightarrow> bool" where
  "index_ok ix sl ids \<longleftrightarrow>
     (\<forall>k i. fmlookup ix k = Some i \<longleftrightarrow> i \<in> set ids \<and> fst (entry_at sl i) = k)"

definition free_ok :: "nat list \<Rightarrow> ('k, 'v) slots \<Rightarrow> nat list \<Rightarrow> bool" where
  "free_ok fr sl ids \<longleftrightarrow> distinct fr \<and>
     (\<forall>i. i \<in> set fr \<longleftrightarrow> i < length sl \<and> slot sl i = None) \<and>
     (\<forall>i. slot sl i \<noteq> None \<longrightarrow> i \<in> set ids)"

definition rep :: "('k, 'v) indexed_queue \<Rightarrow> nat list \<Rightarrow> bool" where
  "rep q ids \<longleftrightarrow> lseg (q_slab q) None ids None \<and> distinct ids \<and>
     q_head q = ofirst ids None \<and> q_tail q = olast None ids \<and>
     index_ok (q_index q) (q_slab q) ids \<and> free_ok (q_free q) (q_slab q) ids"

definition iq_inv :: "('k, 'v) indexed_queue \<Rightarrow> bool" where
  "iq_inv q \<longleftrightarrow> (\<exists>ids. rep q ids)"

definition iq_items :: "('k, 'v) indexed_queue \<Rightarrow> ('k \<times> 'v) list" where
  "iq_items q = the (iq_iter q)"

lemma ofirst_simps [simp]: "ofirst [] nx = nx" "ofirst (x # xs) nx = Some x"
  by (simp_all add: ofirst_def)

lemma ofirst_append: "ofirst (xs @ ys) nx = ofirst xs (ofirst ys nx)"
  by (cases xs) simp_all

lemma olast_simps [simp]: "olast p [] = p" "olast p (xs @ [x]) = Some x"
  by (simp_all add: olast_def)

lemma olast_Cons [simp]: "olast p (x # xs) = olast (Some x) xs"
  by (simp add: olast_def)

lemma olast_append: "olast p (xs @ ys) = olast (olast p xs) ys"
  by (simp add: olast_def)

lemma slot_list_update [simp]:
  "slot (sl[i := x]) j = (if j = i \<and> i < length sl then x else slot sl j)"
  by (auto simp: slot_def)

lemma slot_Some_less: "slot sl i = Some n \<Longrightarrow> i < length sl"
  by (simp add: slot_def split: if_splits)

lemma slot_append [simp]: "slot (sl @ [x]) j = (if j = length sl then x else slot sl j)"
  by (auto simp: slot_def nth_append)

lemma lseg_cong:
  "(\<And>i. i \<in> set ids \<Longrightarrow> slot sl' i = slot sl i) \<Longrightarrow> lseg sl' p ids nx = lseg sl p ids nx"
  by (induction ids arbitrary: p) (auto split: option.splits)

lemma lseg_frame: "i \<notin> set ids \<Longrightarrow> lseg (sl[i := x]) p ids nx = lseg sl p ids nx"
  by (rule lseg_cong) auto

lemma lseg_append:
  "lseg sl p (xs @ ys) nx \<longleftrightarrow> lseg sl p xs (ofirst ys nx) \<and> lseg sl (olast p xs) ys nx"
  by (induction xs arbitrary: p) (auto simp: ofirst_append split: option.splits)

lemma lseg_occupied: "lseg sl p ids nx \<Longrightarrow> i \<in> set ids \<Longrightarrow> \<exists>n. slot sl i = Some n"
  by (induction ids arbitrary: p) (auto split: option.splits)

lemma lseg_less: "lseg sl p ids nx \<Longrightarrow> i \<in> set ids \<Longrightarrow> i < length sl"
  by (meson lseg_occupied slot_Some_less)

lemma lseg_length: "lseg sl p ids nx \<Longrightarrow> distinct ids \<Longrightarrow> length ids \<le> length sl"
proof -
  assume "lseg sl p ids nx" and d: "distinct ids"
  then have "set ids \<subseteq> {..<length sl}" by (auto dest: lseg_less)
  then have "card (set ids) \<le> length sl" using card_mono [of "{..<length sl}" "set ids"] by simp
  then show ?thesis using d by (simp add: distinct_card)
qed

lemma entry_at_cong: "slot sl' i = slot sl i \<Longrightarrow> entry_at sl' i = entry_at sl i"
  by (simp add: entry_at_def)

lemma iter_from_lseg:
  "lseg sl p ids None \<Longrightarrow> length ids \<le> fuel \<Longrightarrow>
     iter_from fuel sl (ofirst ids None) = Some (map (entry_at sl) ids)"
proof (induction ids arbitrary: p fuel)
  case (Cons i ids)
  then obtain n f where n: "slot sl i = Some n" "n_next n = ofirst ids None"
    "lseg sl (Some i) ids None" and f: "fuel = Suc f" "length ids \<le> f"
    by (cases fuel) (auto split: option.splits)
  from Cons.IH [OF n(3) f(2)] show ?case by (simp add: n f(1) entry_at_def)
qed (cases fuel; simp)

lemma rep_items: "rep q ids \<Longrightarrow> iq_iter q = Some (map (entry_at (q_slab q)) ids)"
  unfolding rep_def iq_iter_def
  using iter_from_lseg [of "q_slab q" None ids "Suc (length (q_slab q))"] lseg_length [of "q_slab q" None ids None]
  by auto

lemma rep_iq_items: "rep q ids \<Longrightarrow> iq_items q = map (entry_at (q_slab q)) ids"
  by (simp add: iq_items_def rep_items)

lemma rep_keys_distinct:
  assumes r: "rep q ids"
  shows "distinct (map fst (iq_items q))"
proof -
  have d: "distinct ids" and ix: "index_ok (q_index q) (q_slab q) ids"
    using r by (simp_all add: rep_def)
  have "inj_on (fst \<circ> entry_at (q_slab q)) (set ids)"
  proof (rule inj_onI)
    fix i j
    assume "i \<in> set ids" "j \<in> set ids" "(fst \<circ> entry_at (q_slab q)) i = (fst \<circ> entry_at (q_slab q)) j"
    then have "fmlookup (q_index q) (fst (entry_at (q_slab q) i)) = Some i"
      and "fmlookup (q_index q) (fst (entry_at (q_slab q) i)) = Some j"
      using ix by (simp_all add: index_ok_def)
    then show "i = j" by simp
  qed
  then show ?thesis using d by (simp add: rep_iq_items [OF r] distinct_map)
qed

lemma rep_new: "rep iq_new []"
  by (simp add: rep_def iq_new_def index_ok_def free_ok_def slot_def)

lemma free_ok_cong:
  "length sl' = length sl \<Longrightarrow> (\<And>i. (slot sl' i = None) = (slot sl i = None)) \<Longrightarrow>
     free_ok fr sl' ids = free_ok fr sl ids"
  unfolding free_ok_def by simp

lemma index_ok_cong:
  "(\<And>i. i \<in> set ids \<Longrightarrow> fst (entry_at sl' i) = fst (entry_at sl i)) \<Longrightarrow>
     index_ok ix sl' ids = index_ok ix sl ids"
  unfolding index_ok_def by (simp cong: conj_cong)

lemma lseg_relink_last:
  assumes l: "lseg sl p (xs @ [t]) nx" and d: "distinct (xs @ [t])"
  obtains n where "slot sl t = Some n"
    and "lseg (sl[t := Some (n\<lparr>n_next := nx'\<rparr>)]) p (xs @ [t]) nx'"
proof -
  obtain n where n: "slot sl t = Some n" "n_prev n = olast p xs"
    using l by (auto simp: lseg_append split: option.splits)
  let ?sl = "sl[t := Some (n\<lparr>n_next := nx'\<rparr>)]"
  have "lseg ?sl p (xs @ [t]) nx'"
    using l d n slot_Some_less [OF n(1)] by (simp add: lseg_append lseg_frame)
  with n(1) show thesis by (rule that)
qed

lemma lseg_relink_first:
  assumes l: "lseg sl p (t # ys) nx" and d: "t \<notin> set ys"
  obtains n where "slot sl t = Some n"
    and "lseg (sl[t := Some (n\<lparr>n_prev := p'\<rparr>)]) p' (t # ys) nx"
proof -
  obtain n where n: "slot sl t = Some n" "n_next n = ofirst ys nx" "lseg sl (Some t) ys nx"
    using l by (auto split: option.splits)
  let ?sl = "sl[t := Some (n\<lparr>n_prev := p'\<rparr>)]"
  have "lseg ?sl p' (t # ys) nx"
    using d n slot_Some_less [OF n(1)] by (simp add: lseg_frame)
  with n(1) show thesis by (rule that)
qed

subsection \<open>Appending\<close>

lemma alloc_rep:
  assumes r: "rep q ids"
  obtains i q1 where "iq_alloc n q = Some (i, q1)" "i \<notin> set ids" "slot (q_slab q1) i = Some n"
    and "\<And>j. j \<noteq> i \<Longrightarrow> slot (q_slab q1) j = slot (q_slab q) j"
    and "free_ok (q_free q1) (q_slab q1) (ids @ [i])"
    and "q_index q1 = q_index q" "q_head q1 = q_head q" "q_tail q1 = q_tail q"
proof -
  have fo: "free_ok (q_free q) (q_slab q) ids" and ls: "lseg (q_slab q) None ids None"
    using r by (simp_all add: rep_def)
  show thesis
  proof (cases "q_free q = []")
    case True
    let ?q1 = "q\<lparr>q_slab := q_slab q @ [Some n]\<rparr>"
    have "length (q_slab q) \<notin> set ids" using lseg_less [OF ls] by blast
    moreover have "free_ok (q_free ?q1) (q_slab ?q1) (ids @ [length (q_slab q)])"
      using fo True by (auto simp: free_ok_def slot_def nth_append split: if_splits)
    ultimately show thesis
      using True by (intro that [of "length (q_slab q)" ?q1]) (simp_all add: iq_alloc_def)
  next
    case False
    let ?i = "last (q_free q)"
    let ?q1 = "q\<lparr>q_free := butlast (q_free q), q_slab := (q_slab q)[?i := Some n]\<rparr>"
    have d: "distinct (butlast (q_free q) @ [?i])" and s: "set (q_free q) = insert ?i (set (butlast (q_free q)))"
      using fo False by (simp_all add: free_ok_def) (metis append_butlast_last_id list.set(1,2) set_append Un_insert_right sup_bot.right_neutral)
    have i: "?i < length (q_slab q)" "slot (q_slab q) ?i = None"
      using fo s by (auto simp: free_ok_def)
    have "?i \<notin> set ids" using i lseg_occupied [OF ls] by fastforce
    moreover have "free_ok (q_free ?q1) (q_slab ?q1) (ids @ [?i])"
      using fo d s i unfolding free_ok_def by (auto split: if_splits)
    ultimately show thesis
      using False i by (intro that [of ?i ?q1]) (simp_all add: iq_alloc_def Let_def)
  qed
qed

text \<open>Relinking changes neither which slots are occupied nor what they hold.\<close>

definition same_entries :: "('k, 'v) slots \<Rightarrow> ('k, 'v) slots \<Rightarrow> bool" where
  "same_entries sl sl' \<longleftrightarrow> length sl' = length sl \<and>
     (\<forall>j. map_option (\<lambda>n. (n_key n, n_value n)) (slot sl' j) = map_option (\<lambda>n. (n_key n, n_value n)) (slot sl j))"

lemma same_entries_refl [simp]: "same_entries sl sl"
  by (simp add: same_entries_def)

lemma same_entries_trans: "same_entries a b \<Longrightarrow> same_entries b c \<Longrightarrow> same_entries a c"
  by (simp add: same_entries_def)

lemma same_entries_update:
  "slot sl i = Some n \<Longrightarrow> n_key m = n_key n \<Longrightarrow> n_value m = n_value n \<Longrightarrow>
     same_entries sl (sl[i := Some m])"
  by (simp add: same_entries_def)

lemma same_entries_None:
  assumes "same_entries sl sl'"
  shows "(slot sl' j = None) = (slot sl j = None)"
proof -
  have "map_option (\<lambda>n. (n_key n, n_value n)) (slot sl' j) = map_option (\<lambda>n. (n_key n, n_value n)) (slot sl j)"
    using assms by (simp add: same_entries_def)
  then show ?thesis by (cases "slot sl' j"; cases "slot sl j") auto
qed

lemma same_entries_entry_at: "same_entries sl sl' \<Longrightarrow> entry_at sl' j = entry_at sl j"
proof -
  assume "same_entries sl sl'"
  then have *: "map_option (\<lambda>n. (n_key n, n_value n)) (slot sl' j) = map_option (\<lambda>n. (n_key n, n_value n)) (slot sl j)"
    by (simp add: same_entries_def)
  show ?thesis
  proof (cases "slot sl j")
    case None
    with * have "slot sl' j = None" by simp
    with None show ?thesis by (simp add: entry_at_def)
  next
    case (Some n)
    with * obtain n' where "slot sl' j = Some n'" "n_key n' = n_key n" "n_value n' = n_value n" by auto
    with Some show ?thesis by (simp add: entry_at_def)
  qed
qed

lemma index_ok_snoc:
  assumes ix: "index_ok ix sl ids" and k: "fmlookup ix k = None" and i: "i \<notin> set ids"
    and same: "\<And>j. j \<in> set ids \<Longrightarrow> entry_at sl' j = entry_at sl j" and ki: "fst (entry_at sl' i) = k"
  shows "index_ok (fmupd k i ix) sl' (ids @ [i])"
proof -
  have no: "fst (entry_at sl' j) \<noteq> k" if "j \<in> set ids" for j
  proof -
    have "fmlookup ix (fst (entry_at sl j)) = Some j" using ix that by (simp add: index_ok_def)
    then show ?thesis using k same [OF that] by auto
  qed
  have "fmlookup (fmupd k i ix) k' = Some j \<longleftrightarrow> j \<in> set (ids @ [i]) \<and> fst (entry_at sl' j) = k'" for k' j
    using ix k i ki no same by (cases "k' = k") (auto simp: index_ok_def)
  then show ?thesis by (simp add: index_ok_def)
qed

lemma index_ok_drop:
  assumes ix: "index_ok ix sl (xs @ i # ys)" and d: "distinct (xs @ i # ys)"
    and k: "fst (entry_at sl i) = k" and same: "\<And>j. j \<in> set (xs @ ys) \<Longrightarrow> entry_at sl' j = entry_at sl j"
  shows "index_ok (fmdrop k ix) sl' (xs @ ys)"
proof -
  have i: "fmlookup ix k = Some i" using ix k by (auto simp: index_ok_def)
  have no: "fst (entry_at sl j) \<noteq> k" if "j \<in> set (xs @ ys)" for j
  proof
    assume "fst (entry_at sl j) = k"
    then have "fmlookup ix k = Some j" using ix that by (auto simp: index_ok_def)
    with i d that show False by auto
  qed
  have "fmlookup (fmdrop k ix) k' = Some j \<longleftrightarrow> j \<in> set (xs @ ys) \<and> fst (entry_at sl' j) = k'" for k' j
    using ix k no same by (cases "k' = k") (auto simp: index_ok_def)
  then show ?thesis by (simp add: index_ok_def)
qed

lemma push_back_rep:
  assumes r: "rep q ids" and k: "\<not> iq_contains k q"
  obtains i q' where "iq_push_back k v q = Some (True, q')" "rep q' (ids @ [i])"
    "iq_items q' = iq_items q @ [(k, v)]"
proof -
  let ?n = "\<lparr>n_key = k, n_value = v, n_prev = q_tail q, n_next = None\<rparr>"
  obtain i q1 where al: "iq_alloc ?n q = Some (i, q1)" and i: "i \<notin> set ids"
    and si: "slot (q_slab q1) i = Some ?n"
    and so: "\<And>j. j \<noteq> i \<Longrightarrow> slot (q_slab q1) j = slot (q_slab q) j"
    and fo: "free_ok (q_free q1) (q_slab q1) (ids @ [i])"
    and eqs: "q_index q1 = q_index q" "q_head q1 = q_head q" "q_tail q1 = q_tail q"
    using alloc_rep [OF r, of ?n] by metis
  have "slot (q_slab q1) j = slot (q_slab q) j" if "j \<in> set ids" for j
    using so [of j] i that by auto
  then have ls: "lseg (q_slab q1) None ids None"
    using r lseg_cong [of ids "q_slab q1" "q_slab q" None None] by (simp add: rep_def)
  have d: "distinct ids" and hd: "q_head q = ofirst ids None" and tl: "q_tail q = olast None ids"
    and ix: "index_ok (q_index q) (q_slab q) ids"
    using r by (simp_all add: rep_def)
  have kn: "fmlookup (q_index q) k = None" using k by (simp add: iq_contains_def)
  obtain sl where sl: "same_entries (q_slab q1) sl" "lseg sl None (ids @ [i]) None"
    and pb: "iq_push_back k v q =
      Some (True, q1\<lparr>q_slab := sl, q_head := ofirst (ids @ [i]) None, q_tail := Some i, q_index := fmupd k i (q_index q)\<rparr>)"
  proof (cases ids rule: rev_cases)
    case Nil
    show thesis
      using Nil si tl k al eqs
      by (intro that [of "q_slab q1"]) (auto simp: iq_push_back_def)
  next
    case (snoc xs t)
    obtain m where m: "slot (q_slab q1) t = Some m"
      "lseg ((q_slab q1)[t := Some (m\<lparr>n_next := Some i\<rparr>)]) None ids (Some i)"
      using lseg_relink_last [of "q_slab q1" None xs t None "Some i"] ls d snoc by metis
    have "t \<noteq> i" using i snoc by auto
    then show thesis
      using m si tl hd k al eqs snoc same_entries_update [OF m(1), of "m\<lparr>n_next := Some i\<rparr>"]
      by (intro that [of "(q_slab q1)[t := Some (m\<lparr>n_next := Some i\<rparr>)]"])
        (auto simp: iq_push_back_def slot_update_def lseg_append ofirst_append)
  qed
  let ?q' = "q1\<lparr>q_slab := sl, q_head := ofirst (ids @ [i]) None, q_tail := Some i, q_index := fmupd k i (q_index q)\<rparr>"
  have same: "entry_at sl j = entry_at (q_slab q) j" if "j \<in> set ids" for j
    using that i so [of j] same_entries_entry_at [OF sl(1), of j] by (auto intro: entry_at_cong)
  have ki: "entry_at sl i = (k, v)"
    using si same_entries_entry_at [OF sl(1), of i] by (simp add: entry_at_def)
  have "rep ?q' (ids @ [i])"
    using sl d i free_ok_cong [of sl "q_slab q1" "q_free q1" "ids @ [i]"] fo same_entries_None [OF sl(1)]
      index_ok_snoc [OF ix kn i same] ki
    by (simp add: rep_def same_entries_def)
  moreover from this have "iq_items ?q' = iq_items q @ [(k, v)]"
    using same ki by (simp add: rep_iq_items rep_iq_items [OF r])
  ultimately show thesis using pb by (intro that)
qed

subsection \<open>Removing\<close>

lemma unlink_prev:
  assumes l: "lseg sl None xs (Some i)" and d: "distinct xs"
  obtains sl1 where
    "(case olast None xs of
        Some p \<Rightarrow> map_option (\<lambda>s. (s, h)) (slot_update p (\<lambda>m. m\<lparr>n_next := nx\<rparr>) sl)
      | None \<Rightarrow> Some (sl, nx)) = Some (sl1, if xs = [] then nx else h)"
    and "lseg sl1 None xs nx" "same_entries sl sl1" "\<And>j. j \<notin> set xs \<Longrightarrow> slot sl1 j = slot sl j"
proof (cases xs rule: rev_cases)
  case Nil
  then show thesis by (intro that [of sl]) simp_all
next
  case (snoc ys p)
  obtain n where n: "slot sl p = Some n" "lseg (sl[p := Some (n\<lparr>n_next := nx\<rparr>)]) None xs nx"
    using lseg_relink_last [of sl None ys p "Some i" nx] l d snoc by metis
  then show thesis
    using snoc same_entries_update [OF n(1), of "n\<lparr>n_next := nx\<rparr>"]
    by (intro that [of "sl[p := Some (n\<lparr>n_next := nx\<rparr>)]"]) (auto simp: slot_update_def)
qed

lemma unlink_next:
  assumes l: "lseg sl (Some i) ys None" and d: "distinct ys"
  obtains sl1 where
    "(case ofirst ys None of
        Some x \<Rightarrow> map_option (\<lambda>s. (s, t)) (slot_update x (\<lambda>m. m\<lparr>n_prev := pv\<rparr>) sl)
      | None \<Rightarrow> Some (sl, pv)) = Some (sl1, if ys = [] then pv else t)"
    and "lseg sl1 pv ys None" "same_entries sl sl1" "\<And>j. j \<notin> set ys \<Longrightarrow> slot sl1 j = slot sl j"
proof (cases ys)
  case Nil
  then show thesis by (intro that [of sl]) simp_all
next
  case (Cons x zs)
  obtain n where n: "slot sl x = Some n" "lseg (sl[x := Some (n\<lparr>n_prev := pv\<rparr>)]) pv ys None"
    using lseg_relink_first [of sl "Some i" x zs None pv] l d Cons by (metis distinct.simps(2))
  then show thesis
    using Cons same_entries_update [OF n(1), of "n\<lparr>n_prev := pv\<rparr>"]
    by (intro that [of "sl[x := Some (n\<lparr>n_prev := pv\<rparr>)]"]) (auto simp: slot_update_def)
qed

lemma free_ok_release:
  assumes fo: "free_ok fr sl (xs @ i # ys)" and o: "slot sl i \<noteq> None"
    and same: "same_entries (sl[i := None]) sl'"
  shows "free_ok (fr @ [i]) sl' (xs @ ys)"
proof -
  have i: "i < length sl" using o by (simp add: slot_def split: if_splits)
  have l: "length sl' = length sl" using same by (simp add: same_entries_def)
  have none: "slot sl' j = None \<longleftrightarrow> j = i \<or> slot sl j = None" for j
    using same_entries_None [OF same, of j] i by auto
  show ?thesis using fo o i l none unfolding free_ok_def by auto
qed

lemma index_ok_empty_iff: "index_ok ix sl ids \<Longrightarrow> fmdom ix = {||} \<longleftrightarrow> ids = []"
proof -
  assume ix: "index_ok ix sl ids"
  have "fmdom ix = {||} \<longleftrightarrow> (\<forall>k. fmlookup ix k = None)"
    by (metis fempty_iff fmdom_notI fmdom_notD fset_eqI)
  also have "\<dots> \<longleftrightarrow> ids = []"
    using ix unfolding index_ok_def by (metis list.set_intros(1) neq_Nil_conv not_None_eq empty_iff empty_set)
  finally show ?thesis .
qed

lemma unlink_rep:
  assumes r: "rep q (xs @ i # ys)"
  obtains q' where "iq_unlink capacity i q = Some (entry_at (q_slab q) i, q')" "rep q' (xs @ ys)"
    "iq_items q' = map (entry_at (q_slab q)) (xs @ ys)"
proof -
  let ?sl = "q_slab q" and ?cut = "(q_slab q)[i := None]"
  have ls: "lseg ?sl None (xs @ i # ys) None" and d: "distinct (xs @ i # ys)"
    and hd: "q_head q = ofirst (xs @ i # ys) None" and tl: "q_tail q = olast None (xs @ i # ys)"
    and ix: "index_ok (q_index q) ?sl (xs @ i # ys)" and fo: "free_ok (q_free q) ?sl (xs @ i # ys)"
    using r by (simp_all add: rep_def)
  obtain n where n: "slot ?sl i = Some n" "n_prev n = olast None xs" "n_next n = ofirst ys None"
    using ls by (auto simp: lseg_append split: option.splits)
  have e: "entry_at ?sl i = (n_key n, n_value n)" using n(1) by (simp add: entry_at_def)
  have lx: "lseg ?cut None xs (Some i)" and ly: "lseg ?cut (Some i) ys None"
    using ls d n(1) by (simp_all add: lseg_append lseg_frame)
  obtain sl1 where s1: "(case n_prev n of
        Some p \<Rightarrow> map_option (\<lambda>s. (s, q_head q)) (slot_update p (\<lambda>m. m\<lparr>n_next := n_next n\<rparr>) ?cut)
      | None \<Rightarrow> Some (?cut, n_next n)) = Some (sl1, if xs = [] then n_next n else q_head q)"
    and l1: "lseg sl1 None xs (n_next n)" and e1: "same_entries ?cut sl1"
    and o1: "\<And>j. j \<notin> set xs \<Longrightarrow> slot sl1 j = slot ?cut j"
    using unlink_prev [OF lx, where h = "q_head q" and nx = "n_next n"] d n(2) by auto
  have "lseg sl1 (Some i) ys None = lseg ?cut (Some i) ys None"
    using d by (intro lseg_cong o1) auto
  then obtain sl2 where s2: "(case n_next n of
        Some x \<Rightarrow> map_option (\<lambda>s. (s, q_tail q)) (slot_update x (\<lambda>m. m\<lparr>n_prev := n_prev n\<rparr>) sl1)
      | None \<Rightarrow> Some (sl1, n_prev n)) = Some (sl2, if ys = [] then n_prev n else q_tail q)"
    and l2: "lseg sl2 (n_prev n) ys None" and e2: "same_entries sl1 sl2"
    and o2: "\<And>j. j \<notin> set ys \<Longrightarrow> slot sl2 j = slot sl1 j"
    using unlink_next [where sl = sl1 and i = i and ys = ys and t = "q_tail q" and pv = "n_prev n"] ly d n(3) by auto
  have "lseg sl2 None xs (n_next n) = lseg sl1 None xs (n_next n)"
    using d by (intro lseg_cong o2) auto
  then have link: "lseg sl2 None (xs @ ys) None" using l1 l2 n by (simp add: lseg_append)
  have same: "same_entries ?cut sl2" using e1 e2 by (rule same_entries_trans)
  have ent: "entry_at sl2 j = entry_at ?sl j" if "j \<in> set (xs @ ys)" for j
    using same_entries_entry_at [OF same, of j] d that by (auto intro: entry_at_cong)
  let ?ix = "fmdrop (n_key n) (q_index q)"
  have ix': "index_ok ?ix sl2 (xs @ ys)"
    using index_ok_drop [OF ix d _ ent] e by simp
  have fo': "free_ok (q_free q @ [i]) sl2 (xs @ ys)"
    using free_ok_release [OF fo _ same] n(1) by simp
  have heads: "(if xs = [] then n_next n else q_head q) = ofirst (xs @ ys) None"
    "(if ys = [] then n_prev n else q_tail q) = olast None (xs @ ys)"
    using hd tl n by (auto simp: ofirst_append olast_append olast_def neq_Nil_conv)
  let ?q1 = "q\<lparr>q_slab := sl2, q_head := ofirst (xs @ ys) None, q_tail := olast None (xs @ ys), q_index := ?ix, q_free := q_free q @ [i]\<rparr>"
  have rep1: "rep ?q1 (xs @ ys)" using link ix' fo' d by (simp add: rep_def)
  show thesis
  proof (cases "xs @ ys = [] \<and> RELEASE_EMPTY_CAPACITY_AT \<le> capacity")
    case True
    have "iq_unlink capacity i q = Some (entry_at ?sl i, q\<lparr>q_slab := [], q_head := None, q_tail := None, q_index := fmempty, q_free := []\<rparr>)"
      using True n s1 s2 e index_ok_empty_iff [OF ix'] by (simp add: iq_unlink_def Let_def)
    moreover have "rep (q\<lparr>q_slab := [], q_head := None, q_tail := None, q_index := fmempty, q_free := []\<rparr>) (xs @ ys)"
      using True by (simp add: rep_def index_ok_def free_ok_def slot_def)
    ultimately show thesis using True by (intro that) (auto simp: rep_iq_items)
  next
    case False
    have "iq_unlink capacity i q = Some (entry_at ?sl i, ?q1)"
      using False n s1 s2 e heads index_ok_empty_iff [OF ix'] by (auto simp: iq_unlink_def Let_def)
    moreover have "iq_items ?q1 = map (entry_at ?sl) (xs @ ys)"
      using rep_iq_items [OF rep1] ent by simp
    ultimately show thesis using rep1 by (intro that)
  qed
qed

subsection \<open>The slab implements the contract\<close>

lemma iq_invE: "iq_inv q \<Longrightarrow> (\<And>ids. rep q ids \<Longrightarrow> P) \<Longrightarrow> P"
  by (auto simp: iq_inv_def)

lemma rep_lookup: "rep q ids \<Longrightarrow> fmlookup (q_index q) k = Some i \<longleftrightarrow> i \<in> set ids \<and> fst (entry_at (q_slab q) i) = k"
  by (simp add: rep_def index_ok_def)

lemma rep_contains: "rep q ids \<Longrightarrow> iq_contains k q = fifo_contains k (iq_items q)"
  by (auto simp: iq_contains_def fifo_contains_def rep_iq_items rep_lookup image_iff
      dest: rep_lookup [THEN iffD1, rotated] simp flip: not_None_eq)

lemma rep_map_of:
  assumes r: "rep q ids" and i: "fmlookup (q_index q) k = Some i"
  shows "map_of (iq_items q) k = Some (snd (entry_at (q_slab q) i))"
proof -
  have "i \<in> set ids" "fst (entry_at (q_slab q) i) = k" using rep_lookup [OF r] i by auto
  then have "(k, snd (entry_at (q_slab q) i)) \<in> set (iq_items q)"
    by (auto simp: rep_iq_items [OF r] image_iff prod_eq_iff intro!: bexI [of _ i])
  then show ?thesis using rep_keys_distinct [OF r] by simp
qed

lemma rep_remove_items:
  assumes r: "rep q (xs @ i # ys)" and k: "fst (entry_at (q_slab q) i) = k"
  shows "map (entry_at (q_slab q)) (xs @ ys) = filter (\<lambda>(k', _). k' \<noteq> k) (iq_items q)"
proof -
  have "distinct (map fst (map (entry_at (q_slab q)) (xs @ i # ys)))"
    using rep_keys_distinct [OF r] by (simp only: rep_iq_items [OF r])
  then have "\<forall>j \<in> set (xs @ ys). fst (entry_at (q_slab q) j) \<noteq> k"
    using k by (auto simp: image_iff)
  then have "filter (\<lambda>(k', _). k' \<noteq> k) (map (entry_at (q_slab q)) zs) = map (entry_at (q_slab q)) zs"
    if "set zs \<subseteq> set (xs @ ys)" for zs
    using that by (induction zs) (auto simp: case_prod_unfold)
  then show ?thesis using k by (simp add: rep_iq_items [OF r] case_prod_unfold)
qed

lemma iq_inv_new: "iq_inv iq_new" "iq_items iq_new = []"
  by (auto simp: iq_inv_def rep_iq_items [OF rep_new] intro: rep_new)

lemma iq_push_back_correct:
  assumes "iq_inv q"
  shows "\<exists>b q'. iq_push_back k v q = Some (b, q') \<and> iq_inv q' \<and> (b, iq_items q') = fifo_push_back k v (iq_items q)"
proof -
  obtain ids where r: "rep q ids" using assms by (rule iq_invE)
  show ?thesis
  proof (cases "iq_contains k q")
    case True
    then show ?thesis using assms rep_contains [OF r, of k] by (auto simp: iq_push_back_def fifo_push_back_def)
  next
    case False
    then obtain i q' where q': "iq_push_back k v q = Some (True, q')" "rep q' (ids @ [i])"
      "iq_items q' = iq_items q @ [(k, v)]"
      using push_back_rep [OF r False] by metis
    then have "iq_inv q'" by (auto simp: iq_inv_def)
    then show ?thesis using q' False rep_contains [OF r, of k] by (auto simp: fifo_push_back_def)
  qed
qed

lemma iq_pop_front_correct:
  assumes "iq_inv q"
  shows "\<exists>r q'. iq_pop_front capacity q = Some (r, q') \<and> iq_inv q' \<and> (r, iq_items q') = fifo_pop_front (iq_items q)"
proof -
  obtain ids where r: "rep q ids" using assms by (rule iq_invE)
  show ?thesis
  proof (cases ids)
    case Nil
    then have "q_head q = None" "iq_items q = []" using r by (simp_all add: rep_def rep_iq_items [OF r])
    then show ?thesis using assms by (simp add: iq_pop_front_def)
  next
    case (Cons i ys)
    then obtain q' where q': "iq_unlink capacity i q = Some (entry_at (q_slab q) i, q')" "rep q' ys"
      "iq_items q' = map (entry_at (q_slab q)) ys"
      using unlink_rep [of q "[]" i ys] r by auto
    moreover have "q_head q = Some i" using r Cons by (simp add: rep_def)
    ultimately show ?thesis using Cons rep_iq_items [OF r]
      by (auto simp: iq_pop_front_def iq_inv_def)
  qed
qed

lemma iq_remove_correct:
  assumes "iq_inv q"
  shows "\<exists>r q'. iq_remove capacity k q = Some (r, q') \<and> iq_inv q' \<and> (r, iq_items q') = fifo_remove k (iq_items q)"
proof -
  obtain ids where r: "rep q ids" using assms by (rule iq_invE)
  show ?thesis
  proof (cases "fmlookup (q_index q) k")
    case None
    then have "k \<notin> set (map fst (iq_items q))"
      using rep_contains [OF r, of k] by (simp add: iq_contains_def fifo_contains_def)
    then have "fifo_remove k (iq_items q) = (None, iq_items q)"
      by (auto simp: fifo_remove_def map_of_eq_None_iff image_iff intro!: filter_True)
    then show ?thesis using None assms by (simp add: iq_remove_def)
  next
    case (Some i)
    then have i: "i \<in> set ids" "fst (entry_at (q_slab q) i) = k" using rep_lookup [OF r] by auto
    then obtain xs ys where ids: "ids = xs @ i # ys" by (meson split_list)
    with r obtain q' where q': "iq_unlink capacity i q = Some (entry_at (q_slab q) i, q')" "rep q' (xs @ ys)"
      "iq_items q' = map (entry_at (q_slab q)) (xs @ ys)"
      using unlink_rep by blast
    then show ?thesis
      using Some rep_map_of [OF r Some] rep_remove_items [of q xs i ys k] r ids i(2)
      by (auto simp: iq_remove_def fifo_remove_def iq_inv_def)
  qed
qed

text \<open>Both the queue the lock and semaphore models use and the slab provide the interface.\<close>

interpretation lq: keyed_fifo "fifo_ok" "id" "[]"
    "\<lambda>k v q. Some (fifo_push_back k v q)" "\<lambda>q. Some (fifo_pop_front q)" "\<lambda>k q. Some (fifo_remove k q)"
proof unfold_locales
  fix q :: "('a, 'b) fifo" and k v
  assume q: "fifo_ok q"
  show "\<exists>b q'. Some (fifo_push_back k v q) = Some (b, q') \<and> fifo_ok q' \<and> (b, id q') = fifo_push_back k v (id q)"
    using fifo_ok_push_back [OF q, of k v] by (cases "fifo_push_back k v q") simp
  show "\<exists>r q'. Some (fifo_pop_front q) = Some (r, q') \<and> fifo_ok q' \<and> (r, id q') = fifo_pop_front (id q)"
    using q by (cases q) (auto simp: fifo_ok_def)
  show "\<exists>r q'. Some (fifo_remove k q) = Some (r, q') \<and> fifo_ok q' \<and> (r, id q') = fifo_remove k (id q)"
    using fifo_ok_remove [OF q, of k] by (cases "fifo_remove k q") simp
qed simp_all

interpretation sq: keyed_fifo iq_inv iq_items iq_new
    iq_push_back "iq_pop_front capacity" "iq_remove capacity" for capacity
proof unfold_locales
  show "iq_inv q \<Longrightarrow> fifo_ok (iq_items q)" for q :: "('a, 'b) indexed_queue"
    by (auto simp: fifo_ok_def elim: iq_invE dest: rep_keys_distinct)
qed (rule iq_inv_new iq_push_back_correct iq_pop_front_correct iq_remove_correct; assumption?)+

subsection \<open>Reads\<close>

lemma position_from_lseg:
  "lseg sl p ids None \<Longrightarrow> distinct ids \<Longrightarrow> length ids \<le> fuel \<Longrightarrow> target \<in> set ids \<Longrightarrow>
     inj_on (fst \<circ> entry_at sl) (set ids) \<Longrightarrow>
     position_from fuel sl target (ofirst ids None) i =
       Some (fifo_position_from i (fst (entry_at sl target)) (map (entry_at sl) ids))"
proof (induction ids arbitrary: p fuel i)
  case (Cons c ids)
  then obtain n f where n: "slot sl c = Some n" "n_next n = ofirst ids None"
    "lseg sl (Some c) ids None" and f: "fuel = Suc f" "length ids \<le> f"
    by (cases fuel) (auto split: option.splits)
  obtain kc vc where ec: "entry_at sl c = (kc, vc)" by fastforce
  show ?case
  proof (cases "c = target")
    case True
    then show ?thesis using ec f by simp
  next
    case False
    then have t: "target \<in> set ids" using Cons.prems by auto
    then have "kc \<noteq> fst (entry_at sl target)"
      using inj_onD [OF Cons.prems(5), of c target] False ec by auto
    moreover have "inj_on (fst \<circ> entry_at sl) (set ids)"
      using Cons.prems(5) by (rule inj_on_subset) auto
    ultimately show ?thesis
      using Cons.IH [OF n(3) _ f(2) t, of "Suc i"] Cons.prems(2) False n f ec
      by (simp add: comp_def)
  qed
qed simp

lemma rep_inj: "rep q ids \<Longrightarrow> inj_on (fst \<circ> entry_at (q_slab q)) (set ids)"
  using rep_keys_distinct [of q ids] by (simp add: rep_iq_items distinct_map)

lemma iq_position_correct:
  assumes "iq_inv q"
  shows "iq_position k q = Some (fifo_position k (iq_items q))"
proof -
  obtain ids where r: "rep q ids" using assms by (rule iq_invE)
  show ?thesis
  proof (cases "fmlookup (q_index q) k")
    case None
    then have "fifo_position k (iq_items q) = None"
      using rep_contains [OF r, of k] by (simp add: fifo_position_None iq_contains_def)
    then show ?thesis using None by (simp add: iq_position_def)
  next
    case (Some i)
    then have i: "i \<in> set ids" "fst (entry_at (q_slab q) i) = k" using rep_lookup [OF r] by auto
    have "lseg (q_slab q) None ids None" "distinct ids" "q_head q = ofirst ids None"
      using r by (simp_all add: rep_def)
    then show ?thesis
      using position_from_lseg [of "q_slab q" None ids "Suc (length (q_slab q))" i 0]
        lseg_length [of "q_slab q" None ids None] i Some rep_inj [OF r]
      by (simp add: iq_position_def fifo_position_def rep_iq_items [OF r])
  qed
qed

lemma iq_get_correct:
  assumes "iq_inv q"
  shows "iq_get k q = Some (fifo_get k (iq_items q))"
proof -
  obtain ids where r: "rep q ids" using assms by (rule iq_invE)
  show ?thesis
  proof (cases "fmlookup (q_index q) k")
    case None
    then have "fifo_get k (iq_items q) = None"
      using rep_contains [OF r, of k] by (simp add: fifo_get_None iq_contains_def)
    then show ?thesis using None by (simp add: iq_get_def)
  next
    case (Some i)
    then have "i \<in> set ids" using rep_lookup [OF r] by auto
    then obtain n where "slot (q_slab q) i = Some n"
      using r lseg_occupied [of "q_slab q" None ids None i] by (auto simp: rep_def)
    then show ?thesis using Some rep_map_of [OF r Some]
      by (simp add: iq_get_def fifo_get_def entry_at_def)
  qed
qed

lemma iq_front_correct:
  assumes "iq_inv q"
  shows "iq_front q = Some (fst (fifo_pop_front (iq_items q)))"
proof -
  obtain ids where r: "rep q ids" using assms by (rule iq_invE)
  show ?thesis
  proof (cases ids)
    case Nil
    then show ?thesis using r by (simp add: iq_front_def rep_iq_items [OF r] rep_def)
  next
    case (Cons i ys)
    then obtain n where "slot (q_slab q) i = Some n"
      using r lseg_occupied [of "q_slab q" None ids None i] by (auto simp: rep_def)
    then show ?thesis using r Cons by (simp add: iq_front_def rep_iq_items [OF r] rep_def entry_at_def)
  qed
qed

lemma iq_len_correct:
  assumes "iq_inv q"
  shows "iq_len q = length (iq_items q)"
proof -
  obtain ids where r: "rep q ids" using assms by (rule iq_invE)
  have "fset (fmdom (q_index q)) = set (map fst (iq_items q))"
    by (rule set_eqI) (use rep_contains [OF r] in
      \<open>simp add: iq_contains_def fifo_contains_def fmlookup_dom_iff\<close>)
  then have "fcard (fmdom (q_index q)) = card (set (map fst (iq_items q)))"
    by (simp add: fcard.rep_eq)
  also have "\<dots> = length (iq_items q)"
    using distinct_card [OF rep_keys_distinct [OF r]] by (simp only: length_map)
  finally show ?thesis by (simp add: iq_len_def)
qed

subsection \<open>Whole executions\<close>

datatype ('k, 'v) queue_op = PushBack 'k 'v | PopFront | Remove 'k

datatype ('k, 'v) queue_out = Pushed bool | Popped "('k \<times> 'v) option" | Removed "'v option"

fun fifo_run :: "('k, 'v) queue_op list \<Rightarrow> ('k, 'v) fifo \<Rightarrow> ('k, 'v) queue_out list \<times> ('k, 'v) fifo" where
  "fifo_run [] q = ([], q)"
| "fifo_run (PushBack k v # ops) q =
     (let (b, q1) = fifo_push_back k v q; (os, q2) = fifo_run ops q1 in (Pushed b # os, q2))"
| "fifo_run (PopFront # ops) q =
     (let (r, q1) = fifo_pop_front q; (os, q2) = fifo_run ops q1 in (Popped r # os, q2))"
| "fifo_run (Remove k # ops) q =
     (let (r, q1) = fifo_remove k q; (os, q2) = fifo_run ops q1 in (Removed r # os, q2))"

text \<open>Each operation comes with the capacity the allocator reports while it runs.\<close>

fun iq_run :: "(nat \<times> ('k, 'v) queue_op) list \<Rightarrow> ('k, 'v) indexed_queue \<Rightarrow>
    (('k, 'v) queue_out list \<times> ('k, 'v) indexed_queue) option" where
  "iq_run [] q = Some ([], q)"
| "iq_run ((capacity, PushBack k v) # ops) q = (case iq_push_back k v q of None \<Rightarrow> None
     | Some (b, q1) \<Rightarrow> map_option (\<lambda>(os, q2). (Pushed b # os, q2)) (iq_run ops q1))"
| "iq_run ((capacity, PopFront) # ops) q = (case iq_pop_front capacity q of None \<Rightarrow> None
     | Some (r, q1) \<Rightarrow> map_option (\<lambda>(os, q2). (Popped r # os, q2)) (iq_run ops q1))"
| "iq_run ((capacity, Remove k) # ops) q = (case iq_remove capacity k q of None \<Rightarrow> None
     | Some (r, q1) \<Rightarrow> map_option (\<lambda>(os, q2). (Removed r # os, q2)) (iq_run ops q1))"

lemma iq_run_refines:
  "iq_inv q \<Longrightarrow> \<exists>os q'. iq_run ops q = Some (os, q') \<and> iq_inv q' \<and>
     (os, iq_items q') = fifo_run (map snd ops) (iq_items q)"
proof (induction ops arbitrary: q)
  case Nil
  then show ?case by simp
next
  case (Cons x ops)
  obtain c op where x: "x = (c, op)" by (cases x)
  show ?case
  proof (cases op)
    case (PushBack k v)
    obtain b q1 where q1: "iq_push_back k v q = Some (b, q1)" "iq_inv q1"
      "fifo_push_back k v (iq_items q) = (b, iq_items q1)"
      using iq_push_back_correct [OF Cons.prems, of k v] by metis
    then show ?thesis using Cons.IH [OF q1(2)] PushBack x by (auto split: prod.splits)
  next
    case PopFront
    obtain r q1 where q1: "iq_pop_front c q = Some (r, q1)" "iq_inv q1"
      "fifo_pop_front (iq_items q) = (r, iq_items q1)"
      using iq_pop_front_correct [OF Cons.prems, of c] by metis
    then show ?thesis using Cons.IH [OF q1(2)] PopFront x by (auto split: prod.splits)
  next
    case (Remove k)
    obtain r q1 where q1: "iq_remove c k q = Some (r, q1)" "iq_inv q1"
      "fifo_remove k (iq_items q) = (r, iq_items q1)"
      using iq_remove_correct [OF Cons.prems, of c k] by metis
    then show ?thesis using Cons.IH [OF q1(2)] Remove x by (auto split: prod.splits)
  qed
qed

lemma iq_iter_items: "iq_inv q \<Longrightarrow> iq_iter q = Some (iq_items q)"
  by (auto simp: iq_items_def rep_items elim!: iq_invE)

text \<open>C1. Any sequence of \<open>push_back\<close>, \<open>pop_front\<close> and \<open>remove\<close> calls on a new
  \<open>IndexedQueue\<close>, whatever the allocator reports as capacity at each call, runs without hitting an \<open>expect\<close>
  or an index panic, answers every call as the FIFO list with distinct keys does, and leaves a
  queue whose iteration, lookups, place in line, front and length are those of the list.\<close>

theorem indexed_queue_refines_fifo:
  "\<exists>outs q xs. fifo_run (map snd ops) [] = (outs, xs) \<and> iq_run ops iq_new = Some (outs, q) \<and>
     iq_iter q = Some xs \<and> iq_len q = length xs \<and> iq_front q = Some (fst (fifo_pop_front xs)) \<and>
     (\<forall>k. iq_get k q = Some (fifo_get k xs) \<and> iq_position k q = Some (fifo_position k xs))"
proof -
  obtain outs q where q: "iq_run ops iq_new = Some (outs, q)" "iq_inv q"
    "(outs, iq_items q) = fifo_run (map snd ops) []"
    using iq_run_refines [OF iq_inv_new(1), of ops] by (auto simp: iq_inv_new(2))
  then show ?thesis
    by (intro exI [of _ outs] exI [of _ q] exI [of _ "iq_items q"])
      (simp add: iq_iter_items iq_len_correct iq_front_correct iq_get_correct iq_position_correct)
qed

lemma iq_visit_seq_push_seq:
  "iq_visit_seq xs q = map_option (\<lambda>(b, q'). if b then Inr q'
     else Inl ''duplicate key in serialized IndexedQueue'') (sq.push_seq xs q)"
  by (induction xs q rule: iq_visit_seq.induct) (auto split: option.splits)

text \<open>Decoding a serialized queue accepts exactly the sequences without a duplicate key
  and rebuilds a queue with the same FIFO order: \<open>Serialize\<close> followed by \<open>Deserialize\<close> is the
  identity on what can be observed, and a duplicate key is refused, never repaired.\<close>

theorem indexed_queue_snapshot_roundtrip:
  "if distinct (map fst xs)
   then \<exists>q. iq_deserialize xs = Some (Inr q) \<and> iq_inv q \<and> iq_iter q = Some xs
   else iq_deserialize xs = Some (Inl ''duplicate key in serialized IndexedQueue'')"
proof -
  obtain ok q where q: "sq.push_seq xs iq_new = Some (ok, q)" "ok = distinct (map fst xs)"
    "ok \<longrightarrow> iq_inv q \<and> iq_items q = xs"
    using sq.push_seq_distinct [OF iq_inv_new(1), of xs] by (auto simp: iq_inv_new(2) fifo_ok_def)
  then show ?thesis
    using iq_iter_items [of q] by (simp add: iq_deserialize_def iq_visit_seq_push_seq)
qed

end
