(* ===== verification/Validate.thy ===== *)
theory Validate
  imports Prelude
begin

section \<open>Input bounds for coordination writes\<close>

text \<open>
  \<open>src/validate.rs\<close>: the limits of the HTTP boundary and the checks that run before a command is
  proposed. A check is a value of type \<open>check\<close>: \<open>Inl\<close> is a rejection (its machine code and its
  detail text), \<open>Inr ()\<close> is acceptance, and \<open>and_then\<close> is the \<open>?\<close> operator. The organisation
  delimiter of the routing crate is a parameter (\<open>delim\<close>) of the definitions that use it.

  The lemmas characterise what each check accepts (\<open>accepts\<close>), and the properties state that a
  request accepted at the boundary has the shape that snapshots are validated against.
\<close>

definition MAX_LOCK_KEYS :: nat where "MAX_LOCK_KEYS = 256"
definition MAX_KEY_BYTES :: nat where "MAX_KEY_BYTES = 1024"
definition MAX_HOLDER_BYTES :: nat where "MAX_HOLDER_BYTES = 512"
definition MAX_ORG_BYTES :: nat where "MAX_ORG_BYTES = 128"
definition MAX_REQUEST_ID_BYTES :: nat where "MAX_REQUEST_ID_BYTES = 128"
definition MAX_NAME_BYTES :: nat where "MAX_NAME_BYTES = 1024"
definition MAX_ADDRESS_BYTES :: nat where "MAX_ADDRESS_BYTES = 2048"
definition MAX_TTL_MS :: u64 where "MAX_TTL_MS = 24 * 60 * 60 * 1000"
definition DEFAULT_WAIT_TIMEOUT_MS :: u64 where "DEFAULT_WAIT_TIMEOUT_MS = 30000"
definition MAX_WAIT_TIMEOUT_MS :: u64 where "MAX_WAIT_TIMEOUT_MS = MAX_TTL_MS"
definition MAX_SEMAPHORE_LIMIT :: u32 where "MAX_SEMAPHORE_LIMIT = 1000000"
definition MAX_WEIGHT :: u64 where "MAX_WEIGHT = 1000000000000"
definition MAX_BUDGET_AMOUNT :: u64 where "MAX_BUDGET_AMOUNT = 1000000000000000"
definition MAX_METADATA_ENTRIES :: nat where "MAX_METADATA_ENTRIES = 64"
definition MAX_METADATA_KEY_BYTES :: nat where "MAX_METADATA_KEY_BYTES = 256"
definition MAX_METADATA_VALUE_BYTES :: nat where "MAX_METADATA_VALUE_BYTES = 4096"
definition MAX_RATE_LIMIT_SEGMENT_BYTES :: nat where "MAX_RATE_LIMIT_SEGMENT_BYTES = 256"
definition MAX_RATE_LIMIT_LIMIT :: u32 where "MAX_RATE_LIMIT_LIMIT = 1000000"
definition MAX_RATE_LIMIT_COST :: u32 where "MAX_RATE_LIMIT_COST = 1000000"
definition MAX_FENCING_TOKEN :: u64 where "MAX_FENCING_TOKEN = 9007199254740991"
definition MAX_IDEMPOTENCY_TTL_MS :: u64 where "MAX_IDEMPOTENCY_TTL_MS = 30 * 24 * 60 * 60 * 1000"

lemmas limit_defs [evaluate] = MAX_LOCK_KEYS_def MAX_KEY_BYTES_def MAX_HOLDER_BYTES_def MAX_ORG_BYTES_def
  MAX_REQUEST_ID_BYTES_def MAX_NAME_BYTES_def MAX_ADDRESS_BYTES_def MAX_TTL_MS_def
  DEFAULT_WAIT_TIMEOUT_MS_def MAX_WAIT_TIMEOUT_MS_def MAX_SEMAPHORE_LIMIT_def MAX_WEIGHT_def
  MAX_BUDGET_AMOUNT_def MAX_METADATA_ENTRIES_def MAX_METADATA_KEY_BYTES_def
  MAX_METADATA_VALUE_BYTES_def MAX_RATE_LIMIT_SEGMENT_BYTES_def MAX_RATE_LIMIT_LIMIT_def
  MAX_RATE_LIMIT_COST_def MAX_FENCING_TOKEN_def MAX_IDEMPOTENCY_TTL_MS_def

subsection \<open>Characters and strings\<close>

text \<open>A \<open>str\<close> is its UTF-8 bytes; \<open>chars\<close> decodes them to scalar values. The bytes of a \<open>str\<close> are
  always well formed, so the trailing clauses never apply to one.\<close>

fun chars :: "string \<Rightarrow> nat list" where
  "chars [] = []"
| "chars (a # s) =
     (let b = (of_char a :: nat) in
      if b < 128 then b # chars s
      else if b < 224 then (case s of c1 # s1 \<Rightarrow>
        ((b - 192) * 64 + (of_char c1 - 128)) # chars s1 | _ \<Rightarrow> [b])
      else if b < 240 then (case s of c1 # c2 # s2 \<Rightarrow>
        ((b - 224) * 4096 + (of_char c1 - 128) * 64 + (of_char c2 - 128)) # chars s2 | _ \<Rightarrow> [b])
      else (case s of c1 # c2 # c3 # s3 \<Rightarrow>
        ((b - 240) * 262144 + (of_char c1 - 128) * 4096 + (of_char c2 - 128) * 64
          + (of_char c3 - 128)) # chars s3 | _ \<Rightarrow> [b]))"

text \<open>\<open>char::is_control\<close> is the Unicode category Cc; \<open>char::is_whitespace\<close> the property
  White_Space.\<close>

definition is_control :: "nat \<Rightarrow> bool" where
  "is_control c \<longleftrightarrow> c < 32 \<or> 127 \<le> c \<and> c < 160"

definition is_whitespace :: "nat \<Rightarrow> bool" where
  "is_whitespace c \<longleftrightarrow> 9 \<le> c \<and> c \<le> 13 \<or> c \<in> {32, 133, 160, 5760, 8232, 8233, 8239, 8287, 12288} \<or>
     8192 \<le> c \<and> c \<le> 8202"

text \<open>\<open>value.trim().is_empty()\<close>.\<close>

definition trim_is_empty :: "string \<Rightarrow> bool" where
  "trim_is_empty s = list_all is_whitespace (chars s)"

definition has_control :: "string \<Rightarrow> bool" where
  "has_control s = list_ex is_control (chars s)"

text \<open>\<open>str::strip_prefix\<close>, \<open>str::find\<close> and \<open>str::split_once\<close> with a string pattern.\<close>

fun strip_prefix :: "string \<Rightarrow> string \<Rightarrow> string option" where
  "strip_prefix [] s = Some s"
| "strip_prefix (c # p) [] = None"
| "strip_prefix (c # p) (d # s) = (if c = d then strip_prefix p s else None)"

fun split_once :: "string \<Rightarrow> string \<Rightarrow> (string \<times> string) option" where
  "split_once p [] = (if p = [] then Some ([], []) else None)"
| "split_once p (c # s) = (case strip_prefix p (c # s) of Some r \<Rightarrow> Some ([], r)
     | None \<Rightarrow> map_option (\<lambda>(a, b). (c # a, b)) (split_once p s))"

lemma strip_prefix_Some: "strip_prefix p s = Some r \<longleftrightarrow> s = p @ r"
  by (induction p s rule: strip_prefix.induct) auto

lemma split_once_Some: "split_once p s = Some (a, b) \<Longrightarrow> s = a @ p @ b"
  by (induction p s arbitrary: a b rule: split_once.induct)
    (auto simp: strip_prefix_Some split: option.splits if_splits)

lemma split_once_append: "set a \<inter> set p = {} \<Longrightarrow> p \<noteq> [] \<Longrightarrow> split_once p (a @ p @ b) = Some (a, b)"
proof (induction a)
  case Nil
  moreover have "strip_prefix p (p @ b) = Some b" by (simp add: strip_prefix_Some)
  ultimately show ?case by (cases p) auto
next
  case (Cons c a)
  then have "strip_prefix p (c # a @ p @ b) = None"
    by (cases p) auto
  then show ?case using Cons by simp
qed

text \<open>Decimal rendering of integers, as \<open>format!\<close> prints them.\<close>

fun show_nat :: "nat \<Rightarrow> string" where
  "show_nat n = (if n < 10 then [char_of (48 + n)] else show_nat (n div 10) @ [char_of (48 + n mod 10)])"

declare show_nat.simps [simp del]

definition show_word :: "'a::len word \<Rightarrow> string" where "show_word w = show_nat (unat w)"

text \<open>A value between single quotes, as the messages print identifiers.\<close>

definition quoted :: "string \<Rightarrow> string" where "quoted s = CHR 0x27 # s @ [CHR 0x27]"

subsection \<open>Rejections\<close>

record rejection =
  code :: string
  detail :: string

type_synonym check = "rejection + unit"

definition reject :: "string \<Rightarrow> string \<Rightarrow> check" where
  "reject c d = Inl \<lparr>code = c, detail = d\<rparr>"

definition accept :: check where "accept = Inr ()"

fun and_then :: "check \<Rightarrow> check \<Rightarrow> check" where
  "and_then (Inl e) k = Inl e"
| "and_then (Inr _) k = k"

primrec check_each :: "('a \<Rightarrow> check) \<Rightarrow> 'a list \<Rightarrow> check" where
  "check_each f [] = accept"
| "check_each f (x # xs) = and_then (f x) (check_each f xs)"

definition check_opt :: "('a \<Rightarrow> check) \<Rightarrow> 'a option \<Rightarrow> check" where
  "check_opt f x = (case x of None \<Rightarrow> accept | Some v \<Rightarrow> f v)"

definition accepts :: "check \<Rightarrow> bool" where "accepts c \<longleftrightarrow> c = accept"

named_theorems accepts \<open>what a composed check accepts\<close>

lemma accepts_basic [accepts]:
  "accepts accept" "\<not> accepts (reject c d)"
  "accepts (and_then a b) \<longleftrightarrow> accepts a \<and> accepts b"
  "accepts (if p then a else b) \<longleftrightarrow> (if p then accepts a else accepts b)"
  by (cases a; auto simp: accepts_def accept_def reject_def)+

lemma accepts_check_each [accepts]: "accepts (check_each f xs) \<longleftrightarrow> (\<forall>x \<in> set xs. accepts (f x))"
  by (induction xs) (simp_all add: accepts)

lemma accepts_check_opt [accepts]: "accepts (check_opt f x) \<longleftrightarrow> (\<forall>v. x = Some v \<longrightarrow> accepts (f v))"
  by (simp add: check_opt_def accepts split: option.split)

subsection \<open>The checks\<close>

definition check_str :: "string \<Rightarrow> string \<Rightarrow> nat \<Rightarrow> bool \<Rightarrow> check" where
  "check_str label v max_bytes allow_empty =
     (if \<not> allow_empty \<and> v = [] then reject ''empty_field'' (label @ '' must not be empty'')
      else if length v > max_bytes then reject ''field_too_long''
        (label @ '' exceeds '' @ show_nat max_bytes @ '' bytes ('' @ show_nat (length v) @ '' given)'')
      else accept)"

definition check_holder :: "string \<Rightarrow> check" where
  "check_holder v = and_then (check_str ''holder'' v MAX_HOLDER_BYTES False)
     (if trim_is_empty v \<or> has_control v then reject ''invalid_holder''
        ''holder must contain a non-whitespace character and no control characters''
      else accept)"

definition valid_holder_component :: "string \<Rightarrow> bool" where
  "valid_holder_component v \<longleftrightarrow>
     v \<noteq> [] \<and> length v \<le> MAX_HOLDER_BYTES \<and> \<not> trim_is_empty v \<and> \<not> has_control v"

definition valid_stored_holder :: "string \<Rightarrow> string \<Rightarrow> bool" where
  "valid_stored_holder delim v = (case strip_prefix delim v of
     None \<Rightarrow> valid_holder_component v
   | Some scoped \<Rightarrow> (case split_once delim scoped of None \<Rightarrow> False
       | Some (org, holder) \<Rightarrow> org \<noteq> [] \<and> length org \<le> MAX_ORG_BYTES \<and>
           \<not> list_ex (\<lambda>c. is_control c \<or> is_whitespace c) (chars org) \<and> valid_holder_component holder))"

definition acquisition_request_id :: "string option \<Rightarrow> check" where
  "acquisition_request_id r = (case r of None \<Rightarrow> accept
     | Some request_id \<Rightarrow>
         and_then (check_str ''request_id'' request_id MAX_REQUEST_ID_BYTES False)
           (if trim_is_empty request_id \<or> has_control request_id then reject ''invalid_request_id''
              ''request_id must contain a non-whitespace character and no control characters''
            else accept))"

definition check_ttl :: "u64 \<Rightarrow> check" where
  "check_ttl ttl_ms = (if ttl_ms = 0 then reject ''invalid_ttl'' ''ttl_ms must be greater than zero''
     else if ttl_ms > MAX_TTL_MS then reject ''ttl_too_large''
       (''ttl_ms exceeds the '' @ show_word MAX_TTL_MS @ '' ms (24h) ceiling'')
     else accept)"

definition idempotency_ttl :: "string \<Rightarrow> u64 \<Rightarrow> check" where
  "idempotency_ttl label ttl_ms =
     (if ttl_ms = 0 then reject ''invalid_ttl'' (label @ '' must be greater than zero'')
      else if ttl_ms > MAX_IDEMPOTENCY_TTL_MS then reject ''ttl_too_large''
        (label @ '' exceeds the '' @ show_word MAX_IDEMPOTENCY_TTL_MS @ '' ms (30d) ceiling'')
      else accept)"

definition ttl_check :: "u64 \<Rightarrow> check" where "ttl_check ttl_ms = check_ttl ttl_ms"

definition check_wait_timeout :: "u64 \<Rightarrow> check" where
  "check_wait_timeout wait_timeout_ms =
     (if wait_timeout_ms = 0 then reject ''invalid_wait_timeout'' ''wait_timeout_ms must be greater than zero''
      else if wait_timeout_ms > MAX_WAIT_TIMEOUT_MS then reject ''wait_timeout_too_large''
        (''wait_timeout_ms exceeds the '' @ show_word MAX_WAIT_TIMEOUT_MS @ '' ms (24h) ceiling'')
      else accept)"

definition check_required_holder :: "string option \<Rightarrow> check" where
  "check_required_holder h = (case h of
     None \<Rightarrow> reject ''missing_holder'' ''holder is required and must not be empty''
   | Some holder \<Rightarrow> check_holder holder)"

definition validate_fencing_token :: "u64 \<Rightarrow> check" where
  "validate_fencing_token t = (if t = 0 \<or> t > MAX_FENCING_TOKEN then reject ''invalid_fencing_token''
     (''fencing_token must be between 1 and '' @ show_word MAX_FENCING_TOKEN @ '' inclusive'')
   else accept)"

text \<open>The order in which a \<open>HashMap\<close> is iterated decides which of several violations is reported,
  never whether one is.\<close>

definition check_metadata :: "(string, string) fmap \<Rightarrow> check" where
  "check_metadata metadata =
     (if length (entries metadata) > MAX_METADATA_ENTRIES then reject ''too_much_metadata''
        (''metadata has '' @ show_nat (length (entries metadata)) @ '' entries; max is '' @
          show_nat MAX_METADATA_ENTRIES)
      else check_each (\<lambda>(k, v).
        and_then (check_str ''metadata key'' k MAX_METADATA_KEY_BYTES False)
          (check_str ''metadata value'' v MAX_METADATA_VALUE_BYTES True)) (entries metadata))"

definition check_key_count :: "string list \<Rightarrow> check" where
  "check_key_count keys = (if length keys > MAX_LOCK_KEYS then reject ''too_many_keys''
     (''union lock has '' @ show_nat (length keys) @ '' keys; max is '' @ show_nat MAX_LOCK_KEYS)
   else accept)"

definition check_lock_key :: "string \<Rightarrow> check" where
  "check_lock_key key = check_str ''lock key'' key MAX_KEY_BYTES False"

definition lock_acquire :: "string list \<Rightarrow> string option \<Rightarrow> u64 option \<Rightarrow> u64 option \<Rightarrow> check" where
  "lock_acquire keys holder ttl_ms wait_timeout_ms =
     and_then (check_key_count keys)
     (and_then (check_each check_lock_key keys)
     (and_then (check_required_holder holder)
     (and_then (check_opt check_ttl ttl_ms)
     (check_opt check_wait_timeout wait_timeout_ms))))"

definition lock_release :: "string \<Rightarrow> check" where "lock_release holder = check_holder holder"

definition no_keys :: "string list \<Rightarrow> check" where
  "no_keys keys = (if keys = [] then reject ''no_keys'' ''provide `keys` or `key`'' else accept)"

definition lock_renew :: "string list \<Rightarrow> string \<Rightarrow> u64 \<Rightarrow> u64 option \<Rightarrow> check" where
  "lock_renew keys holder fencing_token ttl_ms =
     and_then (no_keys keys)
     (and_then (check_key_count keys)
     (and_then (check_each check_lock_key keys)
     (and_then (check_holder holder)
     (and_then (validate_fencing_token fencing_token)
     (check_opt check_ttl ttl_ms)))))"

definition lock_cancel :: "string list \<Rightarrow> string \<Rightarrow> check" where
  "lock_cancel keys holder =
     and_then (no_keys keys)
     (and_then (check_key_count keys)
     (and_then (check_each check_lock_key keys) (check_holder holder)))"

definition semaphore_acquire :: "string \<Rightarrow> string option \<Rightarrow> u32 \<Rightarrow> u64 option \<Rightarrow> u64 option \<Rightarrow> check" where
  "semaphore_acquire key holder limit ttl_ms wait_timeout_ms =
     and_then (check_str ''semaphore key'' key MAX_KEY_BYTES False)
     (and_then (check_required_holder holder)
     (if limit = 0 then reject ''invalid_limit'' ''semaphore limit must be greater than zero''
      else if limit > MAX_SEMAPHORE_LIMIT then reject ''limit_too_large''
        (''semaphore limit '' @ show_word limit @ '' exceeds '' @ show_word MAX_SEMAPHORE_LIMIT)
      else and_then (check_opt check_ttl ttl_ms) (check_opt check_wait_timeout wait_timeout_ms)))"

definition semaphore_holder :: "string \<Rightarrow> string \<Rightarrow> check" where
  "semaphore_holder key holder =
     and_then (check_str ''semaphore key'' key MAX_KEY_BYTES False) (check_holder holder)"

definition semaphore_renew :: "string \<Rightarrow> string \<Rightarrow> u64 \<Rightarrow> u64 option \<Rightarrow> check" where
  "semaphore_renew key holder fencing_token ttl_ms =
     and_then (semaphore_holder key holder)
     (and_then (validate_fencing_token fencing_token) (check_opt check_ttl ttl_ms))"

definition counter_check :: "string \<Rightarrow> check" where
  "counter_check key = check_str ''counter key'' key MAX_KEY_BYTES False"

definition check_weight :: "u64 \<Rightarrow> check" where
  "check_weight weight = (if weight > MAX_WEIGHT then reject ''weight_too_large''
     (''weight '' @ show_word weight @ '' exceeds '' @ show_word MAX_WEIGHT) else accept)"

definition barrier_check :: "string \<Rightarrow> check" where
  "barrier_check name = check_str ''barrier name'' name MAX_NAME_BYTES False"

definition barrier_arrive :: "string \<Rightarrow> string \<Rightarrow> u64 \<Rightarrow> check" where
  "barrier_arrive name participant weight =
     and_then (check_str ''barrier name'' name MAX_NAME_BYTES False)
     (and_then (check_str ''participant'' participant MAX_HOLDER_BYTES False) (check_weight weight))"

definition task_check :: "string \<Rightarrow> string option \<Rightarrow> check" where
  "task_check name worker = and_then (check_str ''task name'' name MAX_NAME_BYTES False)
     (check_opt (\<lambda>w. check_str ''worker'' w MAX_HOLDER_BYTES False) worker)"

definition handoff_check :: "string \<Rightarrow> string option \<Rightarrow> string option \<Rightarrow> check" where
  "handoff_check name from_opt to_opt = and_then (check_str ''handoff name'' name MAX_NAME_BYTES False)
     (and_then (check_opt (\<lambda>v. check_str ''from'' v MAX_HOLDER_BYTES False) from_opt)
     (check_opt (\<lambda>v. check_str ''to'' v MAX_HOLDER_BYTES False) to_opt))"

definition budget_check :: "string \<Rightarrow> string option \<Rightarrow> string option \<Rightarrow> check" where
  "budget_check name reservation_id holder = and_then (check_str ''budget name'' name MAX_NAME_BYTES False)
     (and_then (check_opt (\<lambda>v. check_str ''reservation_id'' v MAX_NAME_BYTES False) reservation_id)
     (check_opt (\<lambda>v. check_str ''holder'' v MAX_HOLDER_BYTES False) holder))"

text \<open>\<open>budget_amount\<close> takes the three axes of a \<open>BudgetAmount\<close>.\<close>

definition budget_amount_check :: "u64 option \<Rightarrow> u64 option \<Rightarrow> u64 option \<Rightarrow> check" where
  "budget_amount_check usd_micros tokens tool_calls =
     check_each (\<lambda>(label, v). case v of None \<Rightarrow> accept
       | Some value \<Rightarrow> if value > MAX_BUDGET_AMOUNT then reject ''amount_too_large''
           (label @ '' exceeds '' @ show_word MAX_BUDGET_AMOUNT) else accept)
       [(''usd_micros'', usd_micros), (''tokens'', tokens), (''tool_calls'', tool_calls)]"

definition claim_check :: "string \<Rightarrow> string option \<Rightarrow> check" where
  "claim_check name actor = and_then (check_str ''claim name'' name MAX_NAME_BYTES False)
     (check_opt (\<lambda>v. check_str ''actor'' v MAX_HOLDER_BYTES False) actor)"

definition decision_check :: "string \<Rightarrow> string option \<Rightarrow> check" where
  "decision_check name voter = and_then (check_str ''decision name'' name MAX_NAME_BYTES False)
     (check_opt (\<lambda>v. check_str ''voter'' v MAX_HOLDER_BYTES False) voter)"

definition decision_vote :: "string \<Rightarrow> string \<Rightarrow> u64 \<Rightarrow> check" where
  "decision_vote name voter weight = and_then (decision_check name (Some voter)) (check_weight weight)"

definition effect_check :: "string \<Rightarrow> string option \<Rightarrow> check" where
  "effect_check name who = and_then (check_str ''effect name'' name MAX_NAME_BYTES False)
     (check_opt (\<lambda>v. check_str ''principal'' v MAX_HOLDER_BYTES False) who)"

definition check_path_segment :: "string \<Rightarrow> string \<Rightarrow> check" where
  "check_path_segment label v =
     and_then (check_str label v MAX_RATE_LIMIT_SEGMENT_BYTES False)
     (if list_ex (\<lambda>c. is_control c \<or> is_whitespace c) (chars v) then reject ''invalid_field''
        (label @ '' must not contain control or whitespace characters'')
      else accept)"

definition rate_limit_check :: "string \<Rightarrow> string \<Rightarrow> check" where
  "rate_limit_check tenant key = and_then (check_path_segment ''tenant'' tenant) (check_path_segment ''key'' key)"

text \<open>\<open>f64\<close> by its IEEE-754 bits: \<open>is_finite\<close> is an exponent that is not all ones, and a finite
  value is at most \<open>0.0\<close> when it is a zero or its sign bit is set.\<close>

definition f64_is_finite :: "u64 \<Rightarrow> bool" where
  "f64_is_finite x \<longleftrightarrow> take_bit 11 (drop_bit 52 x) \<noteq> 2047"

definition f64_finite_le_zero :: "u64 \<Rightarrow> bool" where
  "f64_finite_le_zero x \<longleftrightarrow> x = 0 \<or> 2 ^ 63 \<le> x"

definition rate_limit_params :: "u32 \<Rightarrow> u64 \<Rightarrow> u32 \<Rightarrow> u64 option \<Rightarrow> check" where
  "rate_limit_params limit window_ms cost refill_per_second =
     (if limit = 0 then reject ''invalid_limit'' ''rate limit must be greater than zero''
      else if limit > MAX_RATE_LIMIT_LIMIT then reject ''limit_too_large''
        (''rate limit '' @ show_word limit @ '' exceeds '' @ show_word MAX_RATE_LIMIT_LIMIT)
      else if window_ms = 0 then reject ''invalid_window'' ''window_ms must be greater than zero''
      else if cost = 0 then reject ''invalid_cost'' ''cost must be greater than zero''
      else if cost > MAX_RATE_LIMIT_COST then reject ''cost_too_large''
        (''cost '' @ show_word cost @ '' exceeds '' @ show_word MAX_RATE_LIMIT_COST)
      else check_opt (\<lambda>refill. if \<not> f64_is_finite refill \<or> f64_finite_le_zero refill
          then reject ''invalid_refill'' ''refill_per_second must be a finite number greater than zero''
          else accept) refill_per_second)"

definition service_register :: "string \<Rightarrow> string \<Rightarrow> string \<Rightarrow> u64 \<Rightarrow> (string, string) fmap \<Rightarrow> check" where
  "service_register service instance_id address ttl_ms metadata =
     and_then (check_str ''service'' service MAX_NAME_BYTES False)
     (and_then (check_str ''instance_id'' instance_id MAX_HOLDER_BYTES False)
     (and_then (check_str ''address'' address MAX_ADDRESS_BYTES False)
     (and_then (check_ttl ttl_ms) (check_metadata metadata))))"

definition election_campaign :: "string \<Rightarrow> string \<Rightarrow> u64 \<Rightarrow> (string, string) fmap \<Rightarrow> check" where
  "election_campaign name candidate ttl_ms metadata =
     and_then (check_str ''election name'' name MAX_NAME_BYTES False)
     (and_then (check_str ''candidate'' candidate MAX_HOLDER_BYTES False)
     (and_then (check_ttl ttl_ms) (check_metadata metadata)))"

subsection \<open>What the checks accept\<close>

lemma accepts_check_str [accepts]:
  "accepts (check_str l v m e) \<longleftrightarrow> (e \<or> v \<noteq> []) \<and> length v \<le> m"
  by (simp add: check_str_def accepts not_less)

lemma accepts_check_holder [accepts]: "accepts (check_holder v) \<longleftrightarrow> valid_holder_component v"
  by (auto simp: check_holder_def valid_holder_component_def accepts)

lemma accepts_check_required_holder [accepts]:
  "accepts (check_required_holder h) \<longleftrightarrow> (\<exists>v. h = Some v \<and> valid_holder_component v)"
  by (simp add: check_required_holder_def accepts split: option.split)

lemma accepts_check_ttl [accepts]: "accepts (check_ttl t) \<longleftrightarrow> t \<noteq> 0 \<and> t \<le> MAX_TTL_MS"
  by (auto simp: check_ttl_def accepts)

lemma accepts_check_wait_timeout [accepts]:
  "accepts (check_wait_timeout t) \<longleftrightarrow> t \<noteq> 0 \<and> t \<le> MAX_WAIT_TIMEOUT_MS"
  by (auto simp: check_wait_timeout_def accepts)

lemma accepts_validate_fencing_token [accepts]:
  "accepts (validate_fencing_token t) \<longleftrightarrow> t \<noteq> 0 \<and> t \<le> MAX_FENCING_TOKEN"
  by (auto simp: validate_fencing_token_def accepts)

lemma accepts_check_key_count [accepts]: "accepts (check_key_count ks) \<longleftrightarrow> length ks \<le> MAX_LOCK_KEYS"
  by (simp add: check_key_count_def accepts not_less)

lemma accepts_check_lock_key [accepts]:
  "accepts (check_lock_key k) \<longleftrightarrow> k \<noteq> [] \<and> length k \<le> MAX_KEY_BYTES"
  by (simp add: check_lock_key_def accepts)

text \<open>What snapshots require of a stored request id, and that the boundary enforces the same.\<close>

definition valid_request_id :: "string option \<Rightarrow> bool" where
  "valid_request_id r = (case r of None \<Rightarrow> True | Some request_id \<Rightarrow>
     \<not> (trim_is_empty request_id \<or> length request_id > MAX_REQUEST_ID_BYTES \<or> has_control request_id))"

lemma accepts_acquisition_request_id [accepts]:
  "accepts (acquisition_request_id r) \<longleftrightarrow> valid_request_id r"
  by (auto simp: acquisition_request_id_def valid_request_id_def accepts trim_is_empty_def
      split: option.split)

lemma valid_stored_holder_unscoped:
  "strip_prefix delim v = None \<Longrightarrow> valid_stored_holder delim v = valid_holder_component v"
  by (simp add: valid_stored_holder_def)

lemma valid_stored_holder_scoped:
  assumes "delim \<noteq> []" "set org \<inter> set delim = {}"
  shows "valid_stored_holder delim (delim @ org @ delim @ holder) \<longleftrightarrow>
    org \<noteq> [] \<and> length org \<le> MAX_ORG_BYTES \<and>
    \<not> list_ex (\<lambda>c. is_control c \<or> is_whitespace c) (chars org) \<and> valid_holder_component holder"
proof -
  have "strip_prefix delim (delim @ org @ delim @ holder) = Some (org @ delim @ holder)"
    by (simp add: strip_prefix_Some)
  then show ?thesis
    using split_once_append [OF assms(2,1), of holder] by (simp add: valid_stored_holder_def)
qed

end
