(* ===== verification/Cancellation.thy ===== *)
theory Cancellation
  imports Validate
begin

section \<open>The attempt-cancellation ledger\<close>

text \<open>
  \<open>CancellationLedger\<close> of \<open>src/state.rs\<close> with the identities that index it. SHA-256 and the
  organisation delimiter come from other crates: they are the parameters \<open>sha256\<close> (from the bytes
  fed to the hasher to the digest bytes) and \<open>delim\<close>.

  \<open>ledger_ok\<close> is the representation invariant of the three indexes. The lemmas show that
  remembering and expiring keep it, that it implies the check a snapshot undergoes
  (\<open>ledger_validate\<close>), that \<open>expire\<close> drops exactly the entries that are due, that the bytes
  hashed for an attempt determine the attempt, and that the reserve keeps room for the fair share of a tenant.
\<close>

definition CANCELLATION_TOMBSTONE_TTL_MS :: u64 where
  "CANCELLATION_TOMBSTONE_TTL_MS = MAX_TTL_MS"

definition MAX_CANCELLATION_TOMBSTONES_PER_TENANT :: u32 where
  "MAX_CANCELLATION_TOMBSTONES_PER_TENANT = 10000"

definition MAX_CANCELLATION_TOMBSTONES_TOTAL :: nat where
  "MAX_CANCELLATION_TOMBSTONES_TOTAL = 250000"

definition CANCELLATION_TOMBSTONE_GLOBAL_RESERVE :: nat where
  "CANCELLATION_TOMBSTONE_GLOBAL_RESERVE = 25000"

definition CANCELLATION_TOMBSTONE_FAIR_SHARE_PER_TENANT :: u32 where
  "CANCELLATION_TOMBSTONE_FAIR_SHARE_PER_TENANT = 256"

record cancellation_limits =
  lim_per_tenant :: u32
  lim_total :: nat
  lim_global_reserve :: nat
  lim_fair_share_per_tenant :: u32

definition CANCELLATION_LIMITS :: cancellation_limits where
  "CANCELLATION_LIMITS = \<lparr>
     lim_per_tenant = MAX_CANCELLATION_TOMBSTONES_PER_TENANT,
     lim_total = MAX_CANCELLATION_TOMBSTONES_TOTAL,
     lim_global_reserve = CANCELLATION_TOMBSTONE_GLOBAL_RESERVE,
     lim_fair_share_per_tenant = CANCELLATION_TOMBSTONE_FAIR_SHARE_PER_TENANT\<rparr>"

lemmas cancellation_limit_defs [evaluate] = CANCELLATION_TOMBSTONE_TTL_MS_def
  MAX_CANCELLATION_TOMBSTONES_PER_TENANT_def MAX_CANCELLATION_TOMBSTONES_TOTAL_def
  CANCELLATION_TOMBSTONE_GLOBAL_RESERVE_def CANCELLATION_TOMBSTONE_FAIR_SHARE_PER_TENANT_def
  CANCELLATION_LIMITS_def

record cancellation_entry =
  ce_expires_at_ms :: u64
  ce_tenant :: string

record cancellation_ledger =
  cl_entries :: "(string, cancellation_entry) fmap"
  cl_expirations :: "(u64, string fset) fmap"
  cl_tenant_counts :: "(string, u32) fmap"

definition ledger_new :: cancellation_ledger where
  "ledger_new = \<lparr>cl_entries = fmempty, cl_expirations = fmempty, cl_tenant_counts = fmempty\<rparr>"

datatype remember_cancellation = Remembered | CapacityExceeded

subsection \<open>Identities\<close>

definition to_be_bytes :: "u64 \<Rightarrow> string" where
  "to_be_bytes w = map (\<lambda>i. char_of (unat w div 256 ^ (7 - i) mod 256)) [0..<8]"

definition hash_segment :: "string \<Rightarrow> string" where
  "hash_segment v = to_be_bytes (word_of_nat (length v)) @ v"

definition hex_digit :: "nat \<Rightarrow> char" where
  "hex_digit d = (if d < 10 then char_of (48 + d) else char_of (87 + d))"

definition digest_string :: "string \<Rightarrow> string" where
  "digest_string digest = concat (map (\<lambda>c. [hex_digit (of_char c div 16), hex_digit (of_char c mod 16)]) digest)"

text \<open>The bytes fed to the hasher for one attempt.\<close>

definition acquisition_preimage :: "string \<Rightarrow> string \<Rightarrow> string list \<Rightarrow> string \<Rightarrow> string" where
  "acquisition_preimage kind holder keys request_id =
     hash_segment kind @ hash_segment holder @ concat (map hash_segment keys) @ hash_segment request_id"

definition acquisition_identity ::
    "(string \<Rightarrow> string) \<Rightarrow> string \<Rightarrow> string \<Rightarrow> string list \<Rightarrow> string \<Rightarrow> string" where
  "acquisition_identity sha256 kind holder keys request_id =
     digest_string (sha256 (acquisition_preimage kind holder keys request_id))"

definition cancellation_tenant :: "(string \<Rightarrow> string) \<Rightarrow> string \<Rightarrow> string \<Rightarrow> string" where
  "cancellation_tenant sha256 delim holder =
     (let scope = (case strip_prefix delim holder of None \<Rightarrow> ''legacy-unscoped''
          | Some rest \<Rightarrow> (case split_once delim rest of None \<Rightarrow> ''legacy-unscoped''
              | Some (org, _) \<Rightarrow> org))
      in digest_string (sha256 (hash_segment scope)))"

subsection \<open>Operations\<close>

definition ledger_contains :: "string \<Rightarrow> cancellation_ledger \<Rightarrow> bool" where
  "ledger_contains identity l \<longleftrightarrow> fmlookup (cl_entries l) identity \<noteq> None"

definition remember_with_limits :: "string \<Rightarrow> string \<Rightarrow> u64 \<Rightarrow> cancellation_limits \<Rightarrow>
    cancellation_ledger \<Rightarrow> remember_cancellation \<times> cancellation_ledger" where
  "remember_with_limits identity tenant now limits l =
     (if fmlookup (cl_entries l) identity \<noteq> None then (Remembered, l)
      else let tenant_count = (case fmlookup (cl_tenant_counts l) tenant of Some n \<Rightarrow> n | None \<Rightarrow> 0);
               len = fcard (fmdom (cl_entries l));
               reserve_starts_at = lim_total limits - lim_global_reserve limits;
               consuming_reserved_capacity =
                 (len \<ge> reserve_starts_at \<and> tenant_count \<ge> lim_fair_share_per_tenant limits)
           in if len \<ge> lim_total limits \<or> tenant_count \<ge> lim_per_tenant limits \<or> consuming_reserved_capacity
              then (CapacityExceeded, l)
              else let expires_at_ms = sat_add now CANCELLATION_TOMBSTONE_TTL_MS in
                (Remembered, \<lparr>
                   cl_entries = fmupd identity
                     \<lparr>ce_expires_at_ms = expires_at_ms, ce_tenant = tenant\<rparr> (cl_entries l),
                   cl_expirations = fmupd expires_at_ms
                     (finsert identity (case fmlookup (cl_expirations l) expires_at_ms of
                        Some bucket \<Rightarrow> bucket | None \<Rightarrow> {||})) (cl_expirations l),
                   cl_tenant_counts = fmupd tenant (tenant_count + 1) (cl_tenant_counts l)\<rparr>))"

definition remember :: "string \<Rightarrow> string \<Rightarrow> u64 \<Rightarrow> cancellation_ledger \<Rightarrow>
    remember_cancellation \<times> cancellation_ledger" where
  "remember identity tenant now l = remember_with_limits identity tenant now CANCELLATION_LIMITS l"

text \<open>The body of the two nested loops of \<open>expire\<close>.\<close>

definition expire_identity :: "u64 \<Rightarrow> string \<Rightarrow> cancellation_ledger \<Rightarrow> cancellation_ledger" where
  "expire_identity deadline identity l = (case fmlookup (cl_entries l) identity of None \<Rightarrow> l
     | Some entry \<Rightarrow> if ce_expires_at_ms entry \<noteq> deadline then l
         else l\<lparr>cl_entries := fmdrop identity (cl_entries l),
           cl_tenant_counts := (case fmlookup (cl_tenant_counts l) (ce_tenant entry) of
               None \<Rightarrow> cl_tenant_counts l
             | Some count \<Rightarrow> if sat_sub count 1 = 0 then fmdrop (ce_tenant entry) (cl_tenant_counts l)
                 else fmupd (ce_tenant entry) (sat_sub count 1) (cl_tenant_counts l))\<rparr>)"

definition expire_deadline :: "u64 \<Rightarrow> cancellation_ledger \<Rightarrow> cancellation_ledger" where
  "expire_deadline deadline l = (case fmlookup (cl_expirations l) deadline of None \<Rightarrow> l
     | Some identities \<Rightarrow> fold (expire_identity deadline) (sorted_list_of_set (fset identities))
         (l\<lparr>cl_expirations := fmdrop deadline (cl_expirations l)\<rparr>))"

definition ledger_expire :: "u64 \<Rightarrow> cancellation_ledger \<Rightarrow> cancellation_ledger" where
  "ledger_expire now l =
     fold expire_deadline (filter (\<lambda>at. at \<le> now) (map fst (entries (cl_expirations l)))) l"

text \<open>\<open>validate\<close>: the first failing test decides the message. The counts are collected while the
  entries are visited, so each tenant's count is the number of its entries.\<close>

definition tenant_entries :: "string \<Rightarrow> cancellation_ledger \<Rightarrow> nat" where
  "tenant_entries tenant l = length (filter (\<lambda>e. ce_tenant e = tenant) (fmvalues (cl_entries l)))"

definition ledger_validate :: "string \<Rightarrow> cancellation_ledger \<Rightarrow> string + unit" where
  "ledger_validate label l =
     (case find (\<lambda>(identity, entry). \<not> (case fmlookup (cl_expirations l) (ce_expires_at_ms entry) of
          None \<Rightarrow> False | Some bucket \<Rightarrow> identity |\<in>| bucket)) (entries (cl_entries l)) of
        Some (identity, _) \<Rightarrow>
          Inl (label @ '' cancellation '' @ quoted identity @ '' is absent from expiry index'')
      | None \<Rightarrow>
          if \<not> list_all (\<lambda>(tenant, count). word_of_nat (tenant_entries tenant l) = count)
               (entries (cl_tenant_counts l))
          then Inl (label @ '' cancellation tenant count is inconsistent'')
          else if length (remdups (map ce_tenant (fmvalues (cl_entries l)))) \<noteq> fcard (fmdom (cl_tenant_counts l))
          then Inl (label @ '' cancellation tenant index is incomplete'')
          else Inr ())"

subsection \<open>The representation invariant\<close>

definition tenant_ids :: "cancellation_ledger \<Rightarrow> string \<Rightarrow> string set" where
  "tenant_ids l t = {i. \<exists>e. fmlookup (cl_entries l) i = Some e \<and> ce_tenant e = t}"

definition counts_ok :: "cancellation_ledger \<Rightarrow> bool" where
  "counts_ok l \<longleftrightarrow> (\<forall>t. card (tenant_ids l t) < 2 ^ 32 \<and> fmlookup (cl_tenant_counts l) t =
     (if tenant_ids l t = {} then None else Some (word_of_nat (card (tenant_ids l t)))))"

definition bucket :: "cancellation_ledger \<Rightarrow> u64 \<Rightarrow> string set" where
  "bucket l d = (case fmlookup (cl_expirations l) d of None \<Rightarrow> {} | Some b \<Rightarrow> fset b)"

definition expiry_index_ok :: "cancellation_ledger \<Rightarrow> bool" where
  "expiry_index_ok l \<longleftrightarrow> (\<forall>d i. i \<in> bucket l d \<longleftrightarrow>
     (\<exists>e. fmlookup (cl_entries l) i = Some e \<and> ce_expires_at_ms e = d))"

definition within_limits :: "cancellation_limits \<Rightarrow> cancellation_ledger \<Rightarrow> bool" where
  "within_limits lim l \<longleftrightarrow> fcard (fmdom (cl_entries l)) \<le> lim_total lim \<and>
     (\<forall>t. card (tenant_ids l t) \<le> unat (lim_per_tenant lim))"

definition ledger_ok :: "cancellation_ledger \<Rightarrow> bool" where
  "ledger_ok l \<longleftrightarrow> counts_ok l \<and> expiry_index_ok l \<and> within_limits CANCELLATION_LIMITS l"

lemma finite_tenant_ids [simp]: "finite (tenant_ids l t)"
  by (rule finite_subset [OF _ finite_fmlookup [of "cl_entries l"]]) (auto simp: tenant_ids_def)

lemma ledger_ok_new: "ledger_ok ledger_new"
  by (simp add: ledger_ok_def counts_ok_def expiry_index_ok_def within_limits_def ledger_new_def
      tenant_ids_def bucket_def fcard.rep_eq)

lemma counts_ok_Some: "counts_ok l \<Longrightarrow> fmlookup (cl_tenant_counts l) t = Some n \<longleftrightarrow>
    tenant_ids l t \<noteq> {} \<and> n = word_of_nat (card (tenant_ids l t))"
  by (auto simp: counts_ok_def)

lemma counts_ok_lookup:
  assumes "counts_ok l"
  shows "(case fmlookup (cl_tenant_counts l) t of Some n \<Rightarrow> unat n | None \<Rightarrow> 0) = card (tenant_ids l t)"
  using assms by (auto simp: counts_ok_def unat_of_nat split: option.splits)

subsection \<open>Expiry drops exactly the entries that are due\<close>

lemma expire_identity_entries:
  "cl_entries (expire_identity d i l) =
     fmretain (\<lambda>j e. \<not> (j = i \<and> ce_expires_at_ms e = d)) (cl_entries l)"
  by (rule fmap_ext) (auto simp: expire_identity_def split: option.split)

lemma expire_identity_expirations [simp]:
  "cl_expirations (expire_identity d i l) = cl_expirations l"
  by (simp add: expire_identity_def split: option.split)

lemma expire_identity_counts:
  assumes ok: "counts_ok l"
  shows "counts_ok (expire_identity d i l)"
proof (cases "\<exists>e. fmlookup (cl_entries l) i = Some e \<and> ce_expires_at_ms e = d")
  case False
  then have "expire_identity d i l = l" by (auto simp: expire_identity_def split: option.split)
  then show ?thesis using ok by simp
next
  case True
  then obtain e where e: "fmlookup (cl_entries l) i = Some e" "ce_expires_at_ms e = d" by auto
  let ?l = "expire_identity d i l" and ?t = "ce_tenant e"
  let ?n = "card (tenant_ids l ?t)"
  have ids: "tenant_ids ?l t = (if t = ?t then tenant_ids l t - {i} else tenant_ids l t)" for t
    using e by (auto simp: tenant_ids_def expire_identity_def split: if_splits)
  have i: "i \<in> tenant_ids l ?t" using e by (auto simp: tenant_ids_def)
  then have n: "0 < ?n" "?n < 2 ^ 32" using ok by (auto simp: counts_ok_def card_gt_0_iff)
  have lk: "fmlookup (cl_tenant_counts l) ?t = Some (word_of_nat ?n)"
    using ok i by (auto simp: counts_ok_def)
  have sub: "sat_sub (word_of_nat ?n :: u32) 1 = word_of_nat (?n - 1)"
    using n by (intro sat_sub_one_of_nat) simp_all
  have card: "card (tenant_ids l ?t - {i}) = ?n - 1" using i by simp
  have "(word_of_nat (?n - 1) = (0 :: u32)) = (?n - 1 = 0)"
    using n by (intro word_of_nat_eq_0) simp
  then have zero: "word_of_nat (?n - 1) = (0 :: u32) \<longleftrightarrow> tenant_ids l ?t - {i} = {}"
    using card by (metis card_eq_0_iff finite_Diff finite_tenant_ids)
  have cnt: "fmlookup (cl_tenant_counts ?l) t = (if t = ?t then
      (if word_of_nat (?n - 1) = (0 :: u32) then None else Some (word_of_nat (?n - 1)))
      else fmlookup (cl_tenant_counts l) t)" for t
    using e lk sub by (simp add: expire_identity_def del: of_nat_diff)
  show ?thesis
    unfolding counts_ok_def
  proof (intro allI conjI)
    fix t
    have small: "card (tenant_ids l t) < 2 ^ 32" for t using ok by (simp add: counts_ok_def)
    show "card (tenant_ids ?l t) < 2 ^ 32"
      using small [of t] card by (cases "t = ?t") (auto simp: ids)
    show "fmlookup (cl_tenant_counts ?l) t =
      (if tenant_ids ?l t = {} then None else Some (word_of_nat (card (tenant_ids ?l t))))"
      unfolding cnt ids using zero card ok by (simp add: counts_ok_def del: of_nat_diff)
  qed
qed

lemma expire_identities:
  "cl_entries (fold (expire_identity d) is l) =
     fmretain (\<lambda>j e. \<not> (j \<in> set is \<and> ce_expires_at_ms e = d)) (cl_entries l)"
  "cl_expirations (fold (expire_identity d) is l) = cl_expirations l"
  "counts_ok l \<Longrightarrow> counts_ok (fold (expire_identity d) is l)"
  by (induction "is" arbitrary: l)
    (auto simp: expire_identity_entries expire_identity_counts fmretain_True intro!: fmretain_cong)

lemma counts_ok_cong:
  "cl_entries l = cl_entries l' \<Longrightarrow> cl_tenant_counts l = cl_tenant_counts l' \<Longrightarrow> counts_ok l = counts_ok l'"
  by (simp add: counts_ok_def tenant_ids_def)

lemma expire_deadline_effect:
  "cl_entries (expire_deadline d l) =
     fmretain (\<lambda>j e. \<not> (ce_expires_at_ms e = d \<and> j \<in> bucket l d)) (cl_entries l)"
  "cl_expirations (expire_deadline d l) = fmdrop d (cl_expirations l)"
  "counts_ok l \<Longrightarrow> counts_ok (expire_deadline d l)"
proof -
  show "cl_entries (expire_deadline d l) =
      fmretain (\<lambda>j e. \<not> (ce_expires_at_ms e = d \<and> j \<in> bucket l d)) (cl_entries l)"
    by (auto simp: expire_deadline_def expire_identities bucket_def fmretain_True
        intro!: fmretain_cong split: option.split)
  show "cl_expirations (expire_deadline d l) = fmdrop d (cl_expirations l)"
    by (auto simp: expire_deadline_def expire_identities intro: fmap_ext split: option.split)
  assume "counts_ok l"
  then have "counts_ok (l\<lparr>cl_expirations := fmdrop d (cl_expirations l)\<rparr>)"
    by (simp add: counts_ok_def tenant_ids_def)
  then show "counts_ok (expire_deadline d l)" using \<open>counts_ok l\<close>
    by (simp add: expire_deadline_def expire_identities(3) split: option.split)
qed

lemma expire_deadlines:
  "cl_entries (fold expire_deadline ds l) =
     fmretain (\<lambda>j e. \<not> (ce_expires_at_ms e \<in> set ds \<and> j \<in> bucket l (ce_expires_at_ms e))) (cl_entries l)"
  "cl_expirations (fold expire_deadline ds l) = fmretain (\<lambda>d _. d \<notin> set ds) (cl_expirations l)"
  "counts_ok l \<Longrightarrow> counts_ok (fold expire_deadline ds l)"
proof (induction ds arbitrary: l)
  case (Cons d ds)
  have b: "bucket (expire_deadline d l) c = (if c = d then {} else bucket l c)" for c l
    by (simp add: bucket_def expire_deadline_effect)
  {
    case 1
    then show ?case using Cons.IH(1)
      by (auto simp: expire_deadline_effect b intro!: fmretain_cong)
  next
    case 2
    then show ?case using Cons.IH(2)
      by (auto simp: expire_deadline_effect fmdrop_retain intro!: fmretain_cong)
  next
    case 3
    then show ?case using Cons.IH(3) by (simp add: expire_deadline_effect)
  }
qed (simp_all add: fmretain_True)

theorem ledger_expire_effect:
  assumes "ledger_ok l"
  shows "cl_entries (ledger_expire now l) = fmretain (\<lambda>_ e. now < ce_expires_at_ms e) (cl_entries l)"
    "cl_expirations (ledger_expire now l) = fmretain (\<lambda>d _. now < d) (cl_expirations l)"
    "counts_ok (ledger_expire now l)"
proof -
  let ?ds = "filter (\<lambda>at. at \<le> now) (map fst (entries (cl_expirations l)))"
  have mem: "j \<in> bucket l (ce_expires_at_ms e)" if "fmlookup (cl_entries l) j = Some e" for j e
    using assms that by (auto simp: ledger_ok_def expiry_index_ok_def)
  have dom: "d \<in> set (map fst (entries (cl_expirations l)))" if "j \<in> bucket l d" for j d
    using that by (simp add: bucket_def set_map_fst_entries fmlookup_dom_iff del: set_map
        split: option.splits)
  show "cl_entries (ledger_expire now l) = fmretain (\<lambda>_ e. now < ce_expires_at_ms e) (cl_entries l)"
    unfolding ledger_expire_def expire_deadlines
    using mem dom by (intro fmretain_cong) (auto simp del: set_map)
  show "cl_expirations (ledger_expire now l) = fmretain (\<lambda>d _. now < d) (cl_expirations l)"
    unfolding ledger_expire_def expire_deadlines
    by (intro fmretain_cong) (auto simp: set_map_fst_entries fmlookup_dom_iff simp del: set_map)
  show "counts_ok (ledger_expire now l)"
    using assms by (simp add: ledger_expire_def expire_deadlines ledger_ok_def)
qed

lemma ledger_ok_expire:
  assumes "ledger_ok l"
  shows "ledger_ok (ledger_expire now l)"
proof -
  note eff = ledger_expire_effect [OF assms, of now]
  have "bucket (ledger_expire now l) d = (if now < d then bucket l d else {})" for d
    by (simp add: bucket_def eff split: option.split)
  then have "expiry_index_ok (ledger_expire now l)"
    using assms by (auto simp: expiry_index_ok_def ledger_ok_def eff fmlookup_fmretain_Some
        simp del: fmlookup_fmretain)
  moreover have "tenant_ids (ledger_expire now l) t \<subseteq> tenant_ids l t" for t
    by (auto simp: tenant_ids_def eff fmlookup_fmretain_Some simp del: fmlookup_fmretain)
  then have "card (tenant_ids (ledger_expire now l) t) \<le> card (tenant_ids l t)" for t
    by (simp add: card_mono)
  moreover have "fmdom (cl_entries (ledger_expire now l)) |\<subseteq>| fmdom (cl_entries l)"
    by (auto simp: eff fmlookup_dom_iff fmlookup_fmretain_Some simp del: fmlookup_fmretain)
  then have "fcard (fmdom (cl_entries (ledger_expire now l))) \<le> fcard (fmdom (cl_entries l))"
    by (simp add: fcard_mono)
  ultimately show ?thesis
    using assms eff(3) by (auto simp: ledger_ok_def within_limits_def intro: order_trans)
qed

subsection \<open>Remembering\<close>

lemma remember_effect:
  assumes ok: "ledger_ok l" and r: "remember identity tenant now l = (r, l')"
  shows "l' = l \<or> r = Remembered \<and> fmlookup (cl_entries l) identity = None \<and>
    card (tenant_ids l tenant) < 10000 \<and> fcard (fmdom (cl_entries l)) < 250000 \<and>
    l' = \<lparr>cl_entries = fmupd identity
            \<lparr>ce_expires_at_ms = sat_add now MAX_TTL_MS, ce_tenant = tenant\<rparr> (cl_entries l),
          cl_expirations = fmupd (sat_add now MAX_TTL_MS)
            (finsert identity (case fmlookup (cl_expirations l) (sat_add now MAX_TTL_MS) of
               Some b \<Rightarrow> b | None \<Rightarrow> {||})) (cl_expirations l),
          cl_tenant_counts =
            fmupd tenant (word_of_nat (card (tenant_ids l tenant)) + 1) (cl_tenant_counts l)\<rparr>"
proof -
  have c: "counts_ok l" using ok by (simp add: ledger_ok_def)
  define n where "n = (case fmlookup (cl_tenant_counts l) tenant of Some n \<Rightarrow> n | None \<Rightarrow> 0)"
  have "unat n = card (tenant_ids l tenant)"
    using counts_ok_lookup [OF c, of tenant] by (simp add: n_def split: option.splits)
  then have n: "n = word_of_nat (card (tenant_ids l tenant))" "unat n = card (tenant_ids l tenant)"
    by (simp_all flip: \<open>unat n = card (tenant_ids l tenant)\<close>)
  show ?thesis
    using r n by (auto simp: remember_def remember_with_limits_def Let_def n_def [symmetric]
        cancellation_limit_defs word_less_nat_alt not_le split: if_splits)
qed

lemma ledger_ok_remember:
  assumes ok: "ledger_ok l" and r: "remember identity tenant now l = (r, l')"
  shows "ledger_ok l'"
  using remember_effect [OF ok r]
proof (elim disjE conjE)
  assume new: "fmlookup (cl_entries l) identity = None"
    and few: "card (tenant_ids l tenant) < 10000" "fcard (fmdom (cl_entries l)) < 250000"
    and l': "l' = \<lparr>cl_entries = fmupd identity
            \<lparr>ce_expires_at_ms = sat_add now MAX_TTL_MS, ce_tenant = tenant\<rparr> (cl_entries l),
          cl_expirations = fmupd (sat_add now MAX_TTL_MS)
            (finsert identity (case fmlookup (cl_expirations l) (sat_add now MAX_TTL_MS) of
               Some b \<Rightarrow> b | None \<Rightarrow> {||})) (cl_expirations l),
          cl_tenant_counts =
            fmupd tenant (word_of_nat (card (tenant_ids l tenant)) + 1) (cl_tenant_counts l)\<rparr>"
  have ids: "tenant_ids l' t = (if t = tenant then insert identity (tenant_ids l t) else tenant_ids l t)" for t
    using new by (auto simp: tenant_ids_def l')
  have fresh: "identity \<notin> tenant_ids l t" for t using new by (simp add: tenant_ids_def)
  have card: "card (tenant_ids l' t) = (if t = tenant then Suc (card (tenant_ids l t)) else card (tenant_ids l t))" for t
    by (simp add: ids fresh)
  have old: "card (tenant_ids l t) \<le> 10000" for t
    using ok by (simp add: ledger_ok_def within_limits_def cancellation_limit_defs)
  have "counts_ok l'"
    using ok few old unfolding counts_ok_def ids
    by (auto simp: fresh ledger_ok_def counts_ok_def l' add.commute intro: le_less_trans)
  moreover have "bucket l' d = (if d = sat_add now MAX_TTL_MS then insert identity (bucket l d)
      else bucket l d)" for d
    by (simp add: bucket_def l' split: option.split)
  then have "expiry_index_ok l'"
    using ok new by (auto simp: ledger_ok_def expiry_index_ok_def l')
  moreover have "fcard (fmdom (cl_entries l')) \<le> Suc (fcard (fmdom (cl_entries l)))"
    by (simp add: l' fcard_finsert_if)
  then have "within_limits CANCELLATION_LIMITS l'"
    using few old card by (simp add: within_limits_def cancellation_limit_defs)
  ultimately show ?thesis by (simp add: ledger_ok_def)
qed (use ok in simp)

lemma tenant_entries_card: "tenant_entries t l = card (tenant_ids l t)"
  by (simp add: tenant_entries_def tenant_ids_def length_filter_fmvalues)

lemma ledger_ok_validate:
  assumes ok: "ledger_ok l"
  shows "ledger_validate label l = Inr ()"
proof -
  have c: "counts_ok l" and ix: "expiry_index_ok l" using ok by (simp_all add: ledger_ok_def)
  have mem: "i \<in> bucket l (ce_expires_at_ms e)" if "fmlookup (cl_entries l) i = Some e" for i e
    using ix that by (auto simp: expiry_index_ok_def)
  have "find (\<lambda>(identity, entry). \<not> (case fmlookup (cl_expirations l) (ce_expires_at_ms entry) of
      None \<Rightarrow> False | Some b \<Rightarrow> identity |\<in>| b)) (entries (cl_entries l)) = None"
    using mem by (fastforce simp: find_None_iff entries_iff bucket_def split: option.splits)
  moreover have "list_all (\<lambda>(tenant, count). word_of_nat (tenant_entries tenant l) = count)
      (entries (cl_tenant_counts l))"
    using counts_ok_Some [OF c] by (auto simp: list_all_iff entries_iff tenant_entries_card)
  moreover have "set (map ce_tenant (fmvalues (cl_entries l))) = fset (fmdom (cl_tenant_counts l))"
    using counts_ok_Some [OF c] by (fastforce simp: set_fmvalues fmlookup_dom_iff tenant_ids_def)
  then have "length (remdups (map ce_tenant (fmvalues (cl_entries l)))) = fcard (fmdom (cl_tenant_counts l))"
    by (simp add: length_remdups_card_conv fcard.rep_eq)
  ultimately show ?thesis by (simp add: ledger_validate_def)
qed

subsection \<open>The bytes hashed for an attempt determine it\<close>

lemma length_to_be_bytes [simp]: "length (to_be_bytes w) = 8"
  by (simp add: to_be_bytes_def)

lemma div_mod_256_digits:
  fixes m n :: nat
  assumes "m < 256 ^ k" "n < 256 ^ k" "\<And>i. i < k \<Longrightarrow> m div 256 ^ i mod 256 = n div 256 ^ i mod 256"
  shows "m = n"
  using assms
proof (induction k arbitrary: m n)
  case (Suc k)
  have "m div 256 = n div 256"
  proof (rule Suc.IH)
    show "m div 256 < 256 ^ k" "n div 256 < 256 ^ k"
      using Suc.prems(1,2) by (simp_all add: less_mult_imp_div_less mult.commute)
    show "m div 256 div 256 ^ i mod 256 = n div 256 div 256 ^ i mod 256" if "i < k" for i
      using Suc.prems(3) [of "Suc i"] that by (simp add: div_mult2_eq)
  qed
  moreover have "m mod 256 = n mod 256" using Suc.prems(3) [of 0] by simp
  ultimately show ?case by (metis div_mult_mod_eq)
qed simp

lemma to_be_bytes_inj: "to_be_bytes a = to_be_bytes b \<Longrightarrow> a = b"
proof (rule word_unat_eq_iff [THEN iffD2], rule div_mod_256_digits [of _ 8])
  show "unat a < 256 ^ 8" "unat b < 256 ^ 8"
    using unat_lt_2p [of a] unat_lt_2p [of b] by simp_all
  fix i :: nat
  assume eq: "to_be_bytes a = to_be_bytes b" and i: "i < 8"
  have "to_be_bytes a ! (7 - i) = to_be_bytes b ! (7 - i)" using eq by simp
  then have "(of_char (to_be_bytes a ! (7 - i)) :: nat) = of_char (to_be_bytes b ! (7 - i))" by simp
  moreover have "[0..<8] ! (7 - i) = 7 - i" using i by (subst nth_upt) auto
  ultimately show "unat a div 256 ^ i mod 256 = unat b div 256 ^ i mod 256"
    using i by (simp add: to_be_bytes_def)
qed

lemma hash_segment_prefix:
  assumes eq: "hash_segment a @ s = hash_segment b @ t"
    and len: "length a < 2 ^ 64" "length b < 2 ^ 64"
  shows "a = b \<and> s = t"
proof -
  have "to_be_bytes (word_of_nat (length a)) = to_be_bytes (word_of_nat (length b))"
    and rest: "a @ s = b @ t"
    using eq by (simp_all add: hash_segment_def append_eq_append_conv)
  then have "unat (word_of_nat (length a) :: u64) = unat (word_of_nat (length b) :: u64)"
    using to_be_bytes_inj by metis
  then have "length a = length b" using len by (simp add: unat_of_nat_small)
  then show ?thesis using rest by (simp add: append_eq_append_conv)
qed

lemma hash_segment_not_Nil: "hash_segment a \<noteq> []"
  by (auto simp: hash_segment_def dest: arg_cong [of _ _ length])

lemma hash_segments_inj:
  "concat (map hash_segment as) = concat (map hash_segment bs) \<Longrightarrow>
     (\<And>a. a \<in> set as \<Longrightarrow> length a < 2 ^ 64) \<Longrightarrow> (\<And>b. b \<in> set bs \<Longrightarrow> length b < 2 ^ 64) \<Longrightarrow> as = bs"
proof (induction as arbitrary: bs)
  case Nil
  then show ?case by (cases bs) (auto simp: hash_segment_not_Nil)
next
  case (Cons a as)
  then obtain b bs' where bs: "bs = b # bs'" by (cases bs) (auto simp: hash_segment_not_Nil)
  then have "a = b \<and> concat (map hash_segment as) = concat (map hash_segment bs')"
    using Cons.prems by (intro hash_segment_prefix) auto
  then show ?case using Cons.IH [of bs'] Cons.prems bs by auto
qed

lemma acquisition_preimage_segments:
  "acquisition_preimage kind holder keys rid = concat (map hash_segment ((kind # holder # keys) @ [rid]))"
  by (simp add: acquisition_preimage_def)

lemma of_char_hex_digit: "d < 16 \<Longrightarrow> (of_char (hex_digit d) :: nat) = (if d < 10 then 48 + d else 87 + d)"
  by (simp add: hex_digit_def)

lemma hex_digit_inj:
  assumes "d < 16" "e < 16" "hex_digit d = hex_digit e"
  shows "d = e"
proof -
  have "(of_char (hex_digit d) :: nat) = of_char (hex_digit e)" using assms(3) by simp
  then show ?thesis using assms(1,2) by (simp add: of_char_hex_digit split: if_splits)
qed

lemma hex_byte_inj:
  assumes "hex_digit (of_char c div 16) = hex_digit (of_char d div 16)"
    "hex_digit (of_char c mod 16) = hex_digit (of_char d mod 16)"
  shows "c = d"
proof -
  have lt: "(of_char c :: nat) div 16 < 16" "(of_char d :: nat) div 16 < 16"
    using nat_of_char_less_256 [of c] nat_of_char_less_256 [of d] by (simp_all add: less_mult_imp_div_less)
  have "(of_char c :: nat) div 16 = of_char d div 16" using lt assms(1) by (intro hex_digit_inj)
  moreover have "(of_char c :: nat) mod 16 = of_char d mod 16" using assms(2) by (intro hex_digit_inj) auto
  ultimately have "(of_char c :: nat) = of_char d" by (metis div_mult_mod_eq)
  then show ?thesis by simp
qed

lemma digest_string_inj: "digest_string a = digest_string b \<Longrightarrow> a = b"
proof (induction a arbitrary: b)
  case Nil
  then show ?case by (cases b) (simp_all add: digest_string_def)
next
  case (Cons c a)
  then obtain d b' where "b = d # b'" by (cases b) (auto simp: digest_string_def)
  then show ?case using Cons by (auto simp: digest_string_def intro: hex_byte_inj)
qed

text \<open>C3. Two acquisition attempts get the same cancellation identity only if they are the same
  attempt (same primitive, holder, key set and request id) or their hashed encodings are a SHA-256
  collision: the length-prefixed encoding itself never confuses two attempts, so a tombstone of
  one attempt cannot block another.\<close>

theorem acquisition_identity_determines_attempt:
  assumes "acquisition_identity sha256 kind holder keys rid = acquisition_identity sha256 kind' holder' keys' rid'"
    and "\<forall>s \<in> set (kind # holder # rid # keys). length s < 2 ^ 64"
    and "\<forall>s \<in> set (kind' # holder' # rid' # keys'). length s < 2 ^ 64"
  shows "(kind, holder, keys, rid) = (kind', holder', keys', rid') \<or>
    (acquisition_preimage kind holder keys rid \<noteq> acquisition_preimage kind' holder' keys' rid' \<and>
     sha256 (acquisition_preimage kind holder keys rid) = sha256 (acquisition_preimage kind' holder' keys' rid'))"
proof (cases "acquisition_preimage kind holder keys rid = acquisition_preimage kind' holder' keys' rid'")
  case True
  then have "(kind # holder # keys) @ [rid] = (kind' # holder' # keys') @ [rid']"
    unfolding acquisition_preimage_segments using assms(2,3) by (intro hash_segments_inj) auto
  then show ?thesis by simp
next
  case False
  then show ?thesis using assms(1) by (auto simp: acquisition_identity_def dest: digest_string_inj)
qed

theorem acquisition_identity_determines_attempt_witness:
  "(''lock'', ''w'', [''a'', ''b''], ''r1'') = (''lock'', ''w'', [''a'', ''b''], ''r1'') \<or>
    (acquisition_preimage ''lock'' ''w'' [''a'', ''b''] ''r1'' \<noteq> acquisition_preimage ''lock'' ''w'' [''a'', ''b''] ''r1'' \<and>
     rev (acquisition_preimage ''lock'' ''w'' [''a'', ''b''] ''r1'') = rev (acquisition_preimage ''lock'' ''w'' [''a'', ''b''] ''r1''))"
  by (rule acquisition_identity_determines_attempt) simp_all

subsection \<open>Executions of the ledger\<close>

datatype ledger_op = RememberOp string string u64 | ExpireOp u64

fun ledger_step :: "ledger_op \<Rightarrow> cancellation_ledger \<Rightarrow> cancellation_ledger" where
  "ledger_step (RememberOp identity tenant now) l = snd (remember identity tenant now l)"
| "ledger_step (ExpireOp now) l = ledger_expire now l"

lemma ledger_ok_step: "ledger_ok l \<Longrightarrow> ledger_ok (ledger_step op l)"
  by (cases op) (auto intro: ledger_ok_expire ledger_ok_remember [OF _ prod.collapse [symmetric]])

lemma ledger_ok_run: "ledger_ok l \<Longrightarrow> ledger_ok (fold ledger_step ops l)"
  by (induction ops arbitrary: l) (simp_all add: ledger_ok_step)

text \<open>C2. Whatever cancellations and expiry sweeps a ledger has been through, it passes the
  consistency check a restored snapshot must pass, it holds at most 250000 tombstones, and no
  tenant holds more than 10000.\<close>

theorem cancellation_ledger_always_restorable:
  "ledger_validate label (fold ledger_step ops ledger_new) = Inr () \<and>
   fcard (fmdom (cl_entries (fold ledger_step ops ledger_new))) \<le> 250000 \<and>
   tenant_entries tenant (fold ledger_step ops ledger_new) \<le> 10000"
  using ledger_ok_run [OF ledger_ok_new, of ops]
  by (simp add: ledger_ok_validate tenant_entries_card ledger_ok_def within_limits_def
      cancellation_limit_defs)

lemma remembered_until_ttl:
  assumes "ledger_ok l" "\<not> ledger_contains identity l"
    and "remember identity tenant now l = (Remembered, l')"
  shows "ledger_contains identity (ledger_expire t l') \<longleftrightarrow> t < sat_add now CANCELLATION_TOMBSTONE_TTL_MS"
proof -
  have "fmlookup (cl_entries l') identity =
      Some \<lparr>ce_expires_at_ms = sat_add now MAX_TTL_MS, ce_tenant = tenant\<rparr>"
    using assms(2,3) by (auto simp: ledger_contains_def remember_def remember_with_limits_def Let_def
        CANCELLATION_TOMBSTONE_TTL_MS_def split: if_splits)
  then show ?thesis
    using ledger_expire_effect(1) [OF ledger_ok_remember [OF assms(1,3)], of t]
    by (simp add: ledger_contains_def CANCELLATION_TOMBSTONE_TTL_MS_def)
qed

text \<open>A tombstone placed at time \<open>now\<close> blocks its attempt through every expiry sweep before
  \<open>now + 24h\<close>, and is gone after a sweep at or past that deadline.\<close>

theorem tombstone_lives_exactly_its_ttl:
  assumes "ledger_ok l" "\<not> ledger_contains identity l"
    and "remember identity tenant now l = (Remembered, l')"
  shows "ledger_contains identity (ledger_expire t l') \<longleftrightarrow> t < sat_add now CANCELLATION_TOMBSTONE_TTL_MS"
  by (rule remembered_until_ttl [OF assms])

theorem tombstone_lives_exactly_its_ttl_witness:
  "ledger_contains ''i'' (ledger_expire 86400999 (snd (remember ''i'' ''t'' 1000 ledger_new))) \<longleftrightarrow>
     86400999 < sat_add 1000 CANCELLATION_TOMBSTONE_TTL_MS"
proof (rule tombstone_lives_exactly_its_ttl)
  show "ledger_ok ledger_new" by (rule ledger_ok_new)
  show "\<not> ledger_contains ''i'' ledger_new" by (simp add: ledger_contains_def ledger_new_def)
  show "remember ''i'' ''t'' 1000 ledger_new = (Remembered, snd (remember ''i'' ''t'' 1000 ledger_new))"
    by (simp add: remember_def remember_with_limits_def ledger_new_def cancellation_limit_defs
        fcard.rep_eq Let_def)
qed

lemma remember_new_entry:
  assumes ok: "ledger_ok l" and l': "l' = snd (remember identity tenant now l)" "l' \<noteq> l"
  shows "fmlookup (cl_entries l) identity = None \<and> (card (tenant_ids l tenant) < 256 \<or> fcard (fmdom (cl_entries l)) < 225000) \<and>
    (\<forall>t. tenant_ids l' t = (if t = tenant then insert identity (tenant_ids l t) else tenant_ids l t))"
proof -
  define n where "n = (case fmlookup (cl_tenant_counts l) tenant of Some n \<Rightarrow> n | None \<Rightarrow> 0)"
  have "unat n = card (tenant_ids l tenant)"
    using counts_ok_lookup [of l tenant] ok by (simp add: ledger_ok_def n_def split: option.splits)
  then show ?thesis
    using l' by (auto simp: remember_def remember_with_limits_def Let_def n_def [symmetric] tenant_ids_def
        cancellation_limit_defs word_less_nat_alt word_le_nat_alt not_le split: if_splits)
qed

text \<open>How many tombstones are held beyond the fair share of their tenants.\<close>

definition holding :: "cancellation_ledger \<Rightarrow> string set" where
  "holding l = {t. tenant_ids l t \<noteq> {}}"

definition excess :: "cancellation_ledger \<Rightarrow> nat" where
  "excess l = (\<Sum>t \<in> holding l. card (tenant_ids l t) - 256)"

lemma finite_holding [simp]: "finite (holding l)"
proof -
  have "holding l \<subseteq> (\<lambda>i. ce_tenant (the (fmlookup (cl_entries l) i))) ` fset (fmdom (cl_entries l))"
    by (force simp: holding_def tenant_ids_def fmlookup_dom_iff)
  then show ?thesis by (rule finite_subset) simp
qed

lemma excess_over: "finite A \<Longrightarrow> holding l \<subseteq> A \<Longrightarrow> excess l = (\<Sum>t \<in> A. card (tenant_ids l t) - 256)"
  unfolding excess_def by (rule sum.mono_neutral_left) (auto simp: holding_def)

lemma entries_by_tenant: "fcard (fmdom (cl_entries l)) = (\<Sum>t \<in> holding l. card (tenant_ids l t))"
proof -
  have "fset (fmdom (cl_entries l)) = (\<Union>t \<in> holding l. tenant_ids l t)"
    by (force simp: holding_def tenant_ids_def fmlookup_dom_iff)
  then show ?thesis
    unfolding fcard.rep_eq by (subst card_UN_disjoint [symmetric]) (simp, simp, auto simp: tenant_ids_def)
qed

lemma excess_le_entries: "excess l \<le> fcard (fmdom (cl_entries l))"
  unfolding entries_by_tenant excess_def by (rule sum_mono) simp

lemma excess_mono:
  assumes "\<And>t. tenant_ids l' t \<subseteq> tenant_ids l t"
  shows "excess l' \<le> excess l"
proof -
  have "holding l' \<subseteq> holding l" using assms by (auto simp: holding_def)
  then show ?thesis
    using assms by (subst excess_over [of "holding l" l']) (auto simp: excess_def intro!: sum_mono diff_le_mono card_mono)
qed

lemma excess_remember:
  assumes ok: "ledger_ok l" and "excess l \<le> 225000"
  shows "excess (snd (remember identity tenant now l)) \<le> 225000"
proof (cases "snd (remember identity tenant now l) = l")
  case False
  define l' where "l' = snd (remember identity tenant now l)"
  note r = remember_new_entry [OF ok l'_def False [folded l'_def]]
  have fresh: "identity \<notin> tenant_ids l t" for t using r by (simp add: tenant_ids_def)
  have over: "excess x = (card (tenant_ids x tenant) - 256) + (\<Sum>t \<in> holding l - {tenant}. card (tenant_ids x t) - 256)"
    if "holding x \<subseteq> insert tenant (holding l)" for x
    using that by (subst excess_over [of "insert tenant (holding l)"]) (auto simp: sum.insert_remove)
  have "holding l' \<subseteq> insert tenant (holding l)" using r by (auto simp: holding_def split: if_splits)
  note o = over [OF this] over [OF subset_insertI]
  have rest: "(\<Sum>t \<in> holding l - {tenant}. card (tenant_ids l' t) - 256) = (\<Sum>t \<in> holding l - {tenant}. card (tenant_ids l t) - 256)"
    using r by (intro sum.cong) auto
  have new: "card (tenant_ids l' tenant) = Suc (card (tenant_ids l tenant))" using r fresh by simp
  have "card (tenant_ids l tenant) < 256 \<or> fcard (fmdom (cl_entries l)) < 225000" using r by blast
  then show ?thesis
    using o rest new assms(2) excess_le_entries [of l] unfolding l'_def [symmetric] by auto
qed (use assms in simp)

lemma excess_run: "excess (fold ledger_step ops ledger_new) \<le> 225000"
proof -
  have "ledger_ok l \<Longrightarrow> excess l \<le> 225000 \<Longrightarrow> excess (fold ledger_step ops l) \<le> 225000" for l
  proof (induction ops arbitrary: l)
    case (Cons op ops)
    have "excess (ledger_expire now l) \<le> excess l" for now
      by (rule excess_mono) (auto simp: tenant_ids_def ledger_expire_effect(1) [OF Cons.prems(1)] fmlookup_fmretain_Some
          simp del: fmlookup_fmretain)
    then have "excess (ledger_step op l) \<le> 225000"
      using Cons.prems order_trans by (cases op) (fastforce simp: excess_remember)+
    then show ?case using Cons.IH [OF ledger_ok_step [OF Cons.prems(1)]] by simp
  qed simp
  then show ?thesis using ledger_ok_new by (simp add: excess_def holding_def tenant_ids_def ledger_new_def)
qed

lemma room_for_fair_share:
  assumes "excess l \<le> 225000" "card (tenant_ids l tenant) < 256" "card (holding l - {tenant}) \<le> 96"
  shows "fcard (fmdom (cl_entries l)) < 250000"
proof -
  have "fcard (fmdom (cl_entries l)) \<le> (\<Sum>t \<in> insert tenant (holding l). card (tenant_ids l t))"
    unfolding entries_by_tenant by (rule sum_mono2) auto
  also have "\<dots> = card (tenant_ids l tenant) + (\<Sum>t \<in> holding l - {tenant}. card (tenant_ids l t))"
    by (simp add: sum.insert_remove)
  also have "\<dots> \<le> 255 + (\<Sum>t \<in> holding l - {tenant}. 256 + (card (tenant_ids l t) - 256))"
    using assms(2) by (intro add_mono sum_mono) auto
  also have "\<dots> = 255 + (256 * card (holding l - {tenant}) + (\<Sum>t \<in> holding l - {tenant}. card (tenant_ids l t) - 256))"
    by (simp add: sum.distrib)
  also have "\<dots> \<le> 255 + (256 * 96 + excess l)"
    using assms(3) unfolding excess_def by (intro add_mono sum_mono2 mult_le_mono) auto
  finally show ?thesis using assms(1) by simp
qed

text \<open>C4. Capacity is reserved for every tenant's fair share. After any cancellations and expiry sweeps, a
  tenant that holds fewer than 256 live tombstones can record another one as long as at most 96 other tenants
  hold any: however many cancellations those tenants have sent, they cannot fill the ledger, although 25 of
  them could hold 250000 tombstones by the limit per tenant alone.\<close>

theorem fair_share_is_reserved:
  assumes "l = fold ledger_step ops ledger_new" "tenant_entries tenant l < 256"
    and "card {other. other \<noteq> tenant \<and> 0 < tenant_entries other l} \<le> 96"
  shows "fst (remember identity tenant now l) = Remembered \<and>
    ledger_contains identity (snd (remember identity tenant now l))"
proof -
  have ok: "ledger_ok l" unfolding assms(1) by (rule ledger_ok_run [OF ledger_ok_new])
  define n where "n = (case fmlookup (cl_tenant_counts l) tenant of Some n \<Rightarrow> n | None \<Rightarrow> 0)"
  have "unat n = card (tenant_ids l tenant)"
    using counts_ok_lookup [of l tenant] ok by (simp add: ledger_ok_def n_def split: option.splits)
  then have few: "unat n < 256" using assms(2) by (simp add: tenant_entries_card)
  have "{other. other \<noteq> tenant \<and> 0 < tenant_entries other l} = holding l - {tenant}"
    by (auto simp: holding_def tenant_entries_card card_gt_0_iff)
  then have "fcard (fmdom (cl_entries l)) < 250000"
    using room_for_fair_share [of l tenant] excess_run [of ops] assms by (simp add: tenant_entries_card)
  then show ?thesis
    using few by (simp add: remember_def remember_with_limits_def Let_def n_def [symmetric]
        cancellation_limit_defs word_le_nat_alt ledger_contains_def)
qed

theorem fair_share_is_reserved_witness:
  "fst (remember ''i'' ''t'' 5 (fold ledger_step [RememberOp ''j'' ''u'' 3] ledger_new)) = Remembered \<and>
    ledger_contains ''i'' (snd (remember ''i'' ''t'' 5 (fold ledger_step [RememberOp ''j'' ''u'' 3] ledger_new)))"
proof (rule fair_share_is_reserved [OF refl])
  let ?l = "fold ledger_step [RememberOp ''j'' ''u'' 3] ledger_new"
  have l: "cl_entries ?l = fmupd ''j'' \<lparr>ce_expires_at_ms = sat_add 3 MAX_TTL_MS, ce_tenant = ''u''\<rparr> fmempty"
    by (simp add: remember_def remember_with_limits_def ledger_new_def cancellation_limit_defs fcard.rep_eq Let_def)
  have n: "tenant_entries other ?l = (if other = ''u'' then 1 else 0)" for other
    unfolding tenant_entries_card tenant_ids_def l by simp
  show "tenant_entries ''t'' ?l < 256" unfolding n by simp
  have "{other. other \<noteq> ''t'' \<and> 0 < tenant_entries other ?l} = {''u''}" unfolding n by auto
  then show "card {other. other \<noteq> ''t'' \<and> 0 < tenant_entries other ?l} \<le> 96" by (metis card_1_singleton_iff One_nat_def numeral_One one_le_numeral)
qed

end
