(* ===== verification/Fencing.thy ===== *)
theory Fencing
  imports Validate
begin

section \<open>Fencing tokens\<close>

text \<open>
  \<open>Store::next_token\<close> and \<open>Store::mint_token_above\<close> of \<open>src/state.rs\<close>. Both return the token and
  store it as the new counter, so the model of either maps the counter to the token (the new
  counter), or to \<open>None\<close> when the supply is exhausted and the counter is left alone.

  \<open>fresh_step\<close> is what an operation of any component promises about tokens: the counter never
  goes back and stays within the supported maximum, and a token that the new state references was
  referenced before or lies between the old counter and the new one. The locale \<open>fenced\<close> composes
  that promise over executions; every component that mints tokens interprets it.
\<close>

definition next_token :: "u64 \<Rightarrow> u64 option" where
  "next_token counter = (case checked_add counter 1 of None \<Rightarrow> None
     | Some nxt \<Rightarrow> if nxt > MAX_FENCING_TOKEN then None else Some nxt)"

definition mint_token_above :: "u64 \<Rightarrow> u64 \<Rightarrow> u64 option" where
  "mint_token_above flr counter =
     (if flr \<ge> MAX_FENCING_TOKEN then None
      else (case checked_add (max counter flr) 1 of None \<Rightarrow> None
        | Some nxt \<Rightarrow> if nxt > MAX_FENCING_TOKEN then None else Some nxt))"

lemma checked_add_one: "checked_add (c :: u64) 1 = (if c = - 1 then None else Some (c + 1))"
proof (cases "c = - 1")
  case False
  then have "unat c \<noteq> unat (- 1 :: u64)" using word_unat_eq_iff by blast
  then have "unat c + 1 < 2 ^ 64" using unat_lt_2p [of c] by simp
  then show ?thesis using False by (simp add: checked_add_def)
qed (simp add: checked_add_def)

lemma unat_plus_one: "(c :: u64) \<noteq> - 1 \<Longrightarrow> unat (c + 1) = unat c + 1"
  using checked_add_SomeD [of c 1 "c + 1"] by (simp add: checked_add_one)

lemma MAX_FENCING_TOKEN_bound: "MAX_FENCING_TOKEN < - 1"
  by (simp add: MAX_FENCING_TOKEN_def word_less_nat_alt)

lemma next_token_eq: "next_token c = (if c < MAX_FENCING_TOKEN then Some (c + 1) else None)"
proof (cases "c = - 1")
  case True
  then show ?thesis by (simp add: next_token_def checked_add_one)
next
  case False
  then have "c + 1 > MAX_FENCING_TOKEN \<longleftrightarrow> \<not> c < MAX_FENCING_TOKEN"
    by (simp add: word_less_nat_alt unat_plus_one) arith
  then show ?thesis using False by (simp add: next_token_def checked_add_one)
qed

lemma mint_token_above_eq:
  "mint_token_above f c = (if f < MAX_FENCING_TOKEN then next_token (max c f) else None)"
  by (auto simp: mint_token_above_def next_token_def)

lemma next_token_Some:
  assumes "next_token c = Some t"
  shows "c < t" "t \<le> MAX_FENCING_TOKEN" "0 < t" "unat t = unat c + 1"
proof -
  have c: "c < MAX_FENCING_TOKEN" "t = c + 1" using assms by (simp_all add: next_token_eq split: if_splits)
  have "c \<noteq> - 1" using c MAX_FENCING_TOKEN_bound by auto
  then show u: "unat t = unat c + 1" using c unat_plus_one by simp
  show "c < t" "t \<le> MAX_FENCING_TOKEN" "0 < t" using c(1) u by (simp_all add: word_less_nat_alt word_le_nat_alt)
qed

lemma mint_token_above_Some:
  assumes "mint_token_above f c = Some t"
  shows "c < t" "f < t" "t \<le> MAX_FENCING_TOKEN" "0 < t"
  using assms next_token_Some [of "max c f" t] by (auto simp: mint_token_above_eq split: if_splits)

lemma next_token_None: "next_token c = None \<longleftrightarrow> MAX_FENCING_TOKEN \<le> c"
  by (auto simp: next_token_eq)

subsection \<open>Freshness\<close>

definition fresh_step :: "u64 \<Rightarrow> u64 set \<Rightarrow> u64 \<Rightarrow> u64 set \<Rightarrow> bool" where
  "fresh_step c T c' T' \<longleftrightarrow> c \<le> c' \<and> c' \<le> max c MAX_FENCING_TOKEN \<and>
     (\<forall>t \<in> T'. t \<in> T \<or> c < t \<and> t \<le> c')"

named_theorems fresh \<open>freshness of the operations of the components\<close>

lemma fresh_step_refl [fresh, intro]: "T' \<subseteq> T \<Longrightarrow> fresh_step c T c T'"
  by (auto simp: fresh_step_def)

lemma fresh_step_trans: "fresh_step c T c1 T1 \<Longrightarrow> fresh_step c1 T1 c2 T2 \<Longrightarrow> fresh_step c T c2 T2"
  by (fastforce simp: fresh_step_def le_max_iff_disj dest: bspec)

lemma fresh_step_mono: "fresh_step c T c' T' \<Longrightarrow> U' \<subseteq> T' \<Longrightarrow> fresh_step c T c' U'"
  by (auto simp: fresh_step_def)

lemma fresh_step_mint: "next_token c = Some t \<Longrightarrow> T' \<subseteq> insert t T \<Longrightarrow> fresh_step c T t T'"
  using next_token_Some [of c t] by (auto simp: fresh_step_def)

lemma fresh_step_mint_above: "mint_token_above f c = Some t \<Longrightarrow> T' \<subseteq> insert t T \<Longrightarrow> fresh_step c T t T'"
  using mint_token_above_Some [of f c t] by (auto simp: fresh_step_def)

lemma fresh_step_bounded:
  assumes f: "fresh_step c T c' T'" and T: "\<And>t. t \<in> T \<Longrightarrow> 0 < t \<and> t \<le> c" and t: "t \<in> T'"
  shows "0 < t \<and> t \<le> c'"
proof (cases "t \<in> T")
  case True
  then show ?thesis using T [OF True] f by (auto simp: fresh_step_def)
next
  case False
  then have "c < t" "t \<le> c'" using f t by (auto simp: fresh_step_def)
  then show ?thesis using order_le_less_trans [OF word_zero_le [of c]] by blast
qed

locale fenced =
  fixes counter :: "'s \<Rightarrow> u64" and tokens :: "'s \<Rightarrow> u64 set" and step :: "'s \<Rightarrow> 's \<Rightarrow> bool"
  assumes step_fresh: "step s s' \<Longrightarrow> fresh_step (counter s) (tokens s) (counter s') (tokens s')"
begin

lemma run_fresh: "step\<^sup>*\<^sup>* s s' \<Longrightarrow> fresh_step (counter s) (tokens s) (counter s') (tokens s')"
  by (induction rule: rtranclp_induct) (auto intro: fresh_step_trans step_fresh)

lemma run_bounded:
  assumes "step\<^sup>*\<^sup>* s s'" "\<forall>t \<in> tokens s. 0 < t \<and> t \<le> counter s"
  shows "\<forall>t \<in> tokens s'. 0 < t \<and> t \<le> counter s'"
  using fresh_step_bounded [OF run_fresh [OF assms(1)]] assms(2) by blast

lemma retired_token_never_returns:
  assumes "step\<^sup>*\<^sup>* s s'" "t \<notin> tokens s" "t \<le> counter s"
  shows "t \<notin> tokens s'"
  using run_fresh [OF assms(1)] assms(2,3) by (auto simp: fresh_step_def)

end

end
