(* ===== verification/Lock_Model.thy ===== *)
theory Lock_Model
  imports Indexed_Queue Cancellation Fencing
begin

section \<open>Union locks\<close>

text \<open>
  The multi-key lock of \<open>src/state.rs\<close>: \<open>LockManager\<close>, the handlers \<open>apply_lock_acquire\<close>,
  \<open>apply_lock_renew\<close>, \<open>apply_lock_release\<close>, \<open>apply_lock_cancel\<close>, the helpers \<open>install_grant\<close>,
  \<open>release_grant\<close>, \<open>lock_first_grantable\<close>, \<open>lock_promote\<close>, the lock part of \<open>expire_due\<close>, and
  the read views. The handlers act on the part of \<open>Store\<close> they touch, the record \<open>lock_store\<close>:
  the token counter, the lock table and the cancellation ledger. The queue is the FIFO contract
  that \<open>IndexedQueue\<close> implements (theory \<open>Indexed_Queue\<close>). The JSON answers are the constructors of
  \<open>lock_response\<close>, one per shape of answer with its fields.
\<close>

subsection \<open>Data\<close>

record lock_grant =
  lg_holder :: string
  lg_keys :: "string list"
  lg_fencing_token :: u64
  lg_lease_expires_ms :: u64
  lg_request_id :: "string option"

record queued_lock =
  ql_holder :: string
  ql_keys :: "string list"
  ql_ttl_ms :: u64
  ql_requested_ms :: u64
  ql_wait_expires_ms :: "u64 option"
  ql_request_id :: "string option"

type_synonym lock_id = "string \<times> string list"

record lock_manager =
  lm_held :: "(string, u64) fmap"
  lm_grants :: "(u64, lock_grant) fmap"
  lm_queue :: "(lock_id, queued_lock) fifo"

record lock_store =
  ls_next_fencing_token :: u64
  ls_locks :: lock_manager
  ls_cancellations :: cancellation_ledger

record lock_acquire_input =
  li_keys :: "string list"
  li_holder :: string
  li_ttl_ms :: u64
  li_wait :: bool
  li_wait_timeout_ms :: "u64 option"
  li_request_id :: "string option"
  li_legacy_semantics :: bool

record lock_promotion =
  lp_holder :: string
  lp_keys :: "string list"
  lp_fencing_token :: u64
  lp_lease_expires_ms :: u64

datatype lock_response =
    AcquireNoKeys u64
  | AcquireGranted "bool option" "string list" string u64 u64 u64
      \<comment> \<open>renewed, keys, holder, \<open>fencing_token\<close>, \<open>lease_expires_ms\<close>, revision\<close>
  | AcquireExhausted "string list" string u64
  | AcquirePending bool "nat option" "u64 option" "string list" string "string list" u64
      \<comment> \<open>queued, position, \<open>wait_expires_ms\<close>, keys, holder, conflicts, revision\<close>
  | RenewRefused string u64
  | Renewed "string list" string u64 u64 u64
  | ReleaseRefused string u64
  | Released "string list" "lock_promotion list" u64
  | CancelRaced "string list" string u64 u64 u64
      \<comment> \<open>not cancelled: the attempt already holds this token until this lease\<close>
  | CancelRefused string "string list" string u64
  | Cancelled "string list" string "lock_promotion list" u64

definition lock_manager_new :: lock_manager where
  "lock_manager_new = \<lparr>lm_held = fmempty, lm_grants = fmempty, lm_queue = []\<rparr>"

definition lock_store_new :: lock_store where
  "lock_store_new = \<lparr>ls_next_fencing_token = 0, ls_locks = lock_manager_new,
     ls_cancellations = ledger_new\<rparr>"

subsection \<open>Helpers\<close>

definition canonical_keys :: "string list \<Rightarrow> string list" where
  "canonical_keys keys = remdups_adj (sort (filter (\<lambda>k. k \<noteq> []) keys))"

definition waiter_is_live :: "u64 option \<Rightarrow> u64 \<Rightarrow> bool" where
  "waiter_is_live wait_expires_ms now = (case wait_expires_ms of None \<Rightarrow> True | Some e \<Rightarrow> e > now)"

definition install_grant :: "lock_grant \<Rightarrow> lock_manager \<Rightarrow> lock_manager" where
  "install_grant g m = m\<lparr>
     lm_held := fold (\<lambda>key held. fmupd key (lg_fencing_token g) held) (lg_keys g) (lm_held m),
     lm_grants := fmupd (lg_fencing_token g) g (lm_grants m)\<rparr>"

definition release_grant :: "u64 \<Rightarrow> lock_manager \<Rightarrow> lock_manager" where
  "release_grant token m = (case fmlookup (lm_grants m) token of None \<Rightarrow> m
     | Some g \<Rightarrow> m\<lparr>lm_grants := fmdrop token (lm_grants m),
         lm_held := fold (\<lambda>key held. if fmlookup held key = Some token then fmdrop key held else held)
           (lg_keys g) (lm_held m)\<rparr>)"

fun first_grantable_from ::
    "(string, u64) fmap \<Rightarrow> string set \<Rightarrow> (lock_id, queued_lock) fifo \<Rightarrow> lock_id option" where
  "first_grantable_from held reserved [] = None"
| "first_grantable_from held reserved ((lid, q) # rest) =
     (if list_ex (\<lambda>k. fmlookup held k \<noteq> None \<or> k \<in> reserved) (ql_keys q)
      then first_grantable_from held (reserved \<union> set (ql_keys q)) rest
      else Some lid)"

definition lock_first_grantable :: "lock_manager \<Rightarrow> lock_id option" where
  "lock_first_grantable m = first_grantable_from (lm_held m) {} (lm_queue m)"

lemma first_grantable_from_in: "first_grantable_from held res q = Some lid \<Longrightarrow> fifo_contains lid q"
  by (induction held res q rule: first_grantable_from.induct) (auto simp: fifo_contains_def split: if_splits)

text \<open>The scan returns the identity of a queue entry, so the \<open>expect\<close> after the removal cannot
  fail; the branch that stands for it ends the loop.\<close>

function lock_promote :: "u64 \<Rightarrow> lock_store \<Rightarrow> lock_promotion list \<times> lock_store" where
  "lock_promote now s = (case lock_first_grantable (ls_locks s) of None \<Rightarrow> ([], s)
     | Some lid \<Rightarrow> (case next_token (ls_next_fencing_token s) of None \<Rightarrow> ([], s)
         | Some token \<Rightarrow> (case fifo_remove lid (lm_queue (ls_locks s)) of
               (None, _) \<Rightarrow> ([], s)
             | (Some waiter, queue') \<Rightarrow>
                 let lease_expires_ms = sat_add now (ql_ttl_ms waiter);
                     (promoted, s') = lock_promote now (s\<lparr>
                       ls_next_fencing_token := token,
                       ls_locks := install_grant
                         \<lparr>lg_holder = ql_holder waiter, lg_keys = ql_keys waiter,
                          lg_fencing_token = token, lg_lease_expires_ms = lease_expires_ms,
                          lg_request_id = ql_request_id waiter\<rparr>
                         ((ls_locks s)\<lparr>lm_queue := queue'\<rparr>)\<rparr>)
                 in (\<lparr>lp_holder = ql_holder waiter, lp_keys = ql_keys waiter,
                      lp_fencing_token = token, lp_lease_expires_ms = lease_expires_ms\<rparr> # promoted, s'))))"
  by pat_completeness auto

termination
proof (relation "measure (\<lambda>(now, s). length (lm_queue (ls_locks s)))", goal_cases)
  case (2 now s lid token r queue' waiter lease_expires_ms)
  then have "fifo_contains lid (lm_queue (ls_locks s))"
    by (auto simp: lock_first_grantable_def intro: first_grantable_from_in)
  then show ?case using 2 fifo_remove_length [of lid "lm_queue (ls_locks s)"]
    by (simp add: install_grant_def) (metis snd_conv)
qed simp

declare lock_promote.simps [simp del]

subsection \<open>Handlers\<close>

text \<open>\<open>grants.get_mut\<close> followed by the assignment of the lease.\<close>

definition set_lease :: "u64 \<Rightarrow> u64 \<Rightarrow> lock_store \<Rightarrow> lock_store" where
  "set_lease token lease s = (case fmlookup (lm_grants (ls_locks s)) token of None \<Rightarrow> s
     | Some g \<Rightarrow> s\<lparr>ls_locks := (ls_locks s)\<lparr>
         lm_grants := fmupd token (g\<lparr>lg_lease_expires_ms := lease\<rparr>) (lm_grants (ls_locks s))\<rparr>\<rparr>)"

text \<open>The grant that a repeated acquire of the same holder and key set finds, if any.\<close>

definition reacquired_grant :: "lock_acquire_input \<Rightarrow> string list \<Rightarrow> lock_manager \<Rightarrow> (u64 \<times> lock_grant) option" where
  "reacquired_grant input keys m = (case fmlookup (lm_held m) (hd keys) of None \<Rightarrow> None
     | Some tok \<Rightarrow> (case fmlookup (lm_grants m) tok of None \<Rightarrow> None
         | Some g \<Rightarrow> if lg_holder g = li_holder input \<and> lg_keys g = keys \<and>
               (li_legacy_semantics input \<or> lg_request_id g = li_request_id input)
             then Some (tok, g) else None))"

definition reserved_keys :: "(lock_id, queued_lock) fifo \<Rightarrow> string list" where
  "reserved_keys q = concat (map (\<lambda>(_, w). ql_keys w) q)"

definition lock_grantable :: "string list \<Rightarrow> lock_manager \<Rightarrow> bool" where
  "lock_grantable keys m \<longleftrightarrow>
     \<not> list_ex (\<lambda>k. fmlookup (lm_held m) k \<noteq> None) keys \<and>
     \<not> list_ex (\<lambda>k. k \<in> set (reserved_keys (lm_queue m))) keys"

text \<open>The tail of \<open>apply_lock_acquire\<close>: the request is not grantable now.\<close>

definition lock_enqueue :: "u64 \<Rightarrow> u64 \<Rightarrow> lock_acquire_input \<Rightarrow> string list \<Rightarrow> lock_store \<Rightarrow>
    lock_response \<times> lock_store" where
  "lock_enqueue revision now input keys s =
     (let holder = li_holder input;
          lid = (holder, keys);
          queue = lm_queue (ls_locks s);
          already = (case fifo_get lid queue of None \<Rightarrow> False
            | Some queued \<Rightarrow> ql_request_id queued = li_request_id input);
          identity_in_use = (fifo_contains lid queue \<and> \<not> already);
          queue' = (if li_wait input \<and> \<not> already \<and> \<not> identity_in_use
            then snd (fifo_push_back lid
              \<lparr>ql_holder = holder, ql_keys = keys, ql_ttl_ms = li_ttl_ms input,
               ql_requested_ms = now,
               ql_wait_expires_ms = (if li_legacy_semantics input then None
                 else Some (sat_add now (case li_wait_timeout_ms input of Some t \<Rightarrow> t
                   | None \<Rightarrow> DEFAULT_WAIT_TIMEOUT_MS))),
               ql_request_id = li_request_id input\<rparr> queue)
            else queue);
          position = (if identity_in_use then None else map_option Suc (fifo_position lid queue'));
          wait_expires_ms = (if identity_in_use then None
            else Option.bind (fifo_get lid queue') ql_wait_expires_ms);
          conflicts = filter (\<lambda>k. fmlookup (lm_held (ls_locks s)) k \<noteq> None) keys
      in (AcquirePending
            (if li_legacy_semantics input then li_wait input \<and> position \<noteq> None else position \<noteq> None)
            position wait_expires_ms keys holder conflicts revision,
          s\<lparr>ls_locks := (ls_locks s)\<lparr>lm_queue := queue'\<rparr>\<rparr>))"

definition apply_lock_acquire :: "(string \<Rightarrow> string) \<Rightarrow> u64 \<Rightarrow> u64 \<Rightarrow> lock_acquire_input \<Rightarrow> lock_store \<Rightarrow>
    lock_response \<times> lock_store" where
  "apply_lock_acquire sha256 revision now input s =
     (let keys = canonical_keys (li_keys input); holder = li_holder input in
      if keys = [] then (AcquireNoKeys revision, s)
      else if (case li_request_id input of None \<Rightarrow> False | Some request_id \<Rightarrow>
          ledger_contains (acquisition_identity sha256 ''lock'' holder keys request_id) (ls_cancellations s))
      then (AcquirePending False None None keys holder [] revision, s)
      else (case reacquired_grant input keys (ls_locks s) of
          Some (tok, g) \<Rightarrow>
            let lease = (if li_legacy_semantics input
                  then max (lg_lease_expires_ms g) (sat_add now (li_ttl_ms input))
                  else lg_lease_expires_ms g)
            in (AcquireGranted (Some (li_legacy_semantics input)) keys holder tok lease revision,
                if li_legacy_semantics input then set_lease tok lease s else s)
        | None \<Rightarrow>
            if lock_grantable keys (ls_locks s)
            then (case next_token (ls_next_fencing_token s) of
                None \<Rightarrow> (AcquireExhausted keys holder revision, s)
              | Some token \<Rightarrow>
                  let lease_expires_ms = sat_add now (li_ttl_ms input) in
                  (AcquireGranted None keys holder token lease_expires_ms revision,
                   s\<lparr>ls_next_fencing_token := token,
                     ls_locks := install_grant
                       \<lparr>lg_holder = holder, lg_keys = keys, lg_fencing_token = token,
                        lg_lease_expires_ms = lease_expires_ms, lg_request_id = li_request_id input\<rparr>
                       (ls_locks s)\<rparr>))
            else lock_enqueue revision now input keys s))"

definition apply_lock_renew :: "u64 \<Rightarrow> u64 \<Rightarrow> string list \<Rightarrow> string \<Rightarrow> u64 \<Rightarrow> u64 \<Rightarrow> lock_store \<Rightarrow>
    lock_response \<times> lock_store" where
  "apply_lock_renew revision now keys0 holder fencing_token ttl_ms s =
     (let keys = canonical_keys keys0 in
      case fmlookup (lm_grants (ls_locks s)) fencing_token of
        None \<Rightarrow> (RenewRefused ''not_found'' revision, s)
      | Some g \<Rightarrow>
          if lg_holder g \<noteq> holder then (RenewRefused ''not_holder'' revision, s)
          else if lg_keys g \<noteq> keys then (RenewRefused ''key_mismatch'' revision, s)
          else let lease = max (lg_lease_expires_ms g) (sat_add now ttl_ms) in
            (Renewed keys holder fencing_token lease revision, set_lease fencing_token lease s))"

definition apply_lock_release :: "u64 \<Rightarrow> u64 \<Rightarrow> string \<Rightarrow> u64 \<Rightarrow> lock_store \<Rightarrow> lock_response \<times> lock_store" where
  "apply_lock_release revision now holder fencing_token s =
     (case fmlookup (lm_grants (ls_locks s)) fencing_token of
        None \<Rightarrow> (ReleaseRefused ''not_found'' revision, s)
      | Some g \<Rightarrow>
          if lg_holder g \<noteq> holder then (ReleaseRefused ''not_holder'' revision, s)
          else let (promoted, s') = lock_promote now
                 (s\<lparr>ls_locks := release_grant fencing_token (ls_locks s)\<rparr>)
               in (Released (lg_keys g) promoted revision, s'))"

text \<open>\<open>grants.values().find(..)\<close>: at most one grant has a given non-empty key set, so the iteration
  order of the map is not observable.\<close>

definition find_grant :: "(lock_grant \<Rightarrow> bool) \<Rightarrow> lock_manager \<Rightarrow> lock_grant option" where
  "find_grant P m = find P (fmvalues (lm_grants m))"

definition lock_cancel_queued :: "u64 \<Rightarrow> u64 \<Rightarrow> string list \<Rightarrow> string \<Rightarrow> string option \<Rightarrow> lock_store \<Rightarrow>
    lock_response \<times> lock_store" where
  "lock_cancel_queued revision now keys holder request_id s =
     (let lid = (holder, keys);
          queue = lm_queue (ls_locks s);
          queued_matches = (case fifo_get lid queue of None \<Rightarrow> False
            | Some queued \<Rightarrow> request_id = None \<or> ql_request_id queued = request_id)
      in if queued_matches \<and> fst (fifo_remove lid queue) \<noteq> None
         then let (promoted, s') = lock_promote now
                (s\<lparr>ls_locks := (ls_locks s)\<lparr>lm_queue := snd (fifo_remove lid queue)\<rparr>\<rparr>)
              in (Cancelled keys holder promoted revision, s')
         else (case find_grant (\<lambda>g. lg_holder g = holder \<and> lg_keys g = keys \<and>
                   (request_id = None \<or> lg_request_id g = request_id)) (ls_locks s) of
             Some g \<Rightarrow> (CancelRaced keys holder (lg_fencing_token g) (lg_lease_expires_ms g) revision, s)
           | None \<Rightarrow> if request_id \<noteq> None then (Cancelled keys holder [] revision, s)
               else (CancelRefused ''not_found'' keys holder revision, s)))"

definition apply_lock_cancel :: "(string \<Rightarrow> string) \<Rightarrow> string \<Rightarrow> u64 \<Rightarrow> u64 \<Rightarrow> string list \<Rightarrow> string \<Rightarrow>
    string option \<Rightarrow> lock_store \<Rightarrow> lock_response \<times> lock_store" where
  "apply_lock_cancel sha256 delim revision now keys0 holder request_id s =
     (let keys = canonical_keys keys0 in
      case request_id of None \<Rightarrow> lock_cancel_queued revision now keys holder None s
      | Some rid \<Rightarrow>
          (case find_grant (\<lambda>g. lg_holder g = holder \<and> lg_keys g = keys \<and>
                lg_request_id g = Some rid) (ls_locks s) of
             Some g \<Rightarrow> (CancelRaced keys holder (lg_fencing_token g) (lg_lease_expires_ms g) revision, s)
           | None \<Rightarrow>
               (case remember (acquisition_identity sha256 ''lock'' holder keys rid)
                   (cancellation_tenant sha256 delim holder) now (ls_cancellations s) of
                  (CapacityExceeded, l) \<Rightarrow> (CancelRefused ''cancellation_capacity'' keys holder revision,
                    s\<lparr>ls_cancellations := l\<rparr>)
                | (Remembered, l) \<Rightarrow>
                    lock_cancel_queued revision now keys holder (Some rid) (s\<lparr>ls_cancellations := l\<rparr>))))"

subsection \<open>The lock part of \<open>expire_due\<close>\<close>

text \<open>Waiters whose patience lapsed leave first, then grants whose lease lapsed are released, then
  the queue is promoted. Releasing one grant does not touch the keys of another, so the order in
  which the \<open>HashMap\<close> yields the lapsed grants is not observable; the model takes token order.\<close>

definition lock_expire_waiters :: "u64 \<Rightarrow> lock_manager \<Rightarrow> lock_manager" where
  "lock_expire_waiters now m = m\<lparr>lm_queue :=
     fold (\<lambda>lid q. snd (fifo_remove lid q))
       (map fst (filter (\<lambda>(_, w). \<not> waiter_is_live (ql_wait_expires_ms w) now) (lm_queue m)))
       (lm_queue m)\<rparr>"

definition lock_expire_grants :: "u64 \<Rightarrow> lock_manager \<Rightarrow> lock_manager" where
  "lock_expire_grants now m =
     fold release_grant
       (map fst (filter (\<lambda>(_, g). lg_lease_expires_ms g \<le> now) (entries (lm_grants m)))) m"

definition lock_expire_due :: "u64 \<Rightarrow> lock_store \<Rightarrow> lock_store" where
  "lock_expire_due now s = snd (lock_promote now (s\<lparr>
     ls_cancellations := ledger_expire now (ls_cancellations s),
     ls_locks := lock_expire_grants now (lock_expire_waiters now (ls_locks s))\<rparr>))"

subsection \<open>Commands\<close>

text \<open>The lock commands of the \<open>Command\<close> enum and their arms in \<open>apply_at\<close>.\<close>

datatype lock_command =
    LockAcquire "string list" string u64 bool "u64 option"
      \<comment> \<open>keys, holder, \<open>ttl_ms\<close>, wait, \<open>wait_timeout_ms\<close>\<close>
  | LockAcquireV2 "string list" string u64 bool "u64 option"
  | LockAcquireAttempt "string list" string string u64 bool "u64 option"
      \<comment> \<open>keys, holder, \<open>request_id\<close>, \<open>ttl_ms\<close>, wait, \<open>wait_timeout_ms\<close>\<close>
  | LockRenew "string list" string u64 u64
  | LockRelease string u64
  | LockCancel "string list" string
  | LockCancelAttempt "string list" string string

fun apply_lock :: "(string \<Rightarrow> string) \<Rightarrow> string \<Rightarrow> u64 \<Rightarrow> u64 \<Rightarrow> lock_command \<Rightarrow> lock_store \<Rightarrow>
    lock_response \<times> lock_store" where
  "apply_lock sha256 delim revision now (LockAcquire keys holder ttl_ms wait wait_timeout_ms) s =
     apply_lock_acquire sha256 revision now
       \<lparr>li_keys = keys, li_holder = holder, li_ttl_ms = ttl_ms, li_wait = wait,
        li_wait_timeout_ms = wait_timeout_ms, li_request_id = None, li_legacy_semantics = True\<rparr> s"
| "apply_lock sha256 delim revision now (LockAcquireV2 keys holder ttl_ms wait wait_timeout_ms) s =
     apply_lock_acquire sha256 revision now
       \<lparr>li_keys = keys, li_holder = holder, li_ttl_ms = ttl_ms, li_wait = wait,
        li_wait_timeout_ms = wait_timeout_ms, li_request_id = None, li_legacy_semantics = False\<rparr> s"
| "apply_lock sha256 delim revision now (LockAcquireAttempt keys holder request_id ttl_ms wait wait_timeout_ms) s =
     apply_lock_acquire sha256 revision now
       \<lparr>li_keys = keys, li_holder = holder, li_ttl_ms = ttl_ms, li_wait = wait,
        li_wait_timeout_ms = wait_timeout_ms, li_request_id = Some request_id,
        li_legacy_semantics = False\<rparr> s"
| "apply_lock sha256 delim revision now (LockRenew keys holder fencing_token ttl_ms) s =
     apply_lock_renew revision now keys holder fencing_token ttl_ms s"
| "apply_lock sha256 delim revision now (LockRelease holder fencing_token) s =
     apply_lock_release revision now holder fencing_token s"
| "apply_lock sha256 delim revision now (LockCancel keys holder) s =
     apply_lock_cancel sha256 delim revision now keys holder None s"
| "apply_lock sha256 delim revision now (LockCancelAttempt keys holder request_id) s =
     apply_lock_cancel sha256 delim revision now keys holder (Some request_id) s"

subsection \<open>Read views\<close>

record lock_waiter =
  lw_holder :: string
  lw_keys :: "string list"
  lw_requested_ms :: u64
  lw_wait_expires_ms :: "u64 option"

record lock_state =
  lk_key :: string
  lk_holder :: "string option"
  lk_fencing_token :: "u64 option"
  lk_lease_expires_ms :: "u64 option"
  lk_held_keys :: "string list"
  lk_wait_queue :: "lock_waiter list"

record lock_holding =
  lh_holder :: string
  lh_keys :: "string list"
  lh_fencing_token :: u64
  lh_lease_expires_ms :: u64

record lock_inventory =
  inv_held :: "lock_holding list"
  inv_wait_queue :: "lock_waiter list"

definition queued_view :: "queued_lock \<Rightarrow> lock_waiter" where
  "queued_view q = \<lparr>lw_holder = ql_holder q, lw_keys = ql_keys q,
     lw_requested_ms = ql_requested_ms q, lw_wait_expires_ms = ql_wait_expires_ms q\<rparr>"

definition live_grant :: "u64 \<Rightarrow> string \<Rightarrow> lock_manager \<Rightarrow> lock_grant option" where
  "live_grant now key m = (case Option.bind (fmlookup (lm_held m) key) (fmlookup (lm_grants m)) of
     None \<Rightarrow> None | Some g \<Rightarrow> if lg_lease_expires_ms g > now then Some g else None)"

definition lock_snapshot_live_at :: "string \<Rightarrow> u64 \<Rightarrow> lock_manager \<Rightarrow> lock_state" where
  "lock_snapshot_live_at key now m =
     (let grant = live_grant now key m in
      \<lparr>lk_key = key,
       lk_holder = map_option lg_holder grant,
       lk_fencing_token = map_option lg_fencing_token grant,
       lk_lease_expires_ms = map_option lg_lease_expires_ms grant,
       lk_held_keys = (case grant of None \<Rightarrow> [] | Some g \<Rightarrow> lg_keys g),
       lk_wait_queue = map (\<lambda>(_, q). queued_view q)
         (filter (\<lambda>(_, q). waiter_is_live (ql_wait_expires_ms q) now \<and> list_ex (\<lambda>k. k = key) (ql_keys q))
           (lm_queue m))\<rparr>)"

definition lock_inventory_live_at :: "u64 \<Rightarrow> lock_manager \<Rightarrow> lock_inventory" where
  "lock_inventory_live_at now m =
     \<lparr>inv_held = sort_key lh_fencing_token
        (map (\<lambda>g. \<lparr>lh_holder = lg_holder g, lh_keys = lg_keys g,
            lh_fencing_token = lg_fencing_token g, lh_lease_expires_ms = lg_lease_expires_ms g\<rparr>)
          (filter (\<lambda>g. lg_lease_expires_ms g > now) (fmvalues (lm_grants m)))),
      inv_wait_queue = map (\<lambda>(_, q). queued_view q)
        (filter (\<lambda>(_, q). waiter_is_live (ql_wait_expires_ms q) now) (lm_queue m))\<rparr>"

end
