(* ===== verification/Locks.thy ===== *)
theory Locks
  imports Lock_Model
begin

section \<open>Correctness of the union locks\<close>

text \<open>
  \<open>lock_inv\<close> is the invariant of the lock table for a token counter \<open>c\<close>: \<open>held\<close> and \<open>grants\<close> are
  two views of the same relation, every grant is stored under its own positive token not above
  the counter, key sets are canonical and not empty, the queue is indexed by its own requests,
  and no attempt is both granted and queued. \<open>lock_settled\<close> says that promotion has run: no
  waiter could be granted, unless tokens are exhausted.
\<close>

subsection \<open>The invariant\<close>

definition keys_ok :: "string list \<Rightarrow> bool" where
  "keys_ok ks \<longleftrightarrow> ks \<noteq> [] \<and> canonical_keys ks = ks"

definition dual_index :: "lock_manager \<Rightarrow> bool" where
  "dual_index m \<longleftrightarrow> (\<forall>k t. fmlookup (lm_held m) k = Some t \<longleftrightarrow>
     (\<exists>g. fmlookup (lm_grants m) t = Some g \<and> k \<in> set (lg_keys g)))"

definition grants_ok :: "u64 \<Rightarrow> lock_manager \<Rightarrow> bool" where
  "grants_ok c m \<longleftrightarrow> (\<forall>t g. fmlookup (lm_grants m) t = Some g \<longrightarrow>
     lg_fencing_token g = t \<and> 0 < t \<and> t \<le> c \<and> keys_ok (lg_keys g))"

definition queue_ok :: "(lock_id, queued_lock) fifo \<Rightarrow> bool" where
  "queue_ok q \<longleftrightarrow> fifo_ok q \<and> (\<forall>(lid, w) \<in> set q. lid = (ql_holder w, ql_keys w) \<and> keys_ok (ql_keys w))"

definition same_attempt :: "lock_grant \<Rightarrow> queued_lock \<Rightarrow> bool" where
  "same_attempt g w \<longleftrightarrow> lg_holder g = ql_holder w \<and> lg_keys g = ql_keys w \<and> lg_request_id g = ql_request_id w"

definition not_both :: "lock_manager \<Rightarrow> bool" where
  "not_both m \<longleftrightarrow> (\<forall>t g lid w. fmlookup (lm_grants m) t = Some g \<longrightarrow> (lid, w) \<in> set (lm_queue m) \<longrightarrow>
     \<not> same_attempt g w)"

definition lock_inv :: "u64 \<Rightarrow> lock_manager \<Rightarrow> bool" where
  "lock_inv c m \<longleftrightarrow> dual_index m \<and> grants_ok c m \<and> queue_ok (lm_queue m) \<and> not_both m"

definition lock_settled :: "u64 \<Rightarrow> lock_manager \<Rightarrow> bool" where
  "lock_settled c m \<longleftrightarrow> lock_first_grantable m = None \<or> next_token c = None"

definition lock_store_ok :: "lock_store \<Rightarrow> bool" where
  "lock_store_ok s \<longleftrightarrow> lock_inv (ls_next_fencing_token s) (ls_locks s) \<and>
     ls_next_fencing_token s \<le> MAX_FENCING_TOKEN \<and> ledger_ok (ls_cancellations s)"

lemma lock_inv_new: "lock_inv c lock_manager_new"
  by (simp add: lock_inv_def lock_manager_new_def dual_index_def grants_ok_def queue_ok_def not_both_def)

lemma lock_settled_new: "lock_settled c lock_manager_new"
  by (simp add: lock_settled_def lock_manager_new_def lock_first_grantable_def)

lemma lock_inv_mono: "lock_inv c m \<Longrightarrow> c \<le> c' \<Longrightarrow> lock_inv c' m"
  by (fastforce simp: lock_inv_def grants_ok_def)

lemma lock_settled_mono: "lock_settled c m \<Longrightarrow> c \<le> c' \<Longrightarrow> lock_settled c' m"
  by (auto simp: lock_settled_def next_token_None)

lemma lock_inv_grantD:
  assumes "lock_inv c m" "fmlookup (lm_grants m) t = Some g"
  shows "lg_fencing_token g = t" "0 < t" "t \<le> c" "keys_ok (lg_keys g)"
  using assms by (auto simp: lock_inv_def grants_ok_def)

lemma lock_inv_held_iff:
  "lock_inv c m \<Longrightarrow> fmlookup (lm_held m) k = Some t \<longleftrightarrow>
     (\<exists>g. fmlookup (lm_grants m) t = Some g \<and> k \<in> set (lg_keys g))"
  by (simp add: lock_inv_def dual_index_def)

lemma lock_inv_exclusive:
  assumes "lock_inv c m" "fmlookup (lm_grants m) t = Some g" "fmlookup (lm_grants m) t' = Some g'"
    "k \<in> set (lg_keys g)" "k \<in> set (lg_keys g')"
  shows "t = t'"
  using lock_inv_held_iff [OF assms(1), of k t] lock_inv_held_iff [OF assms(1), of k t'] assms(2-)
  by auto

lemma lock_inv_queueD:
  assumes "lock_inv c m" "(lid, w) \<in> set (lm_queue m)"
  shows "lid = (ql_holder w, ql_keys w)" "keys_ok (ql_keys w)"
  using assms by (auto simp: lock_inv_def queue_ok_def)

lemma lock_inv_fifo_ok: "lock_inv c m \<Longrightarrow> fifo_ok (lm_queue m)"
  by (simp add: lock_inv_def queue_ok_def)

subsection \<open>Canonical keys\<close>

lemma set_canonical_keys: "set (canonical_keys ks) = {k \<in> set ks. k \<noteq> []}"
  by (simp add: canonical_keys_def)

lemma strict_sorted_remdups_adj: "sorted xs \<Longrightarrow> sorted_wrt (<) (remdups_adj (xs :: 'a::linorder list))"
  by (induction xs rule: remdups_adj.induct) (auto simp: order_less_le)

lemma sorted_distinct_canonical_keys: "sorted_wrt (<) (canonical_keys ks)"
  by (simp add: canonical_keys_def strict_sorted_remdups_adj)

lemma canonical_keys_idem: "canonical_keys (canonical_keys ks) = canonical_keys ks"
proof -
  have s: "sorted_wrt (<) (canonical_keys ks)" by (rule sorted_distinct_canonical_keys)
  have "filter (\<lambda>k. k \<noteq> []) (canonical_keys ks) = canonical_keys ks"
    by (simp add: filter_id_conv set_canonical_keys)
  then show ?thesis
    using s by (simp add: canonical_keys_def [of "canonical_keys ks"] strict_sorted_iff
        sorted_sort_id remdups_adj_distinct)
qed

lemma keys_ok_canonical: "canonical_keys ks \<noteq> [] \<Longrightarrow> keys_ok (canonical_keys ks)"
  by (simp add: keys_ok_def canonical_keys_idem)

subsection \<open>Installing and releasing grants\<close>

lemma held_fold_upd: "fmlookup (fold (\<lambda>key held. fmupd key t held) ks h) k =
    (if k \<in> set ks then Some t else fmlookup h k)"
  by (induction ks arbitrary: h) auto

lemma held_fold_drop:
  "fmlookup (fold (\<lambda>key held. if fmlookup held key = Some t then fmdrop key held else held) ks h) k =
    (if k \<in> set ks \<and> fmlookup h k = Some t then None else fmlookup h k)"
  by (induction ks arbitrary: h) auto

lemma install_grant_simps [simp]:
  "fmlookup (lm_held (install_grant g m)) k =
     (if k \<in> set (lg_keys g) then Some (lg_fencing_token g) else fmlookup (lm_held m) k)"
  "lm_grants (install_grant g m) = fmupd (lg_fencing_token g) g (lm_grants m)"
  "lm_queue (install_grant g m) = lm_queue m"
  by (simp_all add: install_grant_def held_fold_upd)

lemma release_grant_simps [simp]:
  "lm_grants (release_grant t m) = fmdrop t (lm_grants m)"
  "lm_queue (release_grant t m) = lm_queue m"
  by (auto simp: release_grant_def intro: fmap_ext split: option.split)

lemma release_grant_held:
  "fmlookup (lm_held (release_grant t m)) k = (if fmlookup (lm_held m) k = Some t \<and>
     (\<exists>g. fmlookup (lm_grants m) t = Some g \<and> k \<in> set (lg_keys g)) then None
     else fmlookup (lm_held m) k)"
  by (simp add: release_grant_def held_fold_drop split: option.split)

text \<open>A key set is free when no member key is held.\<close>

definition keys_free :: "string list \<Rightarrow> lock_manager \<Rightarrow> bool" where
  "keys_free ks m \<longleftrightarrow> (\<forall>k \<in> set ks. fmlookup (lm_held m) k = None)"

lemma lock_inv_install:
  assumes inv: "lock_inv c m" and t: "c < lg_fencing_token g" and ks: "keys_ok (lg_keys g)"
    and free: "keys_free (lg_keys g) m"
    and nb: "\<And>lid w. (lid, w) \<in> set (lm_queue m) \<Longrightarrow> \<not> same_attempt g w"
  shows "lock_inv (lg_fencing_token g) (install_grant g m)"
proof -
  let ?t = "lg_fencing_token g"
  have new: "fmlookup (lm_grants m) ?t = None"
    using lock_inv_grantD(3) [OF inv, of ?t] t by (cases "fmlookup (lm_grants m) ?t") auto
  have disj: "k \<notin> set (lg_keys g')" if "fmlookup (lm_grants m) t' = Some g'" "k \<in> set (lg_keys g)" for t' g' k
    using lock_inv_held_iff [OF inv, of k t'] free that by (auto simp: keys_free_def)
  have "dual_index (install_grant g m)"
    using lock_inv_held_iff [OF inv] new disj by (auto simp: dual_index_def)
  moreover have "grants_ok ?t (install_grant g m)"
    using lock_inv_grantD [OF inv] t ks order_le_less_trans [OF word_zero_le t]
    by (fastforce simp: grants_ok_def)
  moreover have "not_both (install_grant g m)"
    using inv nb by (auto simp: lock_inv_def not_both_def)
  ultimately show ?thesis using inv by (simp add: lock_inv_def)
qed

lemma lock_inv_release:
  assumes "lock_inv c m"
  shows "lock_inv c (release_grant t m)"
proof -
  have "dual_index (release_grant t m)"
    using lock_inv_held_iff [OF assms] lock_inv_exclusive [OF assms]
    by (auto simp: dual_index_def release_grant_held)
  then show ?thesis using assms by (auto simp: lock_inv_def grants_ok_def not_both_def)
qed

lemma lock_inv_queue:
  assumes "lock_inv c m"
  shows "lock_inv c (m\<lparr>lm_queue := filter P (lm_queue m)\<rparr>)"
  using assms by (auto simp: lock_inv_def dual_index_def grants_ok_def queue_ok_def not_both_def fifo_ok_filter)

lemma lock_inv_lease:
  assumes "lock_inv c m" "fmlookup (lm_grants m) t = Some g"
  shows "lock_inv c (m\<lparr>lm_grants := fmupd t (g\<lparr>lg_lease_expires_ms := l\<rparr>) (lm_grants m)\<rparr>)"
  using assms by (auto simp: lock_inv_def dual_index_def grants_ok_def not_both_def same_attempt_def)

subsection \<open>The scan for a grantable waiter\<close>

definition queue_keys :: "(lock_id, queued_lock) fifo \<Rightarrow> string set" where
  "queue_keys q = (\<Union>(_, w) \<in> set q. set (ql_keys w))"

lemma queue_keys_simps [simp]:
  "queue_keys [] = {}" "queue_keys ((lid, w) # q) = set (ql_keys w) \<union> queue_keys q"
  "queue_keys (p @ q) = queue_keys p \<union> queue_keys q"
  by (auto simp: queue_keys_def)

lemma queue_keys_member: "x \<in> set q \<Longrightarrow> set (ql_keys (snd x)) \<subseteq> queue_keys q"
  by (cases x) (auto simp: queue_keys_def)

lemma set_reserved_keys: "set (reserved_keys q) = queue_keys q"
  by (auto simp: reserved_keys_def queue_keys_def)

lemma first_grantable_from_Some:
  "first_grantable_from held res q = Some lid \<Longrightarrow> \<exists>pre w post. q = pre @ (lid, w) # post \<and>
     (\<forall>k \<in> set (ql_keys w). fmlookup held k = None \<and> k \<notin> res \<and> k \<notin> queue_keys pre)"
proof (induction held res q rule: first_grantable_from.induct)
  case (2 held res i q rest)
  show ?case
  proof (cases "list_ex (\<lambda>k. fmlookup held k \<noteq> None \<or> k \<in> res) (ql_keys q)")
    case True
    then obtain pre w post where "rest = pre @ (lid, w) # post"
      "\<forall>k \<in> set (ql_keys w). fmlookup held k = None \<and> k \<notin> res \<union> set (ql_keys q) \<and> k \<notin> queue_keys pre"
      using 2 by (auto split: if_splits)
    then show ?thesis by (intro exI [of _ "(i, q) # pre"] exI [of _ w] exI [of _ post]) auto
  next
    case False
    then show ?thesis using 2 by (intro exI [of _ "[]"]) (auto simp: list_ex_iff split: if_splits)
  qed
qed simp

lemma first_grantable_from_None:
  "first_grantable_from held res (pre @ (lid, w) # post) = None \<Longrightarrow>
     \<exists>k \<in> set (ql_keys w). fmlookup held k \<noteq> None \<or> k \<in> res \<or> k \<in> queue_keys pre"
proof (induction pre arbitrary: res)
  case Nil
  then show ?case by (auto simp: list_ex_iff split: if_splits)
next
  case (Cons x pre)
  obtain i q where x: "x = (i, q)" by fastforce
  then have "first_grantable_from held (res \<union> set (ql_keys q)) (pre @ (lid, w) # post) = None"
    using Cons.prems by (simp split: if_splits)
  then show ?case using Cons.IH [of "res \<union> set (ql_keys q)"] x by auto
qed

lemma first_grantable_from_mono:
  "first_grantable_from held res q = None \<Longrightarrow> (\<And>k. fmlookup held k \<noteq> None \<Longrightarrow> fmlookup held' k \<noteq> None) \<Longrightarrow>
     first_grantable_from held' res q = None"
proof (induction held res q rule: first_grantable_from.induct)
  case (2 held res i q rest)
  then have "list_ex (\<lambda>k. fmlookup held k \<noteq> None \<or> k \<in> res) (ql_keys q)"
    "first_grantable_from held (res \<union> set (ql_keys q)) rest = None"
    by (simp_all split: if_splits)
  moreover have "list_ex (\<lambda>k. fmlookup held' k \<noteq> None \<or> k \<in> res) (ql_keys q)"
    using calculation(1) "2.prems"(2) unfolding list_ex_iff by blast
  ultimately show ?case using "2.IH" "2.prems"(2) by simp
qed simp

lemma first_grantable_from_append:
  assumes "first_grantable_from held res q = None"
    "\<exists>k \<in> set (ql_keys w). fmlookup held k \<noteq> None \<or> k \<in> res \<or> k \<in> queue_keys q"
  shows "first_grantable_from held res (q @ [(lid, w)]) = None"
  using assms
proof (induction held res q rule: first_grantable_from.induct)
  case (1 held res)
  then show ?case by (auto simp: list_ex_iff)
next
  case (2 held res i q rest)
  then have "first_grantable_from held (res \<union> set (ql_keys q)) (rest @ [(lid, w)]) = None"
    by (auto split: if_splits)
  then show ?case using 2 by (simp split: if_splits)
qed

subsection \<open>Promotion\<close>

definition waiter_grant :: "u64 \<Rightarrow> u64 \<Rightarrow> queued_lock \<Rightarrow> lock_grant" where
  "waiter_grant now token w = \<lparr>lg_holder = ql_holder w, lg_keys = ql_keys w, lg_fencing_token = token,
     lg_lease_expires_ms = sat_add now (ql_ttl_ms w), lg_request_id = ql_request_id w\<rparr>"

definition promote_one :: "u64 \<Rightarrow> u64 \<Rightarrow> lock_id \<Rightarrow> queued_lock \<Rightarrow> lock_store \<Rightarrow> lock_store" where
  "promote_one now token lid w s = s\<lparr>ls_next_fencing_token := token,
     ls_locks := install_grant (waiter_grant now token w)
       ((ls_locks s)\<lparr>lm_queue := filter (\<lambda>(i, _). i \<noteq> lid) (lm_queue (ls_locks s))\<rparr>)\<rparr>"

definition promotion :: "u64 \<Rightarrow> u64 \<Rightarrow> queued_lock \<Rightarrow> lock_promotion" where
  "promotion now token w = \<lparr>lp_holder = ql_holder w, lp_keys = ql_keys w, lp_fencing_token = token,
     lp_lease_expires_ms = sat_add now (ql_ttl_ms w)\<rparr>"

lemma promote_one_token [simp]: "ls_next_fencing_token (promote_one now token lid w s) = token"
  by (simp add: promote_one_def)

lemma lock_first_grantableE:
  assumes inv: "lock_inv c m" and g: "lock_first_grantable m = Some lid"
  obtains pre w post where "lm_queue m = pre @ (lid, w) # post" "keys_free (ql_keys w) m"
    "set (ql_keys w) \<inter> queue_keys pre = {}" "fifo_remove lid (lm_queue m) = (Some w, pre @ post)"
    "filter (\<lambda>(i, _). i \<noteq> lid) (lm_queue m) = pre @ post"
proof -
  obtain pre w post where q: "lm_queue m = pre @ (lid, w) # post"
    and k: "\<forall>k \<in> set (ql_keys w). fmlookup (lm_held m) k = None \<and> k \<notin> queue_keys pre"
    using first_grantable_from_Some [of "lm_held m" "{}" "lm_queue m" lid] g
    by (auto simp: lock_first_grantable_def)
  have d: "lid \<notin> fst ` set pre" "lid \<notin> fst ` set post"
    using lock_inv_fifo_ok [OF inv] by (auto simp: q fifo_ok_def)
  have f: "filter (\<lambda>(i, _). i \<noteq> lid) xs = xs" if "lid \<notin> fst ` set xs" for xs :: "(lock_id, queued_lock) fifo"
    using that by (force simp: filter_id_conv)
  have "map_of (lm_queue m) lid = Some w"
    using d by (simp add: q map_add_def map_of_eq_None_iff [symmetric] split: option.split)
  then show thesis
    using that [OF q] k f d by (auto simp: q keys_free_def fifo_remove_def)
qed

lemma lock_promote_step:
  assumes inv: "lock_inv c (ls_locks s)" and "lock_first_grantable (ls_locks s) = Some lid"
    and "next_token (ls_next_fencing_token s) = Some token" and "fifo_get lid (lm_queue (ls_locks s)) = Some w"
  shows "lock_promote now s = (let (ps, s') = lock_promote now (promote_one now token lid w s)
    in (promotion now token w # ps, s'))"
  using assms(2-)
  by (subst lock_promote.simps)
    (simp add: fifo_get_def fifo_remove_def promote_one_def waiter_grant_def promotion_def Let_def)

lemma lock_promote_stop:
  assumes "lock_settled (ls_next_fencing_token s) (ls_locks s)"
  shows "lock_promote now s = ([], s)"
  using assms by (subst lock_promote.simps) (auto simp: lock_settled_def split: option.splits)

lemma promote_one_inv:
  assumes inv: "lock_inv (ls_next_fencing_token s) (ls_locks s)"
    and t: "next_token (ls_next_fencing_token s) = Some token"
    and q: "lm_queue (ls_locks s) = pre @ (lid, w) # post"
    and f: "keys_free (ql_keys w) (ls_locks s)"
  shows "lock_inv token (ls_locks (promote_one now token lid w s))"
proof -
  let ?m = "(ls_locks s)\<lparr>lm_queue := filter (\<lambda>(i, _). i \<noteq> lid) (lm_queue (ls_locks s))\<rparr>"
  have w: "lid = (ql_holder w, ql_keys w)" "keys_ok (ql_keys w)"
    using lock_inv_queueD [OF inv, of lid w] by (simp_all add: q)
  have "lock_inv (ls_next_fencing_token s) ?m" by (rule lock_inv_queue [OF inv])
  moreover have "\<not> same_attempt (waiter_grant now token w) w'" if "(i, w') \<in> set (lm_queue ?m)" for i w'
    using that w(1) lock_inv_queueD(1) [OF inv, of i w']
    by (auto simp: same_attempt_def waiter_grant_def)
  ultimately have "lock_inv (lg_fencing_token (waiter_grant now token w)) (install_grant (waiter_grant now token w) ?m)"
    using next_token_Some(1) [OF t] w(2) f
    by (intro lock_inv_install) (auto simp: waiter_grant_def keys_free_def)
  then show ?thesis by (simp add: promote_one_def waiter_grant_def)
qed

text \<open>Induction over the promotion loop: a property of \<open>(promoted, state)\<close> that holds when the loop
  ends and is carried by one promotion holds of the whole loop.\<close>

lemma lock_promote_induct [consumes 1, case_names stop step]:
  assumes inv: "lock_inv (ls_next_fencing_token s) (ls_locks s)"
    and stop: "\<And>s. lock_inv (ls_next_fencing_token s) (ls_locks s) \<Longrightarrow>
      lock_settled (ls_next_fencing_token s) (ls_locks s) \<Longrightarrow> P s [] s"
    and step: "\<And>s lid token pre w post ps s'.
      lock_inv (ls_next_fencing_token s) (ls_locks s) \<Longrightarrow> next_token (ls_next_fencing_token s) = Some token \<Longrightarrow>
      lm_queue (ls_locks s) = pre @ (lid, w) # post \<Longrightarrow> keys_free (ql_keys w) (ls_locks s) \<Longrightarrow>
      set (ql_keys w) \<inter> queue_keys pre = {} \<Longrightarrow>
      lm_queue (ls_locks (promote_one now token lid w s)) = pre @ post \<Longrightarrow>
      lock_inv token (ls_locks (promote_one now token lid w s)) \<Longrightarrow>
      lock_promote now (promote_one now token lid w s) = (ps, s') \<Longrightarrow>
      P (promote_one now token lid w s) ps s' \<Longrightarrow> P s (promotion now token w # ps) s'"
  shows "P s (fst (lock_promote now s)) (snd (lock_promote now s))"
  using inv
proof (induction "length (lm_queue (ls_locks s))" arbitrary: s rule: less_induct)
  case less
  show ?case
  proof (cases "lock_settled (ls_next_fencing_token s) (ls_locks s)")
    case True
    then show ?thesis using stop less.prems by (simp add: lock_promote_stop)
  next
    case False
    then obtain lid token where lid: "lock_first_grantable (ls_locks s) = Some lid"
      and token: "next_token (ls_next_fencing_token s) = Some token"
      by (auto simp: lock_settled_def)
    obtain pre w post where q: "lm_queue (ls_locks s) = pre @ (lid, w) # post"
      "keys_free (ql_keys w) (ls_locks s)" "set (ql_keys w) \<inter> queue_keys pre = {}"
      and rm: "fifo_remove lid (lm_queue (ls_locks s)) = (Some w, pre @ post)"
      "filter (\<lambda>(i, _). i \<noteq> lid) (lm_queue (ls_locks s)) = pre @ post"
      using lock_first_grantableE [OF less.prems lid] by metis
    let ?s = "promote_one now token lid w s"
    have q': "lm_queue (ls_locks ?s) = pre @ post"
      by (simp add: promote_one_def rm)
    have inv': "lock_inv token (ls_locks ?s)"
      using less.prems q rm token by (simp add: promote_one_inv)
    obtain ps s' where ps: "lock_promote now ?s = (ps, s')" by fastforce
    have "length (lm_queue (ls_locks ?s)) < length (lm_queue (ls_locks s))" by (simp add: q q')
    moreover have "ls_next_fencing_token ?s = token" by (simp add: promote_one_def)
    ultimately have "P ?s ps s'" using less.hyps [of ?s] inv' ps by simp
    then show ?thesis
      using step [OF less.prems token q q' inv' ps] ps
        lock_promote_step [OF less.prems lid token, of w now] rm by (simp add: fifo_get_def fifo_remove_def)
  qed
qed

lemma lock_promote_inv:
  assumes "lock_inv (ls_next_fencing_token s) (ls_locks s)" "lock_promote now s = (ps, s')"
  shows "lock_inv (ls_next_fencing_token s') (ls_locks s')"
    "lock_settled (ls_next_fencing_token s') (ls_locks s')"
    "ls_cancellations s' = ls_cancellations s"
proof -
  have "lock_inv (ls_next_fencing_token (snd (lock_promote now s))) (ls_locks (snd (lock_promote now s))) \<and>
      lock_settled (ls_next_fencing_token (snd (lock_promote now s))) (ls_locks (snd (lock_promote now s))) \<and>
      ls_cancellations (snd (lock_promote now s)) = ls_cancellations s"
    using assms(1) by (induction rule: lock_promote_induct [where now = now]) (auto simp: promote_one_def)
  then show "lock_inv (ls_next_fencing_token s') (ls_locks s')"
    "lock_settled (ls_next_fencing_token s') (ls_locks s')"
    "ls_cancellations s' = ls_cancellations s"
    using assms(2) by simp_all
qed

text \<open>The tokens that lock authority refers to.\<close>

definition lock_tokens :: "lock_store \<Rightarrow> u64 set" where
  "lock_tokens s = {t. fmlookup (lm_grants (ls_locks s)) t \<noteq> None}"

definition lock_fresh :: "lock_store \<Rightarrow> lock_store \<Rightarrow> bool" where
  "lock_fresh s s' \<longleftrightarrow> fresh_step (ls_next_fencing_token s) (lock_tokens s) (ls_next_fencing_token s') (lock_tokens s')"

lemma lock_fresh_trans: "lock_fresh s s1 \<Longrightarrow> lock_fresh s1 s2 \<Longrightarrow> lock_fresh s s2"
  by (auto simp: lock_fresh_def intro: fresh_step_trans)

lemma lock_fresh_same:
  "ls_next_fencing_token s' = ls_next_fencing_token s \<Longrightarrow> lock_tokens s' \<subseteq> lock_tokens s \<Longrightarrow> lock_fresh s s'"
  by (auto simp: lock_fresh_def)

lemma lock_fresh_retired:
  assumes "lock_fresh s s'" "fmlookup (lm_grants (ls_locks s)) t = None" "t \<le> ls_next_fencing_token s"
  shows "fmlookup (lm_grants (ls_locks s')) t = None"
proof (rule ccontr)
  assume "fmlookup (lm_grants (ls_locks s')) t \<noteq> None"
  then have "t \<in> lock_tokens s'" by (simp add: lock_tokens_def)
  then have "t \<in> lock_tokens s \<or> ls_next_fencing_token s < t"
    using assms(1) unfolding lock_fresh_def fresh_step_def by blast
  then show False using assms(2,3) by (auto simp: lock_tokens_def)
qed

lemma lock_fresh_mint:
  assumes "next_token (ls_next_fencing_token s) = Some t" "ls_next_fencing_token s' = t"
    "lock_tokens s' \<subseteq> insert t (lock_tokens s)"
  shows "lock_fresh s s'"
  using fresh_step_mint [OF assms(1,3)] assms(2) by (simp add: lock_fresh_def)

lemma lock_fresh_promote_one:
  "next_token (ls_next_fencing_token s) = Some token \<Longrightarrow> lock_fresh s (promote_one now token lid w s)"
  by (rule lock_fresh_mint) (auto simp: promote_one_def lock_tokens_def waiter_grant_def split: if_splits)

lemma lock_promote_fresh:
  assumes "lock_inv (ls_next_fencing_token s) (ls_locks s)" "lock_promote now s = (ps, s')"
  shows "lock_fresh s s'"
proof -
  have "lock_fresh s (snd (lock_promote now s))"
    using assms(1)
    by (induction rule: lock_promote_induct [where now = now])
      (auto intro: lock_fresh_same lock_fresh_trans lock_fresh_promote_one)
  then show ?thesis using assms(2) by simp
qed

text \<open>Promotion keeps every existing grant.\<close>

lemma lock_promote_keeps_grants:
  assumes "lock_inv (ls_next_fencing_token s) (ls_locks s)" "lock_promote now s = (ps, s')"
    "fmlookup (lm_grants (ls_locks s)) t = Some g"
  shows "fmlookup (lm_grants (ls_locks s')) t = Some g"
proof -
  have "fmlookup (lm_grants (ls_locks s)) t = Some g \<longrightarrow>
      fmlookup (lm_grants (ls_locks (snd (lock_promote now s)))) t = Some g"
    using assms(1)
  proof (induction rule: lock_promote_induct [where now = now])
    case (step s lid token pre w post ps s')
    have "t \<noteq> token" if "fmlookup (lm_grants (ls_locks s)) t = Some g"
      using lock_inv_grantD(3) [OF step(1) that] next_token_Some(1) [OF step(2)] by auto
    then show ?case using step by (auto simp: promote_one_def waiter_grant_def)
  qed simp
  then show ?thesis using assms(2,3) by simp
qed

subsection \<open>First come, first served\<close>

definition ahead :: "'a list \<Rightarrow> 'a \<Rightarrow> 'a \<Rightarrow> bool" where
  "ahead q x y \<longleftrightarrow> (\<exists>a b c. q = a @ x # b @ y # c)"

lemma aheadI: "ahead (a @ x # b @ y # c) x y"
  unfolding ahead_def by blast

lemma ahead_filter:
  assumes "ahead q x y" "P x" "P y"
  shows "ahead (filter P q) x y"
proof -
  obtain a b c where "q = a @ x # b @ y # c" using assms(1) by (auto simp: ahead_def)
  then have "filter P q = filter P a @ x # filter P b @ y # filter P c" using assms by simp
  then show ?thesis unfolding ahead_def by blast
qed

lemma ahead_before:
  assumes "distinct (p @ y # r)" "ahead (p @ y # r) x y"
  shows "x \<in> set p"
proof -
  obtain a b c where eq: "p @ y # r = (a @ x # b) @ y # c" using assms(2) by (auto simp: ahead_def)
  have "y \<notin> set p" "y \<notin> set r" using assms(1) by simp_all
  then have "p = a @ x # b" using append_Cons_eq_iff [of y p r "a @ x # b" c] eq by simp
  then show ?thesis by simp
qed

lemma filter_remove_absent: "y \<notin> set q \<Longrightarrow> filter (\<lambda>z. z \<noteq> y) q = q"
  by (auto simp: filter_id_conv)

lemma fifo_ok_distinct: "fifo_ok q \<Longrightarrow> distinct q"
  by (auto simp: fifo_ok_def distinct_map)

lemma lock_promote_queue:
  assumes "lock_inv (ls_next_fencing_token s) (ls_locks s)" "lock_promote now s = (ps, s')"
  shows "set (lm_queue (ls_locks s')) \<subseteq> set (lm_queue (ls_locks s))"
proof -
  have "set (lm_queue (ls_locks (snd (lock_promote now s)))) \<subseteq> set (lm_queue (ls_locks s))"
    using assms(1) by (induction rule: lock_promote_induct [where now = now]) auto
  then show ?thesis using assms(2) by simp
qed

lemma lock_promote_no_barging:
  assumes "lock_inv (ls_next_fencing_token s) (ls_locks s)" "lock_promote now s = (ps, s')"
    and "ahead (lm_queue (ls_locks s)) x y" "x \<in> set (lm_queue (ls_locks s'))" "y \<notin> set (lm_queue (ls_locks s'))"
  shows "set (ql_keys (snd x)) \<inter> set (ql_keys (snd y)) = {}"
proof -
  have "ahead (lm_queue (ls_locks s)) x y \<longrightarrow> x \<in> set (lm_queue (ls_locks (snd (lock_promote now s)))) \<longrightarrow>
      y \<notin> set (lm_queue (ls_locks (snd (lock_promote now s)))) \<longrightarrow>
      set (ql_keys (snd x)) \<inter> set (ql_keys (snd y)) = {}"
    using assms(1)
  proof (induction rule: lock_promote_induct [where now = now])
    case (stop s)
    then show ?case by (auto simp: ahead_def)
  next
    case (step s lid token pre w post ps s')
    let ?q = "lm_queue (ls_locks s)"
    have d: "distinct ?q" by (intro fifo_ok_distinct lock_inv_fifo_ok [OF step(1)])
    have rest: "pre @ post = filter (\<lambda>z. z \<noteq> (lid, w)) ?q"
      using d step(3) by (simp add: filter_remove_absent)
    have sub: "set (lm_queue (ls_locks s')) \<subseteq> set (pre @ post)"
      using lock_promote_queue [OF _ step(8)] step(6,7) by simp
    show ?case
    proof (intro impI)
      assume a: "ahead ?q x y" and x: "x \<in> set (lm_queue (ls_locks s'))" and y: "y \<notin> set (lm_queue (ls_locks s'))"
      have xr: "x \<noteq> (lid, w)" using x sub rest by auto
      show "set (ql_keys (snd x)) \<inter> set (ql_keys (snd y)) = {}"
      proof (cases "y = (lid, w)")
        case True
        then have "x \<in> set pre" using ahead_before [of pre y post x] d a step(3) by simp
        then have "set (ql_keys (snd x)) \<subseteq> queue_keys pre" by (rule queue_keys_member)
        then show ?thesis using step(5) True by auto
      next
        case False
        then have "ahead (pre @ post) x y" using ahead_filter [OF a] xr rest by simp
        then show ?thesis using step(9) x y step(6) by simp
      qed
    qed
  qed
  then show ?thesis using assms(2-) by simp
qed

subsection \<open>Every handler keeps the invariant\<close>

lemma set_lease_simps [simp]:
  "ls_next_fencing_token (set_lease t l s) = ls_next_fencing_token s"
  "ls_cancellations (set_lease t l s) = ls_cancellations s"
  "lm_held (ls_locks (set_lease t l s)) = lm_held (ls_locks s)"
  "lm_queue (ls_locks (set_lease t l s)) = lm_queue (ls_locks s)"
  "lock_tokens (set_lease t l s) = lock_tokens s"
  by (auto simp: set_lease_def lock_tokens_def split: option.split)

lemma set_lease_lookup:
  "fmlookup (lm_grants (ls_locks (set_lease t l s))) t' = (if t' = t
     then map_option (\<lambda>g. g\<lparr>lg_lease_expires_ms := l\<rparr>) (fmlookup (lm_grants (ls_locks s)) t)
     else fmlookup (lm_grants (ls_locks s)) t')"
  by (auto simp: set_lease_def split: option.split)

lemma lock_store_ok_set_lease: "lock_store_ok s \<Longrightarrow> lock_store_ok (set_lease t l s)"
  by (auto simp: lock_store_ok_def set_lease_def lock_inv_lease split: option.split)

lemma lock_settled_cong:
  "lm_held m' = lm_held m \<Longrightarrow> lm_queue m' = lm_queue m \<Longrightarrow> lock_settled c m' = lock_settled c m"
  by (simp add: lock_settled_def lock_first_grantable_def)

definition lock_store_settled :: "lock_store \<Rightarrow> bool" where
  "lock_store_settled s \<longleftrightarrow> lock_settled (ls_next_fencing_token s) (ls_locks s)"

text \<open>What every handler promises: the invariant, the settled queue and fresh tokens.\<close>

definition lock_step_ok :: "lock_store \<Rightarrow> lock_store \<Rightarrow> bool" where
  "lock_step_ok s s' \<longleftrightarrow> lock_store_ok s' \<and> (lock_store_settled s \<longrightarrow> lock_store_settled s') \<and> lock_fresh s s'"

lemma lock_step_ok_refl: "lock_store_ok s \<Longrightarrow> lock_step_ok s s"
  by (simp add: lock_step_ok_def lock_fresh_same)

lemma lock_step_ok_lease: "lock_store_ok s \<Longrightarrow> lock_step_ok s (set_lease t l s)"
  by (simp add: lock_step_ok_def lock_store_ok_set_lease lock_fresh_same lock_store_settled_def
      lock_settled_cong [of "ls_locks (set_lease t l s)" "ls_locks s"])

lemma lock_step_ok_promote:
  assumes inv: "lock_store_ok s0" and fresh: "lock_fresh s s0" and p: "lock_promote now s0 = (ps, s')"
  shows "lock_step_ok s s'" "lock_store_settled s'"
proof -
  have i: "lock_inv (ls_next_fencing_token s0) (ls_locks s0)" using inv by (simp add: lock_store_ok_def)
  note r = lock_promote_inv [OF i p] lock_promote_fresh [OF i p]
  have "ls_next_fencing_token s' \<le> MAX_FENCING_TOKEN"
    using r(4) inv by (auto simp: lock_fresh_def fresh_step_def lock_store_ok_def le_max_iff_disj)
  then show "lock_step_ok s s'" "lock_store_settled s'"
    using inv r lock_fresh_trans [OF fresh r(4)]
    by (simp_all add: lock_step_ok_def lock_store_ok_def lock_store_settled_def)
qed

lemma reacquired_grant_None:
  assumes inv: "lock_inv c m" and ks: "keys \<noteq> []"
    and none: "reacquired_grant input keys m = None" and g: "fmlookup (lm_grants m) t = Some g"
  shows "\<not> (lg_holder g = li_holder input \<and> lg_keys g = keys \<and> lg_request_id g = li_request_id input)"
proof
  assume "lg_holder g = li_holder input \<and> lg_keys g = keys \<and> lg_request_id g = li_request_id input"
  moreover have "fmlookup (lm_held m) (hd keys) = Some t"
    using lock_inv_held_iff [OF inv, of "hd keys" t] g calculation ks by auto
  ultimately show False using none g by (simp add: reacquired_grant_def)
qed

lemma lock_enqueue_ok:
  assumes ok: "lock_store_ok s" and ks: "keys_ok keys"
    and none: "reacquired_grant input keys (ls_locks s) = None"
    and blocked: "\<not> lock_grantable keys (ls_locks s)"
    and r: "lock_enqueue revision now input keys s = (r, s')"
  shows "lock_step_ok s s'"
proof -
  let ?m = "ls_locks s" and ?q = "lm_queue (ls_locks s)" and ?lid = "(li_holder input, keys)"
  have inv: "lock_inv (ls_next_fencing_token s) ?m" using ok by (simp add: lock_store_ok_def)
  consider "s' = s" | w where "s' = s\<lparr>ls_locks := ?m\<lparr>lm_queue := ?q @ [(?lid, w)]\<rparr>\<rparr>"
    "\<not> fifo_contains ?lid ?q" "ql_holder w = li_holder input" "ql_keys w = keys" "ql_request_id w = li_request_id input"
    using r by (fastforce simp: lock_enqueue_def Let_def fifo_push_back_def split: if_splits option.splits)
  then show ?thesis
  proof cases
    case 1
    then show ?thesis using lock_step_ok_refl [OF ok] by simp
  next
    case w: 2
    have nb: "\<not> same_attempt g w" if "fmlookup (lm_grants ?m) t = Some g" for t g
      using reacquired_grant_None [OF inv _ none that] ks w(3-5) by (auto simp: same_attempt_def keys_ok_def)
    have "lock_inv (ls_next_fencing_token s) (?m\<lparr>lm_queue := ?q @ [(?lid, w)]\<rparr>)"
      using inv w(2-4) ks nb
      by (auto simp: lock_inv_def dual_index_def grants_ok_def queue_ok_def not_both_def fifo_ok_def fifo_contains_def)
    moreover have "\<exists>k \<in> set (ql_keys w). fmlookup (lm_held ?m) k \<noteq> None \<or> k \<in> {} \<or> k \<in> queue_keys ?q"
      using blocked w(4) by (auto simp: lock_grantable_def list_ex_iff set_reserved_keys)
    then have "lock_store_settled s \<longrightarrow> lock_store_settled s'"
      using first_grantable_from_append [of "lm_held ?m" "{}" ?q w ?lid]
      by (auto simp: w(1) lock_store_settled_def lock_settled_def lock_first_grantable_def)
    moreover have "lock_fresh s s'" by (rule lock_fresh_same) (simp_all add: w(1) lock_tokens_def)
    ultimately show ?thesis using ok by (simp add: lock_step_ok_def lock_store_ok_def w(1))
  qed
qed

lemma lock_acquire_grant_ok:
  assumes ok: "lock_store_ok s" and g: "lock_grantable (lg_keys g) (ls_locks s)" "keys_ok (lg_keys g)"
    and t: "next_token (ls_next_fencing_token s) = Some (lg_fencing_token g)"
  shows "lock_step_ok s (s\<lparr>ls_next_fencing_token := lg_fencing_token g, ls_locks := install_grant g (ls_locks s)\<rparr>)"
    (is "lock_step_ok s ?s")
proof -
  let ?m = "ls_locks s"
  have inv: "lock_inv (ls_next_fencing_token s) ?m" using ok by (simp add: lock_store_ok_def)
  have free: "keys_free (lg_keys g) ?m" using g(1) by (auto simp: lock_grantable_def keys_free_def list_ex_iff)
  have "\<not> same_attempt g w" if "(lid, w) \<in> set (lm_queue ?m)" for lid w
    using queue_keys_member [OF that] g by (auto simp: same_attempt_def lock_grantable_def list_ex_iff
        set_reserved_keys keys_ok_def neq_Nil_conv)
  then have "lock_inv (lg_fencing_token g) (install_grant g ?m)"
    using next_token_Some(1) [OF t] inv g(2) free by (intro lock_inv_install) auto
  moreover have "lock_store_settled s \<longrightarrow> lock_store_settled ?s"
    using t first_grantable_from_mono [of "lm_held ?m" "{}" "lm_queue ?m" "lm_held (install_grant g ?m)"]
    by (auto simp: lock_store_settled_def lock_settled_def lock_first_grantable_def)
  moreover have "lock_fresh s ?s" using t by (rule lock_fresh_mint) (auto simp: lock_tokens_def)
  ultimately show ?thesis
    using ok next_token_Some(2) [OF t] by (simp add: lock_step_ok_def lock_store_ok_def)
qed

lemma apply_lock_acquire_ok:
  assumes ok: "lock_store_ok s"
  shows "lock_step_ok s (snd (apply_lock_acquire sha256 revision now input s))"
proof -
  let ?ks = "canonical_keys (li_keys input)" and ?m = "ls_locks s"
  have grant: "lock_step_ok s (s\<lparr>ls_next_fencing_token := t, ls_locks := install_grant
        \<lparr>lg_holder = h, lg_keys = ?ks, lg_fencing_token = t, lg_lease_expires_ms = l, lg_request_id = rid\<rparr> ?m\<rparr>)"
    if "?ks \<noteq> []" "lock_grantable ?ks ?m" "next_token (ls_next_fencing_token s) = Some t" for t h l rid
    using lock_acquire_grant_ok [OF ok, of "\<lparr>lg_holder = h, lg_keys = ?ks, lg_fencing_token = t,
        lg_lease_expires_ms = l, lg_request_id = rid\<rparr>"] that keys_ok_canonical by simp
  have enqueue: "lock_step_ok s (snd (lock_enqueue revision now input ?ks s))"
    if "?ks \<noteq> []" "reacquired_grant input ?ks ?m = None" "\<not> lock_grantable ?ks ?m"
    using lock_enqueue_ok [OF ok keys_ok_canonical [OF that(1)] that(2,3) prod.collapse [symmetric]] .
  show ?thesis
    by (simp add: apply_lock_acquire_def Let_def lock_step_ok_refl [OF ok] lock_step_ok_lease [OF ok]
        grant enqueue split: option.split)
qed

lemma apply_lock_renew_ok:
  assumes ok: "lock_store_ok s"
  shows "lock_step_ok s (snd (apply_lock_renew revision now keys holder token ttl s))"
  by (simp add: apply_lock_renew_def Let_def lock_step_ok_refl [OF ok] lock_step_ok_lease [OF ok]
      split: option.split)

lemma lock_store_ok_release:
  assumes ok: "lock_store_ok s"
  shows "lock_store_ok (s\<lparr>ls_locks := release_grant t (ls_locks s)\<rparr>)"
    "lock_fresh s (s\<lparr>ls_locks := release_grant t (ls_locks s)\<rparr>)"
  using ok by (auto simp: lock_store_ok_def lock_inv_release lock_tokens_def intro!: lock_fresh_same
      split: if_splits)

lemma lock_store_ok_filter:
  assumes ok: "lock_store_ok s"
  shows "lock_store_ok (s\<lparr>ls_locks := (ls_locks s)\<lparr>lm_queue := filter P (lm_queue (ls_locks s))\<rparr>\<rparr>)"
    "lock_fresh s (s\<lparr>ls_locks := (ls_locks s)\<lparr>lm_queue := filter P (lm_queue (ls_locks s))\<rparr>\<rparr>)"
  using ok by (auto simp: lock_store_ok_def lock_inv_queue lock_tokens_def intro!: lock_fresh_same)

lemma apply_lock_release_ok:
  assumes ok: "lock_store_ok s"
  shows "lock_step_ok s (snd (apply_lock_release revision now holder token s))"
  using lock_step_ok_promote(1) [OF lock_store_ok_release [OF ok] prod.collapse [symmetric]]
  by (simp add: apply_lock_release_def Let_def lock_step_ok_refl [OF ok] case_prod_unfold split: option.split)

lemma lock_cancel_queued_ok:
  assumes ok: "lock_store_ok s"
  shows "lock_step_ok s (snd (lock_cancel_queued revision now keys holder rid s))"
  using lock_step_ok_promote(1) [OF lock_store_ok_filter [OF ok] prod.collapse [symmetric]]
  by (simp add: lock_cancel_queued_def Let_def fifo_remove_def lock_step_ok_refl [OF ok] case_prod_unfold
      split: option.split)

lemma lock_step_ok_ledger:
  assumes ok: "lock_store_ok s" and "ledger_ok l"
    and "lock_step_ok (s\<lparr>ls_cancellations := l\<rparr>) s'"
  shows "lock_step_ok s s'"
  using assms by (simp add: lock_step_ok_def lock_store_settled_def lock_fresh_def lock_tokens_def)

lemma apply_lock_cancel_ok:
  assumes ok: "lock_store_ok s"
  shows "lock_step_ok s (snd (apply_lock_cancel sha256 delim revision now keys holder rid s))"
proof -
  have led: "lock_step_ok s (s\<lparr>ls_cancellations := l\<rparr>)"
      "lock_step_ok s (snd (lock_cancel_queued revision now ks holder r (s\<lparr>ls_cancellations := l\<rparr>)))"
    if "remember i t now (ls_cancellations s) = (x, l)" for i t x l ks r
  proof -
    have l: "ledger_ok l" using ok ledger_ok_remember [OF _ that] by (simp add: lock_store_ok_def)
    then have "lock_store_ok (s\<lparr>ls_cancellations := l\<rparr>)" using ok by (simp add: lock_store_ok_def)
    then show "lock_step_ok s (s\<lparr>ls_cancellations := l\<rparr>)"
      "lock_step_ok s (snd (lock_cancel_queued revision now ks holder r (s\<lparr>ls_cancellations := l\<rparr>)))"
      using lock_step_ok_ledger [OF ok l] lock_step_ok_refl lock_cancel_queued_ok by blast+
  qed
  show ?thesis
    by (simp add: apply_lock_cancel_def Let_def lock_step_ok_refl [OF ok] lock_cancel_queued_ok [OF ok] led
        split: option.split prod.split remember_cancellation.split)
qed

theorem apply_lock_ok:
  assumes ok: "lock_store_ok s"
  shows "lock_step_ok s (snd (apply_lock sha256 delim revision now cmd s))"
  by (cases cmd) (simp_all add: ok apply_lock_acquire_ok apply_lock_renew_ok apply_lock_release_ok apply_lock_cancel_ok)

subsection \<open>The expiry sweep\<close>

lemma lock_expire_waiters_queue:
  assumes "fifo_ok (lm_queue m)"
  shows "lock_expire_waiters now m =
    m\<lparr>lm_queue := filter (\<lambda>(_, w). waiter_is_live (ql_wait_expires_ms w) now) (lm_queue m)\<rparr>"
  using fifo_sweep [OF assms, of "\<lambda>w. waiter_is_live (ql_wait_expires_ms w) now"]
  by (simp add: lock_expire_waiters_def)

lemma fold_release_grants:
  "lm_grants (fold release_grant ts m) = fmretain (\<lambda>t _. t \<notin> set ts) (lm_grants m)"
  "lm_queue (fold release_grant ts m) = lm_queue m"
  "lock_inv c m \<Longrightarrow> lock_inv c (fold release_grant ts m)"
  by (induction ts arbitrary: m)
    (auto simp: fmretain_True fmdrop_retain lock_inv_release intro!: fmretain_cong)

lemma lock_expire_grants_simps [simp]:
  "lm_grants (lock_expire_grants now m) = fmretain (\<lambda>_ g. now < lg_lease_expires_ms g) (lm_grants m)"
  "lm_queue (lock_expire_grants now m) = lm_queue m"
  "lock_inv c m \<Longrightarrow> lock_inv c (lock_expire_grants now m)"
proof -
  show "lm_grants (lock_expire_grants now m) = fmretain (\<lambda>_ g. now < lg_lease_expires_ms g) (lm_grants m)"
    unfolding lock_expire_grants_def fold_release_grants
    by (rule fmretain_cong) (force simp: entries_iff)
qed (simp_all add: lock_expire_grants_def fold_release_grants)

definition lock_swept :: "u64 \<Rightarrow> lock_store \<Rightarrow> lock_store" where
  "lock_swept now s = s\<lparr>ls_cancellations := ledger_expire now (ls_cancellations s),
     ls_locks := lock_expire_grants now (lock_expire_waiters now (ls_locks s))\<rparr>"

lemma lock_swept_ok:
  assumes ok: "lock_store_ok s"
  shows "lock_store_ok (lock_swept now s)" "lock_fresh s (lock_swept now s)"
proof -
  have inv: "lock_inv (ls_next_fencing_token s) (ls_locks s)" using ok by (simp add: lock_store_ok_def)
  have "lock_inv (ls_next_fencing_token s) (lock_expire_waiters now (ls_locks s))"
    using lock_inv_queue [OF inv] by (simp add: lock_expire_waiters_queue [OF lock_inv_fifo_ok [OF inv]])
  then show "lock_store_ok (lock_swept now s)"
    using ok by (simp add: lock_store_ok_def lock_swept_def ledger_ok_expire)
  show "lock_fresh s (lock_swept now s)"
    by (rule lock_fresh_same)
      (auto simp: lock_swept_def lock_tokens_def lock_expire_waiters_def split: option.splits if_splits)
qed

theorem lock_expire_due_ok:
  assumes ok: "lock_store_ok s"
  shows "lock_step_ok s (lock_expire_due now s)" "lock_store_settled (lock_expire_due now s)"
  using lock_step_ok_promote [OF lock_swept_ok [OF ok, of now] prod.collapse [symmetric], of now]
  by (simp_all add: lock_expire_due_def lock_swept_def [symmetric])

text \<open>A grant survives the sweep exactly when its lease is still running.\<close>

lemma lock_expire_due_grants:
  assumes ok: "lock_store_ok s" and g: "fmlookup (lm_grants (ls_locks s)) t = Some g"
  shows "now < lg_lease_expires_ms g \<Longrightarrow> fmlookup (lm_grants (ls_locks (lock_expire_due now s))) t = Some g"
    "lg_lease_expires_ms g \<le> now \<Longrightarrow> fmlookup (lm_grants (ls_locks (lock_expire_due now s))) t = None"
proof -
  have sw: "fmlookup (lm_grants (ls_locks (lock_swept now s))) t =
      (if now < lg_lease_expires_ms g then Some g else None)"
    using g by (simp add: lock_swept_def lock_expire_waiters_def)
  have ok': "lock_store_ok (lock_swept now s)" by (rule lock_swept_ok [OF ok])
  then have inv: "lock_inv (ls_next_fencing_token (lock_swept now s)) (ls_locks (lock_swept now s))"
    by (simp add: lock_store_ok_def)
  show "fmlookup (lm_grants (ls_locks (lock_expire_due now s))) t = Some g" if "now < lg_lease_expires_ms g"
    using lock_promote_keeps_grants [OF inv prod.collapse [symmetric]] sw that
    by (simp add: lock_expire_due_def lock_swept_def [symmetric])
  have fresh: "lock_fresh (lock_swept now s) (lock_expire_due now s)"
    using lock_promote_fresh [OF inv prod.collapse [symmetric], of now]
    by (simp add: lock_expire_due_def lock_swept_def [symmetric])
  have "t \<le> ls_next_fencing_token (lock_swept now s)"
    using lock_inv_grantD(3) [of "ls_next_fencing_token s" "ls_locks s" t g] ok g
    by (simp add: lock_store_ok_def lock_swept_def)
  then show "fmlookup (lm_grants (ls_locks (lock_expire_due now s))) t = None" if "lg_lease_expires_ms g \<le> now"
    using lock_fresh_retired [OF fresh] sw that by (simp add: not_less)
qed

subsection \<open>Live authority\<close>

text \<open>A later state keeps an authority when the grant is still there for the same holder, key set and
  attempt, and its lease has not been shortened.\<close>

definition keeps_authority :: "u64 \<Rightarrow> lock_store \<Rightarrow> lock_store \<Rightarrow> bool" where
  "keeps_authority t s s' \<longleftrightarrow> (\<forall>g. fmlookup (lm_grants (ls_locks s)) t = Some g \<longrightarrow>
     (\<exists>g'. fmlookup (lm_grants (ls_locks s')) t = Some g' \<and> lg_holder g' = lg_holder g \<and>
        lg_keys g' = lg_keys g \<and> lg_fencing_token g' = lg_fencing_token g \<and>
        lg_request_id g' = lg_request_id g \<and> lg_lease_expires_ms g \<le> lg_lease_expires_ms g'))"

lemma keeps_authority_same: "lm_grants (ls_locks s') = lm_grants (ls_locks s) \<Longrightarrow> keeps_authority t s s'"
  by (simp add: keeps_authority_def)

lemma keeps_authority_refl [simp]: "keeps_authority t s s"
  by (simp add: keeps_authority_same)

lemma keeps_authority_lease:
  "fmlookup (lm_grants (ls_locks s)) t' = Some g \<Longrightarrow> lg_lease_expires_ms g \<le> l \<Longrightarrow>
     keeps_authority t s (set_lease t' l s)"
  by (auto simp: keeps_authority_def set_lease_lookup)

lemma keeps_authority_promote:
  assumes "lock_store_ok s0" "lm_grants (ls_locks s0) = lm_grants (ls_locks s)"
  shows "keeps_authority t s (snd (lock_promote now s0))"
  using lock_promote_keeps_grants [of s0 now _ _ t, OF _ prod.collapse [symmetric]] assms
  by (auto simp: keeps_authority_def lock_store_ok_def)

lemma keeps_authority_acquire:
  assumes ok: "lock_store_ok s"
  shows "keeps_authority t s (snd (apply_lock_acquire sha256 revision now input s))"
proof -
  have lease: "keeps_authority t s (set_lease tok (max (lg_lease_expires_ms g) l) s)"
    if "reacquired_grant input ks (ls_locks s) = Some (tok, g)" for ks tok g l
    using that by (intro keeps_authority_lease [of _ _ g])
      (auto simp: reacquired_grant_def split: option.splits if_splits)
  have grant: "keeps_authority t s (s\<lparr>ls_next_fencing_token := lg_fencing_token g, ls_locks := install_grant g (ls_locks s)\<rparr>)"
    if "next_token (ls_next_fencing_token s) = Some (lg_fencing_token g)" for g
    using lock_inv_grantD(3) [of "ls_next_fencing_token s" "ls_locks s" t] ok next_token_Some(1) [OF that]
    by (auto simp: keeps_authority_def lock_store_ok_def)
  have enq: "keeps_authority t s (snd (lock_enqueue revision now input ks s))" for ks
    by (simp add: lock_enqueue_def Let_def keeps_authority_same)
  show ?thesis
    using grant [of "\<lparr>lg_holder = _, lg_keys = _, lg_fencing_token = _, lg_lease_expires_ms = _, lg_request_id = _\<rparr>"]
    by (simp add: apply_lock_acquire_def Let_def lease enq split: option.split)
qed

lemma keeps_authority_cancel_queued:
  "lock_store_ok s \<Longrightarrow> keeps_authority t s (snd (lock_cancel_queued revision now keys holder rid s))"
  by (simp add: lock_cancel_queued_def Let_def case_prod_unfold fifo_remove_def keeps_authority_promote
      lock_store_ok_filter split: option.split)

lemma keeps_authority_cancel:
  assumes ok: "lock_store_ok s"
  shows "keeps_authority t s (snd (apply_lock_cancel sha256 delim revision now keys holder rid s))"
proof -
  have "keeps_authority t s (snd (lock_cancel_queued revision now ks holder r (s\<lparr>ls_cancellations := l\<rparr>)))"
    if "remember i tn now (ls_cancellations s) = (x, l)" for i tn x l ks r
    using keeps_authority_cancel_queued [of "s\<lparr>ls_cancellations := l\<rparr>" t] ok
      ledger_ok_remember [OF _ that] by (simp add: keeps_authority_def lock_store_ok_def)
  then show ?thesis
    by (simp add: apply_lock_cancel_def Let_def keeps_authority_cancel_queued [OF ok] keeps_authority_same
        split: option.split prod.split remember_cancellation.split)
qed

lemma keeps_authority_release:
  assumes ok: "lock_store_ok s" and "token \<noteq> t"
  shows "keeps_authority t s (snd (apply_lock_release revision now holder token s))"
proof -
  let ?s = "s\<lparr>ls_locks := release_grant token (ls_locks s)\<rparr>"
  have "keeps_authority t ?s (snd (lock_promote now ?s))"
    by (rule keeps_authority_promote) (simp_all add: lock_store_ok_release ok)
  then have "keeps_authority t s (snd (lock_promote now ?s))"
    using assms(2) by (simp add: keeps_authority_def)
  then show ?thesis by (simp add: apply_lock_release_def Let_def case_prod_unfold split: option.split)
qed

lemma apply_lock_keeps_authority:
  assumes ok: "lock_store_ok s" and g: "fmlookup (lm_grants (ls_locks s)) t = Some g"
    and cmd: "cmd \<noteq> LockRelease (lg_holder g) t"
  shows "keeps_authority t s (snd (apply_lock sha256 delim revision now cmd s))"
proof (cases cmd)
  case (LockRelease holder token)
  then have "keeps_authority t s (snd (apply_lock_release revision now holder token s))"
    using cmd g keeps_authority_release [OF ok] by (cases "token = t") (auto simp: apply_lock_release_def)
  then show ?thesis using LockRelease by simp
next
  case (LockRenew keys holder token ttl)
  then show ?thesis
    by (auto simp: apply_lock_renew_def Let_def intro!: keeps_authority_lease split: option.split)
qed (simp_all add: keeps_authority_acquire keeps_authority_cancel ok)

subsection \<open>Whom a step may grant\<close>

text \<open>No step lets a request overtake an earlier overlapping one: if \<open>x\<close> waits before and after,
  every new grant that shares a key with \<open>x\<close> went to a request that was queued ahead of \<open>x\<close>.\<close>

definition no_overtaking :: "lock_store \<Rightarrow> lock_store \<Rightarrow> bool" where
  "no_overtaking s s' \<longleftrightarrow> (\<forall>x t g. x \<in> set (lm_queue (ls_locks s)) \<longrightarrow> x \<in> set (lm_queue (ls_locks s')) \<longrightarrow>
     fmlookup (lm_grants (ls_locks s)) t = None \<longrightarrow> fmlookup (lm_grants (ls_locks s')) t = Some g \<longrightarrow>
     set (lg_keys g) \<inter> set (ql_keys (snd x)) \<noteq> {} \<longrightarrow>
     (\<exists>y. ahead (lm_queue (ls_locks s)) y x \<and> same_attempt g (snd y)))"

lemma no_overtaking_same:
  "(\<And>t g. fmlookup (lm_grants (ls_locks s')) t = Some g \<Longrightarrow> fmlookup (lm_grants (ls_locks s)) t \<noteq> None) \<Longrightarrow>
     no_overtaking s s'"
  by (force simp: no_overtaking_def)

lemma lock_promote_new_grants:
  assumes "lock_inv (ls_next_fencing_token s) (ls_locks s)" "lock_promote now s = (ps, s')"
    "fmlookup (lm_grants (ls_locks s)) t = None" "fmlookup (lm_grants (ls_locks s')) t = Some g"
  shows "\<exists>y. y \<in> set (lm_queue (ls_locks s)) \<and> y \<notin> set (lm_queue (ls_locks s')) \<and> same_attempt g (snd y)"
proof -
  have "fmlookup (lm_grants (ls_locks s)) t = None \<longrightarrow>
      fmlookup (lm_grants (ls_locks (snd (lock_promote now s)))) t = Some g \<longrightarrow>
      (\<exists>y. y \<in> set (lm_queue (ls_locks s)) \<and> y \<notin> set (lm_queue (ls_locks (snd (lock_promote now s)))) \<and>
        same_attempt g (snd y))"
    using assms(1)
  proof (induction rule: lock_promote_induct [where now = now])
    case (step s lid token pre w post ps s')
    let ?s = "promote_one now token lid w s"
    have inv: "lock_inv (ls_next_fencing_token ?s) (ls_locks ?s)" using step(7) by simp
    have sub: "set (lm_queue (ls_locks s')) \<subseteq> set (pre @ post)"
      using lock_promote_queue [OF inv step(8)] step(6) by simp
    have d: "distinct (lm_queue (ls_locks s))" by (intro fifo_ok_distinct lock_inv_fifo_ok [OF step(1)])
    show ?case
    proof (cases "t = token")
      case True
      have "fmlookup (lm_grants (ls_locks ?s)) token = Some (waiter_grant now token w)"
        by (simp add: promote_one_def waiter_grant_def)
      then have "fmlookup (lm_grants (ls_locks s')) t = Some (waiter_grant now token w)"
        using lock_promote_keeps_grants [OF inv step(8)] True by simp
      moreover have "(lid, w) \<notin> set (lm_queue (ls_locks s'))" using sub d step(3) by auto
      moreover have "same_attempt (waiter_grant now token w) (snd (lid, w))"
        by (simp add: same_attempt_def waiter_grant_def)
      moreover have "(lid, w) \<in> set (lm_queue (ls_locks s))" by (simp add: step(3))
      ultimately show ?thesis by (metis option.inject snd_conv)
    next
      case False
      then show ?thesis using step(3,6,9) by (auto simp: promote_one_def waiter_grant_def)
    qed
  qed simp
  then show ?thesis using assms(2-) by simp
qed

lemma ahead_total:
  assumes "x \<in> set q" "y \<in> set q" "x \<noteq> y"
  shows "ahead q x y \<or> ahead q y x"
proof -
  obtain a b where q: "q = a @ x # b" using assms(1) by (metis split_list)
  have "y \<in> set a \<or> y \<in> set b" using assms(2,3) q by auto
  then show ?thesis
  proof
    assume "y \<in> set a"
    then obtain c d where "a = c @ y # d" by (metis split_list)
    then show ?thesis using q aheadI [of c y d x b] by simp
  next
    assume "y \<in> set b"
    then obtain c d where "b = c @ y # d" by (metis split_list)
    then show ?thesis using q aheadI [of a x c y d] by simp
  qed
qed

lemma ahead_Cons: "ahead q x y \<Longrightarrow> ahead (z # q) x y"
  unfolding ahead_def by (metis append_Cons)

lemma ahead_Cons_iff: "ahead (z # q) x y \<longleftrightarrow> (z = x \<and> y \<in> set q) \<or> ahead q x y"
proof
  assume "ahead (z # q) x y"
  then obtain a b c where "z # q = a @ x # b @ y # c" by (auto simp: ahead_def)
  then show "(z = x \<and> y \<in> set q) \<or> ahead q x y" by (cases a) (auto simp: aheadI)
next
  assume "(z = x \<and> y \<in> set q) \<or> ahead q x y"
  then show "ahead (z # q) x y"
  proof
    assume "z = x \<and> y \<in> set q"
    moreover obtain b c where "q = b @ y # c" using calculation by (metis split_list)
    ultimately show ?thesis using aheadI [of "[]" x b y c] by simp
  qed (rule ahead_Cons)
qed

lemma ahead_of_filter: "ahead (filter P q) x y \<Longrightarrow> ahead q x y"
  by (induction q) (auto simp: ahead_Cons_iff split: if_splits)

lemma no_overtaking_promote:
  assumes inv: "lock_inv (ls_next_fencing_token s0) (ls_locks s0)" and p: "lock_promote now s0 = (ps, s')"
    and q: "lm_queue (ls_locks s0) = filter P (lm_queue (ls_locks s))"
    and g: "\<And>t g. fmlookup (lm_grants (ls_locks s0)) t = Some g \<Longrightarrow> fmlookup (lm_grants (ls_locks s)) t \<noteq> None"
  shows "no_overtaking s s'"
  unfolding no_overtaking_def
proof (intro allI impI)
  fix x t gr
  assume x': "x \<in> set (lm_queue (ls_locks s'))" and old: "fmlookup (lm_grants (ls_locks s)) t = None"
    and new: "fmlookup (lm_grants (ls_locks s')) t = Some gr"
    and ov: "set (lg_keys gr) \<inter> set (ql_keys (snd x)) \<noteq> {}"
  have "fmlookup (lm_grants (ls_locks s0)) t = None" using g [of t] old by (cases "fmlookup (lm_grants (ls_locks s0)) t") auto
  then obtain y where y: "y \<in> set (lm_queue (ls_locks s0))" "y \<notin> set (lm_queue (ls_locks s'))" "same_attempt gr (snd y)"
    using lock_promote_new_grants [OF inv p _ new] by blast
  have x0: "x \<in> set (lm_queue (ls_locks s0))" using lock_promote_queue [OF inv p] x' by blast
  have "\<not> ahead (lm_queue (ls_locks s0)) x y"
    using lock_promote_no_barging [OF inv p _ x' y(2)] y(3) ov by (auto simp: same_attempt_def)
  then have "ahead (lm_queue (ls_locks s0)) y x"
    using ahead_total [OF x0 y(1)] x' y(2) by auto
  then show "\<exists>y. ahead (lm_queue (ls_locks s)) y x \<and> same_attempt gr (snd y)"
    using ahead_of_filter y(3) q by metis
qed

lemma no_overtaking_acquire:
  assumes ok: "lock_store_ok s"
  shows "no_overtaking s (snd (apply_lock_acquire sha256 revision now input s))"
proof -
  have lease: "no_overtaking s (set_lease t l s)" for t l
    by (rule no_overtaking_same) (auto simp: set_lease_lookup split: if_splits)
  have enq: "no_overtaking s (snd (lock_enqueue revision now input ks s))" for ks
    by (rule no_overtaking_same) (simp add: lock_enqueue_def Let_def)
  have grant: "no_overtaking s (s\<lparr>ls_next_fencing_token := t, ls_locks := install_grant
      \<lparr>lg_holder = h, lg_keys = ks, lg_fencing_token = t, lg_lease_expires_ms = l, lg_request_id = rid\<rparr> (ls_locks s)\<rparr>)"
    if g: "lock_grantable ks (ls_locks s)" for t h ks l rid
  proof -
    have "k \<notin> set (ql_keys (snd x))" if "x \<in> set (lm_queue (ls_locks s))" "k \<in> set ks" for x k
      using g queue_keys_member [OF that(1)] that(2) by (auto simp: lock_grantable_def list_ex_iff set_reserved_keys)
    then show ?thesis by (fastforce simp: no_overtaking_def split: if_splits)
  qed
  have refl: "no_overtaking s s" by (rule no_overtaking_same) simp
  show ?thesis
    by (simp add: apply_lock_acquire_def Let_def lease enq grant refl split: option.split)
qed

lemma no_overtaking_cancel_queued:
  assumes ok: "lock_store_ok s"
  shows "no_overtaking s (snd (lock_cancel_queued revision now keys holder rid s))"
proof -
  let ?s = "s\<lparr>ls_locks := (ls_locks s)\<lparr>lm_queue := filter (\<lambda>(k', _). k' \<noteq> (holder, keys)) (lm_queue (ls_locks s))\<rparr>\<rparr>"
  have "lock_inv (ls_next_fencing_token ?s) (ls_locks ?s)"
    using lock_store_ok_filter(1) [OF ok] by (simp add: lock_store_ok_def)
  then have "no_overtaking s (snd (lock_promote now ?s))"
    by (rule no_overtaking_promote [OF _ prod.collapse [symmetric]]) simp_all
  moreover have "no_overtaking s s" by (rule no_overtaking_same) simp
  ultimately show ?thesis
    by (simp add: lock_cancel_queued_def Let_def case_prod_unfold fifo_remove_def split: option.split)
qed

lemma no_overtaking_cancel:
  assumes ok: "lock_store_ok s"
  shows "no_overtaking s (snd (apply_lock_cancel sha256 delim revision now keys holder rid s))"
proof -
  have "no_overtaking s (snd (lock_cancel_queued revision now ks holder r (s\<lparr>ls_cancellations := l\<rparr>)))"
    if "remember i tn now (ls_cancellations s) = (x, l)" for i tn x l ks r
    using no_overtaking_cancel_queued [of "s\<lparr>ls_cancellations := l\<rparr>"] ok
      ledger_ok_remember [OF _ that] by (simp add: no_overtaking_def lock_store_ok_def)
  moreover have "no_overtaking s s" "no_overtaking s (s\<lparr>ls_cancellations := l\<rparr>)" for l
    by (rule no_overtaking_same; simp)+
  ultimately show ?thesis
    by (simp add: apply_lock_cancel_def Let_def no_overtaking_cancel_queued [OF ok]
        split: option.split prod.split remember_cancellation.split)
qed

lemma no_overtaking_release:
  assumes ok: "lock_store_ok s"
  shows "no_overtaking s (snd (apply_lock_release revision now holder token s))"
proof -
  let ?s = "s\<lparr>ls_locks := release_grant token (ls_locks s)\<rparr>"
  have "lock_inv (ls_next_fencing_token ?s) (ls_locks ?s)"
    using lock_store_ok_release(1) [OF ok] by (simp add: lock_store_ok_def)
  then have "no_overtaking s (snd (lock_promote now ?s))"
    by (rule no_overtaking_promote [OF _ prod.collapse [symmetric], where P = "\<lambda>_. True"]) (auto split: if_splits)
  moreover have "no_overtaking s s" by (rule no_overtaking_same) simp
  ultimately show ?thesis
    by (simp add: apply_lock_release_def Let_def case_prod_unfold split: option.split)
qed

lemma no_overtaking_sweep:
  assumes ok: "lock_store_ok s"
  shows "no_overtaking s (lock_expire_due now s)"
proof -
  have f: "fifo_ok (lm_queue (ls_locks s))" using ok lock_inv_fifo_ok by (auto simp: lock_store_ok_def)
  have "lock_inv (ls_next_fencing_token (lock_swept now s)) (ls_locks (lock_swept now s))"
    using lock_swept_ok(1) [OF ok] by (simp add: lock_store_ok_def)
  then have "no_overtaking s (snd (lock_promote now (lock_swept now s)))"
    by (rule no_overtaking_promote [OF _ prod.collapse [symmetric]])
      (auto simp: lock_swept_def lock_expire_waiters_queue [OF f] split: option.splits if_splits)
  then show ?thesis by (simp add: lock_expire_due_def lock_swept_def [symmetric])
qed

text \<open>C5. First come, first served: neither the expiry sweep nor any lock command lets a request
  overtake an earlier request that wants a common key. If \<open>x\<close> waits before and after the step,
  every grant the step creates that shares a key with \<open>x\<close> goes to a request that was already
  queued ahead of \<open>x\<close>.\<close>

theorem locks_first_come_first_served:
  assumes "lock_store_ok s"
  shows "no_overtaking s (lock_expire_due now s) \<and>
    no_overtaking s (snd (apply_lock sha256 delim revision now cmd s))"
proof
  show "no_overtaking s (lock_expire_due now s)" by (rule no_overtaking_sweep [OF assms])
  show "no_overtaking s (snd (apply_lock sha256 delim revision now cmd s))"
  proof (cases cmd)
    case (LockRenew keys holder token ttl)
    then show ?thesis
      by (auto simp: apply_lock_renew_def Let_def set_lease_lookup intro!: no_overtaking_same split: option.splits if_splits)
  qed (simp_all add: assms no_overtaking_acquire no_overtaking_release no_overtaking_cancel)
qed

lemma lock_store_ok_new: "lock_store_ok lock_store_new"
  by (simp add: lock_store_ok_def lock_store_new_def lock_inv_new ledger_ok_new)

text \<open>A store in which \<open>w1\<close> holds \<open>a\<close> and \<open>w2\<close> waits for \<open>a\<close> and \<open>b\<close>.\<close>

definition lock_example :: lock_store where
  "lock_example = snd (apply_lock id [] 2 20 (LockAcquireV2 [''b'', ''a''] ''w2'' 1000 True None)
     (snd (apply_lock id [] 1 10 (LockAcquireV2 [''a''] ''w1'' 1000 True None) lock_store_new)))"

lemmas lock_eval = apply_lock_acquire_def reacquired_grant_def lock_grantable_def next_token_eq limit_defs
  lock_enqueue_def install_grant_def release_grant_def fifo_defs reserved_keys_def sat_add_def Let_def
  lock_store_new_def lock_manager_new_def

lemma canonical_keys_examples: "canonical_keys [''b'', ''a''] = [''a'', ''b'']" "canonical_keys [''a''] = [''a'']"
  by code_simp+

lemma lock_example_eval:
  "lock_example = \<lparr>ls_next_fencing_token = 1,
     ls_locks = \<lparr>lm_held = fmupd ''a'' 1 fmempty,
       lm_grants = fmupd 1 \<lparr>lg_holder = ''w1'', lg_keys = [''a''], lg_fencing_token = 1,
         lg_lease_expires_ms = 1010, lg_request_id = None\<rparr> fmempty,
       lm_queue = [((''w2'', [''a'', ''b'']), \<lparr>ql_holder = ''w2'', ql_keys = [''a'', ''b''], ql_ttl_ms = 1000,
         ql_requested_ms = 20, ql_wait_expires_ms = Some 30020, ql_request_id = None\<rparr>)]\<rparr>,
     ls_cancellations = ledger_new\<rparr>"
  by (simp add: lock_example_def canonical_keys_examples lock_eval)

lemma lock_example_ok: "lock_store_ok lock_example"
  unfolding lock_example_def
  by (intro apply_lock_ok [THEN lock_step_ok_def [THEN iffD1], THEN conjunct1] lock_store_ok_new)

theorem locks_first_come_first_served_witness:
  "no_overtaking lock_example (lock_expire_due 30 lock_example) \<and>
    no_overtaking lock_example (snd (apply_lock id [] 3 30 (LockRelease ''w1'' 1) lock_example))"
  by (rule locks_first_come_first_served) (rule lock_example_ok)

text \<open>C6. Live authority cannot be taken away: as long as a grant's lease runs, the expiry sweep
  followed by any command other than a release by its own holder with its own token leaves the
  grant in place for the same holder, keys and attempt, with a lease no shorter than before.\<close>

theorem live_lock_authority_is_stable:
  assumes "lock_store_ok s" "fmlookup (lm_grants (ls_locks s)) t = Some g"
    and "now < lg_lease_expires_ms g" "cmd \<noteq> LockRelease (lg_holder g) t"
  shows "keeps_authority t s (snd (apply_lock sha256 delim revision now cmd (lock_expire_due now s)))"
proof -
  have "lock_store_ok (lock_expire_due now s)"
    using lock_expire_due_ok(1) [OF assms(1)] by (simp add: lock_step_ok_def)
  moreover have "fmlookup (lm_grants (ls_locks (lock_expire_due now s))) t = Some g"
    by (rule lock_expire_due_grants(1) [OF assms(1-3)])
  ultimately show ?thesis
    using apply_lock_keeps_authority [of "lock_expire_due now s" t g cmd] assms(2,4)
    by (simp add: keeps_authority_def)
qed

theorem live_lock_authority_is_stable_witness:
  "keeps_authority 1 lock_example
     (snd (apply_lock id [] 3 30 (LockRelease ''w2'' 1) (lock_expire_due 30 lock_example)))"
  by (rule live_lock_authority_is_stable [OF lock_example_ok,
        where g = "the (fmlookup (lm_grants (ls_locks lock_example)) 1)"])
    (simp_all add: lock_example_eval)

text \<open>C7. Work conservation: after the sweep and the command, every request that still waits is
  blocked by a held key or by an earlier waiter that wants one of its keys, unless the fencing
  tokens are exhausted.\<close>

theorem lock_waiters_are_blocked:
  assumes "lock_store_ok s"
    and s': "s' = snd (apply_lock sha256 delim revision now cmd (lock_expire_due now s))"
    and q: "lm_queue (ls_locks s') = pre @ (lid, w) # post"
  shows "next_token (ls_next_fencing_token s') = None \<or>
    (\<exists>k \<in> set (ql_keys w). fmlookup (lm_held (ls_locks s')) k \<noteq> None \<or> k \<in> queue_keys pre)"
proof -
  have "lock_store_ok (lock_expire_due now s)" "lock_store_settled (lock_expire_due now s)"
    using lock_expire_due_ok [OF assms(1)] by (simp_all add: lock_step_ok_def)
  then have "lock_store_settled s'" using apply_lock_ok lock_step_ok_def s' by blast
  then show ?thesis
    using q first_grantable_from_None [of "lm_held (ls_locks s')" "{}" pre lid w post]
    by (auto simp: lock_store_settled_def lock_settled_def lock_first_grantable_def)
qed

lemma lock_example_settled: "lock_store_settled lock_example"
  by (simp add: lock_example_eval lock_store_settled_def lock_settled_def lock_first_grantable_def)

lemma lock_example_sweep: "lock_expire_due 30 lock_example = lock_example"
  by (simp add: lock_expire_due_def lock_expire_grants_def lock_expire_waiters_def lock_example_eval
      waiter_is_live_def entries_def ledger_expire_def ledger_new_def lock_promote_stop lock_settled_def
      lock_first_grantable_def)

theorem lock_waiters_are_blocked_witness:
  "next_token (ls_next_fencing_token lock_example) = None \<or>
    (\<exists>k \<in> set [''a'', ''b'']. fmlookup (lm_held (ls_locks lock_example)) k \<noteq> None \<or> k \<in> queue_keys [])"
proof -
  have "lock_example = snd (apply_lock id [] 3 30 (LockRelease ''w2'' 1) (lock_expire_due 30 lock_example))"
    by (simp add: lock_example_sweep apply_lock_release_def) (simp add: lock_example_eval)
  moreover have "lm_queue (ls_locks lock_example) = [] @ ((''w2'', [''a'', ''b'']), snd (hd (lm_queue (ls_locks lock_example)))) # []"
    by (simp add: lock_example_eval)
  ultimately show ?thesis
    using lock_waiters_are_blocked [OF lock_example_ok, of lock_example id "[]" 3 30 "LockRelease ''w2'' 1" "[]"
        "(''w2'', [''a'', ''b''])" "snd (hd (lm_queue (ls_locks lock_example)))" "[]"]
    by (simp add: lock_example_eval)
qed

subsection \<open>Cancellation\<close>

lemma lock_promote_ledger [simp]: "ls_cancellations (snd (lock_promote now s)) = ls_cancellations s"
proof (induction now s rule: lock_promote.induct)
  case (1 now s)
  then show ?case
    by (subst lock_promote.simps)
      (auto simp: Let_def split: option.split prod.split dest!: arg_cong [of _ _ "\<lambda>x. ls_cancellations (snd x)"])
qed

lemma lock_cancel_queued_ledger [simp]:
  "ls_cancellations (snd (lock_cancel_queued revision now keys holder rid s)) = ls_cancellations s"
  by (simp add: lock_cancel_queued_def Let_def case_prod_unfold split: option.split)

lemma set_lease_ledger [simp]: "ls_cancellations (set_lease t l s) = ls_cancellations s"
  by (simp add: set_lease_def split: option.split)

text \<open>A command touches the ledger only to remember an attempt.\<close>

lemma apply_lock_ledger:
  "ls_cancellations (snd (apply_lock sha256 delim revision now cmd s)) = ls_cancellations s \<or>
   (\<exists>i t. ls_cancellations (snd (apply_lock sha256 delim revision now cmd s)) = snd (remember i t now (ls_cancellations s)))"
proof -
  have acquire: "ls_cancellations (snd (apply_lock_acquire sha256 revision now input s)) = ls_cancellations s" for input
    by (simp add: apply_lock_acquire_def lock_enqueue_def Let_def split: option.split)
  have cancel: "ls_cancellations (snd (apply_lock_cancel sha256 delim revision now ks holder rid s)) = ls_cancellations s \<or>
      (\<exists>i t. ls_cancellations (snd (apply_lock_cancel sha256 delim revision now ks holder rid s)) =
        snd (remember i t now (ls_cancellations s)))" for ks holder rid
    by (auto simp: apply_lock_cancel_def Let_def split: option.split prod.split remember_cancellation.split) (metis snd_conv)+
  show ?thesis
    using acquire cancel by (cases cmd) (simp_all add: apply_lock_renew_def apply_lock_release_def Let_def
        case_prod_unfold split: option.split)
qed

lemma remember_keeps:
  "fmlookup (cl_entries l) i = Some e \<Longrightarrow> fmlookup (cl_entries (snd (remember j t now l))) i = Some e"
  by (auto simp: remember_def remember_with_limits_def Let_def)

text \<open>Log entries of the lock service: each is swept for at its time and then applied.\<close>

definition lock_run :: "(string \<Rightarrow> string) \<Rightarrow> string \<Rightarrow> (u64 \<times> u64 \<times> lock_command) list \<Rightarrow> lock_store \<Rightarrow> lock_store" where
  "lock_run sha256 delim es s =
     fold (\<lambda>(revision, now, cmd) s. snd (apply_lock sha256 delim revision now cmd (lock_expire_due now s))) es s"

lemma lock_expire_due_ledger [simp]:
  "ls_cancellations (lock_expire_due now s) = ledger_expire now (ls_cancellations s)"
  by (simp add: lock_expire_due_def)

lemma lock_run_ok: "lock_store_ok s \<Longrightarrow> lock_store_ok (lock_run sha256 delim es s)"
  unfolding lock_run_def
  using apply_lock_ok lock_expire_due_ok(1)
  by (induction es arbitrary: s) (auto simp: lock_step_ok_def)

lemma expire_keeps:
  "ledger_ok l \<Longrightarrow> fmlookup (cl_entries l) i = Some e \<Longrightarrow> now < ce_expires_at_ms e \<Longrightarrow>
    fmlookup (cl_entries (ledger_expire now l)) i = Some e"
  by (simp add: ledger_expire_effect(1))

lemma lock_run_keeps:
  assumes "lock_store_ok s" "fmlookup (cl_entries (ls_cancellations s)) i = Some e"
    and "\<forall>(revision, now, cmd) \<in> set es. now < ce_expires_at_ms e"
  shows "fmlookup (cl_entries (ls_cancellations (lock_run sha256 delim es s))) i = Some e"
  using assms
proof (induction es arbitrary: s)
  case Nil
  then show ?case by (simp add: lock_run_def)
next
  case (Cons x es)
  obtain revision now cmd where x: "x = (revision, now, cmd)" by (metis prod_cases3)
  let ?s = "lock_run sha256 delim [x] s"
  have ledger: "ledger_ok (ls_cancellations s)" using Cons.prems(1) by (simp add: lock_store_ok_def)
  have "fmlookup (cl_entries (ls_cancellations (lock_expire_due now s))) i = Some e"
    using expire_keeps [OF ledger Cons.prems(2)] Cons.prems(3) x by simp
  then have "fmlookup (cl_entries (ls_cancellations ?s)) i = Some e"
    using apply_lock_ledger [of sha256 delim revision now cmd "lock_expire_due now s"] remember_keeps
    by (auto simp: lock_run_def x)
  from Cons.IH [OF lock_run_ok [OF Cons.prems(1)] this] Cons.prems(3) show ?case by (simp add: lock_run_def)
qed

lemma remembered_entry:
  "\<not> ledger_contains i l \<Longrightarrow> remember i tenant now l = (Remembered, l') \<Longrightarrow>
    fmlookup (cl_entries l') i = Some \<lparr>ce_expires_at_ms = sat_add now CANCELLATION_TOMBSTONE_TTL_MS, ce_tenant = tenant\<rparr>"
  by (auto simp: ledger_contains_def remember_def remember_with_limits_def Let_def split: if_splits)

text \<open>C8. Cancel before a delayed acquire. Once \<open>LockCancelAttempt\<close> has for the first time answered that an
  attempt is cancelled, then after any lock commands whose sweeps are all before the end of 24 hours from that
  cancel, an acquire of the same attempt (same holder, key set and request id) in the same 24 hours is refused and
  changes nothing, whatever those commands did to the locks. A repeated cancel does not extend the 24 hours.\<close>

theorem cancelled_attempt_stays_cancelled:
  assumes ok: "lock_store_ok s"
    and cancel: "apply_lock sha256 delim revision now (LockCancelAttempt keys holder rid) s = (Cancelled ks h ps r, s')"
    and first: "\<not> ledger_contains (acquisition_identity sha256 ''lock'' holder (canonical_keys keys) rid) (ls_cancellations s)"
    and same: "canonical_keys keys' = canonical_keys keys" "canonical_keys keys \<noteq> []"
    and soon: "\<forall>(revision, at, cmd) \<in> set es. at < sat_add now CANCELLATION_TOMBSTONE_TTL_MS"
      "later < sat_add now CANCELLATION_TOMBSTONE_TTL_MS"
    and after: "s'' = lock_expire_due later (lock_run sha256 delim es s')"
  shows "apply_lock sha256 delim revision' later (LockAcquireAttempt keys' holder rid ttl wait timeout) s'' =
    (AcquirePending False None None (canonical_keys keys) holder [] revision', s'')"
proof -
  let ?i = "acquisition_identity sha256 ''lock'' holder (canonical_keys keys) rid"
  let ?t = "cancellation_tenant sha256 delim holder"
  let ?e = "\<lparr>ce_expires_at_ms = sat_add now CANCELLATION_TOMBSTONE_TTL_MS, ce_tenant = ?t\<rparr>"
  obtain l where rem: "remember ?i ?t now (ls_cancellations s) = (Remembered, l)" and s': "ls_cancellations s' = l"
    using cancel by (auto simp: apply_lock_cancel_def Let_def split: option.splits prod.splits remember_cancellation.splits
        dest!: arg_cong [of _ _ "\<lambda>x. ls_cancellations (snd x)"])
  have ok': "lock_store_ok s'" using apply_lock_ok [OF ok] cancel by (metis lock_step_ok_def snd_conv)
  have "fmlookup (cl_entries (ls_cancellations (lock_run sha256 delim es s'))) ?i = Some ?e"
    using lock_run_keeps [OF ok', of ?i ?e es] remembered_entry [OF first rem] s' soon(1) by simp
  then have "fmlookup (cl_entries (ls_cancellations s'')) ?i = Some ?e"
    using expire_keeps [of "ls_cancellations (lock_run sha256 delim es s')" ?i ?e later] lock_run_ok [OF ok'] soon(2)
    by (simp add: after lock_store_ok_def)
  then show ?thesis using same by (simp add: apply_lock_acquire_def Let_def ledger_contains_def)
qed

lemma cancel_example:
  "\<exists>s. apply_lock id [] 1 10 (LockCancelAttempt [''a''] ''w'' ''r'') lock_store_new = (Cancelled [''a''] ''w'' [] 1, s)"
  by (simp add: apply_lock_cancel_def canonical_keys_examples lock_eval find_grant_def fmvalues_def remember_def
      remember_with_limits_def ledger_new_def cancellation_limit_defs fcard.rep_eq lock_cancel_queued_def)

theorem cancelled_attempt_stays_cancelled_witness:
  "\<exists>s. apply_lock id [] 3 5000 (LockAcquireAttempt [''a''] ''w'' ''r'' 1000 True None) s =
    (AcquirePending False None None (canonical_keys [''a'']) ''w'' [] 3, s)"
proof -
  obtain s where "apply_lock id [] 1 10 (LockCancelAttempt [''a''] ''w'' ''r'') lock_store_new =
      (Cancelled [''a''] ''w'' [] 1, s)" using cancel_example by blast
  from cancelled_attempt_stays_cancelled [OF lock_store_ok_new this, of "[''a'']"
      "[(2, 100, LockAcquireV2 [''a''] ''w2'' 1000 True None)]" 5000 _ 3 1000 True None, OF _ _ _ _ _ refl]
  have "let s'' = lock_expire_due 5000 (lock_run id [] [(2, 100, LockAcquireV2 [''a''] ''w2'' 1000 True None)] s)
    in apply_lock id [] 3 5000 (LockAcquireAttempt [''a''] ''w'' ''r'' 1000 True None) s'' =
      (AcquirePending False None None (canonical_keys [''a'']) ''w'' [] 3, s'')"
    by (simp add: canonical_keys_examples ledger_contains_def lock_store_new_def ledger_new_def
        sat_add_def cancellation_limit_defs limit_defs)
  then show ?thesis unfolding Let_def by blast
qed

subsection \<open>Reads\<close>

lemma live_grant_Some:
  assumes "lock_inv c m"
  shows "live_grant now key m = Some g \<longleftrightarrow>
    (\<exists>t. fmlookup (lm_grants m) t = Some g \<and> key \<in> set (lg_keys g) \<and> now < lg_lease_expires_ms g)"
proof (cases "fmlookup (lm_held m) key")
  case None
  then show ?thesis using lock_inv_held_iff [OF assms, of key] by (auto simp: live_grant_def)
next
  case (Some t)
  then obtain g' where g': "fmlookup (lm_grants m) t = Some g'" "key \<in> set (lg_keys g')"
    using lock_inv_held_iff [OF assms, of key t] by auto
  have "t' = t" if "fmlookup (lm_grants m) t' = Some g" "key \<in> set (lg_keys g)" for t'
    using lock_inv_exclusive [OF assms that(1) g'(1) that(2) g'(2)] .
  then show ?thesis using Some g' by (auto simp: live_grant_def)
qed

lemma live_grant_swept:
  assumes inv: "lock_inv c m"
  shows "live_grant now key (lock_expire_grants now m) = live_grant now key m"
proof -
  have "live_grant now key (lock_expire_grants now m) = Some g \<longleftrightarrow> live_grant now key m = Some g" for g
    using live_grant_Some [OF inv] live_grant_Some [OF lock_expire_grants_simps(3) [OF inv]]
    by (auto simp: fmlookup_fmretain_Some simp del: fmlookup_fmretain)
  then show ?thesis by (metis option.exhaust)
qed

text \<open>A read without a sweep shows the same as a read after one: the view of a lock at time \<open>now\<close>
  equals the view of the table from which the waiters and grants that lapsed by \<open>now\<close> have been
  removed. Reads never report a lapsed holder or waiter, and need not change the state.\<close>

theorem lock_read_agrees_with_sweep:
  assumes "lock_store_ok s"
  shows "lock_snapshot_live_at key now (ls_locks s) =
    lock_snapshot_live_at key now (lock_expire_grants now (lock_expire_waiters now (ls_locks s)))"
proof -
  have inv: "lock_inv (ls_next_fencing_token s) (ls_locks s)" using assms by (simp add: lock_store_ok_def)
  note q = lock_expire_waiters_queue [OF lock_inv_fifo_ok [OF inv], of now]
  have "lock_inv (ls_next_fencing_token s) (lock_expire_waiters now (ls_locks s))"
    unfolding q by (rule lock_inv_queue [OF inv])
  then have "live_grant now key (lock_expire_grants now (lock_expire_waiters now (ls_locks s))) =
      live_grant now key (ls_locks s)"
    using live_grant_swept [of _ "lock_expire_waiters now (ls_locks s)" now key] by (simp add: q live_grant_def)
  then show ?thesis
    by (simp add: lock_snapshot_live_at_def Let_def q case_prod_unfold conj_commute conj_left_commute cong: conj_cong)
qed

theorem lock_read_agrees_with_sweep_witness:
  "lock_snapshot_live_at ''a'' 2000 (ls_locks lock_example) =
    lock_snapshot_live_at ''a'' 2000 (lock_expire_grants 2000 (lock_expire_waiters 2000 (ls_locks lock_example)))"
  by (rule lock_read_agrees_with_sweep) (rule lock_example_ok)

end
