(* ===== verification/Semaphore_Model.thy ===== *)
theory Semaphore_Model
  imports Lock_Model
begin

section \<open>Counting semaphores\<close>

text \<open>
  \<open>Semaphore\<close> of \<open>src/state.rs\<close> with its handlers, promotion, the semaphore part of \<open>expire_due\<close>
  and the read view. The handlers act on \<open>sem_store\<close>: the token counter, the semaphores and
  their cancellation ledger. \<open>semaphores_promote\<close> iterates the keys of a \<open>HashMap\<close> and mints tokens
  as it goes, so the iteration order is a parameter (\<open>order\<close>) of the sweep.
\<close>

subsection \<open>Data\<close>

record semaphore_slot =
  ss_holder :: string
  ss_fencing_token :: u64
  ss_lease_expires_ms :: u64
  ss_request_id :: "string option"

record queued_permit =
  qp_holder :: string
  qp_ttl_ms :: u64
  qp_requested_ms :: u64
  qp_wait_expires_ms :: "u64 option"
  qp_request_id :: "string option"

record semaphore =
  sm_limit :: u32
  sm_holders :: "semaphore_slot list"
  sm_queue :: "(string, queued_permit) fifo"

record sem_store =
  ms_next_fencing_token :: u64
  ms_semaphores :: "(string, semaphore) fmap"
  ms_cancellations :: cancellation_ledger

record semaphore_acquire_input =
  si_key :: string
  si_holder :: string
  si_limit :: u32
  si_ttl_ms :: u64
  si_wait :: bool
  si_wait_timeout_ms :: "u64 option"
  si_request_id :: "string option"
  si_legacy_semantics :: bool

record permit_promotion =
  pp_holder :: string
  pp_fencing_token :: u64
  pp_lease_expires_ms :: u64

datatype semaphore_response =
    SemAcquired "bool option" string string u64 u64 u32 u32 u64
      \<comment> \<open>renewed, key, holder, \<open>fencing_token\<close>, \<open>lease_expires_ms\<close>, available, limit, revision\<close>
  | SemPending bool "nat option" "u64 option" string string u32 u32 u64
      \<comment> \<open>queued, position, \<open>wait_expires_ms\<close>, key, holder, limit, available, revision\<close>
  | SemLimitMismatch string string u32 u32 u64
      \<comment> \<open>key, holder, \<open>requested_limit\<close>, limit, revision\<close>
  | SemExhausted string string u64
  | SemRenewRefused string u64
  | SemRenewed string string u64 u64 u64
  | SemReleaseRefused string u64
  | SemReleased string "permit_promotion list" u64
  | SemCancelRaced string string u64 u64 u64
  | SemCancelRefused string string string u64
  | SemCancelled string string "permit_promotion list" u64

definition sem_store_new :: sem_store where
  "sem_store_new = \<lparr>ms_next_fencing_token = 0, ms_semaphores = fmempty, ms_cancellations = ledger_new\<rparr>"

definition sem_used :: "semaphore \<Rightarrow> u32" where
  "sem_used sem = word_of_nat (length (sm_holders sem))"

definition sem_available :: "semaphore \<Rightarrow> u32" where
  "sem_available sem = sat_sub (sm_limit sem) (sem_used sem)"

subsection \<open>Promotion\<close>

text \<open>The loop of \<open>semaphore_promote\<close> on one semaphore and the token counter.\<close>

function admit_waiters :: "u64 \<Rightarrow> u64 \<Rightarrow> semaphore \<Rightarrow> permit_promotion list \<times> u64 \<times> semaphore" where
  "admit_waiters now counter sem =
     (if sem_used sem \<ge> sm_limit sem \<or> sm_queue sem = [] then ([], counter, sem)
      else (case next_token counter of None \<Rightarrow> ([], counter, sem)
        | Some token \<Rightarrow> (case fifo_pop_front (sm_queue sem) of
              (None, _) \<Rightarrow> ([], counter, sem)
            | (Some (_, waiter), queue') \<Rightarrow>
                let lease_expires_ms = sat_add now (qp_ttl_ms waiter);
                    (promoted, counter', sem') = admit_waiters now token (sem\<lparr>
                      sm_holders := sm_holders sem @ [\<lparr>ss_holder = qp_holder waiter, ss_fencing_token = token,
                        ss_lease_expires_ms = lease_expires_ms, ss_request_id = qp_request_id waiter\<rparr>],
                      sm_queue := queue'\<rparr>)
                in (\<lparr>pp_holder = qp_holder waiter, pp_fencing_token = token,
                     pp_lease_expires_ms = lease_expires_ms\<rparr> # promoted, counter', sem'))))"
  by pat_completeness auto

termination
proof (relation "measure (\<lambda>(now, counter, sem). length (sm_queue sem))", goal_cases)
  case (2 now counter sem token r queue' y k waiter lease)
  then show ?case by (cases "sm_queue sem") simp_all
qed simp

declare admit_waiters.simps [simp del]

definition semaphore_promote :: "string \<Rightarrow> u64 \<Rightarrow> sem_store \<Rightarrow> permit_promotion list \<times> sem_store" where
  "semaphore_promote key now s = (case fmlookup (ms_semaphores s) key of None \<Rightarrow> ([], s)
     | Some sem \<Rightarrow>
         let (promoted, counter', sem') = admit_waiters now (ms_next_fencing_token s) sem
         in (promoted, s\<lparr>ms_next_fencing_token := counter',
              ms_semaphores := fmupd key sem' (ms_semaphores s)\<rparr>))"

definition semaphores_promote :: "string list \<Rightarrow> u64 \<Rightarrow> sem_store \<Rightarrow> sem_store" where
  "semaphores_promote order now s = fold (\<lambda>key s. snd (semaphore_promote key now s)) order s"

subsection \<open>Handlers\<close>

definition sem_enqueue :: "u64 \<Rightarrow> u64 \<Rightarrow> semaphore_acquire_input \<Rightarrow> semaphore \<Rightarrow> semaphore_response \<times> semaphore" where
  "sem_enqueue revision now input sem =
     (let holder = si_holder input;
          already = (case fifo_get holder (sm_queue sem) of None \<Rightarrow> False
            | Some queued \<Rightarrow> qp_request_id queued = si_request_id input);
          identity_in_use = (fifo_contains holder (sm_queue sem) \<and> \<not> already);
          queue' = (if si_wait input \<and> \<not> already \<and> \<not> identity_in_use
            then snd (fifo_push_back holder
              \<lparr>qp_holder = holder, qp_ttl_ms = si_ttl_ms input, qp_requested_ms = now,
               qp_wait_expires_ms = (if si_legacy_semantics input then None
                 else Some (sat_add now (case si_wait_timeout_ms input of Some t \<Rightarrow> t
                   | None \<Rightarrow> DEFAULT_WAIT_TIMEOUT_MS))),
               qp_request_id = si_request_id input\<rparr> (sm_queue sem))
            else sm_queue sem);
          position = (if identity_in_use then None else map_option Suc (fifo_position holder queue'));
          wait_expires_ms = (if identity_in_use then None
            else Option.bind (fifo_get holder queue') qp_wait_expires_ms)
      in (SemPending
            (if si_legacy_semantics input then si_wait input \<and> position \<noteq> None else position \<noteq> None)
            position wait_expires_ms (si_key input) holder (sm_limit sem) 0 revision,
          sem\<lparr>sm_queue := queue'\<rparr>))"

definition sem_reacquired :: "semaphore_acquire_input \<Rightarrow> semaphore \<Rightarrow> semaphore_slot option" where
  "sem_reacquired input sem = find (\<lambda>permit. ss_holder permit = si_holder input \<and>
     (si_legacy_semantics input \<or> ss_request_id permit = si_request_id input)) (sm_holders sem)"

text \<open>The semaphore that the request addresses: the existing one or a new one, with the limit that
  historical commands impose.\<close>

definition sem_addressed :: "semaphore_acquire_input \<Rightarrow> sem_store \<Rightarrow> semaphore" where
  "sem_addressed input s =
     (let sem = (case fmlookup (ms_semaphores s) (si_key input) of Some sem \<Rightarrow> sem
          | None \<Rightarrow> \<lparr>sm_limit = (if si_legacy_semantics input then max (si_limit input) 1 else si_limit input),
              sm_holders = [], sm_queue = []\<rparr>)
      in if si_legacy_semantics input then sem\<lparr>sm_limit := max (si_limit input) 1\<rparr> else sem)"

definition apply_semaphore_acquire :: "(string \<Rightarrow> string) \<Rightarrow> u64 \<Rightarrow> u64 \<Rightarrow> semaphore_acquire_input \<Rightarrow>
    sem_store \<Rightarrow> semaphore_response \<times> sem_store" where
  "apply_semaphore_acquire sha256 revision now input s =
     (let key = si_key input; holder = si_holder input; limit = si_limit input in
      if (case si_request_id input of None \<Rightarrow> False | Some request_id \<Rightarrow>
          ledger_contains (acquisition_identity sha256 ''semaphore'' holder [key] request_id) (ms_cancellations s))
      then (SemPending False None None key holder limit 0 revision, s)
      else if \<not> si_legacy_semantics input \<and> (case fmlookup (ms_semaphores s) key of None \<Rightarrow> False
          | Some existing \<Rightarrow> sm_limit existing \<noteq> limit)
      then (SemLimitMismatch key holder limit (sm_limit (the (fmlookup (ms_semaphores s) key))) revision, s)
      else
        let sem = sem_addressed input s;
            put = (\<lambda>sem. s\<lparr>ms_semaphores := fmupd key sem (ms_semaphores s)\<rparr>)
        in case sem_reacquired input sem of
             Some permit \<Rightarrow> (SemAcquired (Some False) key holder (ss_fencing_token permit)
               (ss_lease_expires_ms permit) (sem_available sem) (sm_limit sem) revision, put sem)
           | None \<Rightarrow>
               if sem_used sem < sm_limit sem \<and> sm_queue sem = []
               then (case next_token (ms_next_fencing_token s) of
                   None \<Rightarrow> (SemExhausted key holder revision, put sem)
                 | Some token \<Rightarrow>
                     let lease_expires_ms = sat_add now (si_ttl_ms input);
                         sem' = sem\<lparr>sm_holders := sm_holders sem @ [\<lparr>ss_holder = holder,
                           ss_fencing_token = token, ss_lease_expires_ms = lease_expires_ms,
                           ss_request_id = si_request_id input\<rparr>]\<rparr>
                     in (SemAcquired None key holder token lease_expires_ms (sem_available sem')
                           (sm_limit sem') revision,
                         (put sem')\<lparr>ms_next_fencing_token := token\<rparr>))
               else let (r, sem') = sem_enqueue revision now input sem in (r, put sem'))"

text \<open>\<open>iter_mut().find(..)\<close> followed by the assignment of the lease: the first permit with the token.\<close>

fun renew_first :: "u64 \<Rightarrow> u64 \<Rightarrow> semaphore_slot list \<Rightarrow> semaphore_slot list" where
  "renew_first token lease [] = []"
| "renew_first token lease (permit # permits) =
     (if ss_fencing_token permit = token then permit\<lparr>ss_lease_expires_ms := lease\<rparr> # permits
      else permit # renew_first token lease permits)"

definition apply_semaphore_renew :: "u64 \<Rightarrow> u64 \<Rightarrow> string \<Rightarrow> string \<Rightarrow> u64 \<Rightarrow> u64 \<Rightarrow> sem_store \<Rightarrow>
    semaphore_response \<times> sem_store" where
  "apply_semaphore_renew revision now key holder fencing_token ttl_ms s =
     (case fmlookup (ms_semaphores s) key of None \<Rightarrow> (SemRenewRefused ''not_found'' revision, s)
      | Some sem \<Rightarrow> (case find (\<lambda>permit. ss_fencing_token permit = fencing_token) (sm_holders sem) of
            None \<Rightarrow> (SemRenewRefused ''not_found'' revision, s)
          | Some permit \<Rightarrow>
              if ss_holder permit \<noteq> holder then (SemRenewRefused ''not_holder'' revision, s)
              else let lease = max (ss_lease_expires_ms permit) (sat_add now ttl_ms) in
                (SemRenewed key holder fencing_token lease revision,
                 s\<lparr>ms_semaphores := fmupd key
                   (sem\<lparr>sm_holders := renew_first fencing_token lease (sm_holders sem)\<rparr>) (ms_semaphores s)\<rparr>)))"

definition apply_semaphore_release :: "u64 \<Rightarrow> u64 \<Rightarrow> string \<Rightarrow> string \<Rightarrow> u64 \<Rightarrow> sem_store \<Rightarrow>
    semaphore_response \<times> sem_store" where
  "apply_semaphore_release revision now key holder fencing_token s =
     (case fmlookup (ms_semaphores s) key of None \<Rightarrow> (SemReleaseRefused ''not_found'' revision, s)
      | Some sem \<Rightarrow>
          let holders' = filter (\<lambda>permit. \<not> (ss_fencing_token permit = fencing_token \<and> ss_holder permit = holder))
                (sm_holders sem);
              s' = s\<lparr>ms_semaphores := fmupd key (sem\<lparr>sm_holders := holders'\<rparr>) (ms_semaphores s)\<rparr>
          in if length holders' = length (sm_holders sem) then (SemReleaseRefused ''not_holder'' revision, s')
             else let (promoted, s'') = semaphore_promote key now s' in (SemReleased key promoted revision, s''))"

definition sem_find_slot :: "string \<Rightarrow> (semaphore_slot \<Rightarrow> bool) \<Rightarrow> sem_store \<Rightarrow> semaphore_slot option" where
  "sem_find_slot key P s = Option.bind (fmlookup (ms_semaphores s) key) (\<lambda>sem. find P (sm_holders sem))"

text \<open>The answer when nothing was removed from the queue.\<close>

definition sem_not_queued :: "u64 \<Rightarrow> string \<Rightarrow> string \<Rightarrow> string option \<Rightarrow> sem_store \<Rightarrow>
    semaphore_response \<times> sem_store" where
  "sem_not_queued revision key holder request_id s =
     (case sem_find_slot key (\<lambda>permit. ss_holder permit = holder \<and>
           (request_id = None \<or> ss_request_id permit = request_id)) s of
        Some permit \<Rightarrow> (SemCancelRaced key holder (ss_fencing_token permit) (ss_lease_expires_ms permit) revision, s)
      | None \<Rightarrow> if request_id \<noteq> None then (SemCancelled key holder [] revision, s)
          else (SemCancelRefused ''not_found'' key holder revision, s))"

definition sem_cancel_queued :: "u64 \<Rightarrow> u64 \<Rightarrow> string \<Rightarrow> string \<Rightarrow> string option \<Rightarrow> sem_store \<Rightarrow>
    semaphore_response \<times> sem_store" where
  "sem_cancel_queued revision now key holder request_id s =
     (let queued = Option.bind (fmlookup (ms_semaphores s) key) (\<lambda>sem. fifo_get holder (sm_queue sem));
          queued_matches = (case queued of None \<Rightarrow> False
            | Some q \<Rightarrow> request_id = None \<or> qp_request_id q = request_id)
      in case fmlookup (ms_semaphores s) key of
           Some sem \<Rightarrow>
             if queued_matches \<and> fst (fifo_remove holder (sm_queue sem)) \<noteq> None
             then let (promoted, s') = semaphore_promote key now (s\<lparr>ms_semaphores := fmupd key
                     (sem\<lparr>sm_queue := snd (fifo_remove holder (sm_queue sem))\<rparr>) (ms_semaphores s)\<rparr>)
                  in (SemCancelled key holder promoted revision, s')
             else sem_not_queued revision key holder request_id s
         | None \<Rightarrow> sem_not_queued revision key holder request_id s)"

definition apply_semaphore_cancel :: "(string \<Rightarrow> string) \<Rightarrow> string \<Rightarrow> u64 \<Rightarrow> u64 \<Rightarrow> string \<Rightarrow> string \<Rightarrow>
    string option \<Rightarrow> sem_store \<Rightarrow> semaphore_response \<times> sem_store" where
  "apply_semaphore_cancel sha256 delim revision now key holder request_id s =
     (case request_id of None \<Rightarrow> sem_cancel_queued revision now key holder None s
      | Some rid \<Rightarrow>
          (case sem_find_slot key (\<lambda>permit. ss_holder permit = holder \<and> ss_request_id permit = Some rid) s of
             Some permit \<Rightarrow> (SemCancelRaced key holder (ss_fencing_token permit) (ss_lease_expires_ms permit) revision, s)
           | None \<Rightarrow>
               (case remember (acquisition_identity sha256 ''semaphore'' holder [key] rid)
                   (cancellation_tenant sha256 delim holder) now (ms_cancellations s) of
                  (CapacityExceeded, l) \<Rightarrow> (SemCancelRefused ''cancellation_capacity'' key holder revision,
                    s\<lparr>ms_cancellations := l\<rparr>)
                | (Remembered, l) \<Rightarrow>
                    sem_cancel_queued revision now key holder (Some rid) (s\<lparr>ms_cancellations := l\<rparr>))))"

subsection \<open>The semaphore part of \<open>expire_due\<close>\<close>

definition sem_expire :: "u64 \<Rightarrow> semaphore \<Rightarrow> semaphore" where
  "sem_expire now sem =
     sem\<lparr>sm_queue := fold (\<lambda>h q. snd (fifo_remove h q))
           (map fst (filter (\<lambda>(_, w). \<not> waiter_is_live (qp_wait_expires_ms w) now) (sm_queue sem)))
           (sm_queue sem),
         sm_holders := filter (\<lambda>permit. ss_lease_expires_ms permit > now) (sm_holders sem)\<rparr>"

definition sem_expire_due :: "string list \<Rightarrow> u64 \<Rightarrow> sem_store \<Rightarrow> sem_store" where
  "sem_expire_due order now s = semaphores_promote order now (s\<lparr>
     ms_cancellations := ledger_expire now (ms_cancellations s),
     ms_semaphores := fmmap (sem_expire now) (ms_semaphores s)\<rparr>)"

subsection \<open>Commands\<close>

datatype semaphore_command =
    SemaphoreAcquire string string u32 u64 bool "u64 option"
      \<comment> \<open>key, holder, limit, \<open>ttl_ms\<close>, wait, \<open>wait_timeout_ms\<close>\<close>
  | SemaphoreAcquireV2 string string u32 u64 bool "u64 option"
  | SemaphoreAcquireAttempt string string string u32 u64 bool "u64 option"
      \<comment> \<open>key, holder, \<open>request_id\<close>, limit, \<open>ttl_ms\<close>, wait, \<open>wait_timeout_ms\<close>\<close>
  | SemaphoreRenew string string u64 u64
  | SemaphoreRelease string string u64
  | SemaphoreCancel string string
  | SemaphoreCancelAttempt string string string

fun apply_semaphore :: "(string \<Rightarrow> string) \<Rightarrow> string \<Rightarrow> u64 \<Rightarrow> u64 \<Rightarrow> semaphore_command \<Rightarrow> sem_store \<Rightarrow>
    semaphore_response \<times> sem_store" where
  "apply_semaphore sha256 delim revision now (SemaphoreAcquire key holder limit ttl_ms wait wait_timeout_ms) s =
     apply_semaphore_acquire sha256 revision now
       \<lparr>si_key = key, si_holder = holder, si_limit = limit, si_ttl_ms = ttl_ms, si_wait = wait,
        si_wait_timeout_ms = wait_timeout_ms, si_request_id = None, si_legacy_semantics = True\<rparr> s"
| "apply_semaphore sha256 delim revision now (SemaphoreAcquireV2 key holder limit ttl_ms wait wait_timeout_ms) s =
     apply_semaphore_acquire sha256 revision now
       \<lparr>si_key = key, si_holder = holder, si_limit = limit, si_ttl_ms = ttl_ms, si_wait = wait,
        si_wait_timeout_ms = wait_timeout_ms, si_request_id = None, si_legacy_semantics = False\<rparr> s"
| "apply_semaphore sha256 delim revision now
     (SemaphoreAcquireAttempt key holder request_id limit ttl_ms wait wait_timeout_ms) s =
     apply_semaphore_acquire sha256 revision now
       \<lparr>si_key = key, si_holder = holder, si_limit = limit, si_ttl_ms = ttl_ms, si_wait = wait,
        si_wait_timeout_ms = wait_timeout_ms, si_request_id = Some request_id,
        si_legacy_semantics = False\<rparr> s"
| "apply_semaphore sha256 delim revision now (SemaphoreRenew key holder fencing_token ttl_ms) s =
     apply_semaphore_renew revision now key holder fencing_token ttl_ms s"
| "apply_semaphore sha256 delim revision now (SemaphoreRelease key holder fencing_token) s =
     apply_semaphore_release revision now key holder fencing_token s"
| "apply_semaphore sha256 delim revision now (SemaphoreCancel key holder) s =
     apply_semaphore_cancel sha256 delim revision now key holder None s"
| "apply_semaphore sha256 delim revision now (SemaphoreCancelAttempt key holder request_id) s =
     apply_semaphore_cancel sha256 delim revision now key holder (Some request_id) s"

subsection \<open>Read views\<close>

record semaphore_holder_view =
  sh_holder :: string
  sh_fencing_token :: u64
  sh_lease_expires_ms :: u64

record semaphore_state =
  sv_key :: string
  sv_limit :: u32
  sv_holders :: "semaphore_holder_view list"
  sv_available :: u32
  sv_wait_queue :: "lock_waiter list"

definition semaphore_snapshot_live_at :: "string \<Rightarrow> u64 \<Rightarrow> (string, semaphore) fmap \<Rightarrow> semaphore_state" where
  "semaphore_snapshot_live_at key now sems = (case fmlookup sems key of
     None \<Rightarrow> \<lparr>sv_key = key, sv_limit = 0, sv_holders = [], sv_available = 0, sv_wait_queue = []\<rparr>
   | Some sem \<Rightarrow>
       let live = filter (\<lambda>permit. ss_lease_expires_ms permit > now) (sm_holders sem) in
       \<lparr>sv_key = key, sv_limit = sm_limit sem,
        sv_holders = map (\<lambda>permit. \<lparr>sh_holder = ss_holder permit, sh_fencing_token = ss_fencing_token permit,
          sh_lease_expires_ms = ss_lease_expires_ms permit\<rparr>) live,
        sv_available = sat_sub (sm_limit sem) (word_of_nat (length live)),
        sv_wait_queue = map (\<lambda>(_, q). \<lparr>lw_holder = qp_holder q, lw_keys = [key],
            lw_requested_ms = qp_requested_ms q, lw_wait_expires_ms = qp_wait_expires_ms q\<rparr>)
          (filter (\<lambda>(_, q). waiter_is_live (qp_wait_expires_ms q) now) (sm_queue sem))\<rparr>)"

definition semaphore_inventory_live_at :: "u64 \<Rightarrow> (string, semaphore) fmap \<Rightarrow> semaphore_state list" where
  "semaphore_inventory_live_at now sems = map (\<lambda>(key, _). semaphore_snapshot_live_at key now sems) (entries sems)"

end
