(* ===== verification/Semaphores.thy ===== *)
theory Semaphores
  imports Semaphore_Model
begin

section \<open>Correctness of the counting semaphores\<close>

text \<open>
  \<open>sem_inv\<close> is the invariant of one semaphore for a token counter: the queue is indexed by holder,
  and the permits carry distinct positive tokens not above the counter. \<open>sem_fits\<close> is the
  exclusion bound: no more permits than the limit. \<open>sem_settled\<close> says that no waiter could be
  admitted. Promotion is characterised by a closed form: it admits the longest prefix of the
  queue that capacity and token supply allow, in order, with consecutive tokens. \<open>sem_store_sound\<close> is
  the part of the invariant that every command keeps, the historical acquire included.
\<close>

definition sem_inv :: "u64 \<Rightarrow> semaphore \<Rightarrow> bool" where
  "sem_inv c sem \<longleftrightarrow> fifo_ok (sm_queue sem) \<and> (\<forall>(h, w) \<in> set (sm_queue sem). h = qp_holder w) \<and>
     distinct (map ss_fencing_token (sm_holders sem)) \<and>
     (\<forall>p \<in> set (sm_holders sem). 0 < ss_fencing_token p \<and> ss_fencing_token p \<le> c)"

definition sem_fits :: "semaphore \<Rightarrow> bool" where
  "sem_fits sem \<longleftrightarrow> length (sm_holders sem) \<le> unat (sm_limit sem)"

definition sem_settled :: "u64 \<Rightarrow> semaphore \<Rightarrow> bool" where
  "sem_settled c sem \<longleftrightarrow> sm_queue sem = [] \<or> unat (sm_limit sem) \<le> length (sm_holders sem) \<or> next_token c = None"

lemma sem_inv_mono: "sem_inv c sem \<Longrightarrow> c \<le> c' \<Longrightarrow> sem_inv c' sem"
  by (fastforce simp: sem_inv_def)

lemma sem_settled_mono: "sem_settled c sem \<Longrightarrow> c \<le> c' \<Longrightarrow> sem_settled c' sem"
  by (auto simp: sem_settled_def next_token_None)

lemma unat_sem_used: "sem_fits sem \<Longrightarrow> unat (sem_used sem) = length (sm_holders sem)"
  using unat_lt_2p [of "sm_limit sem"] by (simp add: sem_fits_def sem_used_def unat_of_nat_small)

lemma sem_full_iff: "sem_fits sem \<Longrightarrow> sm_limit sem \<le> sem_used sem \<longleftrightarrow> unat (sm_limit sem) \<le> length (sm_holders sem)"
  by (simp add: word_le_nat_alt unat_sem_used)

lemma sem_room_iff: "sem_fits sem \<Longrightarrow> sem_used sem < sm_limit sem \<longleftrightarrow> length (sm_holders sem) < unat (sm_limit sem)"
  by (simp add: word_less_nat_alt unat_sem_used)

subsection \<open>Promotion in closed form\<close>

definition permit_for :: "u64 \<Rightarrow> u64 \<Rightarrow> queued_permit \<Rightarrow> semaphore_slot" where
  "permit_for now token w = \<lparr>ss_holder = qp_holder w, ss_fencing_token = token,
     ss_lease_expires_ms = sat_add now (qp_ttl_ms w), ss_request_id = qp_request_id w\<rparr>"

fun permits_for :: "u64 \<Rightarrow> u64 \<Rightarrow> (string, queued_permit) fifo \<Rightarrow> semaphore_slot list" where
  "permits_for now c [] = []"
| "permits_for now c ((_, w) # q) = permit_for now (c + 1) w # permits_for now (c + 1) q"

definition admit_count :: "u64 \<Rightarrow> semaphore \<Rightarrow> nat" where
  "admit_count c sem = min (min (unat (sm_limit sem) - length (sm_holders sem)) (length (sm_queue sem)))
     (unat MAX_FENCING_TOKEN - unat c)"

definition promotion_of :: "semaphore_slot \<Rightarrow> permit_promotion" where
  "promotion_of p = \<lparr>pp_holder = ss_holder p, pp_fencing_token = ss_fencing_token p,
     pp_lease_expires_ms = ss_lease_expires_ms p\<rparr>"

definition admit_spec :: "u64 \<Rightarrow> u64 \<Rightarrow> semaphore \<Rightarrow> permit_promotion list \<times> u64 \<times> semaphore" where
  "admit_spec now c sem =
     (let n = admit_count c sem; new = permits_for now c (take n (sm_queue sem))
      in (map promotion_of new, c + word_of_nat n,
          sem\<lparr>sm_holders := sm_holders sem @ new, sm_queue := drop n (sm_queue sem)\<rparr>))"

lemma admit_waiters_stop:
  assumes "sem_fits sem" "sem_settled c sem"
  shows "admit_waiters now c sem = ([], c, sem)"
  using assms by (subst admit_waiters.simps) (auto simp: sem_settled_def sem_full_iff)

lemma admit_waiters_step:
  assumes "sem_fits sem" "length (sm_holders sem) < unat (sm_limit sem)" "sm_queue sem = (h, w) # q" "next_token c = Some t"
  shows "admit_waiters now c sem = (let (ps, c', sem') =
      admit_waiters now t (sem\<lparr>sm_holders := sm_holders sem @ [permit_for now t w], sm_queue := q\<rparr>)
    in (promotion_of (permit_for now t w) # ps, c', sem'))"
  using assms by (subst admit_waiters.simps) (simp add: sem_full_iff permit_for_def promotion_of_def Let_def)

lemma admit_count_settled: "admit_count c sem = 0 \<longleftrightarrow> sem_settled c sem"
  by (auto simp: admit_count_def sem_settled_def next_token_None word_le_nat_alt min_def)

lemma admit_count_step:
  assumes "length (sm_holders sem) < unat (sm_limit sem)" "sm_queue sem = (h, w) # q" "next_token c = Some t"
  shows "admit_count c sem = Suc (admit_count t (sem\<lparr>sm_holders := sm_holders sem @ [p], sm_queue := q\<rparr>))"
proof -
  have "unat t = unat c + 1" "unat c < unat MAX_FENCING_TOKEN"
    using next_token_Some [OF assms(3)] by (simp_all add: word_le_nat_alt)
  then show ?thesis using assms(1,2) by (simp add: admit_count_def)
qed

lemma next_token_Some_eq: "next_token c = Some t \<Longrightarrow> t = c + 1"
  by (simp add: next_token_eq split: if_splits)

lemma admit_waiters_closed_form:
  assumes "sem_fits sem"
  shows "admit_waiters now c sem = admit_spec now c sem"
  using assms
proof (induction "sm_queue sem" arbitrary: c sem)
  case Nil
  then show ?case using admit_waiters_stop [of sem c now] admit_count_settled [of c sem]
    by (simp add: sem_settled_def admit_spec_def Let_def)
next
  case (Cons x q)
  obtain h w where x: "sm_queue sem = (h, w) # q" using Cons.hyps(2) by (metis surj_pair)
  show ?case
  proof (cases "sem_settled c sem")
    case True
    then show ?thesis using admit_waiters_stop [OF Cons.prems True] admit_count_settled [of c sem]
      by (simp add: admit_spec_def Let_def)
  next
    case False
    then obtain t where room: "length (sm_holders sem) < unat (sm_limit sem)" and t: "next_token c = Some t"
      by (auto simp: sem_settled_def)
    let ?sem = "sem\<lparr>sm_holders := sm_holders sem @ [permit_for now t w], sm_queue := q\<rparr>"
    have "admit_waiters now t ?sem = admit_spec now t ?sem"
      using Cons.hyps(1) [of ?sem t] room by (simp add: sem_fits_def)
    then show ?thesis
      using admit_waiters_step [OF Cons.prems room x t, of now]
        admit_count_step [OF room x t, of "permit_for now t w"] next_token_Some_eq [OF t] x
      by (simp add: admit_spec_def Let_def algebra_simps)
  qed
qed

subsection \<open>Promotion keeps the invariant and settles the queue\<close>

lemma admit_waiters_ok:
  assumes "sem_inv c sem" "sem_fits sem" "c \<le> MAX_FENCING_TOKEN" "admit_waiters now c sem = (ps, c', sem')"
  shows "sem_inv c' sem' \<and> sem_fits sem' \<and> sem_settled c' sem' \<and> c \<le> c' \<and> c' \<le> MAX_FENCING_TOKEN \<and>
    sm_limit sem' = sm_limit sem \<and>
    (\<forall>p \<in> set (sm_holders sem'). p \<in> set (sm_holders sem) \<or> c < ss_fencing_token p)"
  using assms
proof (induction "sm_queue sem" arbitrary: c sem ps c' sem')
  case Nil
  then have "sem_settled c sem" by (simp add: sem_settled_def)
  then show ?case using Nil by (simp add: admit_waiters_stop)
next
  case (Cons x q)
  obtain h w where x: "sm_queue sem = (h, w) # q" using Cons.hyps(2) by (metis surj_pair)
  show ?case
  proof (cases "sem_settled c sem")
    case True
    then show ?thesis using Cons.prems by (simp add: admit_waiters_stop)
  next
    case False
    then obtain t where room: "length (sm_holders sem) < unat (sm_limit sem)" and t: "next_token c = Some t"
      by (auto simp: sem_settled_def)
    let ?sem = "sem\<lparr>sm_holders := sm_holders sem @ [permit_for now t w], sm_queue := q\<rparr>"
    note ts = next_token_Some [OF t]
    have old: "ss_fencing_token p \<le> c \<and> 0 < ss_fencing_token p" if "p \<in> set (sm_holders sem)" for p
      using Cons.prems(1) that by (auto simp: sem_inv_def)
    have "t \<notin> ss_fencing_token ` set (sm_holders sem)" using old ts(1) by fastforce
    then have inv: "sem_inv t ?sem"
      using Cons.prems(1) x ts order_trans [OF conjunct1 [OF old] order_less_imp_le [OF ts(1)]]
      by (auto simp: sem_inv_def fifo_ok_def permit_for_def)
    have fits: "sem_fits ?sem" using room by (simp add: sem_fits_def)
    obtain ps1 where "admit_waiters now t ?sem = (ps1, c', sem')"
      using admit_waiters_step [OF Cons.prems(2) room x t, of now] Cons.prems(4) by (auto split: prod.splits)
    then have "sem_inv c' sem' \<and> sem_fits sem' \<and> sem_settled c' sem' \<and> t \<le> c' \<and> c' \<le> MAX_FENCING_TOKEN \<and>
        sm_limit sem' = sm_limit ?sem \<and>
        (\<forall>p \<in> set (sm_holders sem'). p \<in> set (sm_holders ?sem) \<or> t < ss_fencing_token p)"
      using Cons.hyps(1) [of ?sem t ps1 c' sem'] inv fits ts(2) by simp
    then show ?thesis using ts(1) by (fastforce simp: permit_for_def)
  qed
qed

subsection \<open>The store\<close>

definition sem_tokens :: "sem_store \<Rightarrow> u64 set" where
  "sem_tokens s = {t. \<exists>k sem p. fmlookup (ms_semaphores s) k = Some sem \<and> p \<in> set (sm_holders sem) \<and> ss_fencing_token p = t}"

definition sems_ok :: "sem_store \<Rightarrow> bool" where
  "sems_ok s \<longleftrightarrow> (\<forall>k sem. fmlookup (ms_semaphores s) k = Some sem \<longrightarrow>
     sem_inv (ms_next_fencing_token s) sem \<and> sem_fits sem)"

definition sem_store_ok :: "sem_store \<Rightarrow> bool" where
  "sem_store_ok s \<longleftrightarrow> sems_ok s \<and> ms_next_fencing_token s \<le> MAX_FENCING_TOKEN \<and> ledger_ok (ms_cancellations s)"

definition sem_store_settled :: "sem_store \<Rightarrow> bool" where
  "sem_store_settled s \<longleftrightarrow> (\<forall>k sem. fmlookup (ms_semaphores s) k = Some sem \<longrightarrow>
     sem_settled (ms_next_fencing_token s) sem)"

definition sem_fresh :: "sem_store \<Rightarrow> sem_store \<Rightarrow> bool" where
  "sem_fresh s s' \<longleftrightarrow> fresh_step (ms_next_fencing_token s) (sem_tokens s) (ms_next_fencing_token s') (sem_tokens s')"

definition sem_step_ok :: "sem_store \<Rightarrow> sem_store \<Rightarrow> bool" where
  "sem_step_ok s s' \<longleftrightarrow> sem_store_ok s' \<and> (sem_store_settled s \<longrightarrow> sem_store_settled s') \<and> sem_fresh s s'"

lemma sem_store_ok_new: "sem_store_ok sem_store_new" "sem_store_settled sem_store_new"
  by (simp_all add: sem_store_ok_def sems_ok_def sem_store_settled_def sem_store_new_def ledger_ok_new)

lemma sem_step_ok_refl: "sem_store_ok s \<Longrightarrow> sem_step_ok s s"
  by (auto simp: sem_step_ok_def sem_fresh_def)

text \<open>Replacing one semaphore and advancing the counter.\<close>

definition put_sem :: "string \<Rightarrow> semaphore \<Rightarrow> u64 \<Rightarrow> sem_store \<Rightarrow> sem_store" where
  "put_sem key sem c s = s\<lparr>ms_next_fencing_token := c, ms_semaphores := fmupd key sem (ms_semaphores s)\<rparr>"

lemma sem_fresh_put:
  assumes "ms_next_fencing_token s \<le> c" "c \<le> MAX_FENCING_TOKEN"
    and "\<And>p. p \<in> set (sm_holders sem) \<Longrightarrow> ss_fencing_token p \<in> sem_tokens s \<or>
      ms_next_fencing_token s < ss_fencing_token p \<and> ss_fencing_token p \<le> c"
  shows "sem_fresh s (put_sem key sem c s)"
proof -
  have "t \<in> sem_tokens s \<or> ms_next_fencing_token s < t \<and> t \<le> c" if "t \<in> sem_tokens (put_sem key sem c s)" for t
    using that assms(3) by (fastforce simp: sem_tokens_def put_sem_def split: if_splits)
  then show ?thesis using assms(1,2) by (auto simp: sem_fresh_def fresh_step_def put_sem_def le_max_iff_disj)
qed

lemma sem_step_ok_put:
  assumes ok: "sem_store_ok s" and c: "ms_next_fencing_token s \<le> c" "c \<le> MAX_FENCING_TOKEN"
    and sem: "sem_inv c sem" "sem_fits sem" "sem_store_settled s \<Longrightarrow> sem_settled c sem"
    and new: "\<And>p. p \<in> set (sm_holders sem) \<Longrightarrow> ss_fencing_token p \<in> sem_tokens s \<or>
      ms_next_fencing_token s < ss_fencing_token p"
  shows "sem_step_ok s (put_sem key sem c s)"
proof -
  have "sem_inv c x \<and> sem_fits x" if "fmlookup (ms_semaphores s) k = Some x" for k x
    using ok that sem_inv_mono [OF _ c(1)] by (simp add: sem_store_ok_def sems_ok_def)
  then have "sem_store_ok (put_sem key sem c s)"
    using ok c sem by (auto simp: sem_store_ok_def sems_ok_def put_sem_def)
  moreover have "sem_store_settled s \<longrightarrow> sem_store_settled (put_sem key sem c s)"
    using sem(3) sem_settled_mono [OF _ c(1)] by (auto simp: sem_store_settled_def put_sem_def)
  moreover have "sem_fresh s (put_sem key sem c s)"
    using new sem(1) by (intro sem_fresh_put c) (auto simp: sem_inv_def)
  ultimately show ?thesis by (simp add: sem_step_ok_def)
qed

lemma sem_fresh_trans: "sem_fresh s s1 \<Longrightarrow> sem_fresh s1 s2 \<Longrightarrow> sem_fresh s s2"
  by (auto simp: sem_fresh_def intro: fresh_step_trans)

lemma sem_tokensI: "fmlookup (ms_semaphores s) k = Some sem \<Longrightarrow> p \<in> set (sm_holders sem) \<Longrightarrow> ss_fencing_token p \<in> sem_tokens s"
  by (auto simp: sem_tokens_def)

lemma semaphore_promote_put:
  assumes "fmlookup (ms_semaphores s) key = Some sem" "admit_waiters now (ms_next_fencing_token s) sem = (ps, c, sem')"
  shows "semaphore_promote key now s = (ps, put_sem key sem' c s)"
  using assms by (simp add: semaphore_promote_def put_sem_def)

lemma semaphore_promote_ok:
  assumes ok: "sem_store_ok s"
  shows "sem_step_ok s (snd (semaphore_promote key now s)) \<and>
    (\<forall>sem. fmlookup (ms_semaphores (snd (semaphore_promote key now s))) key = Some sem \<longrightarrow>
       sem_settled (ms_next_fencing_token (snd (semaphore_promote key now s))) sem)"
proof (cases "fmlookup (ms_semaphores s) key")
  case None
  then show ?thesis using sem_step_ok_refl [OF ok] by (simp add: semaphore_promote_def)
next
  case (Some sem)
  obtain ps c sem' where a: "admit_waiters now (ms_next_fencing_token s) sem = (ps, c, sem')"
    using prod_cases3 by blast
  have "sem_inv (ms_next_fencing_token s) sem" "sem_fits sem" "ms_next_fencing_token s \<le> MAX_FENCING_TOKEN"
    using ok Some by (simp_all add: sem_store_ok_def sems_ok_def)
  note r = admit_waiters_ok [OF this a]
  have "sem_step_ok s (put_sem key sem' c s)"
    using r sem_tokensI [OF Some] by (intro sem_step_ok_put ok) auto
  then show ?thesis using semaphore_promote_put [OF Some a] r by (simp add: put_sem_def)
qed

lemma semaphore_promote_others:
  "k \<noteq> key \<Longrightarrow> fmlookup (ms_semaphores (snd (semaphore_promote key now s))) k = fmlookup (ms_semaphores s) k"
  "ms_cancellations (snd (semaphore_promote key now s)) = ms_cancellations s"
  "fmlookup (ms_semaphores (snd (semaphore_promote key now s))) k = None \<longleftrightarrow> fmlookup (ms_semaphores s) k = None"
  by (auto simp: semaphore_promote_def case_prod_unfold Let_def split: option.split)

lemma sem_step_ok_counter: "sem_step_ok s s' \<Longrightarrow> ms_next_fencing_token s \<le> ms_next_fencing_token s'"
  by (simp add: sem_step_ok_def sem_fresh_def fresh_step_def)

text \<open>Changing one semaphore without minting and then promoting it.\<close>

lemma sem_step_promote:
  assumes ok: "sem_store_ok s"
    and sem: "sem_inv (ms_next_fencing_token s) sem" "sem_fits sem"
    and old: "\<And>p. p \<in> set (sm_holders sem) \<Longrightarrow> ss_fencing_token p \<in> sem_tokens s"
    and s0: "s0 = s\<lparr>ms_semaphores := fmupd key sem (ms_semaphores s)\<rparr>"
  shows "sem_step_ok s (snd (semaphore_promote key now s0))"
proof -
  let ?s = "snd (semaphore_promote key now s0)"
  have put: "s0 = put_sem key sem (ms_next_fencing_token s) s" by (simp add: s0 put_sem_def)
  have ok0: "sem_store_ok s0"
    using ok sem by (auto simp: sem_store_ok_def sems_ok_def s0)
  have f0: "sem_fresh s s0"
    unfolding put using ok old by (intro sem_fresh_put) (auto simp: sem_store_ok_def)
  note r = semaphore_promote_ok [OF ok0, of key now]
  have c: "ms_next_fencing_token s \<le> ms_next_fencing_token ?s"
    using sem_step_ok_counter [OF conjunct1 [OF r]] by (simp add: s0)
  have "sem_store_settled ?s" if st: "sem_store_settled s"
    unfolding sem_store_settled_def
  proof (intro allI impI)
    fix k x assume x: "fmlookup (ms_semaphores ?s) k = Some x"
    show "sem_settled (ms_next_fencing_token ?s) x"
    proof (cases "k = key")
      case False
      then have "fmlookup (ms_semaphores s) k = Some x" using x by (simp add: semaphore_promote_others s0)
      then show ?thesis using st sem_settled_mono [OF _ c] by (simp add: sem_store_settled_def)
    qed (use r x in auto)
  qed
  then show ?thesis
    using r sem_fresh_trans [OF f0] by (simp add: sem_step_ok_def)
qed

subsection \<open>Every hardened command keeps the invariant\<close>

lemma sem_new_ok:
  "sem_inv c \<lparr>sm_limit = l, sm_holders = [], sm_queue = []\<rparr>" "sem_fits \<lparr>sm_limit = l, sm_holders = [], sm_queue = []\<rparr>"
  "sem_settled c \<lparr>sm_limit = l, sm_holders = [], sm_queue = []\<rparr>"
  by (simp_all add: sem_inv_def sem_fits_def sem_settled_def)

lemma sem_addressed_ok:
  assumes ok: "sem_store_ok s" and "\<not> si_legacy_semantics input"
  shows "sem_inv (ms_next_fencing_token s) (sem_addressed input s)" "sem_fits (sem_addressed input s)"
    "sem_store_settled s \<Longrightarrow> sem_settled (ms_next_fencing_token s) (sem_addressed input s)"
    "p \<in> set (sm_holders (sem_addressed input s)) \<Longrightarrow> ss_fencing_token p \<in> sem_tokens s"
  using assms by (auto simp: sem_addressed_def sem_new_ok sem_store_ok_def sems_ok_def sem_store_settled_def
      intro: sem_tokensI split: option.splits)

lemma sem_enqueue_ok:
  assumes "sem_inv c sem" "sem_fits sem" "\<not> (sem_used sem < sm_limit sem \<and> sm_queue sem = [])"
  shows "sem_inv c (snd (sem_enqueue revision now input sem))" "sem_fits (snd (sem_enqueue revision now input sem))"
    "sem_settled c sem \<Longrightarrow> sem_settled c (snd (sem_enqueue revision now input sem))"
    "sm_holders (snd (sem_enqueue revision now input sem)) = sm_holders sem"
  using assms
  by (auto simp: sem_enqueue_def Let_def sem_inv_def sem_fits_def fifo_push_back_def fifo_ok_def
      fifo_contains_def sem_settled_def sem_room_iff)

lemma sem_put_eq: "s\<lparr>ms_semaphores := fmupd key sem (ms_semaphores s)\<rparr> = put_sem key sem (ms_next_fencing_token s) s"
  by (simp add: put_sem_def)

lemma sem_put_swap:
  "s\<lparr>ms_semaphores := m, ms_next_fencing_token := t\<rparr> = s\<lparr>ms_next_fencing_token := t, ms_semaphores := m\<rparr>"
  by simp

lemma apply_semaphore_acquire_ok:
  assumes ok: "sem_store_ok s" and hardened: "\<not> si_legacy_semantics input"
  shows "sem_step_ok s (snd (apply_semaphore_acquire sha256 revision now input s))"
proof -
  let ?c = "ms_next_fencing_token s" and ?sem = "sem_addressed input s" and ?key = "si_key input"
  note a = sem_addressed_ok [OF ok hardened]
  have c: "?c \<le> MAX_FENCING_TOKEN" using ok by (simp add: sem_store_ok_def)
  have put: "sem_step_ok s (put_sem ?key ?sem ?c s)" using a c by (intro sem_step_ok_put ok) auto
  have grant: "sem_step_ok s (put_sem ?key (?sem\<lparr>sm_holders := sm_holders ?sem @ [p]\<rparr>) (ss_fencing_token p) s)"
    if t: "next_token ?c = Some (ss_fencing_token p)" and room: "sem_used ?sem < sm_limit ?sem" "sm_queue ?sem = []" for p
  proof (rule sem_step_ok_put [OF ok])
    note ts = next_token_Some [OF t]
    show "?c \<le> ss_fencing_token p" "ss_fencing_token p \<le> MAX_FENCING_TOKEN" using ts by simp_all
    have old: "ss_fencing_token x < ss_fencing_token p" if "x \<in> set (sm_holders ?sem)" for x
      using a(1) ts(1) that by (force simp: sem_inv_def)
    then show "sem_inv (ss_fencing_token p) (?sem\<lparr>sm_holders := sm_holders ?sem @ [p]\<rparr>)"
      using a(1) ts(3) by (force simp: sem_inv_def)
    show "sem_fits (?sem\<lparr>sm_holders := sm_holders ?sem @ [p]\<rparr>)"
      using room(1) a(2) by (simp add: sem_room_iff) (simp add: sem_fits_def)
    show "sem_settled (ss_fencing_token p) (?sem\<lparr>sm_holders := sm_holders ?sem @ [p]\<rparr>)"
      using room(2) by (simp add: sem_settled_def)
  qed (use a(4) next_token_Some(1) [OF t] in auto)
  have enq: "sem_step_ok s (put_sem ?key (snd (sem_enqueue revision now input ?sem)) ?c s)"
    if "\<not> (sem_used ?sem < sm_limit ?sem \<and> sm_queue ?sem = [])"
    using sem_enqueue_ok [OF a(1,2) that] a(3,4) c by (intro sem_step_ok_put ok) auto
  have grant': "sem_step_ok s (s\<lparr>ms_semaphores := fmupd ?key (?sem\<lparr>sm_holders :=
      sm_holders ?sem @ [\<lparr>ss_holder = h, ss_fencing_token = t, ss_lease_expires_ms = l, ss_request_id = r\<rparr>]\<rparr>) (ms_semaphores s),
      ms_next_fencing_token := t\<rparr>)"
    if "next_token ?c = Some t" "sem_used ?sem < sm_limit ?sem" "sm_queue ?sem = []" for t h l r
    using grant [of "\<lparr>ss_holder = h, ss_fencing_token = t, ss_lease_expires_ms = l, ss_request_id = r\<rparr>"] that
    by (simp add: put_sem_def sem_put_swap)
  show ?thesis
    using put enq by (simp add: apply_semaphore_acquire_def Let_def case_prod_unfold sem_step_ok_refl [OF ok] grant'
        sem_put_eq [symmetric] split: option.split)
qed

lemma map_token_renew_first [simp]: "map ss_fencing_token (renew_first t l ps) = map ss_fencing_token ps"
  by (induction ps) auto

lemma length_renew_first [simp]: "length (renew_first t l ps) = length ps"
  by (induction ps) auto

lemma renew_first_token: "p \<in> set (renew_first t l ps) \<Longrightarrow> ss_fencing_token p \<in> ss_fencing_token ` set ps"
  by (metis image_eqI list.set_map map_token_renew_first)

lemma sem_storeD:
  assumes "sem_store_ok s" "fmlookup (ms_semaphores s) key = Some sem"
  shows "sem_inv (ms_next_fencing_token s) sem" "sem_fits sem"
  using assms by (simp_all add: sem_store_ok_def sems_ok_def)

lemma sem_inv_cong_tokens:
  "sem_inv c sem \<Longrightarrow> map ss_fencing_token (sm_holders sem') = map ss_fencing_token (sm_holders sem) \<Longrightarrow>
     sm_queue sem' = sm_queue sem \<Longrightarrow> sem_inv c sem'"
  unfolding sem_inv_def by (metis (no_types, lifting) image_iff list.set_map)

lemma apply_semaphore_renew_ok:
  assumes ok: "sem_store_ok s"
  shows "sem_step_ok s (snd (apply_semaphore_renew revision now key holder token ttl s))"
proof -
  have "sem_step_ok s (s\<lparr>ms_semaphores := fmupd key (sem\<lparr>sm_holders := renew_first token l (sm_holders sem)\<rparr>) (ms_semaphores s)\<rparr>)"
    if x: "fmlookup (ms_semaphores s) key = Some sem" for sem l
    unfolding sem_put_eq
  proof (rule sem_step_ok_put [OF ok order_refl])
    let ?sem = "sem\<lparr>sm_holders := renew_first token l (sm_holders sem)\<rparr>"
    show "ms_next_fencing_token s \<le> MAX_FENCING_TOKEN" using ok by (simp add: sem_store_ok_def)
    show "sem_inv (ms_next_fencing_token s) ?sem" by (rule sem_inv_cong_tokens [OF sem_storeD(1) [OF ok x]]) simp_all
    show "sem_fits ?sem" using sem_storeD(2) [OF ok x] by (simp add: sem_fits_def)
    show "sem_settled (ms_next_fencing_token s) ?sem" if "sem_store_settled s"
      using that x by (auto simp: sem_store_settled_def sem_settled_def)
    show "ss_fencing_token p \<in> sem_tokens s \<or> ms_next_fencing_token s < ss_fencing_token p"
      if "p \<in> set (sm_holders ?sem)" for p
      using renew_first_token [of p token l "sm_holders sem"] that sem_tokensI [OF x] by fastforce
  qed
  then show ?thesis
    by (simp add: apply_semaphore_renew_def Let_def sem_step_ok_refl [OF ok] split: option.split)
qed

lemma sem_inv_filter:
  "sem_inv c sem \<Longrightarrow> sem_inv c (sem\<lparr>sm_holders := filter P (sm_holders sem)\<rparr>)"
  "sem_inv c sem \<Longrightarrow> sem_inv c (sem\<lparr>sm_queue := filter R (sm_queue sem)\<rparr>)"
  by (auto simp: sem_inv_def fifo_ok_filter distinct_map_filter)

lemma sem_fits_filter: "sem_fits sem \<Longrightarrow> sem_fits (sem\<lparr>sm_holders := filter P (sm_holders sem)\<rparr>)"
  by (auto simp: sem_fits_def intro: order_trans [OF length_filter_le])

lemma apply_semaphore_release_ok:
  assumes ok: "sem_store_ok s"
  shows "sem_step_ok s (snd (apply_semaphore_release revision now key holder token s))"
proof -
  let ?P = "\<lambda>p. \<not> (ss_fencing_token p = token \<and> ss_holder p = holder)"
  have pr: "sem_step_ok s (snd (semaphore_promote key now (s\<lparr>ms_semaphores :=
      fmupd key (sem\<lparr>sm_holders := filter ?P (sm_holders sem)\<rparr>) (ms_semaphores s)\<rparr>)))"
    if x: "fmlookup (ms_semaphores s) key = Some sem" for sem
    by (rule sem_step_promote [OF ok sem_inv_filter(1) [OF sem_storeD(1) [OF ok x]]
          sem_fits_filter [OF sem_storeD(2) [OF ok x]] _ refl]) (use sem_tokensI [OF x] in auto)
  have same: "s\<lparr>ms_semaphores := fmupd key (sem\<lparr>sm_holders := filter ?P (sm_holders sem)\<rparr>) (ms_semaphores s)\<rparr> = s"
    if x: "fmlookup (ms_semaphores s) key = Some sem" and l: "length (filter ?P (sm_holders sem)) = length (sm_holders sem)" for sem
  proof -
    have "filter ?P (sm_holders sem) = sm_holders sem"
      using l by (metis (no_types, lifting) filter_True length_filter_less less_irrefl)
    moreover have "fmupd key sem (ms_semaphores s) = ms_semaphores s"
      by (rule fmap_ext) (auto simp: x)
    ultimately show ?thesis by simp
  qed
  show ?thesis
    by (simp add: apply_semaphore_release_def Let_def case_prod_unfold sem_step_ok_refl [OF ok] pr same
        del: de_Morgan_conj split: option.split)
qed

lemma sem_not_queued_state [simp]: "snd (sem_not_queued revision key holder rid s) = s"
  by (simp add: sem_not_queued_def split: option.split)

lemma sem_cancel_queued_ok:
  assumes ok: "sem_store_ok s"
  shows "sem_step_ok s (snd (sem_cancel_queued revision now key holder rid s))"
proof -
  have pr: "sem_step_ok s (snd (semaphore_promote key now (s\<lparr>ms_semaphores :=
      fmupd key (sem\<lparr>sm_queue := filter R (sm_queue sem)\<rparr>) (ms_semaphores s)\<rparr>)))"
    if x: "fmlookup (ms_semaphores s) key = Some sem" for sem R
    by (rule sem_step_promote [OF ok sem_inv_filter(2) [OF sem_storeD(1) [OF ok x]] _ _ refl])
      (use sem_storeD(2) [OF ok x] sem_tokensI [OF x] in \<open>auto simp: sem_fits_def\<close>)
  show ?thesis
    by (simp add: sem_cancel_queued_def Let_def case_prod_unfold fifo_remove_def sem_step_ok_refl [OF ok] pr split: option.split)
qed

lemma sem_step_ok_ledger:
  assumes "ledger_ok l" "sem_store_ok (s\<lparr>ms_cancellations := l\<rparr>) \<Longrightarrow> sem_step_ok (s\<lparr>ms_cancellations := l\<rparr>) s'" "sem_store_ok s"
  shows "sem_step_ok s s'"
  using assms by (simp add: sem_step_ok_def sem_store_ok_def sems_ok_def sem_store_settled_def sem_fresh_def sem_tokens_def)

lemma apply_semaphore_cancel_ok:
  assumes ok: "sem_store_ok s"
  shows "sem_step_ok s (snd (apply_semaphore_cancel sha256 delim revision now key holder rid s))"
proof -
  have led: "sem_step_ok s (s\<lparr>ms_cancellations := l\<rparr>)"
      "sem_step_ok s (snd (sem_cancel_queued revision now key holder r (s\<lparr>ms_cancellations := l\<rparr>)))"
    if "remember i t now (ms_cancellations s) = (x, l)" for i t x l r
  proof -
    have l: "ledger_ok l" using ok ledger_ok_remember [OF _ that] by (simp add: sem_store_ok_def)
    show "sem_step_ok s (s\<lparr>ms_cancellations := l\<rparr>)"
      "sem_step_ok s (snd (sem_cancel_queued revision now key holder r (s\<lparr>ms_cancellations := l\<rparr>)))"
      using sem_step_ok_ledger [OF l _ ok] sem_step_ok_refl sem_cancel_queued_ok by blast+
  qed
  show ?thesis
    by (simp add: apply_semaphore_cancel_def sem_step_ok_refl [OF ok] sem_cancel_queued_ok [OF ok] led
        split: option.split prod.split remember_cancellation.split)
qed

text \<open>The historical acquire may lower the limit below the number of permits; every other command
  keeps the exclusion bound.\<close>

fun is_hardened :: "semaphore_command \<Rightarrow> bool" where
  "is_hardened (SemaphoreAcquire _ _ _ _ _ _) = False"
| "is_hardened _ = True"

lemma apply_semaphore_ok:
  assumes ok: "sem_store_ok s" and "is_hardened cmd"
  shows "sem_step_ok s (snd (apply_semaphore sha256 delim revision now cmd s))"
  using assms(2) by (cases cmd) (simp_all add: apply_semaphore_acquire_ok [OF ok] apply_semaphore_renew_ok [OF ok]
      apply_semaphore_release_ok [OF ok] apply_semaphore_cancel_ok [OF ok])

subsection \<open>The expiry sweep\<close>

lemma sem_expire_queue:
  assumes "fifo_ok (sm_queue sem)"
  shows "sem_expire now sem = sem\<lparr>
    sm_queue := filter (\<lambda>(_, w). waiter_is_live (qp_wait_expires_ms w) now) (sm_queue sem),
    sm_holders := filter (\<lambda>p. now < ss_lease_expires_ms p) (sm_holders sem)\<rparr>"
  using fifo_sweep [OF assms, of "\<lambda>w. waiter_is_live (qp_wait_expires_ms w) now"]
  by (simp add: sem_expire_def)

lemma sem_expire_ok:
  assumes "sem_inv c sem" "sem_fits sem"
  shows "sem_inv c (sem_expire now sem)" "sem_fits (sem_expire now sem)"
    "set (sm_holders (sem_expire now sem)) \<subseteq> set (sm_holders sem)"
proof -
  have "fifo_ok (sm_queue sem)" using assms(1) by (simp add: sem_inv_def)
  note e = sem_expire_queue [OF this, of now]
  show "sem_inv c (sem_expire now sem)"
    unfolding e using sem_inv_filter(1) [OF sem_inv_filter(2) [OF assms(1)]] by simp
  show "sem_fits (sem_expire now sem)"
    unfolding e using assms(2) by (auto simp: sem_fits_def intro: order_trans [OF length_filter_le])
  show "set (sm_holders (sem_expire now sem)) \<subseteq> set (sm_holders sem)" unfolding e by auto
qed

definition sem_swept :: "u64 \<Rightarrow> sem_store \<Rightarrow> sem_store" where
  "sem_swept now s = s\<lparr>ms_cancellations := ledger_expire now (ms_cancellations s),
     ms_semaphores := fmmap (sem_expire now) (ms_semaphores s)\<rparr>"

lemma sem_swept_ok:
  assumes ok: "sem_store_ok s"
  shows "sem_store_ok (sem_swept now s)" "sem_fresh s (sem_swept now s)"
proof -
  show "sem_store_ok (sem_swept now s)"
    using ok sem_expire_ok(1,2) [OF sem_storeD [OF ok]]
    by (auto simp: sem_store_ok_def sems_ok_def sem_swept_def ledger_ok_expire)
  have "sem_tokens (sem_swept now s) \<subseteq> sem_tokens s"
    using sem_expire_ok(3) [OF sem_storeD [OF ok]] by (fastforce simp: sem_tokens_def sem_swept_def)
  then show "sem_fresh s (sem_swept now s)" by (simp add: sem_fresh_def sem_swept_def fresh_step_refl)
qed

lemma promote_untouched:
  "k \<notin> set order \<Longrightarrow> fmlookup (ms_semaphores (semaphores_promote order now s)) k = fmlookup (ms_semaphores s) k"
  by (induction order arbitrary: s) (auto simp: semaphores_promote_def semaphore_promote_others)

lemma promote_dom:
  "fmlookup (ms_semaphores (semaphores_promote order now s)) k = None \<longleftrightarrow> fmlookup (ms_semaphores s) k = None"
  by (induction order arbitrary: s) (simp_all add: semaphores_promote_def semaphore_promote_others(3))

lemma semaphores_promote_ok:
  assumes ok: "sem_store_ok s"
  shows "sem_store_ok (semaphores_promote order now s) \<and> sem_fresh s (semaphores_promote order now s) \<and>
    (\<forall>k sem. fmlookup (ms_semaphores (semaphores_promote order now s)) k = Some sem \<longrightarrow>
       k \<in> set order \<or> fmlookup (ms_semaphores s) k = Some sem \<and> sem_settled (ms_next_fencing_token s) sem \<longrightarrow>
       sem_settled (ms_next_fencing_token (semaphores_promote order now s)) sem)"
  using ok
proof (induction order arbitrary: s)
  case Nil
  then show ?case by (auto simp: semaphores_promote_def sem_fresh_def)
next
  case (Cons key order)
  let ?s1 = "snd (semaphore_promote key now s)" and ?s2 = "semaphores_promote (key # order) now s"
  have s2: "?s2 = semaphores_promote order now ?s1" by (simp add: semaphores_promote_def)
  note r = semaphore_promote_ok [OF Cons.prems, of key now]
  have ok1: "sem_store_ok ?s1" and f1: "sem_fresh s ?s1" using r by (simp_all add: sem_step_ok_def)
  note ih = Cons.IH [OF ok1, folded s2]
  have c: "ms_next_fencing_token s \<le> ms_next_fencing_token ?s1"
    using sem_step_ok_counter [OF conjunct1 [OF r]] .
  have "sem_settled (ms_next_fencing_token ?s2) sem"
    if x: "fmlookup (ms_semaphores ?s2) k = Some sem" and
      k: "k \<in> set (key # order) \<or> fmlookup (ms_semaphores s) k = Some sem \<and> sem_settled (ms_next_fencing_token s) sem" for k sem
  proof (cases "k \<in> set order")
    case True
    then show ?thesis using ih x by blast
  next
    case False
    then have x1: "fmlookup (ms_semaphores ?s1) k = Some sem"
      using x promote_untouched [of k order now ?s1] s2 by simp
    have "sem_settled (ms_next_fencing_token ?s1) sem"
      using k False r x1 sem_settled_mono [OF _ c] by auto
    then show ?thesis using ih x x1 by blast
  qed
  then show ?case using ih sem_fresh_trans [OF f1] by blast
qed

lemma sem_expire_due_ok:
  assumes ok: "sem_store_ok s" and order: "fset (fmdom (ms_semaphores s)) \<subseteq> set order"
  shows "sem_step_ok s (sem_expire_due order now s)" "sem_store_settled (sem_expire_due order now s)"
proof -
  have e: "sem_expire_due order now s = semaphores_promote order now (sem_swept now s)"
    by (simp add: sem_expire_due_def sem_swept_def)
  note r = semaphores_promote_ok [OF sem_swept_ok(1) [OF ok, of now], of order now, folded e]
  have "k \<in> set order" if "fmlookup (ms_semaphores (sem_expire_due order now s)) k = Some sem" for k sem
  proof -
    have "fmlookup (ms_semaphores (sem_swept now s)) k \<noteq> None"
      using that promote_dom [of order now "sem_swept now s" k] e by auto
    then have "fmlookup (ms_semaphores s) k \<noteq> None" by (simp add: sem_swept_def)
    then show ?thesis using order by (auto simp: fmdom_image_entries)
  qed
  then show st: "sem_store_settled (sem_expire_due order now s)" using r by (auto simp: sem_store_settled_def)
  show "sem_step_ok s (sem_expire_due order now s)"
    using r st sem_fresh_trans [OF sem_swept_ok(2) [OF ok, of now]] by (simp add: sem_step_ok_def)
qed

subsection \<open>What every command keeps\<close>

text \<open>The historical acquire may lower the limit below the number of permits, so only the part of the invariant
  that does not speak of the limit survives every command: the tokens of each semaphore are distinct and within
  the counter, its queue is well formed, and every new token is above the old counter.\<close>

definition sem_store_sound :: "sem_store \<Rightarrow> bool" where
  "sem_store_sound s \<longleftrightarrow> (\<forall>k sem. fmlookup (ms_semaphores s) k = Some sem \<longrightarrow> sem_inv (ms_next_fencing_token s) sem) \<and>
     ms_next_fencing_token s \<le> MAX_FENCING_TOKEN \<and> ledger_ok (ms_cancellations s)"

definition sem_step_sound :: "sem_store \<Rightarrow> sem_store \<Rightarrow> bool" where
  "sem_step_sound s s' \<longleftrightarrow> sem_store_sound s' \<and> sem_fresh s s'"

lemma sem_store_sound_new: "sem_store_sound sem_store_new"
  by (simp add: sem_store_sound_def sem_store_new_def ledger_ok_new)

lemma sem_step_sound_refl: "sem_store_sound s \<Longrightarrow> sem_step_sound s s"
  by (auto simp: sem_step_sound_def sem_fresh_def)

lemma sem_step_sound_trans: "sem_step_sound s s1 \<Longrightarrow> sem_step_sound s1 s2 \<Longrightarrow> sem_step_sound s s2"
  using sem_fresh_trans by (auto simp: sem_step_sound_def)

lemma sem_soundD: "sem_store_sound s \<Longrightarrow> fmlookup (ms_semaphores s) key = Some sem \<Longrightarrow> sem_inv (ms_next_fencing_token s) sem"
  by (simp add: sem_store_sound_def)

lemma sem_soundB: "sem_store_sound s \<Longrightarrow> ms_next_fencing_token s \<le> MAX_FENCING_TOKEN"
  by (simp add: sem_store_sound_def)

lemma sem_step_sound_put:
  assumes ok: "sem_store_sound s" and c: "ms_next_fencing_token s \<le> c" "c \<le> MAX_FENCING_TOKEN"
    and sem: "sem_inv c sem"
    and new: "\<And>p. p \<in> set (sm_holders sem) \<Longrightarrow> ss_fencing_token p \<in> sem_tokens s \<or>
      ms_next_fencing_token s < ss_fencing_token p"
  shows "sem_step_sound s (put_sem key sem c s)"
proof -
  have "sem_inv c x" if "fmlookup (ms_semaphores s) k = Some x" for k x
    using sem_soundD [OF ok that] sem_inv_mono [OF _ c(1)] by simp
  then have "sem_store_sound (put_sem key sem c s)"
    using ok c sem by (auto simp: sem_store_sound_def put_sem_def)
  moreover have "sem_fresh s (put_sem key sem c s)"
    using new sem by (intro sem_fresh_put c) (auto simp: sem_inv_def)
  ultimately show ?thesis by (simp add: sem_step_sound_def)
qed

lemma sem_step_sound_set:
  assumes "sem_store_sound s" "sem_inv (ms_next_fencing_token s) sem"
    and "ss_fencing_token ` set (sm_holders sem) \<subseteq> sem_tokens s"
  shows "sem_step_sound s (s\<lparr>ms_semaphores := fmupd key sem (ms_semaphores s)\<rparr>)"
  unfolding sem_put_eq using assms sem_soundB by (intro sem_step_sound_put) auto

lemma sem_inv_grant:
  assumes "sem_inv c sem" "next_token c = Some (ss_fencing_token p)" "set q \<subseteq> set (sm_queue sem)" "fifo_ok q"
  shows "sem_inv (ss_fencing_token p) (sem\<lparr>sm_holders := sm_holders sem @ [p], sm_queue := q\<rparr>)"
proof -
  note ts = next_token_Some [OF assms(2)]
  have "ss_fencing_token x < ss_fencing_token p" if "x \<in> set (sm_holders sem)" for x
    using assms(1) ts(1) that by (force simp: sem_inv_def)
  then show ?thesis using assms ts(3) by (force simp: sem_inv_def)
qed

lemma admit_waiters_sound:
  "sem_inv c sem \<Longrightarrow> c \<le> MAX_FENCING_TOKEN \<Longrightarrow> admit_waiters now c sem = (ps, c', sem') \<Longrightarrow>
   sem_inv c' sem' \<and> c \<le> c' \<and> c' \<le> MAX_FENCING_TOKEN \<and>
   (\<forall>p \<in> set (sm_holders sem'). p \<in> set (sm_holders sem) \<or> c < ss_fencing_token p)"
proof (induction "sm_queue sem" arbitrary: c sem ps c' sem')
  case Nil
  then show ?case by (simp add: admit_waiters.simps)
next
  case (Cons x q)
  obtain h w where x: "sm_queue sem = (h, w) # q" using Cons.hyps(2) by (metis surj_pair)
  show ?case
  proof (cases "sem_used sem \<ge> sm_limit sem \<or> next_token c = None")
    case True
    then have "admit_waiters now c sem = ([], c, sem)" by (subst admit_waiters.simps) auto
    then show ?thesis using Cons.prems by simp
  next
    case False
    then obtain t where t: "next_token c = Some t" by auto
    let ?sem = "sem\<lparr>sm_holders := sm_holders sem @ [permit_for now t w], sm_queue := q\<rparr>"
    note ts = next_token_Some [OF t]
    have tok: "ss_fencing_token (permit_for now t w) = t" by (simp add: permit_for_def)
    have inv: "sem_inv t ?sem"
      using sem_inv_grant [of c sem "permit_for now t w" q] Cons.prems(1) t x
      by (auto simp: tok sem_inv_def fifo_ok_def)
    obtain ps1 where "admit_waiters now t ?sem = (ps1, c', sem')"
      using Cons.prems(3) False t x
      by (subst (asm) admit_waiters.simps) (auto simp: permit_for_def Let_def split: prod.splits)
    then have "sem_inv c' sem' \<and> t \<le> c' \<and> c' \<le> MAX_FENCING_TOKEN \<and>
        (\<forall>p \<in> set (sm_holders sem'). p \<in> set (sm_holders ?sem) \<or> t < ss_fencing_token p)"
      using Cons.hyps(1) [of ?sem t ps1 c' sem'] inv ts(2) by simp
    then show ?thesis using ts(1) by (fastforce simp: permit_for_def)
  qed
qed

lemma semaphore_promote_sound:
  assumes ok: "sem_store_sound s"
  shows "sem_step_sound s (snd (semaphore_promote key now s))"
proof (cases "fmlookup (ms_semaphores s) key")
  case None
  then show ?thesis using sem_step_sound_refl [OF ok] by (simp add: semaphore_promote_def)
next
  case (Some sem)
  obtain ps c sem' where a: "admit_waiters now (ms_next_fencing_token s) sem = (ps, c, sem')"
    using prod_cases3 by blast
  note r = admit_waiters_sound [OF sem_soundD [OF ok Some] sem_soundB [OF ok] a]
  have "sem_step_sound s (put_sem key sem' c s)"
    using r sem_tokensI [OF Some] by (intro sem_step_sound_put ok) auto
  then show ?thesis using semaphore_promote_put [OF Some a] by simp
qed

lemma sem_promote_set_sound:
  assumes "sem_store_sound s" "sem_inv (ms_next_fencing_token s) sem" "ss_fencing_token ` set (sm_holders sem) \<subseteq> sem_tokens s"
  shows "sem_step_sound s (snd (semaphore_promote k now (s\<lparr>ms_semaphores := fmupd key sem (ms_semaphores s)\<rparr>)))"
  using sem_step_sound_set [OF assms] semaphore_promote_sound sem_step_sound_trans by (meson sem_step_sound_def)

lemma sem_tokens_sub: "fmlookup (ms_semaphores s) key = Some sem \<Longrightarrow> ss_fencing_token ` set (sm_holders sem) \<subseteq> sem_tokens s"
  using sem_tokensI by blast

lemma sem_addressed_sound:
  assumes "sem_store_sound s"
  shows "sem_inv (ms_next_fencing_token s) (sem_addressed input s)"
    "ss_fencing_token ` set (sm_holders (sem_addressed input s)) \<subseteq> sem_tokens s"
  using assms by (auto simp: sem_addressed_def sem_store_sound_def sem_inv_def intro: sem_tokensI split: option.splits)

lemma sem_enqueue_sound:
  "sem_inv c sem \<Longrightarrow> sem_inv c (snd (sem_enqueue revision now input sem))"
  "sm_holders (snd (sem_enqueue revision now input sem)) = sm_holders sem"
  by (auto simp: sem_enqueue_def Let_def sem_inv_def fifo_push_back_def fifo_ok_def fifo_contains_def)

lemma apply_semaphore_acquire_sound:
  assumes ok: "sem_store_sound s"
  shows "sem_step_sound s (snd (apply_semaphore_acquire sha256 revision now input s))"
proof -
  let ?c = "ms_next_fencing_token s" and ?sem = "sem_addressed input s" and ?key = "si_key input"
  note a = sem_addressed_sound [OF ok, of input]
  have put: "sem_step_sound s (s\<lparr>ms_semaphores := fmupd ?key ?sem (ms_semaphores s)\<rparr>)"
    "sem_step_sound s (s\<lparr>ms_semaphores := fmupd ?key (snd (sem_enqueue revision now input ?sem)) (ms_semaphores s)\<rparr>)"
    using a by (intro sem_step_sound_set ok; simp add: sem_enqueue_sound)+
  have grant: "sem_step_sound s (put_sem ?key (?sem\<lparr>sm_holders := sm_holders ?sem @ [p]\<rparr>) (ss_fencing_token p) s)"
    if t: "next_token ?c = Some (ss_fencing_token p)" for p
  proof (rule sem_step_sound_put [OF ok])
    note ts = next_token_Some [OF t]
    show "?c \<le> ss_fencing_token p" "ss_fencing_token p \<le> MAX_FENCING_TOKEN" using ts by simp_all
    show "sem_inv (ss_fencing_token p) (?sem\<lparr>sm_holders := sm_holders ?sem @ [p]\<rparr>)"
      using sem_inv_grant [OF a(1) t, of "sm_queue ?sem"] a(1) by (simp add: sem_inv_def)
  qed (use a(2) next_token_Some(1) [OF t] in auto)
  have grant': "sem_step_sound s (s\<lparr>ms_semaphores := fmupd ?key (?sem\<lparr>sm_holders :=
      sm_holders ?sem @ [\<lparr>ss_holder = h, ss_fencing_token = t, ss_lease_expires_ms = l, ss_request_id = r\<rparr>]\<rparr>) (ms_semaphores s),
      ms_next_fencing_token := t\<rparr>)" if "next_token ?c = Some t" for t h l r
    using grant [of "\<lparr>ss_holder = h, ss_fencing_token = t, ss_lease_expires_ms = l, ss_request_id = r\<rparr>"] that
    by (simp add: put_sem_def sem_put_swap)
  show ?thesis
    using put by (simp add: apply_semaphore_acquire_def Let_def case_prod_unfold sem_step_sound_refl [OF ok] grant'
        split: option.split)
qed

lemma apply_semaphore_renew_sound:
  assumes ok: "sem_store_sound s"
  shows "sem_step_sound s (snd (apply_semaphore_renew revision now key holder token ttl s))"
proof -
  have "sem_step_sound s (s\<lparr>ms_semaphores := fmupd key (sem\<lparr>sm_holders := renew_first token l (sm_holders sem)\<rparr>) (ms_semaphores s)\<rparr>)"
    if x: "fmlookup (ms_semaphores s) key = Some sem" for sem l
    using sem_inv_cong_tokens [OF sem_soundD [OF ok x]] sem_tokens_sub [OF x] renew_first_token
    by (intro sem_step_sound_set ok) fastforce+
  then show ?thesis
    by (simp add: apply_semaphore_renew_def Let_def sem_step_sound_refl [OF ok] split: option.split)
qed

lemma apply_semaphore_release_sound:
  assumes ok: "sem_store_sound s"
  shows "sem_step_sound s (snd (apply_semaphore_release revision now key holder token s))"
proof -
  have set: "sem_inv (ms_next_fencing_token s) (sem\<lparr>sm_holders := filter P (sm_holders sem)\<rparr>)"
    "ss_fencing_token ` set (sm_holders (sem\<lparr>sm_holders := filter P (sm_holders sem)\<rparr>)) \<subseteq> sem_tokens s"
    if x: "fmlookup (ms_semaphores s) key = Some sem" for sem P
    using sem_inv_filter(1) [OF sem_soundD [OF ok x]] sem_tokens_sub [OF x] by auto
  show ?thesis
    using sem_step_sound_set [OF ok set] sem_promote_set_sound [OF ok set] sem_step_sound_refl [OF ok]
    by (simp add: apply_semaphore_release_def Let_def case_prod_unfold split: option.split)
qed

lemma sem_cancel_queued_sound:
  assumes ok: "sem_store_sound s"
  shows "sem_step_sound s (snd (sem_cancel_queued revision now key holder rid s))"
proof -
  have set: "sem_inv (ms_next_fencing_token s) (sem\<lparr>sm_queue := filter R (sm_queue sem)\<rparr>)"
    "ss_fencing_token ` set (sm_holders (sem\<lparr>sm_queue := filter R (sm_queue sem)\<rparr>)) \<subseteq> sem_tokens s"
    if x: "fmlookup (ms_semaphores s) key = Some sem" for sem R
    using sem_inv_filter(2) [OF sem_soundD [OF ok x]] sem_tokens_sub [OF x] by auto
  show ?thesis
    using sem_promote_set_sound [OF ok set] sem_step_sound_refl [OF ok]
    by (simp add: sem_cancel_queued_def Let_def case_prod_unfold fifo_remove_def split: option.split)
qed

lemma sem_step_sound_ledger:
  assumes "ledger_ok l" "sem_store_sound (s\<lparr>ms_cancellations := l\<rparr>) \<Longrightarrow> sem_step_sound (s\<lparr>ms_cancellations := l\<rparr>) s'"
    "sem_store_sound s"
  shows "sem_step_sound s s'"
  using assms by (simp add: sem_step_sound_def sem_store_sound_def sem_fresh_def sem_tokens_def)

lemma apply_semaphore_cancel_sound:
  assumes ok: "sem_store_sound s"
  shows "sem_step_sound s (snd (apply_semaphore_cancel sha256 delim revision now key holder rid s))"
proof -
  have led: "sem_step_sound s (s\<lparr>ms_cancellations := l\<rparr>)"
      "sem_step_sound s (snd (sem_cancel_queued revision now key holder r (s\<lparr>ms_cancellations := l\<rparr>)))"
    if "remember i t now (ms_cancellations s) = (x, l)" for i t x l r
  proof -
    have l: "ledger_ok l" using ok ledger_ok_remember [OF _ that] by (simp add: sem_store_sound_def)
    show "sem_step_sound s (s\<lparr>ms_cancellations := l\<rparr>)"
      "sem_step_sound s (snd (sem_cancel_queued revision now key holder r (s\<lparr>ms_cancellations := l\<rparr>)))"
      using sem_step_sound_ledger [OF l _ ok] sem_step_sound_refl sem_cancel_queued_sound by blast+
  qed
  show ?thesis
    by (simp add: apply_semaphore_cancel_def sem_step_sound_refl [OF ok] sem_cancel_queued_sound [OF ok] led
        split: option.split prod.split remember_cancellation.split)
qed

lemma apply_semaphore_sound:
  "sem_store_sound s \<Longrightarrow> sem_step_sound s (snd (apply_semaphore sha256 delim revision now cmd s))"
  by (cases cmd) (simp_all add: apply_semaphore_acquire_sound apply_semaphore_renew_sound
      apply_semaphore_release_sound apply_semaphore_cancel_sound)

lemma sem_swept_sound:
  assumes ok: "sem_store_sound s"
  shows "sem_step_sound s (sem_swept now s)"
proof -
  have e: "sem_inv (ms_next_fencing_token s) (sem_expire now sem)" "set (sm_holders (sem_expire now sem)) \<subseteq> set (sm_holders sem)"
    if x: "fmlookup (ms_semaphores s) k = Some sem" for k sem
    using sem_inv_filter(1) [OF sem_inv_filter(2) [OF sem_soundD [OF ok x]]] sem_soundD [OF ok x]
    by (auto simp: sem_expire_queue sem_inv_def)
  have "sem_store_sound (sem_swept now s)"
    using ok e(1) by (auto simp: sem_store_sound_def sem_swept_def ledger_ok_expire)
  moreover have "sem_tokens (sem_swept now s) \<subseteq> sem_tokens s"
    using e(2) by (fastforce simp: sem_tokens_def sem_swept_def)
  ultimately show ?thesis by (simp add: sem_step_sound_def sem_fresh_def sem_swept_def fresh_step_refl)
qed

lemma sem_expire_due_sound:
  assumes "sem_store_sound s"
  shows "sem_step_sound s (sem_expire_due order now s)"
proof -
  have "sem_step_sound x (semaphores_promote order now x)" if "sem_store_sound x" for x
    using that
  proof (induction order arbitrary: x)
    case (Cons key order)
    have 1: "sem_step_sound x (snd (semaphore_promote key now x))" using semaphore_promote_sound [OF Cons.prems] .
    then have "sem_step_sound (snd (semaphore_promote key now x)) (semaphores_promote order now (snd (semaphore_promote key now x)))"
      using Cons.IH by (simp add: sem_step_sound_def)
    then show ?case using sem_step_sound_trans [OF 1] by (simp add: semaphores_promote_def)
  qed (simp add: semaphores_promote_def sem_step_sound_refl)
  moreover have "sem_expire_due order now s = semaphores_promote order now (sem_swept now s)"
    by (simp add: sem_expire_due_def sem_swept_def)
  ultimately show ?thesis using sem_swept_sound [OF assms] sem_step_sound_trans by (metis sem_step_sound_def)
qed

subsection \<open>Properties\<close>

text \<open>Admission in closed form: promoting a semaphore admits exactly the longest prefix of its FIFO
  queue that the free permits and the remaining fencing tokens allow, in queue order, with
  consecutive tokens, each lease starting now; nobody is skipped and nobody beyond the limit is
  admitted.\<close>

theorem semaphore_promotion_admits_longest_prefix:
  assumes "sem_fits sem"
  shows "admit_waiters now c sem = admit_spec now c sem"
  by (rule admit_waiters_closed_form) (rule assms)

theorem semaphore_promotion_admits_longest_prefix_witness:
  "admit_waiters 5 7 \<lparr>sm_limit = 1, sm_holders = [],
       sm_queue = [(''a'', \<lparr>qp_holder = ''a'', qp_ttl_ms = 10, qp_requested_ms = 1, qp_wait_expires_ms = None, qp_request_id = None\<rparr>),
         (''b'', \<lparr>qp_holder = ''b'', qp_ttl_ms = 10, qp_requested_ms = 2, qp_wait_expires_ms = None, qp_request_id = None\<rparr>)]\<rparr> =
     ([\<lparr>pp_holder = ''a'', pp_fencing_token = 8, pp_lease_expires_ms = 15\<rparr>], 8, \<lparr>sm_limit = 1,
       sm_holders = [\<lparr>ss_holder = ''a'', ss_fencing_token = 8, ss_lease_expires_ms = 15, ss_request_id = None\<rparr>],
       sm_queue = [(''b'', \<lparr>qp_holder = ''b'', qp_ttl_ms = 10, qp_requested_ms = 2, qp_wait_expires_ms = None, qp_request_id = None\<rparr>)]\<rparr>)"
  by (subst semaphore_promotion_admits_longest_prefix)
    (simp_all add: sem_fits_def admit_spec_def admit_count_def permit_for_def promotion_of_def sat_add_def
      limit_defs)

text \<open>C9. The exclusion bound: after the sweep and any hardened command (every command except the
  historical \<open>SemaphoreAcquire\<close>), each semaphore has at most \<open>limit\<close> permits, its permits carry
  distinct tokens not above the counter, and its queue holds somebody only while all permits are
  taken or the tokens are exhausted.\<close>

theorem semaphore_never_exceeds_limit:
  assumes "sem_store_ok s" "fset (fmdom (ms_semaphores s)) \<subseteq> set order" "is_hardened cmd"
    and s': "s' = snd (apply_semaphore sha256 delim revision now cmd (sem_expire_due order now s))"
    and sem: "fmlookup (ms_semaphores s') key = Some sem"
  shows "length (sm_holders sem) \<le> unat (sm_limit sem) \<and> distinct (map ss_fencing_token (sm_holders sem)) \<and>
    (\<forall>p \<in> set (sm_holders sem). 0 < ss_fencing_token p \<and> ss_fencing_token p \<le> ms_next_fencing_token s') \<and>
    (sm_queue sem \<noteq> [] \<longrightarrow> length (sm_holders sem) = unat (sm_limit sem) \<or> next_token (ms_next_fencing_token s') = None)"
proof -
  note sw = sem_expire_due_ok [OF assms(1,2), of now]
  have "sem_step_ok (sem_expire_due order now s) s'"
    unfolding s' using sw assms(3) by (intro apply_semaphore_ok) (simp_all add: sem_step_ok_def)
  then have ok: "sem_store_ok s'" "sem_store_settled s'" using sw by (simp_all add: sem_step_ok_def)
  have "sem_settled (ms_next_fencing_token s') sem" using ok(2) sem by (simp add: sem_store_settled_def)
  then show ?thesis
    using sem_storeD [OF ok(1) sem] by (auto simp: sem_inv_def sem_fits_def sem_settled_def)
qed

lemmas sem_eval = apply_semaphore_acquire_def sem_addressed_def sem_reacquired_def sem_used_def sem_available_def
  sem_enqueue_def next_token_eq limit_defs fifo_defs sat_add_def Let_def sem_store_new_def

definition sem_example :: sem_store where
  "sem_example = snd (apply_semaphore id [] 2 20 (SemaphoreAcquireV2 ''k'' ''w2'' 1 1000 True None)
     (snd (apply_semaphore id [] 1 10 (SemaphoreAcquireV2 ''k'' ''w1'' 1 1000 True None) sem_store_new)))"

lemma sem_example_eval:
  "sem_example = \<lparr>ms_next_fencing_token = 1, ms_semaphores = fmupd ''k'' \<lparr>sm_limit = 1,
       sm_holders = [\<lparr>ss_holder = ''w1'', ss_fencing_token = 1, ss_lease_expires_ms = 1010, ss_request_id = None\<rparr>],
       sm_queue = [(''w2'', \<lparr>qp_holder = ''w2'', qp_ttl_ms = 1000, qp_requested_ms = 20,
         qp_wait_expires_ms = Some 30020, qp_request_id = None\<rparr>)]\<rparr> fmempty,
     ms_cancellations = ledger_new\<rparr>"
  by (simp add: sem_example_def sem_eval)

lemma sem_example_ok: "sem_store_ok sem_example"
  unfolding sem_example_def
  by (intro apply_semaphore_ok [THEN sem_step_ok_def [THEN iffD1], THEN conjunct1] sem_store_ok_new) simp_all

theorem semaphore_never_exceeds_limit_witness:
  "\<exists>s' sem. fmlookup (ms_semaphores s') ''k'' = Some sem \<and>
     length (sm_holders sem) \<le> unat (sm_limit sem) \<and> distinct (map ss_fencing_token (sm_holders sem)) \<and>
     s' = snd (apply_semaphore id [] 3 30 (SemaphoreRelease ''k'' ''w1'' 1) (sem_expire_due [''k''] 30 sem_example))"
proof -
  define s' where "s' = snd (apply_semaphore id [] 3 30 (SemaphoreRelease ''k'' ''w1'' 1) (sem_expire_due [''k''] 30 sem_example))"
  have sw: "sem_expire_due [''k''] 30 sem_example = sem_example"
    by (simp add: sem_expire_due_def semaphores_promote_def semaphore_promote_def sem_example_eval sem_expire_def
        waiter_is_live_def ledger_expire_def ledger_new_def admit_waiters_stop sem_fits_def sem_settled_def)
  have "fmlookup (ms_semaphores s') ''k'' \<noteq> None"
    unfolding s'_def sw
    by (simp add: apply_semaphore_release_def sem_example_eval semaphore_promote_def Let_def case_prod_unfold)
  then obtain sem where sem: "fmlookup (ms_semaphores s') ''k'' = Some sem" by auto
  have dom: "fset (fmdom (ms_semaphores sem_example)) \<subseteq> set [''k'']" by (simp add: sem_example_eval)
  show ?thesis
    using semaphore_never_exceeds_limit [OF sem_example_ok dom _ s'_def sem] sem s'_def by auto
qed

text \<open>Two semaphores of one permit each, both held until time 110 and both with a waiter.\<close>

definition sem_race :: sem_store where
  "sem_race = fold (\<lambda>(k, h) s. snd (apply_semaphore id [] 1 10 (SemaphoreAcquireV2 k h 1 100 True None) s))
     [(''a'', ''h1''), (''b'', ''h2''), (''a'', ''w1''), (''b'', ''w2'')] sem_store_new"

lemma sem_race_ok: "sem_store_ok sem_race"
  unfolding sem_race_def fold_simps comp_def id_def prod.case
  by (intro apply_semaphore_ok [THEN sem_step_ok_def [THEN iffD1], THEN conjunct1] sem_store_ok_new) simp_all

lemma sem_race_eval:
  "sem_race = \<lparr>ms_next_fencing_token = 2, ms_semaphores = fmupd ''b'' \<lparr>sm_limit = 1,
       sm_holders = [\<lparr>ss_holder = ''h2'', ss_fencing_token = 2, ss_lease_expires_ms = 110, ss_request_id = None\<rparr>],
       sm_queue = [(''w2'', \<lparr>qp_holder = ''w2'', qp_ttl_ms = 100, qp_requested_ms = 10,
         qp_wait_expires_ms = Some 30010, qp_request_id = None\<rparr>)]\<rparr>
     (fmupd ''a'' \<lparr>sm_limit = 1,
       sm_holders = [\<lparr>ss_holder = ''h1'', ss_fencing_token = 1, ss_lease_expires_ms = 110, ss_request_id = None\<rparr>],
       sm_queue = [(''w1'', \<lparr>qp_holder = ''w1'', qp_ttl_ms = 100, qp_requested_ms = 10,
         qp_wait_expires_ms = Some 30010, qp_request_id = None\<rparr>)]\<rparr> fmempty),
     ms_cancellations = ledger_new\<rparr>"
proof -
  have swap: "fmupd ''a'' x (fmupd ''b'' y (fmupd ''a'' z m)) = fmupd ''b'' y (fmupd ''a'' x m)" for x y z :: semaphore and m
    by (rule fmap_ext) auto
  show ?thesis by (simp add: sem_race_def sem_eval swap)
qed

text \<open>That a semaphore lists a permit.\<close>

definition lists_permit :: "string \<Rightarrow> semaphore_slot \<Rightarrow> sem_store \<Rightarrow> bool" where
  "lists_permit key p s \<longleftrightarrow> (\<exists>sem. fmlookup (ms_semaphores s) key = Some sem \<and> p \<in> set (sm_holders sem))"

lemma promote_keeps_permit:
  assumes "sem_store_ok s" "lists_permit key p s"
  shows "lists_permit key p (semaphores_promote order now s)"
  using assms
proof (induction order arbitrary: s)
  case (Cons k order)
  let ?s = "snd (semaphore_promote k now s)"
  have ok: "sem_store_ok ?s" using semaphore_promote_ok [OF Cons.prems(1)] by (simp add: sem_step_ok_def)
  obtain sem where sem: "fmlookup (ms_semaphores s) key = Some sem" "p \<in> set (sm_holders sem)"
    using Cons.prems(2) by (auto simp: lists_permit_def)
  have "lists_permit key p ?s"
  proof (cases "k = key")
    case True
    then show ?thesis
      using sem sem_storeD(2) [OF Cons.prems(1) sem(1)]
      by (simp add: lists_permit_def semaphore_promote_def admit_waiters_closed_form admit_spec_def Let_def)
  next
    case False
    then show ?thesis using sem semaphore_promote_others(1) [of key k now s] by (auto simp: lists_permit_def)
  qed
  from Cons.IH [OF ok this] show ?case by (simp add: semaphores_promote_def)
qed (simp add: semaphores_promote_def)

lemma promote_first_waiter:
  assumes "sem_store_ok s" "fmlookup (ms_semaphores s) key = Some sem" "sm_queue sem = (h, w) # q"
    and "length (sm_holders sem) < unat (sm_limit sem)" "next_token (ms_next_fencing_token s) = Some t"
  shows "lists_permit key (permit_for now t w) (snd (semaphore_promote key now s))"
    "t \<le> ms_next_fencing_token (snd (semaphore_promote key now s))"
    "unat (ms_next_fencing_token (snd (semaphore_promote key now s))) \<le> unat (ms_next_fencing_token s) + length (sm_queue sem)"
proof -
  let ?c = "ms_next_fencing_token s"
  have n: "admit_count ?c sem \<noteq> 0" using assms(3-5) by (auto simp: admit_count_settled sem_settled_def)
  have le: "admit_count ?c sem \<le> length (sm_queue sem)" "admit_count ?c sem \<le> unat MAX_FENCING_TOKEN - unat ?c"
    by (simp_all add: admit_count_def)
  have eq: "semaphore_promote key now s = (fst (semaphore_promote key now s), put_sem key
      (sem\<lparr>sm_holders := sm_holders sem @ permits_for now ?c (take (admit_count ?c sem) (sm_queue sem)),
           sm_queue := drop (admit_count ?c sem) (sm_queue sem)\<rparr>) (?c + word_of_nat (admit_count ?c sem)) s)"
    using assms(2) sem_storeD(2) [OF assms(1,2)]
    by (simp add: semaphore_promote_def admit_waiters_closed_form admit_spec_def Let_def put_sem_def)
  note e = arg_cong [OF eq, of snd, unfolded snd_conv]
  have "take (admit_count ?c sem) (sm_queue sem) = (h, w) # take (admit_count ?c sem - 1) q"
    using n assms(3) by (cases "admit_count ?c sem") auto
  then show "lists_permit key (permit_for now t w) (snd (semaphore_promote key now s))"
    using next_token_Some_eq [OF assms(5)] by (subst e) (simp add: lists_permit_def put_sem_def)
  have t: "unat t = unat ?c + 1" "unat ?c < unat MAX_FENCING_TOKEN"
    using next_token_Some [OF assms(5)] by (simp_all add: word_le_nat_alt)
  have "unat (?c + word_of_nat (admit_count ?c sem)) = unat ?c + admit_count ?c sem"
    using le(2) t(2) unat_lt_2p [of MAX_FENCING_TOKEN]
    by (simp add: unat_word_ariths(1) unsigned_of_nat take_bit_eq_mod mod_add_right_eq)
  then have "unat (ms_next_fencing_token (snd (semaphore_promote key now s))) = unat ?c + admit_count ?c sem"
    by (subst e) (simp add: put_sem_def)
  then show "t \<le> ms_next_fencing_token (snd (semaphore_promote key now s))"
    "unat (ms_next_fencing_token (snd (semaphore_promote key now s))) \<le> unat ?c + length (sm_queue sem)"
    using n le(1) t(1) by (simp_all add: word_le_nat_alt)
qed

text \<open>C10. The sweep mints tokens in the iteration order of a hash map, and that order is observable. Take any
  well-formed state in which, once lapsed permits and waiters are dropped, two semaphores each have a waiter and
  a free permit (and the tokens suffice). Then the first waiter of one of them is granted a token under each of
  two visiting orders of the keys, and the two tokens differ.\<close>

theorem semaphore_sweep_depends_on_map_order:
  assumes ok: "sem_store_ok s" and "a \<noteq> b"
    and A: "fmlookup (ms_semaphores (sem_swept now s)) a = Some A" "sm_queue A = (h, w) # q"
      "length (sm_holders A) < unat (sm_limit A)"
    and B: "fmlookup (ms_semaphores (sem_swept now s)) b = Some B" "sm_queue B \<noteq> []"
      "length (sm_holders B) < unat (sm_limit B)"
    and room: "unat (ms_next_fencing_token s) + length (sm_queue B) < unat MAX_FENCING_TOKEN"
  shows "\<exists>t1 t2. t1 \<noteq> t2 \<and> lists_permit a (permit_for now t1 w) (sem_expire_due (a # b # order) now s) \<and>
    lists_permit a (permit_for now t2 w) (sem_expire_due (b # a # order) now s)"
proof -
  let ?s = "sem_swept now s" and ?sb = "snd (semaphore_promote b now (sem_swept now s))"
  have due: "sem_expire_due (x # ks) now s = semaphores_promote ks now (snd (semaphore_promote x now ?s))" for x ks
    by (simp add: sem_expire_due_def sem_swept_def semaphores_promote_def)
  have ok1: "sem_store_ok ?s" by (rule sem_swept_ok(1) [OF ok])
  have ok2: "sem_store_ok (snd (semaphore_promote x now y))" if "sem_store_ok y" for x y
    using semaphore_promote_ok [OF that] by (simp add: sem_step_ok_def)
  have c: "ms_next_fencing_token ?s = ms_next_fencing_token s" by (simp add: sem_swept_def)
  obtain t1 where t1: "next_token (ms_next_fencing_token ?s) = Some t1"
    using room by (cases "next_token (ms_next_fencing_token ?s)") (auto simp: c next_token_None word_le_nat_alt)
  obtain hb wb qb where qb: "sm_queue B = (hb, wb) # qb" using B(2) by (metis list.exhaust surj_pair)
  note pb = promote_first_waiter [OF ok1 B(1) qb B(3) t1, of now]
  obtain t2 where t2: "next_token (ms_next_fencing_token ?sb) = Some t2"
    using pb(3) room by (cases "next_token (ms_next_fencing_token ?sb)") (auto simp: c next_token_None word_le_nat_alt)
  have "t1 \<noteq> t2" using pb(2) next_token_Some(1) [OF t2] by auto
  moreover have "lists_permit a (permit_for now t1 w) (sem_expire_due (a # b # order) now s)"
    unfolding due by (rule promote_keeps_permit [OF ok2 [OF ok1] promote_first_waiter(1) [OF ok1 A t1]])
  moreover have "fmlookup (ms_semaphores ?sb) a = Some A" using A(1) assms(2) by (simp add: semaphore_promote_others)
  then have "lists_permit a (permit_for now t2 w) (snd (semaphore_promote a now ?sb))"
    by (rule promote_first_waiter(1) [OF ok2 [OF ok1] _ A(2,3) t2])
  then have "lists_permit a (permit_for now t2 w) (sem_expire_due (b # a # order) now s)"
    using promote_keeps_permit [OF ok2 [OF ok2 [OF ok1]]] by (simp add: due semaphores_promote_def)
  ultimately show ?thesis by blast
qed

theorem semaphore_sweep_depends_on_map_order_witness:
  "\<exists>t1 t2 w. t1 \<noteq> t2 \<and> qp_holder w = ''w1'' \<and>
     lists_permit ''a'' (permit_for 200 t1 w) (sem_expire_due [''a'', ''b''] 200 sem_race) \<and>
     lists_permit ''a'' (permit_for 200 t2 w) (sem_expire_due [''b'', ''a''] 200 sem_race)"
proof -
  let ?w = "\<lparr>qp_holder = ''w1'', qp_ttl_ms = 100, qp_requested_ms = 10, qp_wait_expires_ms = Some 30010, qp_request_id = None\<rparr>"
  have "\<exists>t1 t2. t1 \<noteq> t2 \<and> lists_permit ''a'' (permit_for 200 t1 ?w) (sem_expire_due [''a'', ''b''] 200 sem_race) \<and>
     lists_permit ''a'' (permit_for 200 t2 ?w) (sem_expire_due [''b'', ''a''] 200 sem_race)"
    by (rule semaphore_sweep_depends_on_map_order [OF sem_race_ok, of _ _ _
          "\<lparr>sm_limit = 1, sm_holders = [], sm_queue = [(''w1'', ?w)]\<rparr>" "''w1''" _ "[]"])
      (simp_all add: sem_swept_def sem_race_eval sem_expire_def waiter_is_live_def limit_defs, simp_all)
  then show ?thesis by (metis queued_permit.select_convs(1))
qed

end
