(* ===== verification/Leases.thy ===== *)
theory Leases
  imports Prelude
begin

section \<open>Registries of leased entries\<close>

text \<open>
  Several maps of the store hold entries that lapse: key-value entries with a time to live,
  leaderships, idempotency records, service instances. Each is swept by \<open>retain\<close> at the start of
  every command and filtered by the same test on every read. The locale states what that needs
  (an entry that has lapsed stays lapsed) and derives that reads agree with sweeps and that
  sweeps compose.
\<close>

locale leased =
  fixes live :: "u64 \<Rightarrow> 'v \<Rightarrow> bool"
  assumes lapsed_stays: "now \<le> later \<Longrightarrow> live later v \<Longrightarrow> live now v"
begin

definition sweep :: "u64 \<Rightarrow> ('k, 'v) fmap \<Rightarrow> ('k, 'v) fmap" where
  "sweep now m = fmretain (\<lambda>_. live now) m"

definition read :: "u64 \<Rightarrow> 'k \<Rightarrow> ('k, 'v) fmap \<Rightarrow> 'v option" where
  "read now k m = (case fmlookup m k of None \<Rightarrow> None | Some v \<Rightarrow> if live now v then Some v else None)"

lemma read_sweep: "now \<le> later \<Longrightarrow> read later k (sweep now m) = read later k m"
  by (auto simp: read_def sweep_def dest: lapsed_stays split: option.split)

lemma lookup_sweep: "fmlookup (sweep now m) k = read now k m"
  by (simp add: read_def sweep_def)

lemma sweep_sweep: "now \<le> later \<Longrightarrow> sweep later (sweep now m) = sweep later m"
  by (auto simp: sweep_def intro!: fmretain_cong dest: lapsed_stays)

lemma read_mono: "now \<le> later \<Longrightarrow> read later k m = Some v \<Longrightarrow> read now k m = Some v"
  by (auto simp: read_def dest: lapsed_stays split: option.splits if_splits)

lemma filter_entries_sweep:
  "now \<le> later \<Longrightarrow> filter (\<lambda>(k, v). live later v \<and> P k v) (entries (sweep now m)) =
     filter (\<lambda>(k, v). live later v \<and> P k v) (entries m)"
  for m :: "('k::linorder, 'v) fmap"
  by (auto simp: sweep_def entries_fmretain case_prod_unfold dest: lapsed_stays intro!: filter_cong)

end

end
