(* ===== verification/Kv_Counters.thy ===== *)
theory Kv_Counters
  imports Leases
begin

section \<open>Key-value entries and counters\<close>

text \<open>
  \<open>KvEntry\<close>, \<open>CounterEntry\<close>, \<open>apply_kv_put\<close>, the \<open>KvDelete\<close> arm, \<open>apply_counter_add\<close>,
  \<open>apply_counter_set\<close>, the key-value part of \<open>expire_due\<close> and the reads \<open>kv_get\<close>, \<open>kv_prefix\<close>,
  \<open>counter_get\<close>. Both registries offer the same compare-and-set on the revision that last wrote a
  key. The locale \<open>cas_register\<close> is that contract; the two registries interpret it.
\<close>

subsection \<open>Compare-and-set over a numbered log\<close>

text \<open>\<open>apply_at\<close> numbers the commands: each one is applied at the next revision, at its own
  proposal time. The answers are collected with their commands.\<close>

fun numbered_run ::
  "(u64 \<Rightarrow> u64 \<Rightarrow> 'c \<Rightarrow> 's \<Rightarrow> 'r \<times> 's) \<Rightarrow> u64 \<Rightarrow> (u64 \<times> 'c) list \<Rightarrow> 's \<Rightarrow> ('c \<times> 'r) list" where
  "numbered_run step revision [] s = []"
| "numbered_run step revision ((now, c) # cs) s =
     (let (r, s') = step revision now c s in (c, r) # numbered_run step (revision + 1) cs s')"

locale cas_register =
  fixes revision_of :: "'s \<Rightarrow> string \<Rightarrow> u64"
    and step :: "u64 \<Rightarrow> u64 \<Rightarrow> 'c \<Rightarrow> 's \<Rightarrow> 'r \<times> 's"
    and expects :: "'c \<Rightarrow> string \<Rightarrow> u64 \<Rightarrow> bool"
    and won :: "'r \<Rightarrow> bool"
  assumes won_matches: "expects c k e \<Longrightarrow> won (fst (step r now c s)) \<Longrightarrow> e \<noteq> 0 \<Longrightarrow> revision_of s k = e"
    and won_stamps: "expects c k e \<Longrightarrow> won (fst (step r now c s)) \<Longrightarrow> revision_of (snd (step r now c s)) k = r"
    and stamps: "revision_of (snd (step r now c s)) k \<in> {revision_of s k, 0, r}"
begin

definition wins :: "string \<Rightarrow> u64 \<Rightarrow> ('c \<times> 'r) list \<Rightarrow> ('c \<times> 'r) list" where
  "wins k e = filter (\<lambda>(c, r). expects c k e \<and> won r)"

lemma no_win_after:
  "e \<noteq> 0 \<Longrightarrow> e < r \<Longrightarrow> unat r + length cs \<le> 2 ^ 64 \<Longrightarrow> revision_of s k \<noteq> e \<Longrightarrow>
    wins k e (numbered_run step r cs s) = []"
proof (induction cs arbitrary: r s)
  case Nil
  then show ?case by (simp add: wins_def)
next
  case (Cons x cs)
  obtain now c where x: "x = (now, c)" by (cases x)
  obtain a s' where st: "step r now c s = (a, s')" by fastforce
  have lost: "\<not> (expects c k e \<and> won a)"
    using won_matches [of c k e r now s] Cons.prems(1,4) st by auto
  have rev': "revision_of s' k \<noteq> e" using stamps [of r now c s k] Cons.prems st by auto
  have "wins k e (numbered_run step (r + 1) cs s') = []"
  proof (cases cs)
    case (Cons y ys)
    then have "r \<noteq> - 1" using \<open>unat r + length (x # cs) \<le> 2 ^ 64\<close> by auto
    then have u: "unat (r + 1) = unat r + 1"
      using checked_add_SomeD [of r 1 "r + 1"] unat_lt_2p [of r]
        \<open>unat r + length (x # cs) \<le> 2 ^ 64\<close> Cons by (simp add: checked_add_def)
    then have "e < r + 1" using Cons.prems(2) by (simp add: word_less_nat_alt)
    then show ?thesis using Cons.IH [OF Cons.prems(1) _ _ rev'] Cons.prems(3) u by simp
  qed (simp add: wins_def)
  then show ?case using lost by (simp add: x st wins_def)
qed

text \<open>At most one of the commands that expect the same non-zero revision of a key succeeds.\<close>

lemma wins_at_most_one:
  "e \<noteq> 0 \<Longrightarrow> e < r \<Longrightarrow> unat r + length cs \<le> 2 ^ 64 \<Longrightarrow>
    length (wins k e (numbered_run step r cs s)) \<le> 1"
proof (induction cs arbitrary: r s)
  case Nil
  then show ?case by (simp add: wins_def)
next
  case (Cons x cs)
  obtain now c where x: "x = (now, c)" by (cases x)
  obtain a s' where st: "step r now c s = (a, s')" by fastforce
  show ?case
  proof (cases cs)
    case Nil
    then show ?thesis by (simp add: x st wins_def)
  next
    case (Cons y ys)
    then have u: "unat (r + 1) = unat r + 1"
      using checked_add_SomeD [of r 1 "r + 1"] \<open>unat r + length (x # cs) \<le> 2 ^ 64\<close>
      by (simp add: checked_add_def)
    then have lt: "e < r + 1" using Cons.prems(2) by (simp add: word_less_nat_alt)
    have len: "unat (r + 1) + length cs \<le> 2 ^ 64" using Cons.prems(3) u by simp
    have "wins k e (numbered_run step (r + 1) cs s') = []" if "expects c k e" "won a"
      using no_win_after [OF Cons.prems(1) lt len] won_stamps [of c k e r now s] that st Cons.prems(2) by auto
    then show ?thesis using Cons.IH [OF Cons.prems(1) lt len, of s'] by (auto simp: x st wins_def)
  qed
qed

end

subsection \<open>Key-value entries\<close>

record kv_entry =
  kv_value :: string
  kv_mod_revision :: u64
  kv_expires_at_ms :: "u64 option"

type_synonym kv_store = "(string, kv_entry) fmap"

datatype kv_command =
    KvPut string string "u64 option" "u64 option"
  | KvDelete string

datatype kv_response =
    KvCasMismatch u64 u64
  | KvPutOk string u64 "u64 option"
  | KvDeleted bool u64

definition kv_live :: "u64 \<Rightarrow> kv_entry \<Rightarrow> bool" where
  "kv_live now entry = (case kv_expires_at_ms entry of None \<Rightarrow> True | Some expires \<Rightarrow> expires > now)"

definition kv_expire_due :: "u64 \<Rightarrow> kv_store \<Rightarrow> kv_store" where
  "kv_expire_due now kv = fmretain (\<lambda>_. kv_live now) kv"

definition kv_revision :: "kv_store \<Rightarrow> string \<Rightarrow> u64" where
  "kv_revision kv key = (case fmlookup kv key of None \<Rightarrow> 0 | Some entry \<Rightarrow> kv_mod_revision entry)"

definition apply_kv_put ::
  "u64 \<Rightarrow> u64 \<Rightarrow> string \<Rightarrow> string \<Rightarrow> u64 option \<Rightarrow> u64 option \<Rightarrow> kv_store \<Rightarrow> kv_response \<times> kv_store" where
  "apply_kv_put revision now key val ttl_ms prev_revision kv =
     (let current_revision = kv_revision kv key;
          expires_at_ms = map_option (sat_add now) ttl_ms
      in if (case prev_revision of None \<Rightarrow> False | Some expected \<Rightarrow> current_revision \<noteq> expected)
         then (KvCasMismatch current_revision revision, kv)
         else (KvPutOk key revision expires_at_ms,
               fmupd key \<lparr>kv_value = val, kv_mod_revision = revision, kv_expires_at_ms = expires_at_ms\<rparr> kv))"

definition apply_kv_delete :: "u64 \<Rightarrow> string \<Rightarrow> kv_store \<Rightarrow> kv_response \<times> kv_store" where
  "apply_kv_delete revision key kv = (KvDeleted (fmlookup kv key \<noteq> None) revision, fmdrop key kv)"

fun apply_kv :: "u64 \<Rightarrow> u64 \<Rightarrow> kv_command \<Rightarrow> kv_store \<Rightarrow> kv_response \<times> kv_store" where
  "apply_kv revision now (KvPut key val ttl_ms prev_revision) kv =
     apply_kv_put revision now key val ttl_ms prev_revision kv"
| "apply_kv revision now (KvDelete key) kv = apply_kv_delete revision key kv"

text \<open>One log entry for this registry: the sweep of \<open>expire_due\<close>, then the command.\<close>

definition kv_step :: "u64 \<Rightarrow> u64 \<Rightarrow> kv_command \<Rightarrow> kv_store \<Rightarrow> kv_response \<times> kv_store" where
  "kv_step revision now c kv = apply_kv revision now c (kv_expire_due now kv)"

definition kv_get :: "u64 \<Rightarrow> string \<Rightarrow> kv_store \<Rightarrow> kv_entry option" where
  "kv_get now key kv = (case fmlookup kv key of None \<Rightarrow> None
     | Some entry \<Rightarrow> if kv_live now entry then Some entry else None)"

definition starts_with :: "string \<Rightarrow> string \<Rightarrow> bool" where
  "starts_with s pre = (take (length pre) s = pre)"

definition kv_prefix :: "u64 \<Rightarrow> string \<Rightarrow> kv_store \<Rightarrow> (string \<times> kv_entry) list" where
  "kv_prefix now pre kv = filter (\<lambda>(key, entry). kv_live now entry \<and> starts_with key pre) (entries kv)"

subsection \<open>Counters\<close>

record counter_entry =
  ct_value :: i64
  ct_mod_revision :: u64

type_synonym counter_store = "(string, counter_entry) fmap"

datatype counter_command =
    CounterAdd string i64 "u64 option"
  | CounterSet string i64 "u64 option"

datatype counter_response =
    CounterCasMismatch u64 u64
  | CounterOk string i64 u64

definition counter_revision :: "counter_store \<Rightarrow> string \<Rightarrow> u64" where
  "counter_revision counters key = (case fmlookup counters key of None \<Rightarrow> 0 | Some e \<Rightarrow> ct_mod_revision e)"

definition apply_counter_add ::
  "u64 \<Rightarrow> string \<Rightarrow> i64 \<Rightarrow> u64 option \<Rightarrow> counter_store \<Rightarrow> counter_response \<times> counter_store" where
  "apply_counter_add revision key delta prev_revision counters =
     (let current_revision = counter_revision counters key;
          value = i64_sat_add (case fmlookup counters key of None \<Rightarrow> 0 | Some e \<Rightarrow> ct_value e) delta
      in if (case prev_revision of None \<Rightarrow> False | Some expected \<Rightarrow> current_revision \<noteq> expected)
         then (CounterCasMismatch current_revision revision, counters)
         else (CounterOk key value revision,
               fmupd key \<lparr>ct_value = value, ct_mod_revision = revision\<rparr> counters))"

definition apply_counter_set ::
  "u64 \<Rightarrow> string \<Rightarrow> i64 \<Rightarrow> u64 option \<Rightarrow> counter_store \<Rightarrow> counter_response \<times> counter_store" where
  "apply_counter_set revision key value prev_revision counters =
     (let current_revision = counter_revision counters key
      in if (case prev_revision of None \<Rightarrow> False | Some expected \<Rightarrow> current_revision \<noteq> expected)
         then (CounterCasMismatch current_revision revision, counters)
         else (CounterOk key value revision,
               fmupd key \<lparr>ct_value = value, ct_mod_revision = revision\<rparr> counters))"

fun apply_counter :: "u64 \<Rightarrow> counter_command \<Rightarrow> counter_store \<Rightarrow> counter_response \<times> counter_store" where
  "apply_counter revision (CounterAdd key delta prev_revision) counters =
     apply_counter_add revision key delta prev_revision counters"
| "apply_counter revision (CounterSet key value prev_revision) counters =
     apply_counter_set revision key value prev_revision counters"

definition counter_get :: "string \<Rightarrow> counter_store \<Rightarrow> counter_entry option" where
  "counter_get key counters = fmlookup counters key"

subsection \<open>The contracts\<close>

text \<open>What a command expects, and whether it won.\<close>

fun kv_expects :: "kv_command \<Rightarrow> string \<Rightarrow> u64 \<Rightarrow> bool" where
  "kv_expects (KvPut key _ _ prev) k e \<longleftrightarrow> key = k \<and> prev = Some e"
| "kv_expects (KvDelete _) k e \<longleftrightarrow> False"

fun kv_won :: "kv_response \<Rightarrow> bool" where
  "kv_won (KvPutOk _ _ _) \<longleftrightarrow> True"
| "kv_won _ \<longleftrightarrow> False"

fun counter_expects :: "counter_command \<Rightarrow> string \<Rightarrow> u64 \<Rightarrow> bool" where
  "counter_expects (CounterAdd key _ prev) k e \<longleftrightarrow> key = k \<and> prev = Some e"
| "counter_expects (CounterSet key _ prev) k e \<longleftrightarrow> key = k \<and> prev = Some e"

fun counter_won :: "counter_response \<Rightarrow> bool" where
  "counter_won (CounterOk _ _ _) \<longleftrightarrow> True"
| "counter_won _ \<longleftrightarrow> False"

lemmas kv_defs = kv_step_def apply_kv_put_def apply_kv_delete_def kv_revision_def kv_expire_due_def Let_def
lemmas counter_defs = apply_counter_add_def apply_counter_set_def counter_revision_def Let_def

interpretation kv_lease: leased kv_live
  by unfold_locales (auto simp: kv_live_def split: option.splits)

interpretation kv_cas: cas_register kv_revision kv_step kv_expects kv_won
proof
  fix c k e r now s
  show "kv_revision s k = e" if "kv_expects c k e" "kv_won (fst (kv_step r now c s))" "e \<noteq> 0"
    using that by (cases c) (auto simp: kv_defs split: option.splits if_splits)
  show "kv_revision (snd (kv_step r now c s)) k = r" if "kv_expects c k e" "kv_won (fst (kv_step r now c s))"
    using that by (cases c) (auto simp: kv_defs split: option.splits if_splits)
  show "kv_revision (snd (kv_step r now c s)) k \<in> {kv_revision s k, 0, r}"
    by (cases c) (auto simp: kv_defs split: option.splits if_splits)
qed

definition counter_step :: "u64 \<Rightarrow> u64 \<Rightarrow> counter_command \<Rightarrow> counter_store \<Rightarrow> counter_response \<times> counter_store" where
  "counter_step revision now c counters = apply_counter revision c counters"

interpretation counter_cas: cas_register counter_revision counter_step counter_expects counter_won
proof
  fix c k e r now s
  show "counter_revision s k = e" if "counter_expects c k e" "counter_won (fst (counter_step r now c s))" "e \<noteq> 0"
    using that by (cases c) (auto simp: counter_step_def counter_defs split: option.splits if_splits)
  show "counter_revision (snd (counter_step r now c s)) k = r"
    if "counter_expects c k e" "counter_won (fst (counter_step r now c s))"
    using that by (cases c) (auto simp: counter_step_def counter_defs split: option.splits if_splits)
  show "counter_revision (snd (counter_step r now c s)) k \<in> {counter_revision s k, 0, r}"
    by (cases c) (auto simp: counter_step_def counter_defs split: option.splits if_splits)
qed

subsection \<open>Properties\<close>

text \<open>C11. Compare-and-set is first-writer-wins. Take a log of key-value commands only, applied at consecutive
  revisions from \<open>r\<close> on with the expiry sweep before each, that does not wrap the revision counter. At most one
  of its puts that expect the same non-zero revision \<open>e\<close> of a key, one assigned before the log, succeeds. The
  same holds of a log of counter commands only. The expectation zero, create if absent, is excluded: it can
  succeed again after a delete or an expiry.\<close>

theorem compare_and_set_wins_at_most_once:
  assumes "e \<noteq> 0" "e < r" "unat r + length cs \<le> 2 ^ 64" "unat r + length ds \<le> 2 ^ 64"
  shows "length (filter (\<lambda>(c, a). kv_expects c k e \<and> kv_won a) (numbered_run kv_step r cs kv)) \<le> 1 \<and>
    length (filter (\<lambda>(c, a). counter_expects c k e \<and> counter_won a) (numbered_run counter_step r ds counters)) \<le> 1"
  using kv_cas.wins_at_most_one [OF assms(1,2,3), of k kv]
    counter_cas.wins_at_most_one [OF assms(1,2,4), of k counters]
  by (simp add: kv_cas.wins_def counter_cas.wins_def)

definition kv_example :: kv_store where
  "kv_example = fmupd ''k'' \<lparr>kv_value = ''a'', kv_mod_revision = 3, kv_expires_at_ms = None\<rparr> fmempty"

definition counter_example :: counter_store where
  "counter_example = fmupd ''k'' \<lparr>ct_value = 7, ct_mod_revision = 3\<rparr> fmempty"

theorem compare_and_set_wins_at_most_once_witness:
  "(3 :: u64) \<noteq> 0 \<and> (3 :: u64) < 4 \<and>
   kv_won (fst (kv_step 4 10 (KvPut ''k'' ''b'' None (Some 3)) kv_example)) \<and>
   length (filter (\<lambda>(c, a). kv_expects c ''k'' 3 \<and> kv_won a) (numbered_run kv_step 4
     [(10, KvPut ''k'' ''b'' None (Some 3)), (11, KvPut ''k'' ''c'' None (Some 3))] kv_example)) \<le> 1 \<and>
   length (filter (\<lambda>(c, a). counter_expects c ''k'' 3 \<and> counter_won a) (numbered_run counter_step 4
     [(10, CounterAdd ''k'' 1 (Some 3)), (11, CounterSet ''k'' 2 (Some 3))] counter_example)) \<le> 1"
proof -
  have "kv_won (fst (kv_step 4 10 (KvPut ''k'' ''b'' None (Some 3)) kv_example))"
    by (simp add: kv_defs kv_example_def kv_live_def evaluate)
  then show ?thesis
    using compare_and_set_wins_at_most_once [of 3 4
      "[(10, KvPut ''k'' ''b'' None (Some 3)), (11, KvPut ''k'' ''c'' None (Some 3))]"
      "[(10, CounterAdd ''k'' 1 (Some 3)), (11, CounterSet ''k'' 2 (Some 3))]" "''k''" kv_example counter_example]
    by simp
qed

text \<open>Reading back a key-value entry. After a put that its compare-and-set let through, a read
  of the key returns the value and the revision of the put strictly before the saturated deadline
  and nothing from then on, a sweep at an earlier time does not change what a later read sees, and
  no other key is touched.\<close>

theorem kv_put_read_back:
  assumes "apply_kv_put rvn now key val ttl prev kv = (KvPutOk key' rvn' expires, kv')" "swept \<le> t"
  shows "kv_get t key (kv_expire_due swept kv') =
      (if (case ttl of None \<Rightarrow> True | Some d \<Rightarrow> t < sat_add now d)
       then Some \<lparr>kv_value = val, kv_mod_revision = rvn, kv_expires_at_ms = map_option (sat_add now) ttl\<rparr>
       else None) \<and>
    (\<forall>k. k \<noteq> key \<longrightarrow> kv_get t k (kv_expire_due swept kv') = kv_get t k kv)"
proof -
  have get: "kv_get t k (kv_expire_due swept m) = kv_lease.read t k m" for k m
    using kv_lease.read_sweep [OF assms(2), of k m]
    by (simp add: kv_get_def kv_expire_due_def kv_lease.read_def kv_lease.sweep_def cong: option.case_cong)
  have kv': "kv' = fmupd key \<lparr>kv_value = val, kv_mod_revision = rvn,
      kv_expires_at_ms = map_option (sat_add now) ttl\<rparr> kv"
    using assms(1) by (auto simp: apply_kv_put_def Let_def split: if_splits)
  show ?thesis
    unfolding get kv' by (simp add: kv_lease.read_def kv_live_def kv_get_def cong: option.case_cong split: option.split)
qed

theorem kv_put_read_back_witness:
  "kv_get 14 ''k'' (kv_expire_due 11 (snd (apply_kv_put 4 10 ''k'' ''b'' (Some 5) (Some 3) kv_example))) =
     Some \<lparr>kv_value = ''b'', kv_mod_revision = 4, kv_expires_at_ms = Some 15\<rparr>"
proof -
  have d: "sat_add 10 5 = (15 :: u64)" by (simp add: sat_add_def)
  have "apply_kv_put 4 10 ''k'' ''b'' (Some 5) (Some 3) kv_example = (KvPutOk ''k'' 4 (Some 15),
      fmupd ''k'' \<lparr>kv_value = ''b'', kv_mod_revision = 4, kv_expires_at_ms = Some 15\<rparr> kv_example)"
    by (simp add: kv_defs kv_example_def d)
  from kv_put_read_back [OF this, of 11 14] this show ?thesis by (simp add: d)
qed

text \<open>A prefix scan lists, in strictly increasing key order, exactly the live entries whose key
  starts with the prefix, and the scan of a swept registry is the same.\<close>

theorem kv_prefix_lists_live_entries:
  "sorted_wrt (<) (map fst (kv_prefix now pre kv)) \<and>
   (\<forall>k v. (k, v) \<in> set (kv_prefix now pre kv) \<longleftrightarrow> kv_get now k kv = Some v \<and> starts_with k pre) \<and>
   kv_prefix now pre (kv_expire_due now kv) = kv_prefix now pre kv"
proof (intro conjI allI)
  have "distinct (map fst (kv_prefix now pre kv))"
    unfolding kv_prefix_def by (rule distinct_map_filter [OF distinct_map_fst_entries])
  moreover have "sorted (map fst (kv_prefix now pre kv))"
    using sorted_map_fst_entries [of kv] unfolding kv_prefix_def
    by (simp add: sorted_map sorted_wrt_filter)
  ultimately show "sorted_wrt (<) (map fst (kv_prefix now pre kv))"
    using strict_sorted_iff by blast
  show "(k, v) \<in> set (kv_prefix now pre kv) \<longleftrightarrow> kv_get now k kv = Some v \<and> starts_with k pre" for k v
    by (auto simp: kv_prefix_def entries_iff kv_get_def split: option.splits)
  show "kv_prefix now pre (kv_expire_due now kv) = kv_prefix now pre kv"
    using kv_lease.filter_entries_sweep [of now now "\<lambda>k _. starts_with k pre" kv]
    by (simp add: kv_prefix_def kv_expire_due_def kv_lease.sweep_def)
qed

definition counter_ok :: "counter_store \<Rightarrow> bool" where
  "counter_ok counters = (\<forall>e \<in> fmran' counters. i64_min \<le> ct_value e \<and> ct_value e \<le> i64_max)"

fun counter_arg :: "counter_command \<Rightarrow> i64" where
  "counter_arg (CounterAdd _ delta _) = delta"
| "counter_arg (CounterSet _ value _) = value"

fun add_all :: "u64 \<Rightarrow> string \<Rightarrow> i64 list \<Rightarrow> counter_store \<Rightarrow> counter_store" where
  "add_all r key [] counters = counters"
| "add_all r key (d # ds) counters = add_all (r + 1) key ds (snd (apply_counter_add r key d None counters))"

definition counter_value :: "counter_store \<Rightarrow> string \<Rightarrow> i64" where
  "counter_value counters key = (case counter_get key counters of None \<Rightarrow> 0 | Some e \<Rightarrow> ct_value e)"

lemma counter_value_add:
  "counter_value (snd (apply_counter_add r key d None counters)) key =
     i64_sat_add (counter_value counters key) d"
  by (simp add: counter_value_def counter_get_def counter_defs)

lemma add_all_exact:
  "(\<forall>n \<le> length ds. i64_min \<le> counter_value counters key + sum_list (take n ds) \<and>
      counter_value counters key + sum_list (take n ds) \<le> i64_max) \<Longrightarrow>
    counter_value (add_all r key ds counters) key = counter_value counters key + sum_list ds"
proof (induction ds arbitrary: r counters)
  case (Cons d ds)
  let ?c = "snd (apply_counter_add r key d None counters)"
  have "i64_min \<le> counter_value counters key + d \<and> counter_value counters key + d \<le> i64_max"
    using Cons.prems [rule_format, of 1] by simp
  then have v: "counter_value ?c key = counter_value counters key + d"
    by (simp only: counter_value_add i64_sat_add_exact)
  have "i64_min \<le> counter_value ?c key + sum_list (take n ds) \<and>
      counter_value ?c key + sum_list (take n ds) \<le> i64_max" if "n \<le> length ds" for n
    using Cons.prems [rule_format, of "Suc n"] that by (simp add: v add.assoc)
  from Cons.IH [of ?c "r + 1"] this v show ?case by simp
qed simp

text \<open>Counters saturate and are exact otherwise. After any commands with 64-bit arguments every
  counter value is in the 64-bit range. A series of unconditional additions to one counter yields
  the exact sum when every partial sum is in range.\<close>

theorem counters_saturate_and_are_exact:
  "(counter_ok counters \<and> i64_min \<le> counter_arg c \<and> counter_arg c \<le> i64_max \<longrightarrow>
      counter_ok (snd (apply_counter r c counters))) \<and>
   ((\<forall>n \<le> length ds. i64_min \<le> counter_value counters key + sum_list (take n ds) \<and>
       counter_value counters key + sum_list (take n ds) \<le> i64_max) \<longrightarrow>
      counter_value (add_all r key ds counters) key = counter_value counters key + sum_list ds)"
proof (intro conjI impI)
  assume "counter_ok counters \<and> i64_min \<le> counter_arg c \<and> counter_arg c \<le> i64_max"
  then show "counter_ok (snd (apply_counter r c counters))"
    by (cases c) (auto simp: counter_ok_def counter_defs i64_sat_add_range fmran'_def split: if_splits option.splits)
qed (rule add_all_exact)

theorem counters_saturate_and_are_exact_witness:
  "counter_ok (snd (apply_counter 4 (CounterAdd ''k'' i64_max None) counter_example)) \<and>
   counter_value (add_all 4 ''k'' [5, -20] counter_example) ''k'' = -8"
proof -
  have v: "counter_value counter_example ''k'' = 7"
    by (simp add: counter_value_def counter_get_def counter_example_def)
  have "counter_ok counter_example"
    by (auto simp: counter_ok_def counter_example_def fmran'_def i64_min_def i64_max_def split: if_splits)
  moreover have "n = 0 \<or> n = 1 \<or> n = 2" if "n \<le> 2" for n :: nat using that by arith
  ultimately show ?thesis
    using counters_saturate_and_are_exact [of counter_example "CounterAdd ''k'' i64_max None" 4 "[5, -20]" "''k''"]
    by (force simp: v i64_min_def i64_max_def take_Cons split: nat.splits)
qed

end
