(* ===== verification/Barriers.thy ===== *)
theory Barriers
  imports Prelude
begin

section \<open>Barriers\<close>

text \<open>
  \<open>BarrierPolicy\<close>, \<open>BarrierStatus\<close>, \<open>BarrierArrival\<close>, \<open>BarrierRecord\<close> with \<open>status\<close> and \<open>view\<close>,
  \<open>apply_barrier_create\<close>, \<open>apply_barrier_arrive\<close> and \<open>barrier_get\<close> of \<open>src/state.rs\<close>. The tallies
  run over a \<open>HashMap\<close>; both are order independent, so the model takes key order. The weight of
  the status saturates and the weight of the view wraps, as in a release build.
\<close>

datatype barrier_policy =
    AllArrive
  | Quorum u32
  | FirstSuccess
  | AnyVeto
  | BestByDeadline
  | WeightedQuorum u64

datatype barrier_status = BarrierPending | Satisfied | Vetoed | TimedOut

definition is_terminal :: "barrier_status \<Rightarrow> bool" where
  "is_terminal s = (s \<noteq> BarrierPending)"

record barrier_arrival =
  ba_participant :: string
  ba_weight :: u64
  ba_veto :: bool
  ba_arrived_ms :: u64

record barrier_record =
  br_policy :: barrier_policy
  br_expected :: u32
  br_deadline_ms :: "u64 option"
  br_arrivals :: "(string, barrier_arrival) fmap"

record barrier_state =
  bs_name :: string
  bs_policy :: barrier_policy
  bs_expected :: u32
  bs_deadline_ms :: "u64 option"
  bs_status :: barrier_status
  bs_arrivals :: "barrier_arrival list"
  bs_arrived_count :: u32
  bs_arrived_weight :: u64

type_synonym barrier_store = "(string, barrier_record) fmap"

definition deadline_passed :: "u64 \<Rightarrow> barrier_record \<Rightarrow> bool" where
  "deadline_passed now r = (case br_deadline_ms r of None \<Rightarrow> False | Some deadline \<Rightarrow> now \<ge> deadline)"

definition successes :: "barrier_record \<Rightarrow> barrier_arrival list" where
  "successes r = filter (\<lambda>a. \<not> ba_veto a) (fmvalues (br_arrivals r))"

definition tally_weight :: "barrier_arrival list \<Rightarrow> u64" where
  "tally_weight as = foldl (\<lambda>acc a. sat_add acc (ba_weight a)) 0 as"

definition barrier_met :: "barrier_record \<Rightarrow> u64 \<Rightarrow> bool" where
  "barrier_met r now =
     (let count = length (successes r); weight = tally_weight (successes r)
      in case br_policy r of
           AllArrive \<Rightarrow> count \<ge> unat (br_expected r)
         | AnyVeto \<Rightarrow> count \<ge> unat (br_expected r)
         | Quorum required \<Rightarrow> count \<ge> unat required
         | FirstSuccess \<Rightarrow> count \<ge> 1
         | WeightedQuorum required_weight \<Rightarrow> weight \<ge> required_weight
         | BestByDeadline \<Rightarrow> deadline_passed now r \<and> count \<ge> 1)"

definition barrier_status_at :: "barrier_record \<Rightarrow> u64 \<Rightarrow> barrier_status" where
  "barrier_status_at r now =
     (if br_policy r = AnyVeto \<and> list_ex ba_veto (fmvalues (br_arrivals r)) then Vetoed
      else if barrier_met r now then Satisfied
      else if deadline_passed now r then TimedOut
      else BarrierPending)"

definition barrier_view :: "barrier_record \<Rightarrow> string \<Rightarrow> u64 \<Rightarrow> barrier_state" where
  "barrier_view r name now =
     (let arrivals = sort_key (\<lambda>a. (ba_arrived_ms a, ba_participant a)) (fmvalues (br_arrivals r));
          live = filter (\<lambda>a. \<not> ba_veto a) arrivals
      in \<lparr>bs_name = name, bs_policy = br_policy r, bs_expected = br_expected r,
          bs_deadline_ms = br_deadline_ms r, bs_status = barrier_status_at r now,
          bs_arrivals = arrivals, bs_arrived_count = word_of_nat (length live),
          bs_arrived_weight = sum_list (map ba_weight live)\<rparr>)"

datatype barrier_command =
    BarrierCreate string barrier_policy u32 "u64 option"
  | BarrierArrive string string u64 bool

datatype barrier_response =
    AlreadyResolved barrier_state
  | BarrierCreated barrier_state
  | BarrierArrived bool barrier_state

definition apply_barrier_create ::
  "u64 \<Rightarrow> string \<Rightarrow> barrier_policy \<Rightarrow> u32 \<Rightarrow> u64 option \<Rightarrow> barrier_store \<Rightarrow> barrier_response \<times> barrier_store" where
  "apply_barrier_create now name policy expected deadline_ms barriers =
     (let fresh = (\<lambda>arrivals. \<lparr>br_policy = policy, br_expected = expected,
            br_deadline_ms = deadline_ms, br_arrivals = arrivals\<rparr>)
      in case fmlookup barriers name of
           Some r \<Rightarrow> if is_terminal (barrier_status_at r now) then (AlreadyResolved (barrier_view r name now), barriers)
             else (BarrierCreated (barrier_view (fresh (br_arrivals r)) name now),
                   fmupd name (fresh (br_arrivals r)) barriers)
         | None \<Rightarrow> (BarrierCreated (barrier_view (fresh fmempty) name now), fmupd name (fresh fmempty) barriers))"

definition arrive_record :: "u64 \<Rightarrow> string \<Rightarrow> u64 \<Rightarrow> bool \<Rightarrow> barrier_record \<Rightarrow> barrier_record" where
  "arrive_record now who weight veto r = r\<lparr>br_arrivals := fmupd who
     \<lparr>ba_participant = who, ba_weight = weight, ba_veto = veto, ba_arrived_ms = now\<rparr> (br_arrivals r)\<rparr>"

definition apply_barrier_arrive ::
  "u64 \<Rightarrow> string \<Rightarrow> string \<Rightarrow> u64 \<Rightarrow> bool \<Rightarrow> barrier_store \<Rightarrow> barrier_response \<times> barrier_store" where
  "apply_barrier_arrive now name who weight veto barriers =
     (let r = (case fmlookup barriers name of Some r \<Rightarrow> r
            | None \<Rightarrow> \<lparr>br_policy = AllArrive, br_expected = 1, br_deadline_ms = None, br_arrivals = fmempty\<rparr>);
          r' = arrive_record now who weight veto r;
          view = barrier_view r' name now
      in (BarrierArrived (is_terminal (bs_status view)) view, fmupd name r' barriers))"

fun apply_barrier :: "u64 \<Rightarrow> barrier_command \<Rightarrow> barrier_store \<Rightarrow> barrier_response \<times> barrier_store" where
  "apply_barrier now (BarrierCreate name policy expected deadline_ms) barriers =
     apply_barrier_create now name policy expected deadline_ms barriers"
| "apply_barrier now (BarrierArrive name who weight veto) barriers =
     apply_barrier_arrive now name who weight veto barriers"

definition barrier_get :: "u64 \<Rightarrow> string \<Rightarrow> barrier_store \<Rightarrow> barrier_state option" where
  "barrier_get now name barriers = map_option (\<lambda>r. barrier_view r name now) (fmlookup barriers name)"

subsection \<open>Tallies\<close>

lemma unat_tally: "unat (tally_weight as) = min (2 ^ 64 - 1) (sum_list (map (unat \<circ> ba_weight) as))"
proof -
  have "unat (foldl (\<lambda>acc a. sat_add acc (ba_weight a)) w as) =
      min (2 ^ 64 - 1) (unat w + sum_list (map (unat \<circ> ba_weight) as))" for w
  proof (induction as arbitrary: w)
    case Nil
    then show ?case using unat_lt_2p [of w] by simp
  next
    case (Cons a as)
    show ?case by (simp add: Cons.IH unat_sat_add)
  qed
  from this [of 0] show ?thesis by (simp add: tally_weight_def)
qed

lemma sum_list_fmvalues:
  "sum_list (map f (fmvalues m)) = (\<Sum>k \<in> fset (fmdom m). f (the (fmlookup m k)))"
  by (simp add: fmvalues_def entries_def comp_def sum_list_distinct_conv_sum_set)

definition score :: "(barrier_arrival \<Rightarrow> nat) \<Rightarrow> barrier_arrival option \<Rightarrow> nat" where
  "score f x = (case x of Some a \<Rightarrow> if ba_veto a then 0 else f a | None \<Rightarrow> 0)"

lemma success_sum:
  "sum_list (map f (successes r)) = (\<Sum>k \<in> fset (fmdom (br_arrivals r)). score f (fmlookup (br_arrivals r) k))"
proof -
  have "sum_list (map f (filter P xs)) = sum_list (map (\<lambda>a. if P a then f a else 0) xs)" for P xs
    by (induction xs) auto
  then have "sum_list (map f (successes r)) =
      (\<Sum>k \<in> fset (fmdom (br_arrivals r)). if \<not> ba_veto (the (fmlookup (br_arrivals r) k))
         then f (the (fmlookup (br_arrivals r) k)) else 0)"
    by (simp add: successes_def sum_list_fmvalues)
  also have "\<dots> = (\<Sum>k \<in> fset (fmdom (br_arrivals r)). score f (fmlookup (br_arrivals r) k))"
    by (rule sum.cong) (auto simp: score_def fmlookup_dom_iff)
  finally show ?thesis .
qed

text \<open>An arrival that scores at least what it replaces does not lower a tally.\<close>

lemma success_sum_arrive:
  assumes "score f (fmlookup (br_arrivals r) who) \<le> (if veto then 0 else f \<lparr>ba_participant = who,
      ba_weight = weight, ba_veto = veto, ba_arrived_ms = now\<rparr>)"
  shows "sum_list (map f (successes r)) \<le> sum_list (map f (successes (arrive_record now who weight veto r)))"
proof -
  let ?m = "br_arrivals r" and ?m' = "br_arrivals (arrive_record now who weight veto r)"
  have le: "score f (fmlookup ?m k) \<le> score f (fmlookup ?m' k)" for k
    using assms by (auto simp: arrive_record_def score_def)
  have "(\<Sum>k \<in> fset (fmdom ?m). score f (fmlookup ?m k)) \<le> (\<Sum>k \<in> fset (fmdom ?m). score f (fmlookup ?m' k))"
    by (rule sum_mono) (rule le)
  also have "\<dots> \<le> (\<Sum>k \<in> fset (fmdom ?m'). score f (fmlookup ?m' k))"
    by (rule sum_mono2) (auto simp: arrive_record_def)
  finally show ?thesis by (simp only: success_sum)
qed

lemma length_as_sum: "length xs = sum_list (map (\<lambda>_. 1) xs)"
  by (simp add: sum_list_triv)

definition no_regression :: "barrier_record \<Rightarrow> string \<Rightarrow> u64 \<Rightarrow> bool \<Rightarrow> bool" where
  "no_regression r who weight veto = (case fmlookup (br_arrivals r) who of
       None \<Rightarrow> \<not> (br_policy r = AnyVeto \<and> veto)
     | Some a \<Rightarrow> \<not> veto \<and> (\<not> ba_veto a \<longrightarrow> ba_weight a \<le> weight))"

lemma arrive_counts:
  assumes "no_regression r who weight veto"
  shows "length (successes r) \<le> length (successes (arrive_record now who weight veto r))"
    and "tally_weight (successes r) \<le> tally_weight (successes (arrive_record now who weight veto r))"
proof -
  show "length (successes r) \<le> length (successes (arrive_record now who weight veto r))"
    unfolding length_as_sum using assms
    by (intro success_sum_arrive) (auto simp: score_def no_regression_def split: option.splits)
  have "sum_list (map (unat \<circ> ba_weight) (successes r)) \<le>
      sum_list (map (unat \<circ> ba_weight) (successes (arrive_record now who weight veto r)))"
    using assms by (intro success_sum_arrive)
      (auto simp: score_def no_regression_def word_le_nat_alt split: option.splits)
  then show "tally_weight (successes r) \<le> tally_weight (successes (arrive_record now who weight veto r))"
    unfolding word_le_nat_alt unat_tally by simp
qed

lemma barrier_met_arrive:
  assumes "no_regression r who weight veto" "barrier_met r now" "now \<le> later"
  shows "barrier_met (arrive_record at who weight veto r) later"
proof -
  have p: "br_policy (arrive_record at who weight veto r) = br_policy r"
    "br_expected (arrive_record at who weight veto r) = br_expected r" by (simp_all add: arrive_record_def)
  have d: "deadline_passed now r \<Longrightarrow> deadline_passed later (arrive_record at who weight veto r)"
    using assms(3) by (auto simp: deadline_passed_def arrive_record_def split: option.splits)
  show ?thesis
    using assms(2) arrive_counts [OF assms(1), of at] d
    by (auto simp: barrier_met_def p Let_def split: barrier_policy.splits)
qed

lemma vetoed_iff: "list_ex ba_veto (fmvalues m) \<longleftrightarrow> (\<exists>k a. fmlookup m k = Some a \<and> ba_veto a)"
  by (auto simp: list_ex_iff set_fmvalues)

subsection \<open>Properties\<close>

text \<open>A satisfied barrier stays satisfied, at every later time, under an arrival that does not
  retract: a new participant that does not veto an \<open>AnyVeto\<close> barrier, or a repeat arrival that is no
  veto and has at least the weight of a counted earlier one.\<close>

theorem barrier_satisfaction_is_monotone:
  assumes "barrier_status_at r now = Satisfied" "no_regression r who weight veto" "now \<le> later"
  shows "barrier_status_at (arrive_record at who weight veto r) later = Satisfied \<and>
    barrier_status_at r later = Satisfied"
proof
  have met: "barrier_met r now" and nv: "\<not> (br_policy r = AnyVeto \<and> list_ex ba_veto (fmvalues (br_arrivals r)))"
    using assms(1) by (auto simp: barrier_status_at_def split: if_splits)
  have "\<not> (br_policy r = AnyVeto \<and> list_ex ba_veto (fmvalues (br_arrivals (arrive_record at who weight veto r))))"
    using nv assms(2) by (auto simp: vetoed_iff arrive_record_def no_regression_def split: option.splits if_splits)
  then show "barrier_status_at (arrive_record at who weight veto r) later = Satisfied"
    using barrier_met_arrive [OF assms(2) met assms(3)] by (simp add: barrier_status_at_def arrive_record_def)
  have "barrier_met r later"
    using met assms(3) by (auto simp: barrier_met_def deadline_passed_def Let_def
      split: barrier_policy.splits option.splits)
  then show "barrier_status_at r later = Satisfied" using nv by (simp add: barrier_status_at_def)
qed

definition barrier_example :: barrier_record where
  "barrier_example = \<lparr>br_policy = Quorum 1, br_expected = 2, br_deadline_ms = None,
     br_arrivals = fmupd ''a'' \<lparr>ba_participant = ''a'', ba_weight = 1, ba_veto = False, ba_arrived_ms = 5\<rparr> fmempty\<rparr>"

lemmas barrier_eval = barrier_example_def barrier_status_at_def barrier_met_def successes_def tally_weight_def
  deadline_passed_def arrive_record_def fmvalues_def entries_def Let_def

theorem barrier_satisfaction_is_monotone_witness:
  "barrier_status_at barrier_example 5 = Satisfied \<and> no_regression barrier_example ''b'' 0 True \<and>
   barrier_status_at (arrive_record 9 ''b'' 0 True barrier_example) 9 = Satisfied"
proof -
  have s: "barrier_status_at barrier_example 5 = Satisfied" by (simp add: barrier_eval)
  moreover have n: "no_regression barrier_example ''b'' 0 True" by (simp add: no_regression_def barrier_example_def)
  ultimately show ?thesis using barrier_satisfaction_is_monotone [OF s n, of 9 9] by simp
qed

text \<open>A resolved barrier is not immutable. Creating it anew is refused without a change, but a
  repeat arrival rewrites the earlier one: here the only participant of a satisfied barrier vetoes
  and the barrier is pending again.\<close>

theorem resolved_barrier_can_reopen:
  "(\<forall>now name policy expected deadline barriers r. fmlookup barriers name = Some r \<and>
      is_terminal (barrier_status_at r now) \<longrightarrow>
      apply_barrier now (BarrierCreate name policy expected deadline) barriers =
        (AlreadyResolved (barrier_view r name now), barriers)) \<and>
   barrier_status_at barrier_example 5 = Satisfied \<and>
   (\<exists>v. apply_barrier 6 (BarrierArrive ''n'' ''a'' 1 True) (fmupd ''n'' barrier_example fmempty) =
      (BarrierArrived False v, fmupd ''n'' (arrive_record 6 ''a'' 1 True barrier_example) fmempty)) \<and>
   barrier_status_at (arrive_record 6 ''a'' 1 True barrier_example) 6 = BarrierPending"
proof (intro conjI allI impI)
  show p: "barrier_status_at (arrive_record 6 ''a'' 1 True barrier_example) 6 = BarrierPending"
    by (simp add: barrier_eval)
  show "barrier_status_at barrier_example 5 = Satisfied" by (simp add: barrier_eval)
  show "\<exists>v. apply_barrier 6 (BarrierArrive ''n'' ''a'' 1 True) (fmupd ''n'' barrier_example fmempty) =
      (BarrierArrived False v, fmupd ''n'' (arrive_record 6 ''a'' 1 True barrier_example) fmempty)"
    using p by (simp add: apply_barrier_arrive_def barrier_view_def is_terminal_def Let_def)
qed (auto simp: apply_barrier_create_def Let_def)

theorem resolved_barrier_can_reopen_witness:
  "apply_barrier 6 (BarrierCreate ''n'' AllArrive 3 None) (fmupd ''n'' barrier_example fmempty) =
     (AlreadyResolved (barrier_view barrier_example ''n'' 6), fmupd ''n'' barrier_example fmempty)"
proof -
  have "is_terminal (barrier_status_at barrier_example 6)" by (simp add: barrier_eval is_terminal_def)
  then show ?thesis
    using resolved_barrier_can_reopen [THEN conjunct1, rule_format, of "fmupd ''n'' barrier_example fmempty" "''n''" barrier_example 6 AllArrive 3 None]
    by simp
qed

definition two_arrivals :: "u64 \<Rightarrow> barrier_store" where
  "two_arrivals w = snd (apply_barrier 6 (BarrierArrive ''n'' ''b'' w False)
     (snd (apply_barrier 5 (BarrierArrive ''n'' ''a'' w False)
     (snd (apply_barrier 4 (BarrierCreate ''n'' (WeightedQuorum 100) 2 None) fmempty)))))"

lemmas barrier_apply_eval = two_arrivals_def barrier_eval apply_barrier_create_def apply_barrier_arrive_def
  barrier_get_def barrier_view_def is_terminal_def

text \<open>The weight that decides a weighted quorum saturates, and the weight that the read view
  reports for it wraps: after two arrivals of weight \<open>2\<^sup>6\<^sup>3\<close> the quorum of one hundred is satisfied
  while the view reports an arrived weight of zero.\<close>

theorem barrier_view_weight_wraps:
  "map_option (\<lambda>v. (bs_status v, bs_arrived_count v, bs_arrived_weight v))
     (barrier_get 7 ''n'' (two_arrivals (2 ^ 63))) = Some (Satisfied, 2, 0)"
  by (simp add: barrier_apply_eval sat_add_def evaluate)

end
