(* ===== verification/Lifecycles.thy ===== *)
theory Lifecycles
  imports Fencing
begin

section \<open>Runs and lifecycles\<close>

text \<open>
  A component applies the commands of the log one after the other. \<open>run\<close> collects the answers with
  their commands and the final state. The locale \<open>lifecycle\<close> is the contract shared by the named
  records of the store (tasks, effects, handoffs, decisions): a record in a terminal state is left
  alone by every command. The locale \<open>monotone_field\<close> is that of a field that never goes back, and
  \<open>held_lease\<close> that of a record only its holder can touch while its lease runs.
\<close>

fun run :: "('c \<Rightarrow> 's \<Rightarrow> 'r \<times> 's) \<Rightarrow> 'c list \<Rightarrow> 's \<Rightarrow> ('c \<times> 'r) list \<times> 's" where
  "run step [] s = ([], s)"
| "run step (c # cs) s =
     (let (a, s') = step c s; (as, s'') = run step cs s' in ((c, a) # as, s''))"

abbreviation answers :: "('c \<Rightarrow> 's \<Rightarrow> 'r \<times> 's) \<Rightarrow> 'c list \<Rightarrow> 's \<Rightarrow> ('c \<times> 'r) list" where
  "answers step cs s \<equiv> fst (run step cs s)"

abbreviation final :: "('c \<Rightarrow> 's \<Rightarrow> 'r \<times> 's) \<Rightarrow> 'c list \<Rightarrow> 's \<Rightarrow> 's" where
  "final step cs s \<equiv> snd (run step cs s)"

lemma final_Cons: "final step (c # cs) s = final step cs (snd (step c s))"
  by (simp add: case_prod_unfold Let_def)

lemma answers_Cons: "answers step (c # cs) s = (c, fst (step c s)) # answers step cs (snd (step c s))"
  by (simp add: case_prod_unfold Let_def)

lemmas run_simps = final_Cons answers_Cons run.simps(1) fst_conv snd_conv

declare run.simps(2) [simp del]

lemma final_append: "final step (cs @ ds) s = final step ds (final step cs s)"
  by (induction cs arbitrary: s) (simp_all add: run_simps)

lemma run_invariant:
  assumes "\<And>c s. c \<in> set cs \<Longrightarrow> I s \<Longrightarrow> I (snd (step c s))" "I s"
  shows "I (final step cs s)"
  using assms
proof (induction cs arbitrary: s)
  case (Cons c cs)
  show ?case unfolding final_Cons by (rule Cons.IH) (auto intro: Cons.prems)
qed simp

text \<open>An event that is followed by a state in which it can no longer happen happens at most once.\<close>

lemma run_at_most_once:
  assumes once: "\<And>c s. c \<in> set cs \<Longrightarrow> E c (fst (step c s)) \<Longrightarrow> D (snd (step c s))"
    and stays: "\<And>c s. c \<in> set cs \<Longrightarrow> D s \<Longrightarrow> D (snd (step c s))"
    and never: "\<And>c s. c \<in> set cs \<Longrightarrow> D s \<Longrightarrow> \<not> E c (fst (step c s))"
  shows "length (filter (\<lambda>(c, a). E c a) (answers step cs s)) \<le> 1"
proof -
  have none: "set ds \<subseteq> set cs \<Longrightarrow> D s \<Longrightarrow> filter (\<lambda>(c, a). E c a) (answers step ds s) = []" for s ds
    by (induction ds arbitrary: s) (auto simp: run_simps stays never)
  have "set ds \<subseteq> set cs \<Longrightarrow> length (filter (\<lambda>(c, a). E c a) (answers step ds s)) \<le> 1" for ds
    by (induction ds arbitrary: s) (auto simp: run_simps none once)
  then show ?thesis by simp
qed

locale lifecycle =
  fixes step :: "'c \<Rightarrow> 's \<Rightarrow> 'r \<times> 's"
    and record_of :: "'s \<Rightarrow> string \<Rightarrow> 'v option"
    and terminal :: "'v \<Rightarrow> bool"
  assumes absorbs: "record_of s k = Some v \<Longrightarrow> terminal v \<Longrightarrow> record_of (snd (step c s)) k = Some v"
begin

lemma run_absorbs: "record_of s k = Some v \<Longrightarrow> terminal v \<Longrightarrow> record_of (final step cs s) k = Some v"
  by (rule run_invariant) (auto intro: absorbs)

end

locale monotone_field =
  fixes step :: "'c \<Rightarrow> 's \<Rightarrow> 'r \<times> 's" and inv :: "'s \<Rightarrow> bool"
    and field_of :: "'s \<Rightarrow> string \<Rightarrow> ('f :: order) option"
  assumes keeps: "inv s \<Longrightarrow> inv (snd (step c s))"
    and grows: "inv s \<Longrightarrow> field_of s k = Some f \<Longrightarrow> \<exists>f'. field_of (snd (step c s)) k = Some f' \<and> f \<le> f'"
begin

lemma run_grows:
  assumes "inv s" "field_of s k = Some f"
  shows "inv (final step cs s) \<and> (\<exists>f'. field_of (final step cs s) k = Some f' \<and> f \<le> f')"
proof (rule run_invariant [where I = "\<lambda>s. inv s \<and> (\<exists>f'. field_of s k = Some f' \<and> f \<le> f')"])
  fix c s assume "inv s \<and> (\<exists>f'. field_of s k = Some f' \<and> f \<le> f')"
  then show "inv (snd (step c s)) \<and> (\<exists>f'. field_of (snd (step c s)) k = Some f' \<and> f \<le> f')"
    using keeps grows [of s k _ c] order_trans by blast
qed (use assms in auto)

end

text \<open>A leased record with a holder: while the lease runs, only commands that present the holder's
  credentials touch it. Time is the proposal time of each log entry.\<close>

locale held_lease =
  fixes step :: "u64 \<times> 'c \<Rightarrow> 's \<Rightarrow> 'r \<times> 's"
    and record_of :: "'s \<Rightarrow> string \<Rightarrow> 'v option"
    and live :: "u64 \<Rightarrow> 'v \<Rightarrow> bool"
    and authorised :: "'c \<Rightarrow> string \<Rightarrow> 'v \<Rightarrow> bool"
  assumes untouched: "record_of s k = Some v \<Longrightarrow> live now v \<Longrightarrow> \<not> authorised c k v \<Longrightarrow>
      record_of (snd (step (now, c) s)) k = Some v"
begin

lemma run_untouched:
  assumes "record_of s k = Some v" "\<And>now c. (now, c) \<in> set es \<Longrightarrow> live now v \<and> \<not> authorised c k v"
  shows "record_of (final step es s) k = Some v"
proof (rule run_invariant [where I = "\<lambda>s. record_of s k = Some v"])
  fix e s assume "e \<in> set es" "record_of s k = Some v"
  then show "record_of (snd (step e s)) k = Some v" using untouched [of s k v "fst e" "snd e"] assms(2) [of "fst e" "snd e"] by simp
qed (rule assms(1))

end

end
