(* ===== verification/Tasks.thy ===== *)
theory Tasks
  imports Lifecycles
begin

section \<open>Durable tasks\<close>

text \<open>
  \<open>TaskStatus\<close>, \<open>TaskRecord\<close> with \<open>claimable\<close>, \<open>owned_now\<close> and \<open>view\<close>, and the handlers
  \<open>apply_task_create\<close>, \<open>apply_task_claim\<close>, \<open>apply_task_progress\<close>, \<open>apply_task_complete\<close>,
  \<open>apply_task_fail\<close>, \<open>apply_task_cancel\<close> of \<open>src/state.rs\<close>, on the token counter and the task map.
\<close>

datatype task_status = TaskPending | Claimed | Running | Completed | Failed | TaskCancelled

definition task_is_terminal :: "task_status \<Rightarrow> bool" where
  "task_is_terminal s = (s \<in> {Completed, Failed, TaskCancelled})"

record task_record =
  tr_task_type :: string
  tr_payload :: json
  tr_status :: task_status
  tr_owner :: "string option"
  tr_fencing_token :: u64
  tr_lease_ttl_ms :: u64
  tr_lease_expires_ms :: "u64 option"
  tr_progress :: u32
  tr_checkpoint :: json
  tr_result :: "json option"
  tr_deadline_ms :: "u64 option"
  tr_generation :: u64

record task_state =
  ts_name :: string
  ts_task_type :: string
  ts_payload :: json
  ts_status :: task_status
  ts_owner :: "string option"
  ts_fencing_token :: u64
  ts_progress :: u32
  ts_checkpoint :: json
  ts_result :: "json option"
  ts_lease_expires_ms :: "u64 option"
  ts_deadline_ms :: "u64 option"
  ts_generation :: u64

record task_store =
  ks_next_fencing_token :: u64
  ks_tasks :: "(string, task_record) fmap"

definition claimable :: "task_record \<Rightarrow> u64 \<Rightarrow> bool" where
  "claimable r now = (\<not> task_is_terminal (tr_status r) \<and>
     (tr_status r = TaskPending \<or>
      (case tr_lease_expires_ms r of None \<Rightarrow> True | Some expires \<Rightarrow> expires \<le> now)))"

definition owned_now :: "task_record \<Rightarrow> u64 \<Rightarrow> string \<Rightarrow> u64 \<Rightarrow> bool" where
  "owned_now r now worker token = (\<not> task_is_terminal (tr_status r) \<and>
     tr_owner r = Some worker \<and> tr_fencing_token r = token \<and>
     (case tr_lease_expires_ms r of None \<Rightarrow> False | Some expires \<Rightarrow> expires > now))"

definition task_view :: "task_record \<Rightarrow> string \<Rightarrow> task_state" where
  "task_view r name = \<lparr>ts_name = name, ts_task_type = tr_task_type r, ts_payload = tr_payload r,
     ts_status = tr_status r, ts_owner = tr_owner r, ts_fencing_token = tr_fencing_token r,
     ts_progress = tr_progress r, ts_checkpoint = tr_checkpoint r, ts_result = tr_result r,
     ts_lease_expires_ms = tr_lease_expires_ms r, ts_deadline_ms = tr_deadline_ms r,
     ts_generation = tr_generation r\<rparr>"

datatype task_command =
    TaskCreate string string json "u64 option"
  | TaskClaim string string u64
  | TaskProgress string string u64 u32 json
  | TaskComplete string string u64 json
  | TaskFail string string u64 bool
  | TaskCancel string

datatype task_response =
    TaskCreated bool task_state
  | TaskTokensExhausted
  | TaskNotFound
  | TaskTerminal task_state
  | TaskAlreadyClaimed "string option" task_state
  | TaskGranted u64 task_state
  | TaskFenced task_state
  | TaskOk task_state
  | TaskFailed bool task_state

definition put_task :: "string \<Rightarrow> task_record \<Rightarrow> task_store \<Rightarrow> task_store" where
  "put_task name r s = s\<lparr>ks_tasks := fmupd name r (ks_tasks s)\<rparr>"

definition apply_task_create ::
  "string \<Rightarrow> string \<Rightarrow> json \<Rightarrow> u64 option \<Rightarrow> task_store \<Rightarrow> task_response \<times> task_store" where
  "apply_task_create name task_type payload deadline_ms s =
     (case fmlookup (ks_tasks s) name of
        Some existing \<Rightarrow> (TaskCreated False (task_view existing name), s)
      | None \<Rightarrow>
          let r = \<lparr>tr_task_type = task_type, tr_payload = payload, tr_status = TaskPending,
                tr_owner = None, tr_fencing_token = 0, tr_lease_ttl_ms = 0, tr_lease_expires_ms = None,
                tr_progress = 0, tr_checkpoint = JNull, tr_result = None, tr_deadline_ms = deadline_ms,
                tr_generation = 1\<rparr>
          in (TaskCreated True (task_view r name), put_task name r s))"

text \<open>The token is taken before the task is looked up, so a refused claim consumes it.\<close>

definition apply_task_claim ::
  "u64 \<Rightarrow> string \<Rightarrow> string \<Rightarrow> u64 \<Rightarrow> task_store \<Rightarrow> task_response \<times> task_store" where
  "apply_task_claim now name worker ttl_ms s =
     (case next_token (ks_next_fencing_token s) of
        None \<Rightarrow> (TaskTokensExhausted, s)
      | Some token \<Rightarrow>
          let s = s\<lparr>ks_next_fencing_token := token\<rparr>
          in case fmlookup (ks_tasks s) name of
               None \<Rightarrow> (TaskNotFound, s)
             | Some r \<Rightarrow>
                 if task_is_terminal (tr_status r) then (TaskTerminal (task_view r name), s)
                 else if \<not> claimable r now then (TaskAlreadyClaimed (tr_owner r) (task_view r name), s)
                 else let r' = r\<lparr>tr_owner := Some worker, tr_fencing_token := token,
                              tr_lease_ttl_ms := ttl_ms, tr_lease_expires_ms := Some (sat_add now ttl_ms),
                              tr_status := Claimed, tr_generation := tr_generation r + 1\<rparr>
                      in (TaskGranted token (task_view r' name), put_task name r' s))"

definition apply_task_progress ::
  "u64 \<Rightarrow> string \<Rightarrow> string \<Rightarrow> u64 \<Rightarrow> u32 \<Rightarrow> json \<Rightarrow> task_store \<Rightarrow> task_response \<times> task_store" where
  "apply_task_progress now name worker fencing_token percent checkpoint s =
     (case fmlookup (ks_tasks s) name of
        None \<Rightarrow> (TaskNotFound, s)
      | Some r \<Rightarrow>
          if \<not> owned_now r now worker fencing_token then (TaskFenced (task_view r name), s)
          else let r' = r\<lparr>tr_status := Running, tr_progress := min percent 100, tr_checkpoint := checkpoint,
                       tr_lease_expires_ms := Some (sat_add now (tr_lease_ttl_ms r)),
                       tr_generation := tr_generation r + 1\<rparr>
               in (TaskOk (task_view r' name), put_task name r' s))"

definition apply_task_complete ::
  "u64 \<Rightarrow> string \<Rightarrow> string \<Rightarrow> u64 \<Rightarrow> json \<Rightarrow> task_store \<Rightarrow> task_response \<times> task_store" where
  "apply_task_complete now name worker fencing_token result s =
     (case fmlookup (ks_tasks s) name of
        None \<Rightarrow> (TaskNotFound, s)
      | Some r \<Rightarrow>
          if \<not> owned_now r now worker fencing_token then (TaskFenced (task_view r name), s)
          else let r' = r\<lparr>tr_status := Completed, tr_progress := 100, tr_result := Some result,
                       tr_lease_expires_ms := None, tr_generation := tr_generation r + 1\<rparr>
               in (TaskOk (task_view r' name), put_task name r' s))"

definition apply_task_fail ::
  "u64 \<Rightarrow> string \<Rightarrow> string \<Rightarrow> u64 \<Rightarrow> bool \<Rightarrow> task_store \<Rightarrow> task_response \<times> task_store" where
  "apply_task_fail now name worker fencing_token retryable s =
     (case fmlookup (ks_tasks s) name of
        None \<Rightarrow> (TaskNotFound, s)
      | Some r \<Rightarrow>
          if \<not> owned_now r now worker fencing_token then (TaskFenced (task_view r name), s)
          else let r' = (if retryable
                     then r\<lparr>tr_status := TaskPending, tr_owner := None, tr_lease_expires_ms := None,
                       tr_generation := tr_generation r + 1\<rparr>
                     else r\<lparr>tr_status := Failed, tr_generation := tr_generation r + 1\<rparr>)
               in (TaskFailed retryable (task_view r' name), put_task name r' s))"

definition apply_task_cancel :: "string \<Rightarrow> task_store \<Rightarrow> task_response \<times> task_store" where
  "apply_task_cancel name s =
     (case fmlookup (ks_tasks s) name of
        None \<Rightarrow> (TaskNotFound, s)
      | Some r \<Rightarrow>
          if task_is_terminal (tr_status r) then (TaskTerminal (task_view r name), s)
          else let r' = r\<lparr>tr_status := TaskCancelled, tr_owner := None, tr_lease_expires_ms := None,
                       tr_generation := tr_generation r + 1\<rparr>
               in (TaskOk (task_view r' name), put_task name r' s))"

fun apply_task :: "u64 \<Rightarrow> task_command \<Rightarrow> task_store \<Rightarrow> task_response \<times> task_store" where
  "apply_task now (TaskCreate name task_type payload deadline_ms) s = apply_task_create name task_type payload deadline_ms s"
| "apply_task now (TaskClaim name worker ttl_ms) s = apply_task_claim now name worker ttl_ms s"
| "apply_task now (TaskProgress name worker token percent checkpoint) s =
     apply_task_progress now name worker token percent checkpoint s"
| "apply_task now (TaskComplete name worker token result) s = apply_task_complete now name worker token result s"
| "apply_task now (TaskFail name worker token retryable) s = apply_task_fail now name worker token retryable s"
| "apply_task now (TaskCancel name) s = apply_task_cancel name s"

definition task_get :: "string \<Rightarrow> task_store \<Rightarrow> task_state option" where
  "task_get name s = map_option (\<lambda>r. task_view r name) (fmlookup (ks_tasks s) name)"

text \<open>One log entry: a command with its proposal time.\<close>

definition task_step :: "u64 \<times> task_command \<Rightarrow> task_store \<Rightarrow> task_response \<times> task_store" where
  "task_step e s = apply_task (fst e) (snd e) s"

definition task_of :: "task_store \<Rightarrow> string \<Rightarrow> task_record option" where
  "task_of s name = fmlookup (ks_tasks s) name"

subsection \<open>Invariant and contracts\<close>

definition task_inv :: "task_store \<Rightarrow> bool" where
  "task_inv s = (\<forall>name r. fmlookup (ks_tasks s) name = Some r \<longrightarrow>
     tr_fencing_token r \<le> ks_next_fencing_token s \<and> tr_progress r \<le> 100 \<and>
     (tr_owner r \<noteq> None \<longrightarrow> 0 < tr_fencing_token r \<and> tr_status r \<noteq> TaskPending) \<and>
     (tr_status r \<in> {Claimed, Running} \<longrightarrow> tr_owner r \<noteq> None \<and> tr_lease_expires_ms r \<noteq> None))"

definition task_tokens :: "task_store \<Rightarrow> u64 set" where
  "task_tokens s = {t. t \<noteq> 0 \<and> (\<exists>name r. fmlookup (ks_tasks s) name = Some r \<and> t = tr_fencing_token r)}"

lemmas task_defs = apply_task_create_def apply_task_claim_def apply_task_progress_def
  apply_task_complete_def apply_task_fail_def apply_task_cancel_def put_task_def Let_def

lemma token_bound: "next_token c = Some t \<Longrightarrow> c \<le> t \<and> t \<noteq> 0"
  using next_token_Some [of c t] by auto

lemma apply_task_inv: "task_inv s \<Longrightarrow> task_inv (snd (apply_task now c s))"
  by (cases c) (auto simp: task_inv_def task_defs owned_now_def word_neq_0_conv dest!: token_bound
      split: option.splits if_splits dest: order_trans)

lemma apply_task_fresh:
  "fresh_step (ks_next_fencing_token s) (task_tokens s)
     (ks_next_fencing_token (snd (apply_task now c s))) (task_tokens (snd (apply_task now c s)))"
  by (cases c) (auto simp: task_tokens_def task_defs intro!: fresh_step_refl fresh_step_mint
      split: option.split)

interpretation task_life: lifecycle task_step task_of "\<lambda>r. task_is_terminal (tr_status r)"
proof
  fix s k v e
  assume "task_of s k = Some v" "task_is_terminal (tr_status v)"
  then show "task_of (snd (task_step e s)) k = Some v"
    by (cases "snd e") (auto simp: task_of_def task_step_def task_defs owned_now_def split: option.split)
qed

interpretation task_token: monotone_field task_step task_inv "\<lambda>s k. map_option tr_fencing_token (task_of s k)"
proof
  fix s e k f
  assume i: "task_inv s"
  show "task_inv (snd (task_step e s))" using i by (simp add: task_step_def apply_task_inv)
  assume "map_option tr_fencing_token (task_of s k) = Some f"
  then show "\<exists>f'. map_option tr_fencing_token (task_of (snd (task_step e s)) k) = Some f' \<and> f \<le> f'"
    using i by (cases "snd e") (auto simp: task_of_def task_step_def task_defs task_inv_def
        dest!: token_bound dest: order_trans split: option.split)
qed

subsection \<open>Properties\<close>

fun presents :: "task_command \<Rightarrow> string \<Rightarrow> string \<Rightarrow> u64 \<Rightarrow> bool" where
  "presents (TaskProgress n w t _ _) name worker token \<longleftrightarrow> n = name \<and> w = worker \<and> t = token"
| "presents (TaskComplete n w t _) name worker token \<longleftrightarrow> n = name \<and> w = worker \<and> t = token"
| "presents (TaskFail n w t _) name worker token \<longleftrightarrow> n = name \<and> w = worker \<and> t = token"
| "presents _ name worker token \<longleftrightarrow> False"

lemma superseded_is_fenced:
  assumes "task_of s name = Some r" "token < tr_fencing_token r" "presents c name worker token"
  shows "apply_task now c s = (TaskFenced (task_view r name), s)"
  using assms by (cases c) (auto simp: task_of_def task_defs owned_now_def)

definition task_empty :: task_store where
  "task_empty = \<lparr>ks_next_fencing_token = 0, ks_tasks = fmempty\<rparr>"

text \<open>Worker \<open>a\<close> claims for ten milliseconds, lets the lease lapse, and \<open>b\<close> claims.\<close>

definition task_example :: task_store where
  "task_example = final task_step [(1, TaskCreate ''t'' ''k'' JNull None),
     (2, TaskClaim ''t'' ''a'' 10), (20, TaskClaim ''t'' ''b'' 10)] task_empty"

definition task_example_record :: task_record where
  "task_example_record = \<lparr>tr_task_type = ''k'', tr_payload = JNull, tr_status = Claimed,
     tr_owner = Some ''b'', tr_fencing_token = 2, tr_lease_ttl_ms = 10, tr_lease_expires_ms = Some 30,
     tr_progress = 0, tr_checkpoint = JNull, tr_result = None, tr_deadline_ms = None, tr_generation = 3\<rparr>"

lemma task_example_eval: "task_example = \<lparr>ks_next_fencing_token = 2, ks_tasks = fmupd ''t'' task_example_record fmempty\<rparr>"
  by (simp add: task_example_def run_simps task_step_def task_defs task_empty_def next_token_eq
      MAX_FENCING_TOKEN_def task_is_terminal_def claimable_def sat_add_def task_example_record_def)

lemma task_example_of: "task_of task_example ''t'' = Some task_example_record"
  by (simp add: task_example_eval task_of_def)

lemma task_example_inv: "task_inv task_example"
  by (simp add: task_inv_def task_example_eval task_example_record_def)

text \<open>C12. A worker whose claim was superseded is fenced for good. When a task carries a higher token,
  then after any further commands at any times every report of progress, completion or failure that
  presents the lower token is refused as fenced and changes nothing.\<close>

theorem superseded_worker_stays_fenced:
  assumes "task_inv s" "task_of s name = Some r" "token < tr_fencing_token r" "presents c name worker token"
  shows "\<exists>v. apply_task now c (final task_step es s) = (TaskFenced v, final task_step es s)"
proof -
  obtain r' where "task_of (final task_step es s) name = Some r'" "tr_fencing_token r \<le> tr_fencing_token r'"
    using task_token.run_grows [OF assms(1), of name "tr_fencing_token r" es] assms(2) by auto
  with superseded_is_fenced [of "final task_step es s" name r' token c worker now] assms(3,4) show ?thesis
    by (meson order_less_le_trans)
qed

theorem superseded_worker_stays_fenced_witness:
  "\<exists>v. apply_task 25 (TaskComplete ''t'' ''a'' 1 JNull) (final task_step [(24, TaskFail ''t'' ''b'' 2 True)] task_example)
     = (TaskFenced v, final task_step [(24, TaskFail ''t'' ''b'' 2 True)] task_example)"
  by (rule superseded_worker_stays_fenced [OF task_example_inv task_example_of])
    (simp_all add: task_example_record_def)

text \<open>A live claim is exclusive. While the lease of a claim runs, no command changes the task except
  a cancellation and the reports of its owner with its token, and a claim by anyone, when a token is
  left to spend on it, is refused with the name of the owner.\<close>

theorem live_task_claim_is_exclusive:
  assumes "task_inv s" "task_of s name = Some r" "owned_now r now worker token"
  shows "(\<not> presents c name worker token \<and> c \<noteq> TaskCancel name \<longrightarrow>
      task_of (snd (apply_task now c s)) name = Some r) \<and>
    (ks_next_fencing_token s < MAX_FENCING_TOKEN \<longrightarrow>
      fst (apply_task now (TaskClaim name w ttl) s) = TaskAlreadyClaimed (Some worker) (task_view r name))"
proof -
  have l: "fmlookup (ks_tasks s) name = Some r" using assms(2) by (simp add: task_of_def)
  then have "tr_status r \<noteq> TaskPending"
    using assms(1,3) by (auto simp: task_inv_def owned_now_def)
  then have nc: "\<not> claimable r now" "\<not> task_is_terminal (tr_status r)" "tr_owner r = Some worker"
    using assms(3) by (auto simp: claimable_def owned_now_def split: option.splits)
  have no: "\<not> owned_now r now w' t'" if "w' \<noteq> worker \<or> t' \<noteq> token" for w' t'
    using assms(3) that by (auto simp: owned_now_def)
  have "task_of (snd (apply_task now c s)) name = Some r"
    if "\<not> presents c name worker token" "c \<noteq> TaskCancel name"
    using that l nc no by (cases c) (auto simp: task_of_def task_defs split: option.split)
  then show ?thesis using l nc by (simp add: apply_task_claim_def next_token_eq Let_def)
qed

theorem live_task_claim_is_exclusive_witness:
  "task_of (snd (apply_task 25 (TaskClaim ''t'' ''c'' 5) task_example)) ''t'' = Some task_example_record \<and>
   fst (apply_task 25 (TaskClaim ''t'' ''c'' 5) task_example) =
     TaskAlreadyClaimed (Some ''b'') (task_view task_example_record ''t'')"
proof -
  have "owned_now task_example_record 25 ''b'' 2"
    by (simp add: owned_now_def task_example_record_def task_is_terminal_def)
  moreover have "ks_next_fencing_token task_example < MAX_FENCING_TOKEN"
    by (simp add: task_example_eval MAX_FENCING_TOKEN_def)
  ultimately show ?thesis
    using live_task_claim_is_exclusive [OF task_example_inv task_example_of, of 25 "''b''" 2 "TaskClaim ''t'' ''c'' 5" "''c''" 5]
    by simp
qed

text \<open>A claim is granted exactly when a token is left and the task exists, is not terminal, and is
  pending or its lease has lapsed. So abandoned work can always be taken over.\<close>

theorem task_claim_granted_iff:
  assumes "task_inv s"
  shows "(\<exists>t v. fst (apply_task now (TaskClaim name w ttl) s) = TaskGranted t v) \<longleftrightarrow>
    ks_next_fencing_token s < MAX_FENCING_TOKEN \<and>
    (\<exists>r. task_of s name = Some r \<and> \<not> task_is_terminal (tr_status r) \<and>
      (\<forall>worker token. \<not> owned_now r now worker token))"
proof -
  have "claimable r now \<longleftrightarrow> \<not> task_is_terminal (tr_status r) \<and> (\<forall>worker token. \<not> owned_now r now worker token)"
    if "fmlookup (ks_tasks s) name = Some r" for r
    using assms that by (cases "tr_status r")
      (auto simp: claimable_def owned_now_def task_inv_def task_is_terminal_def split: option.splits)
  then show ?thesis
    by (auto simp: task_of_def apply_task_claim_def next_token_eq Let_def split: option.split)
qed

theorem task_claim_granted_iff_witness:
  "\<exists>t v. fst (apply_task 30 (TaskClaim ''t'' ''c'' 5) task_example) = TaskGranted t v"
proof -
  have "\<not> task_is_terminal (tr_status task_example_record)" "\<not> owned_now task_example_record 30 w t" for w t
    by (simp_all add: owned_now_def task_example_record_def task_is_terminal_def)
  then show ?thesis
    using task_claim_granted_iff [OF task_example_inv, of 30 "''t''" "''c''" 5] task_example_of
    by (simp add: task_example_eval MAX_FENCING_TOKEN_def)
qed

fun accepted_completion :: "string \<Rightarrow> u64 \<times> task_command \<Rightarrow> task_response \<Rightarrow> bool" where
  "accepted_completion name (now, TaskComplete n w t res) (TaskOk v) \<longleftrightarrow> n = name"
| "accepted_completion name _ _ \<longleftrightarrow> False"

lemma accepted_completionD:
  assumes "accepted_completion name e (fst (task_step e s))"
  shows "\<exists>r. task_of s name = Some r \<and> \<not> task_is_terminal (tr_status r)"
    and "\<exists>r. task_of (snd (task_step e s)) name = Some r \<and> task_is_terminal (tr_status r)"
proof -
  obtain now w t res v where e: "e = (now, TaskComplete name w t res)" "fst (task_step e s) = TaskOk v"
    using assms by (cases "(name, e, fst (task_step e s))" rule: accepted_completion.cases) auto
  then obtain r where "task_of s name = Some r" "owned_now r now w t"
    by (auto simp: task_step_def task_defs task_of_def split: option.splits if_splits)
  then show "\<exists>r. task_of s name = Some r \<and> \<not> task_is_terminal (tr_status r)"
    "\<exists>r. task_of (snd (task_step e s)) name = Some r \<and> task_is_terminal (tr_status r)"
    by (auto simp: e(1) owned_now_def task_step_def task_defs task_of_def task_is_terminal_def)
qed

text \<open>A task is completed at most once. In any log at most one completion of a task is accepted,
  and once a task is completed, failed or cancelled no command changes it.\<close>

theorem task_completes_at_most_once:
  "length (filter (\<lambda>(e, a). accepted_completion name e a) (answers task_step es s)) \<le> 1 \<and>
   (\<forall>r. task_of s name = Some r \<and> task_is_terminal (tr_status r) \<longrightarrow>
      task_of (final task_step es s) name = Some r)"
proof
  let ?D = "\<lambda>s. \<exists>r. task_of s name = Some r \<and> task_is_terminal (tr_status r)"
  show "length (filter (\<lambda>(e, a). accepted_completion name e a) (answers task_step es s)) \<le> 1"
  proof (rule run_at_most_once [where D = ?D])
    show "?D s \<Longrightarrow> ?D (snd (task_step e s))" for e s using task_life.absorbs by blast
    show "?D s \<Longrightarrow> \<not> accepted_completion name e (fst (task_step e s))" for e s
      using accepted_completionD(1) [of name e s] by auto
  qed (rule accepted_completionD(2))
qed (use task_life.run_absorbs in blast)

theorem task_completes_at_most_once_witness:
  "length (filter (\<lambda>(e, a). accepted_completion ''t'' e a)
     (answers task_step [(21, TaskComplete ''t'' ''b'' 2 JNull), (22, TaskComplete ''t'' ''b'' 2 JNull)] task_example)) \<le> 1 \<and>
   accepted_completion ''t'' (21, TaskComplete ''t'' ''b'' 2 JNull)
     (fst (task_step (21, TaskComplete ''t'' ''b'' 2 JNull) task_example))"
  using task_completes_at_most_once [of "''t''"
      "[(21, TaskComplete ''t'' ''b'' 2 JNull), (22, TaskComplete ''t'' ''b'' 2 JNull)]" task_example]
  by (simp add: task_step_def task_example_eval task_example_record_def apply_task_complete_def owned_now_def
      task_is_terminal_def Let_def)

end
