(* ===== verification/Effects.thy ===== *)
theory Effects
  imports Lifecycles
begin

section \<open>Approval-escrow effects\<close>

text \<open>
  \<open>EffectStatus\<close>, \<open>EffectRecord\<close> with \<open>view\<close>, and the handlers \<open>apply_effect_prepare\<close>,
  \<open>apply_effect_approve\<close>, \<open>apply_effect_commit\<close>, \<open>apply_effect_abort\<close> of \<open>src/state.rs\<close>. The
  \<open>BTreeSet\<close> of approving principals is a finite set, listed in order by the view; its length is
  cast to 32 bits where the source casts it.
\<close>

datatype effect_status = Prepared | Approved | Committed | Aborted

definition effect_is_terminal :: "effect_status \<Rightarrow> bool" where
  "effect_is_terminal s = (s \<in> {Committed, Aborted})"

record effect_record =
  er_effect_type :: string
  er_payload :: json
  er_risk :: string
  er_idempotency_key :: string
  er_status :: effect_status
  er_required_approvals :: u32
  er_approvals :: "string fset"
  er_result :: "json option"
  er_generation :: u64

record effect_state =
  es_name :: string
  es_effect_type :: string
  es_payload :: json
  es_risk :: string
  es_idempotency_key :: string
  es_status :: effect_status
  es_required_approvals :: u32
  es_approvals :: "string list"
  es_result :: "json option"
  es_generation :: u64

type_synonym effect_store = "(string, effect_record) fmap"

definition effect_view :: "effect_record \<Rightarrow> string \<Rightarrow> effect_state" where
  "effect_view r name = \<lparr>es_name = name, es_effect_type = er_effect_type r, es_payload = er_payload r,
     es_risk = er_risk r, es_idempotency_key = er_idempotency_key r, es_status = er_status r,
     es_required_approvals = er_required_approvals r,
     es_approvals = sorted_list_of_set (fset (er_approvals r)), es_result = er_result r,
     es_generation = er_generation r\<rparr>"

datatype effect_command =
    EffectPrepare string string json string string u32
  | EffectApprove string string
  | EffectCommit string json
  | EffectAbort string

datatype effect_response =
    EffectPrepared bool effect_state
  | EffectNotFound
  | EffectTerminal effect_state
  | EffectOk effect_state
  | EffectCommitted bool effect_state
  | EffectAbortedAlready effect_state
  | EffectNotApproved nat u32 effect_state

definition apply_effect_prepare ::
  "string \<Rightarrow> string \<Rightarrow> json \<Rightarrow> string \<Rightarrow> string \<Rightarrow> u32 \<Rightarrow> effect_store \<Rightarrow> effect_response \<times> effect_store" where
  "apply_effect_prepare name effect_type payload risk idempotency_key required_approvals effects =
     (case fmlookup effects name of
        Some existing \<Rightarrow> (EffectPrepared False (effect_view existing name), effects)
      | None \<Rightarrow>
          let r = \<lparr>er_effect_type = effect_type, er_payload = payload, er_risk = risk,
                er_idempotency_key = idempotency_key,
                er_status = (if required_approvals = 0 then Approved else Prepared),
                er_required_approvals = required_approvals, er_approvals = {||}, er_result = None,
                er_generation = 1\<rparr>
          in (EffectPrepared True (effect_view r name), fmupd name r effects))"

definition approve_record :: "string \<Rightarrow> effect_record \<Rightarrow> effect_record" where
  "approve_record who r =
     (let approvals = finsert who (er_approvals r)
      in r\<lparr>er_approvals := approvals,
           er_status := (if (word_of_nat (fcard approvals) :: u32) \<ge> er_required_approvals r
                         then Approved else er_status r),
           er_generation := er_generation r + 1\<rparr>)"

definition apply_effect_approve :: "string \<Rightarrow> string \<Rightarrow> effect_store \<Rightarrow> effect_response \<times> effect_store" where
  "apply_effect_approve name who effects =
     (case fmlookup effects name of
        None \<Rightarrow> (EffectNotFound, effects)
      | Some r \<Rightarrow>
          if effect_is_terminal (er_status r) then (EffectTerminal (effect_view r name), effects)
          else (EffectOk (effect_view (approve_record who r) name), fmupd name (approve_record who r) effects))"

definition apply_effect_commit :: "string \<Rightarrow> json \<Rightarrow> effect_store \<Rightarrow> effect_response \<times> effect_store" where
  "apply_effect_commit name result effects =
     (case fmlookup effects name of
        None \<Rightarrow> (EffectNotFound, effects)
      | Some r \<Rightarrow>
          (case er_status r of
             Committed \<Rightarrow> (EffectCommitted False (effect_view r name), effects)
           | Aborted \<Rightarrow> (EffectAbortedAlready (effect_view r name), effects)
           | Prepared \<Rightarrow> (EffectNotApproved (fcard (er_approvals r)) (er_required_approvals r) (effect_view r name), effects)
           | Approved \<Rightarrow>
               let r' = r\<lparr>er_status := Committed, er_result := Some result, er_generation := er_generation r + 1\<rparr>
               in (EffectCommitted True (effect_view r' name), fmupd name r' effects)))"

definition apply_effect_abort :: "string \<Rightarrow> effect_store \<Rightarrow> effect_response \<times> effect_store" where
  "apply_effect_abort name effects =
     (case fmlookup effects name of
        None \<Rightarrow> (EffectNotFound, effects)
      | Some r \<Rightarrow>
          if effect_is_terminal (er_status r) then (EffectTerminal (effect_view r name), effects)
          else let r' = r\<lparr>er_status := Aborted, er_generation := er_generation r + 1\<rparr>
               in (EffectOk (effect_view r' name), fmupd name r' effects))"

fun apply_effect :: "effect_command \<Rightarrow> effect_store \<Rightarrow> effect_response \<times> effect_store" where
  "apply_effect (EffectPrepare name effect_type payload risk idempotency_key required_approvals) effects =
     apply_effect_prepare name effect_type payload risk idempotency_key required_approvals effects"
| "apply_effect (EffectApprove name who) effects = apply_effect_approve name who effects"
| "apply_effect (EffectCommit name result) effects = apply_effect_commit name result effects"
| "apply_effect (EffectAbort name) effects = apply_effect_abort name effects"

definition effect_get :: "string \<Rightarrow> effect_store \<Rightarrow> effect_state option" where
  "effect_get name effects = map_option (\<lambda>r. effect_view r name) (fmlookup effects name)"

lemmas effect_defs = apply_effect_prepare_def apply_effect_approve_def apply_effect_commit_def
  apply_effect_abort_def Let_def

subsection \<open>Contracts\<close>

interpretation effect_life: lifecycle apply_effect fmlookup "\<lambda>r. effect_is_terminal (er_status r)"
proof
  fix s :: effect_store and k v c
  assume "fmlookup s k = Some v" "effect_is_terminal (er_status v)"
  then show "fmlookup (snd (apply_effect c s)) k = Some v"
    by (cases c; cases "er_status v") (auto simp: effect_defs effect_is_terminal_def split: option.split effect_status.split)
qed

definition escrow_ok :: "(string \<Rightarrow> string set) \<Rightarrow> effect_store \<Rightarrow> bool" where
  "escrow_ok approvers effects = (\<forall>name r. fmlookup effects name = Some r \<longrightarrow>
     fset (er_approvals r) \<subseteq> approvers name \<and>
     (er_status r \<in> {Approved, Committed} \<longrightarrow> unat (er_required_approvals r) \<le> fcard (er_approvals r)))"

lemma cast_length_le: "(w :: u32) \<le> word_of_nat n \<Longrightarrow> unat w \<le> n"
  using mod_less_eq_dividend [of n "2 ^ 32"] by (simp add: word_le_nat_alt unat_of_nat)

lemma fcard_finsert_le: "fcard A \<le> fcard (finsert x A)"
  by (simp add: fcard_finsert_if)

lemma escrow_ok_step:
  assumes "escrow_ok A s" "\<And>name who. c = EffectApprove name who \<Longrightarrow> who \<in> A name"
  shows "escrow_ok A (snd (apply_effect c s))"
proof (cases c)
  case (EffectPrepare name ty p risk key req)
  then show ?thesis using assms(1) by (auto simp: escrow_ok_def effect_defs split: option.split)
next
  case (EffectApprove name who)
  show ?thesis
  proof (cases "fmlookup s name")
    case (Some r)
    have ok: "fset (er_approvals r) \<subseteq> A name" "who \<in> A name"
      "er_status r = Approved \<Longrightarrow> unat (er_required_approvals r) \<le> fcard (er_approvals r)"
      using assms Some EffectApprove by (auto simp: escrow_ok_def)
    have "er_status (approve_record who r) \<in> {Approved, Committed} \<Longrightarrow> er_status r \<noteq> Committed \<Longrightarrow>
        unat (er_required_approvals r) \<le> fcard (finsert who (er_approvals r))"
      using ok(3) fcard_finsert_le [of "er_approvals r" who]
      by (auto simp: approve_record_def Let_def intro: cast_length_le split: if_splits)
    then show ?thesis
      using assms(1) Some ok(1,2) EffectApprove
      by (auto simp: escrow_ok_def effect_defs effect_is_terminal_def approve_record_def)
  qed (use assms(1) EffectApprove in \<open>simp add: effect_defs\<close>)
next
  case (EffectCommit name res)
  then show ?thesis using assms(1)
    by (auto simp: escrow_ok_def effect_defs split: option.split effect_status.split)
next
  case (EffectAbort name)
  then show ?thesis using assms(1)
    by (auto simp: escrow_ok_def effect_defs split: option.split)
qed

fun accepted_commit :: "string \<Rightarrow> effect_command \<Rightarrow> effect_response \<Rightarrow> bool" where
  "accepted_commit name (EffectCommit n res) (EffectCommitted True v) \<longleftrightarrow> n = name"
| "accepted_commit name _ _ \<longleftrightarrow> False"

lemma accepted_commitD:
  assumes "accepted_commit name c (fst (apply_effect c s))"
  shows "\<exists>r. fmlookup s name = Some r \<and> er_status r = Approved"
    and "\<exists>r. fmlookup (snd (apply_effect c s)) name = Some r \<and> effect_is_terminal (er_status r)"
proof -
  obtain res v where e: "c = EffectCommit name res" "fst (apply_effect c s) = EffectCommitted True v"
    using assms by (cases "(name, c, fst (apply_effect c s))" rule: accepted_commit.cases) auto
  then obtain r where "fmlookup s name = Some r" "er_status r = Approved"
    by (auto simp: effect_defs split: option.splits effect_status.splits)
  then show "\<exists>r. fmlookup s name = Some r \<and> er_status r = Approved"
    "\<exists>r. fmlookup (snd (apply_effect c s)) name = Some r \<and> effect_is_terminal (er_status r)"
    by (auto simp: e(1) effect_defs effect_is_terminal_def)
qed

subsection \<open>Properties\<close>

text \<open>C13. An effect is committed at most once: over any log of effect commands at most one commit of
  a name is answered as performed, and a committed or aborted effect never changes again.\<close>

theorem effect_commits_at_most_once:
  "length (filter (\<lambda>(c, a). accepted_commit name c a) (answers apply_effect cs effects)) \<le> 1 \<and>
   (\<forall>r. fmlookup effects name = Some r \<and> effect_is_terminal (er_status r) \<longrightarrow>
      fmlookup (final apply_effect cs effects) name = Some r)"
proof
  let ?D = "\<lambda>s. \<exists>r. fmlookup s name = Some r \<and> effect_is_terminal (er_status r)"
  show "length (filter (\<lambda>(c, a). accepted_commit name c a) (answers apply_effect cs effects)) \<le> 1"
  proof (rule run_at_most_once [where D = ?D])
    show "?D s \<Longrightarrow> ?D (snd (apply_effect c s))" for c s using effect_life.absorbs by blast
    show "?D s \<Longrightarrow> \<not> accepted_commit name c (fst (apply_effect c s))" for c s
      using accepted_commitD(1) [of name c s] by (auto simp: effect_is_terminal_def)
  qed (rule accepted_commitD(2))
qed (use effect_life.run_absorbs in blast)

definition effect_log :: "effect_command list" where
  "effect_log = [EffectPrepare ''e'' ''mail'' JNull ''high'' ''i'' 2, EffectApprove ''e'' ''p'',
     EffectCommit ''e'' JNull, EffectApprove ''e'' ''q'']"

lemma effect_log_approved:
  "\<exists>r. fmlookup (final apply_effect effect_log fmempty) ''e'' = Some r \<and> er_status r = Approved \<and>
     er_required_approvals r = 2"
  by (simp add: effect_log_def run_simps effect_defs effect_is_terminal_def approve_record_def fcard_finsert_if fcard_fempty word_le_nat_alt)

lemma effect_log_commit:
  "accepted_commit ''e'' (EffectCommit ''e'' JNull)
     (fst (apply_effect (EffectCommit ''e'' JNull) (final apply_effect effect_log fmempty)))"
  using effect_log_approved by (auto simp: apply_effect_commit_def Let_def)

theorem effect_commits_at_most_once_witness:
  "length (filter (\<lambda>(c, a). accepted_commit ''e'' c a) (answers apply_effect
     [EffectCommit ''e'' JNull, EffectCommit ''e'' JNull] (final apply_effect effect_log fmempty))) \<le> 1 \<and>
   accepted_commit ''e'' (EffectCommit ''e'' JNull)
     (fst (apply_effect (EffectCommit ''e'' JNull) (final apply_effect effect_log fmempty)))"
  using effect_commits_at_most_once [of "''e''" "[EffectCommit ''e'' JNull, EffectCommit ''e'' JNull]"
      "final apply_effect effect_log fmempty"] effect_log_commit by blast

text \<open>C14. An effect is committed only with its approvals. If a log that starts with no effects leads to
  an accepted commit, then at least the required number of distinct principals approved that
  effect in the log.\<close>

theorem effect_commits_only_when_approved:
  assumes "accepted_commit name c (fst (apply_effect c (final apply_effect cs fmempty)))"
  shows "\<exists>r. fmlookup (final apply_effect cs fmempty) name = Some r \<and>
    unat (er_required_approvals r) \<le> card {who. EffectApprove name who \<in> set cs}"
proof -
  let ?A = "\<lambda>name. {who. EffectApprove name who \<in> set cs}"
  have "escrow_ok ?A (final apply_effect cs fmempty)"
  proof (rule run_invariant)
    show "escrow_ok ?A fmempty" by (simp add: escrow_ok_def)
  qed (auto intro: escrow_ok_step)
  moreover obtain r where r: "fmlookup (final apply_effect cs fmempty) name = Some r" "er_status r = Approved"
    using accepted_commitD(1) [OF assms] by auto
  ultimately have sub: "fset (er_approvals r) \<subseteq> ?A name" and le: "unat (er_required_approvals r) \<le> fcard (er_approvals r)"
    by (auto simp: escrow_ok_def)
  have "finite (?A name)"
    by (rule finite_subset [of _ "(\<lambda>c. case c of EffectApprove n w \<Rightarrow> w | _ \<Rightarrow> []) ` set cs"]) force+
  then have "fcard (er_approvals r) \<le> card (?A name)"
    unfolding fcard.rep_eq by (rule card_mono [OF _ sub])
  then show ?thesis using r le by auto
qed

theorem effect_commits_only_when_approved_witness:
  "\<exists>r. fmlookup (final apply_effect effect_log fmempty) ''e'' = Some r \<and>
    unat (er_required_approvals r) \<le> card {who. EffectApprove ''e'' who \<in> set effect_log}"
  by (rule effect_commits_only_when_approved [OF effect_log_commit])

end
