(* ===== verification/Handoffs.thy ===== *)
theory Handoffs
  imports Lifecycles
begin

section \<open>Ownership handoffs\<close>

text \<open>
  \<open>HandoffStatus\<close>, \<open>HandoffRecord\<close> with \<open>effective_status\<close> and \<open>view\<close>, and the handlers
  \<open>apply_handoff_offer\<close>, \<open>apply_handoff_accept\<close>, \<open>apply_handoff_reject\<close> of \<open>src/state.rs\<close>, on the
  token counter and the handoff map.
\<close>

definition MAX_HANDOFF_TOKEN_ADVANCE :: u64 where "MAX_HANDOFF_TOKEN_ADVANCE = 1000000000"

datatype handoff_status = Offered | Accepted | Rejected | Expired

record handoff_record =
  hr_resource :: string
  hr_from :: string
  hr_to :: string
  hr_from_token :: u64
  hr_to_token :: "u64 option"
  hr_status :: handoff_status
  hr_context :: json
  hr_expires_ms :: "u64 option"
  hr_generation :: u64

record handoff_state =
  hs_name :: string
  hs_resource :: string
  hs_from :: string
  hs_to :: string
  hs_from_token :: u64
  hs_to_token :: "u64 option"
  hs_status :: handoff_status
  hs_context :: json
  hs_expires_ms :: "u64 option"
  hs_generation :: u64

record handoff_store =
  hf_next_fencing_token :: u64
  hf_handoffs :: "(string, handoff_record) fmap"

definition effective_status :: "handoff_record \<Rightarrow> u64 \<Rightarrow> handoff_status" where
  "effective_status r now =
     (if hr_status r = Offered \<and> (case hr_expires_ms r of None \<Rightarrow> False | Some e \<Rightarrow> now \<ge> e)
      then Expired else hr_status r)"

definition handoff_view :: "handoff_record \<Rightarrow> string \<Rightarrow> u64 \<Rightarrow> handoff_state" where
  "handoff_view r name now = \<lparr>hs_name = name, hs_resource = hr_resource r, hs_from = hr_from r,
     hs_to = hr_to r, hs_from_token = hr_from_token r, hs_to_token = hr_to_token r,
     hs_status = effective_status r now, hs_context = hr_context r, hs_expires_ms = hr_expires_ms r,
     hs_generation = hr_generation r\<rparr>"

datatype handoff_command =
    HandoffOffer string string string string u64 json u64
  | HandoffAccept string string
  | HandoffReject string string

datatype handoff_response =
    ImplausibleFromToken
  | AlreadyOffered handoff_state
  | HandoffOk handoff_state
  | HandoffNotFound
  | NotOffered handoff_state
  | NotRecipient handoff_state
  | HandoffTokensExhausted
  | HandoffAccepted u64 handoff_state

definition put_handoff :: "string \<Rightarrow> handoff_record \<Rightarrow> handoff_store \<Rightarrow> handoff_store" where
  "put_handoff name r s = s\<lparr>hf_handoffs := fmupd name r (hf_handoffs s)\<rparr>"

definition apply_handoff_offer ::
  "u64 \<Rightarrow> string \<Rightarrow> string \<Rightarrow> string \<Rightarrow> string \<Rightarrow> u64 \<Rightarrow> json \<Rightarrow> u64 \<Rightarrow> handoff_store \<Rightarrow> handoff_response \<times> handoff_store" where
  "apply_handoff_offer now name resource giver recipient from_token ctx ttl_ms s =
     (if from_token > sat_add (hf_next_fencing_token s) MAX_HANDOFF_TOKEN_ADVANCE then (ImplausibleFromToken, s)
      else
        let r = \<lparr>hr_resource = resource, hr_from = giver, hr_to = recipient, hr_from_token = from_token,
              hr_to_token = None, hr_status = Offered, hr_context = ctx,
              hr_expires_ms = Some (sat_add now ttl_ms), hr_generation = 1\<rparr>;
            offered = (HandoffOk (handoff_view r name now), put_handoff name r s)
        in case fmlookup (hf_handoffs s) name of
             Some existing \<Rightarrow>
               if effective_status existing now = Offered
               then (AlreadyOffered (handoff_view existing name now), s) else offered
           | None \<Rightarrow> offered)"

definition apply_handoff_accept ::
  "u64 \<Rightarrow> string \<Rightarrow> string \<Rightarrow> handoff_store \<Rightarrow> handoff_response \<times> handoff_store" where
  "apply_handoff_accept now name recipient s =
     (case fmlookup (hf_handoffs s) name of
        None \<Rightarrow> (HandoffNotFound, s)
      | Some r \<Rightarrow>
          if effective_status r now \<noteq> Offered then (NotOffered (handoff_view r name now), s)
          else if hr_to r \<noteq> recipient then (NotRecipient (handoff_view r name now), s)
          else (case mint_token_above (hr_from_token r) (hf_next_fencing_token s) of
              None \<Rightarrow> (HandoffTokensExhausted, s)
            | Some token \<Rightarrow>
                let r' = r\<lparr>hr_status := Accepted, hr_to_token := Some token, hr_generation := hr_generation r + 1\<rparr>
                in (HandoffAccepted token (handoff_view r' name now),
                    put_handoff name r' (s\<lparr>hf_next_fencing_token := token\<rparr>))))"

definition apply_handoff_reject ::
  "u64 \<Rightarrow> string \<Rightarrow> string \<Rightarrow> handoff_store \<Rightarrow> handoff_response \<times> handoff_store" where
  "apply_handoff_reject now name recipient s =
     (case fmlookup (hf_handoffs s) name of
        None \<Rightarrow> (HandoffNotFound, s)
      | Some r \<Rightarrow>
          if effective_status r now \<noteq> Offered then (NotOffered (handoff_view r name now), s)
          else if hr_to r \<noteq> recipient then (NotRecipient (handoff_view r name now), s)
          else let r' = r\<lparr>hr_status := Rejected, hr_generation := hr_generation r + 1\<rparr>
               in (HandoffOk (handoff_view r' name now), put_handoff name r' s))"

fun apply_handoff :: "u64 \<Rightarrow> handoff_command \<Rightarrow> handoff_store \<Rightarrow> handoff_response \<times> handoff_store" where
  "apply_handoff now (HandoffOffer name resource giver recipient from_token ctx ttl_ms) s =
     apply_handoff_offer now name resource giver recipient from_token ctx ttl_ms s"
| "apply_handoff now (HandoffAccept name recipient) s = apply_handoff_accept now name recipient s"
| "apply_handoff now (HandoffReject name recipient) s = apply_handoff_reject now name recipient s"

definition handoff_get :: "u64 \<Rightarrow> string \<Rightarrow> handoff_store \<Rightarrow> handoff_state option" where
  "handoff_get now name s = map_option (\<lambda>r. handoff_view r name now) (fmlookup (hf_handoffs s) name)"

lemmas handoff_defs = apply_handoff_offer_def apply_handoff_accept_def apply_handoff_reject_def put_handoff_def Let_def

subsection \<open>Tokens\<close>

text \<open>The tokens this shard issued to recipients, and the invariant that an accepted handoff holds a
  token above the one it replaces.\<close>

definition handoff_tokens :: "handoff_store \<Rightarrow> u64 set" where
  "handoff_tokens s = {t. \<exists>name r. fmlookup (hf_handoffs s) name = Some r \<and> hr_to_token r = Some t}"

definition handoff_inv :: "handoff_store \<Rightarrow> bool" where
  "handoff_inv s = (\<forall>name r. fmlookup (hf_handoffs s) name = Some r \<longrightarrow>
     (hr_status r = Accepted \<longleftrightarrow> hr_to_token r \<noteq> None) \<and> hr_status r \<noteq> Expired \<and>
     (\<forall>t. hr_to_token r = Some t \<longrightarrow> hr_from_token r < t \<and> t \<le> hf_next_fencing_token s))"

lemma apply_handoff_fresh:
  "fresh_step (hf_next_fencing_token s) (handoff_tokens s)
     (hf_next_fencing_token (snd (apply_handoff now c s))) (handoff_tokens (snd (apply_handoff now c s)))"
  by (cases c) (auto simp: handoff_tokens_def handoff_defs intro!: fresh_step_refl fresh_step_mint_above
      split: option.split)

lemma effective_offered: "effective_status r now = Offered \<Longrightarrow> hr_status r = Offered"
  by (auto simp: effective_status_def split: if_splits)

lemma offered_no_token: "handoff_inv s \<Longrightarrow> fmlookup (hf_handoffs s) name = Some r \<Longrightarrow> effective_status r now = Offered \<Longrightarrow>
    hr_to_token r = None"
  by (cases "hr_to_token r") (fastforce simp: handoff_inv_def dest!: effective_offered)+

lemma apply_handoff_inv: "handoff_inv s \<Longrightarrow> handoff_inv (snd (apply_handoff now c s))"
proof (cases c)
  case (HandoffAccept name recipient)
  assume i: "handoff_inv s"
  show ?thesis
  proof (cases "\<exists>r t. fmlookup (hf_handoffs s) name = Some r \<and>
      mint_token_above (hr_from_token r) (hf_next_fencing_token s) = Some t")
    case True
    then obtain r t where rt: "fmlookup (hf_handoffs s) name = Some r"
      "mint_token_above (hr_from_token r) (hf_next_fencing_token s) = Some t" by auto
    note m = mint_token_above_Some [OF rt(2)]
    have "u \<le> t" if "u \<le> hf_next_fencing_token s" for u using that m(1) by order
    then show ?thesis using i rt m(2) HandoffAccept by (auto simp: handoff_inv_def handoff_defs)
  next
    case False
    then show ?thesis using i HandoffAccept by (auto simp: handoff_defs split: option.split)
  qed
next
  case (HandoffReject name recipient)
  assume i: "handoff_inv s"
  show ?thesis using i offered_no_token [OF i] HandoffReject
    by (auto simp: handoff_inv_def handoff_defs split: option.split)
qed (auto simp: handoff_inv_def handoff_defs split: option.split)

subsection \<open>Properties\<close>

definition handoff_empty :: handoff_store where
  "handoff_empty = \<lparr>hf_next_fencing_token = 4, hf_handoffs = fmempty\<rparr>"

definition handoff_example :: handoff_store where
  "handoff_example = snd (apply_handoff 10 (HandoffOffer ''h'' ''res'' ''a'' ''b'' 9 JNull 100) handoff_empty)"

text \<open>C15. Accepting a handoff transfers ownership at one point. An accept is granted only to the named
  recipient of an offer that has not expired, with a token above the old owner's and above every token
  this shard issued before; the counter moves to it, and any second accept or reject of that handoff is
  refused and changes nothing.\<close>

theorem handoff_accept_transfers_ownership_once:
  assumes "apply_handoff now (HandoffAccept name recipient) s = (HandoffAccepted t v, s')" "handoff_inv s"
  shows "(\<exists>r. fmlookup (hf_handoffs s) name = Some r \<and> hr_status r = Offered \<and> hr_to r = recipient \<and>
      (\<forall>e. hr_expires_ms r = Some e \<longrightarrow> now < e) \<and> hr_from_token r < t) \<and>
    (\<forall>u \<in> handoff_tokens s. u < t) \<and> hf_next_fencing_token s < t \<and> hf_next_fencing_token s' = t \<and>
    (\<exists>w. apply_handoff later (HandoffAccept name x) s' = (NotOffered w, s') \<and>
         apply_handoff later (HandoffReject name x) s' = (NotOffered w, s'))"
proof -
  obtain r where r: "fmlookup (hf_handoffs s) name = Some r" "effective_status r now = Offered" "hr_to r = recipient"
    "mint_token_above (hr_from_token r) (hf_next_fencing_token s) = Some t"
    and s': "s' = put_handoff name (r\<lparr>hr_status := Accepted, hr_to_token := Some t, hr_generation := hr_generation r + 1\<rparr>)
      (s\<lparr>hf_next_fencing_token := t\<rparr>)"
    using assms(1) by (auto simp: apply_handoff_accept_def Let_def split: option.splits if_splits)
  note m = mint_token_above_Some [OF r(4)]
  have "u < t" if "u \<in> handoff_tokens s" for u
    using that assms(2) m(1) by (fastforce simp: handoff_inv_def handoff_tokens_def dest: order_le_less_trans)
  moreover have "\<forall>e. hr_expires_ms r = Some e \<longrightarrow> now < e"
    using r(2) by (auto simp: effective_status_def split: if_splits)
  moreover have "\<exists>w. apply_handoff later (HandoffAccept name x) s' = (NotOffered w, s') \<and>
         apply_handoff later (HandoffReject name x) s' = (NotOffered w, s')"
    by (simp add: s' apply_handoff_accept_def apply_handoff_reject_def put_handoff_def effective_status_def)
  ultimately show ?thesis using r m effective_offered [OF r(2)] by (auto simp: s' put_handoff_def)
qed

lemmas handoff_eval = handoff_example_def handoff_empty_def handoff_defs effective_status_def sat_add_def
  MAX_HANDOFF_TOKEN_ADVANCE_def mint_token_above_eq next_token_eq MAX_FENCING_TOKEN_def

lemma handoff_example_inv: "handoff_inv handoff_example"
  unfolding handoff_example_def by (rule apply_handoff_inv) (simp add: handoff_inv_def handoff_empty_def)

theorem handoff_accept_transfers_ownership_once_witness:
  "\<exists>v s' w. apply_handoff 20 (HandoffAccept ''h'' ''b'') handoff_example = (HandoffAccepted 10 v, s') \<and>
     apply_handoff 21 (HandoffReject ''h'' ''b'') s' = (NotOffered w, s')"
proof -
  obtain v s' where a: "apply_handoff 20 (HandoffAccept ''h'' ''b'') handoff_example = (HandoffAccepted 10 v, s')"
    by (simp add: handoff_eval max_def)
  show ?thesis
    using handoff_accept_transfers_ownership_once [OF a handoff_example_inv, of 21 "''b''"] a by blast
qed

end
