(* ===== verification/Decisions.thy ===== *)
theory Decisions
  imports Lifecycles
begin

section \<open>Decisions\<close>

text \<open>
  \<open>DecisionPolicy\<close>, \<open>DecisionRecord\<close> with \<open>tallies\<close>, \<open>resolve\<close> and \<open>view\<close>, and the handlers
  \<open>apply_decision_propose\<close> and \<open>apply_decision_vote\<close> of \<open>src/state.rs\<close>. Tallies are kept in a
  \<open>BTreeMap\<close> by option and saturate. \<open>Iterator::max_by\<close> keeps the later of two elements unless
  the earlier compares greater, and \<open>Iterator::find\<close> takes the first match in key order.
\<close>

datatype decision_policy =
    Plurality u32
  | Threshold u64
  | Unanimous u32

datatype decision_status = Open | Resolved | DecisionVetoed | DecisionTimedOut

record decision_vote_record =
  dv_option :: "string option"
  dv_confidence :: f32
  dv_weight :: u64
  dv_veto :: bool
  dv_evidence :: "string list"

record decision_record =
  dr_question :: string
  dr_options :: "string list"
  dr_policy :: decision_policy
  dr_votes :: "(string, decision_vote_record) fmap"
  dr_deadline_ms :: "u64 option"
  dr_generation :: u64

record decision_vote_view =
  vv_voter :: string
  vv_option :: "string option"
  vv_confidence :: f32
  vv_weight :: u64
  vv_veto :: bool
  vv_evidence :: "string list"

record decision_state =
  ds_name :: string
  ds_question :: string
  ds_options :: "string list"
  ds_policy :: decision_policy
  ds_status :: decision_status
  ds_winner :: "string option"
  ds_tallies :: "(string \<times> u64) list"
  ds_votes :: "decision_vote_view list"
  ds_deadline_ms :: "u64 option"
  ds_generation :: u64

type_synonym decision_store = "(string, decision_record) fmap"

definition tally_vote :: "(string, u64) fmap \<Rightarrow> decision_vote_record \<Rightarrow> (string, u64) fmap" where
  "tally_vote sums vote =
     (if dv_veto vote then sums
      else (case dv_option vote of None \<Rightarrow> sums
        | Some choice \<Rightarrow>
            let so_far = (case fmlookup sums choice of None \<Rightarrow> 0 | Some w \<Rightarrow> w)
            in fmupd choice (sat_add so_far (dv_weight vote)) sums))"

definition tallies :: "decision_record \<Rightarrow> (string \<times> u64) list" where
  "tallies r = entries (foldl tally_vote fmempty (fmvalues (dr_votes r)))"

text \<open>The comparison of \<open>resolve\<close>: heavier first, then the smaller name.\<close>

definition beats :: "string \<times> u64 \<Rightarrow> string \<times> u64 \<Rightarrow> bool" where
  "beats a b = (snd a > snd b \<or> snd a = snd b \<and> fst a < fst b)"

definition better :: "string \<times> u64 \<Rightarrow> string \<times> u64 \<Rightarrow> string \<times> u64" where
  "better best y = (if beats best y then best else y)"

fun top_tally :: "(string \<times> u64) list \<Rightarrow> (string \<times> u64) option" where
  "top_tally [] = None"
| "top_tally (x # xs) = Some (foldl better x xs)"

definition cast_votes :: "decision_record \<Rightarrow> decision_vote_record list" where
  "cast_votes r = filter (\<lambda>v. \<not> dv_veto v \<and> dv_option v \<noteq> None) (fmvalues (dr_votes r))"

definition resolve :: "decision_record \<Rightarrow> u64 \<Rightarrow> decision_status \<times> string option" where
  "resolve r now =
     (if list_ex dv_veto (fmvalues (dr_votes r)) then (DecisionVetoed, None)
      else
        let cast = (word_of_nat (length (cast_votes r)) :: u32);
            passed = (case dr_deadline_ms r of None \<Rightarrow> False | Some deadline \<Rightarrow> now \<ge> deadline);
            top = top_tally (tallies r);
            undecided = (if passed then (DecisionTimedOut, None) else (Open, None))
        in case dr_policy r of
             Plurality min_votes \<Rightarrow>
               if cast \<ge> min_votes \<or> passed \<and> cast > 0
               then (case top of Some (choice, _) \<Rightarrow> (Resolved, Some choice) | None \<Rightarrow> (Open, None))
               else undecided
           | Threshold required_weight \<Rightarrow>
               (case find (\<lambda>(_, weight). weight \<ge> required_weight) (tallies r) of
                  Some (choice, _) \<Rightarrow> (Resolved, Some choice)
                | None \<Rightarrow> undecided)
           | Unanimous min_votes \<Rightarrow>
               if cast \<ge> min_votes \<and> length (tallies r) = 1 then (Resolved, map_option fst top)
               else undecided)"

definition decision_view :: "decision_record \<Rightarrow> string \<Rightarrow> u64 \<Rightarrow> decision_state" where
  "decision_view r name now =
     \<lparr>ds_name = name, ds_question = dr_question r, ds_options = dr_options r, ds_policy = dr_policy r,
      ds_status = fst (resolve r now), ds_winner = snd (resolve r now), ds_tallies = tallies r,
      ds_votes = map (\<lambda>(voter, v). \<lparr>vv_voter = voter, vv_option = dv_option v, vv_confidence = dv_confidence v,
        vv_weight = dv_weight v, vv_veto = dv_veto v, vv_evidence = dv_evidence v\<rparr>) (entries (dr_votes r)),
      ds_deadline_ms = dr_deadline_ms r, ds_generation = dr_generation r\<rparr>"

datatype decision_command =
    DecisionPropose string string "string list" decision_policy "u64 option"
  | DecisionVote string string "string option" f32 u64 bool "string list"

datatype decision_response =
    DecisionProposed bool decision_state
  | DecisionNotFound
  | UnknownOption decision_state
  | DecisionOk decision_state

definition apply_decision_propose ::
  "u64 \<Rightarrow> string \<Rightarrow> string \<Rightarrow> string list \<Rightarrow> decision_policy \<Rightarrow> u64 option \<Rightarrow> decision_store \<Rightarrow>
     decision_response \<times> decision_store" where
  "apply_decision_propose now name question choices policy deadline_ms decisions =
     (case fmlookup decisions name of
        Some existing \<Rightarrow> (DecisionProposed False (decision_view existing name now), decisions)
      | None \<Rightarrow>
          let r = \<lparr>dr_question = question, dr_options = choices, dr_policy = policy, dr_votes = fmempty,
                dr_deadline_ms = deadline_ms, dr_generation = 1\<rparr>
          in (DecisionProposed True (decision_view r name now), fmupd name r decisions))"

definition apply_decision_vote ::
  "u64 \<Rightarrow> string \<Rightarrow> string \<Rightarrow> string option \<Rightarrow> f32 \<Rightarrow> u64 \<Rightarrow> bool \<Rightarrow> string list \<Rightarrow> decision_store \<Rightarrow>
     decision_response \<times> decision_store" where
  "apply_decision_vote now name voter choice confidence weight veto evidence decisions =
     (case fmlookup decisions name of
        None \<Rightarrow> (DecisionNotFound, decisions)
      | Some r \<Rightarrow>
          if (case choice of None \<Rightarrow> False | Some c \<Rightarrow> c \<notin> set (dr_options r))
          then (UnknownOption (decision_view r name now), decisions)
          else
            let r' = r\<lparr>dr_votes := fmupd voter \<lparr>dv_option = choice, dv_confidence = confidence,
                    dv_weight = weight, dv_veto = veto, dv_evidence = evidence\<rparr> (dr_votes r),
                  dr_generation := dr_generation r + 1\<rparr>
            in (DecisionOk (decision_view r' name now), fmupd name r' decisions))"

fun apply_decision :: "u64 \<Rightarrow> decision_command \<Rightarrow> decision_store \<Rightarrow> decision_response \<times> decision_store" where
  "apply_decision now (DecisionPropose name question choices policy deadline_ms) decisions =
     apply_decision_propose now name question choices policy deadline_ms decisions"
| "apply_decision now (DecisionVote name voter choice confidence weight veto evidence) decisions =
     apply_decision_vote now name voter choice confidence weight veto evidence decisions"

definition decision_get :: "u64 \<Rightarrow> string \<Rightarrow> decision_store \<Rightarrow> decision_state option" where
  "decision_get now name decisions = map_option (\<lambda>r. decision_view r name now) (fmlookup decisions name)"

subsection \<open>Tallies\<close>

definition weights_for :: "string \<Rightarrow> decision_vote_record list \<Rightarrow> u64 list" where
  "weights_for c vs = map dv_weight (filter (\<lambda>v. \<not> dv_veto v \<and> dv_option v = Some c) vs)"

definition sat_sum :: "u64 list \<Rightarrow> u64" where
  "sat_sum ws = foldl sat_add 0 ws"

lemma unat_sat_sum: "unat (sat_sum ws) = min (2 ^ 64 - 1) (sum_list (map unat ws))"
proof -
  have "unat (foldl sat_add w ws) = min (2 ^ 64 - 1) (unat w + sum_list (map unat ws))" for w
  proof (induction ws arbitrary: w)
    case Nil
    then show ?case using unat_lt_2p [of w] by simp
  qed (simp add: unat_sat_add)
  from this [of 0] show ?thesis by (simp add: sat_sum_def)
qed

lemma tally_lookup:
  "fmlookup (foldl tally_vote sums vs) c =
    (if weights_for c vs = [] then fmlookup sums c
     else Some (foldl sat_add (case fmlookup sums c of None \<Rightarrow> 0 | Some w \<Rightarrow> w) (weights_for c vs)))"
  by (induction vs arbitrary: sums) (auto simp: tally_vote_def weights_for_def Let_def split: option.split)

definition support :: "decision_record \<Rightarrow> string \<Rightarrow> u64 list" where
  "support r c = weights_for c (fmvalues (dr_votes r))"

lemma tallies_iff: "(c, w) \<in> set (tallies r) \<longleftrightarrow> support r c \<noteq> [] \<and> w = sat_sum (support r c)"
  by (auto simp: tallies_def entries_iff tally_lookup support_def sat_sum_def)

lemma tallies_strict: "sorted_wrt (<) (map fst (tallies r))"
  unfolding tallies_def using sorted_map_fst_entries distinct_map_fst_entries strict_sorted_iff by blast

lemma support_cast: "support r c \<noteq> [] \<longleftrightarrow> (\<exists>v \<in> set (cast_votes r). dv_option v = Some c)"
  by (auto simp: support_def weights_for_def cast_votes_def filter_empty_conv)

lemma beats_trans: "beats a b \<Longrightarrow> beats b c \<Longrightarrow> beats a c"
  by (auto simp: beats_def)

lemma beats_total: "a = b \<or> beats a b \<or> beats b a"
  by (cases a; cases b) (auto simp: beats_def)

lemma foldl_best:
  "foldl better x xs \<in> insert x (set xs) \<and>
   (\<forall>y \<in> insert x (set xs). y = foldl better x xs \<or> beats (foldl better x xs) y)"
proof (induction xs arbitrary: x)
  case (Cons a xs)
  define b where "b = foldl better (better x a) xs"
  have x: "x = better x a \<or> beats (better x a) x" "a = better x a \<or> beats (better x a) a" "better x a = x \<or> better x a = a"
    using beats_total [of x a] by (auto simp: better_def)
  have b: "b \<in> insert (better x a) (set xs)" "\<forall>y \<in> insert (better x a) (set xs). y = b \<or> beats b y"
    using Cons.IH [of "better x a"] by (auto simp: b_def)
  then have "y = b \<or> beats b y" if "y = better x a \<or> beats (better x a) y" for y
    using that beats_trans [of b "better x a" y] by auto
  then have "\<forall>y \<in> insert x (set (a # xs)). y = b \<or> beats b y" using x(1,2) b(2) by auto
  moreover have "b \<in> insert x (set (a # xs))" using b(1) x(3) by auto
  ultimately show ?case by (simp add: b_def)
qed simp

lemma top_tally_best: "top_tally xs = Some t \<Longrightarrow> t \<in> set xs \<and> (\<forall>y \<in> set xs. y = t \<or> beats t y)"
  using foldl_best [of "hd xs" "tl xs"] by (cases xs) auto

lemma top_tally_None: "top_tally xs = None \<longleftrightarrow> xs = []"
  by (cases xs) auto

lemma find_first:
  fixes xs :: "('a::linorder \<times> 'b) list"
  assumes "sorted_wrt (<) (map fst xs)" "find P xs = Some x"
  shows "x \<in> set xs \<and> P x \<and> (\<forall>y \<in> set xs. P y \<longrightarrow> fst x \<le> fst y)"
  using assms by (induction xs) (fastforce split: if_splits)+

subsection \<open>Properties\<close>

text \<open>A choice outweighs another one when its saturated weight is larger, or equal and its name not larger.\<close>

definition outweighs :: "decision_record \<Rightarrow> string \<Rightarrow> string \<Rightarrow> bool" where
  "outweighs r w c \<longleftrightarrow> sat_sum (support r c) < sat_sum (support r w) \<or>
     sat_sum (support r c) = sat_sum (support r w) \<and> w \<le> c"

text \<open>When the policy of a record settles on a choice that has votes: how many votes it waits for, and which
  of the choices it takes.\<close>

definition settles_on :: "decision_record \<Rightarrow> u64 \<Rightarrow> string \<Rightarrow> bool" where
  "settles_on r now w = (case dr_policy r of
       Plurality m \<Rightarrow> (unat m \<le> length (cast_votes r) \<or> (\<exists>d. dr_deadline_ms r = Some d \<and> d \<le> now)) \<and>
         (\<forall>c. support r c \<noteq> [] \<longrightarrow> outweighs r w c)
     | Threshold q \<Rightarrow> q \<le> sat_sum (support r w) \<and>
         (\<forall>c. support r c \<noteq> [] \<and> q \<le> sat_sum (support r c) \<longrightarrow> w \<le> c)
     | Unanimous m \<Rightarrow> unat m \<le> length (cast_votes r) \<and> (\<forall>v \<in> set (cast_votes r). dv_option v = Some w))"

lemma top_tally_iff:
  "top_tally (tallies r) = Some (w, x) \<longleftrightarrow>
     support r w \<noteq> [] \<and> x = sat_sum (support r w) \<and> (\<forall>c. support r c \<noteq> [] \<longrightarrow> outweighs r w c)"
proof -
  have best: "support r w \<noteq> [] \<and> x = sat_sum (support r w) \<and> (\<forall>c. support r c \<noteq> [] \<longrightarrow> outweighs r w c)"
    if t: "top_tally (tallies r) = Some (w, x)" for w x
  proof -
    have w: "support r w \<noteq> []" "x = sat_sum (support r w)" using top_tally_best [OF t] tallies_iff by auto
    have "outweighs r w c" if "support r c \<noteq> []" for c
    proof -
      have "(c, sat_sum (support r c)) \<in> set (tallies r)" using that by (simp add: tallies_iff)
      then show ?thesis using top_tally_best [OF t] w(2) by (auto simp: beats_def outweighs_def)
    qed
    with w show ?thesis by blast
  qed
  moreover have "top_tally (tallies r) = Some (w, x)"
    if w: "support r w \<noteq> []" "x = sat_sum (support r w)" "\<forall>c. support r c \<noteq> [] \<longrightarrow> outweighs r w c"
  proof -
    have "(w, x) \<in> set (tallies r)" using w by (simp add: tallies_iff)
    then have "top_tally (tallies r) \<noteq> None" by (auto simp: top_tally_None)
    then obtain v y where v: "top_tally (tallies r) = Some (v, y)" by auto
    have "outweighs r v w" "outweighs r w v" using best [OF v] w by blast+
    then have "v = w" by (auto simp: outweighs_def)
    then show ?thesis using v best [OF v] w(2) by simp
  qed
  ultimately show ?thesis by blast
qed

lemma first_reaching_iff:
  "(\<exists>x. find (\<lambda>(_, weight). weight \<ge> q) (tallies r) = Some (w, x)) \<longleftrightarrow>
     support r w \<noteq> [] \<and> q \<le> sat_sum (support r w) \<and>
     (\<forall>c. support r c \<noteq> [] \<and> q \<le> sat_sum (support r c) \<longrightarrow> w \<le> c)" (is "?l \<longleftrightarrow> ?r w")
proof
  have r: "?r v" if "find (\<lambda>(_, weight). weight \<ge> q) (tallies r) = Some (v, x)" for v x
    using find_first [OF tallies_strict that] by (auto simp: tallies_iff)
  then show "?l \<Longrightarrow> ?r w" by blast
  assume w: "?r w"
  then have "(w, sat_sum (support r w)) \<in> set (tallies r)" by (simp add: tallies_iff)
  then have "find (\<lambda>(_, weight). weight \<ge> q) (tallies r) \<noteq> None" using w by (auto simp: find_None_iff)
  then obtain v x where v: "find (\<lambda>(_, weight). weight \<ge> q) (tallies r) = Some (v, x)" by auto
  have "v = w" using r [OF v] w by (auto intro: antisym)
  with v show ?l by blast
qed

lemma one_choice_iff:
  "length (tallies r) = 1 \<and> map_option fst (top_tally (tallies r)) = Some w \<longleftrightarrow>
     support r w \<noteq> [] \<and> (\<forall>v \<in> set (cast_votes r). dv_option v = Some w)" (is "?l \<longleftrightarrow> ?r")
proof
  assume l: ?l
  then obtain x where t: "tallies r = [(w, x)]" by (cases "tallies r") auto
  have "dv_option v = Some w" if v: "v \<in> set (cast_votes r)" for v
  proof -
    obtain d where d: "dv_option v = Some d" using v by (auto simp: cast_votes_def)
    then have "support r d \<noteq> []" using v support_cast by blast
    then show ?thesis using tallies_iff [of d "sat_sum (support r d)" r] d by (simp add: t)
  qed
  moreover have "support r w \<noteq> []" using tallies_iff [of w x r] by (simp add: t)
  ultimately show ?r by blast
next
  assume r: ?r
  have "set (tallies r) = {(w, sat_sum (support r w))}"
  proof (rule set_eqI)
    fix p show "p \<in> set (tallies r) \<longleftrightarrow> p \<in> {(w, sat_sum (support r w))}"
      using r support_cast [of r "fst p"] tallies_iff [of "fst p" "snd p" r] by (cases p) auto
  qed
  moreover have "distinct (tallies r)" unfolding tallies_def by (metis distinct_map distinct_map_fst_entries)
  ultimately have "length (tallies r) = 1" "set (tallies r) = {(w, sat_sum (support r w))}"
    using distinct_card [of "tallies r"] by simp_all
  then have "tallies r = [(w, sat_sum (support r w))]" by (cases "tallies r") auto
  then show ?l by simp
qed

text \<open>C16. When a decision resolves, and to what. With fewer than \<open>2 ^ 32\<close> votes, a decision reports a winner
  exactly when no vote is a veto and the choice has votes and the policy settles on it: under plurality once
  the minimum of votes is cast or the deadline has passed, for the largest saturated weight, the smallest name
  among ties; under unanimity once the minimum is cast and every vote is for it; under a threshold for the
  smallest name among all that have reached the weight when the record is read. The comment on
  \<open>DecisionPolicy::Threshold\<close> promises instead the first option to reach it.\<close>

theorem decision_resolves_exactly_when_settled:
  assumes "length (cast_votes r) < 2 ^ 32"
  shows "resolve r now = (Resolved, Some w) \<longleftrightarrow>
    (\<forall>v \<in> set (fmvalues (dr_votes r)). \<not> dv_veto v) \<and> support r w \<noteq> [] \<and> settles_on r now w"
proof -
  have cast: "unat (word_of_nat (length (cast_votes r)) :: u32) = length (cast_votes r)"
    using assms by (simp add: unat_of_nat_small)
  have some: "0 < length (cast_votes r)" if "support r w \<noteq> []"
    using that support_cast by (metis empty_iff length_greater_0_conv list.set(1))
  note word = word_le_nat_alt word_less_nat_alt cast
  show ?thesis
  proof (cases "dr_policy r")
    case (Plurality m)
    have "resolve r now = (Resolved, Some w) \<longleftrightarrow> (\<forall>v \<in> set (fmvalues (dr_votes r)). \<not> dv_veto v) \<and>
        (unat m \<le> length (cast_votes r) \<or> 0 < length (cast_votes r) \<and> (\<exists>d. dr_deadline_ms r = Some d \<and> d \<le> now)) \<and>
        (\<exists>x. top_tally (tallies r) = Some (w, x))"
      by (auto simp: resolve_def Plurality Let_def word list_ex_iff split: option.splits)
    then show ?thesis unfolding top_tally_iff using some by (auto simp: settles_on_def Plurality)
  next
    case (Threshold q)
    have "resolve r now = (Resolved, Some w) \<longleftrightarrow> (\<forall>v \<in> set (fmvalues (dr_votes r)). \<not> dv_veto v) \<and>
        (\<exists>x. find (\<lambda>(_, weight). weight \<ge> q) (tallies r) = Some (w, x))"
      by (auto simp: resolve_def Threshold Let_def list_ex_iff split: option.split)
    then show ?thesis unfolding first_reaching_iff by (auto simp: settles_on_def Threshold)
  next
    case (Unanimous m)
    have "resolve r now = (Resolved, Some w) \<longleftrightarrow> (\<forall>v \<in> set (fmvalues (dr_votes r)). \<not> dv_veto v) \<and>
        unat m \<le> length (cast_votes r) \<and> length (tallies r) = 1 \<and> map_option fst (top_tally (tallies r)) = Some w"
      by (auto simp: resolve_def Unanimous Let_def word list_ex_iff)
    then show ?thesis using one_choice_iff [of r w] by (auto simp: settles_on_def Unanimous)
  qed
qed

definition vote_of :: "string option \<Rightarrow> u64 \<Rightarrow> decision_vote_record" where
  "vote_of choice weight = \<lparr>dv_option = choice, dv_confidence = 0, dv_weight = weight, dv_veto = False, dv_evidence = []\<rparr>"

definition decision_example :: "decision_policy \<Rightarrow> decision_record" where
  "decision_example p = \<lparr>dr_question = ''q'', dr_options = [''x'', ''y''], dr_policy = p,
     dr_votes = fmupd ''a'' (vote_of (Some ''y'') 3) fmempty, dr_deadline_ms = Some 50, dr_generation = 2\<rparr>"

lemmas decision_eval = decision_example_def vote_of_def resolve_def tallies_def tally_vote_def cast_votes_def
  fmvalues_def entries_def Let_def beats_def better_def

theorem decision_resolves_exactly_when_settled_witness:
  "resolve (decision_example (Plurality 1)) 10 = (Resolved, Some ''y'') \<and>
   support (decision_example (Plurality 1)) ''y'' \<noteq> [] \<and> settles_on (decision_example (Plurality 1)) 10 ''y''"
proof -
  have "resolve (decision_example (Plurality 1)) 10 = (Resolved, Some ''y'')" by (simp add: decision_eval)
  moreover have "length (cast_votes (decision_example (Plurality 1))) < 2 ^ 32" by (simp add: decision_eval)
  ultimately show ?thesis using decision_resolves_exactly_when_settled by blast
qed

text \<open>A resolved decision can still change its winner: votes are accepted after the resolution, and a
  threshold takes the smallest name that has reached the weight, not the first in time. Here \<open>y\<close> has won
  with the required weight, and a later vote makes \<open>x\<close> the winner.\<close>

theorem resolved_decision_can_change_winner:
  "resolve (decision_example (Threshold 3)) 10 = (Resolved, Some ''y'') \<and>
   (let s = fmupd ''d'' (decision_example (Threshold 3)) fmempty;
        s' = snd (apply_decision 11 (DecisionVote ''d'' ''b'' (Some ''x'') 0 3 False []) s)
    in map_option (\<lambda>v. (ds_status v, ds_winner v)) (decision_get 12 ''d'' s') = Some (Resolved, Some ''x''))"
  by (simp add: decision_eval apply_decision_vote_def decision_get_def decision_view_def evaluate)

text \<open>What a passed deadline does to an undecided decision without a veto. Under plurality the leading
  choice wins as soon as one vote is cast; with no vote and a minimum of zero the decision stays open for
  ever. Under a threshold or unanimity it times out whatever was voted, it is not settled by plurality.\<close>

theorem decision_deadline_outcomes:
  assumes "\<forall>v \<in> set (fmvalues (dr_votes r)). \<not> dv_veto v" "dr_deadline_ms r = Some d" "d \<le> now"
  shows "(dr_policy r = Plurality 0 \<and> cast_votes r = [] \<longrightarrow> resolve r now = (Open, None)) \<and>
    (\<forall>m. dr_policy r = Plurality m \<and> m \<noteq> 0 \<and> cast_votes r = [] \<longrightarrow> resolve r now = (DecisionTimedOut, None)) \<and>
    (\<forall>m. dr_policy r = Plurality m \<and> 0 < length (cast_votes r) \<and> length (cast_votes r) < 2 ^ 32 \<longrightarrow>
       fst (resolve r now) = Resolved) \<and>
    (\<forall>q. dr_policy r = Threshold q \<and> (\<forall>c. support r c \<noteq> [] \<longrightarrow> sat_sum (support r c) < q) \<longrightarrow>
       resolve r now = (DecisionTimedOut, None)) \<and>
    (\<forall>m c c'. dr_policy r = Unanimous m \<and> support r c \<noteq> [] \<and> support r c' \<noteq> [] \<and> c \<noteq> c' \<longrightarrow>
       resolve r now = (DecisionTimedOut, None))"
proof -
  have nv: "\<not> list_ex dv_veto (fmvalues (dr_votes r))" using assms(1) by (auto simp: list_ex_iff)
  have empty: "tallies r = []" if "cast_votes r = []"
    using that tallies_iff support_cast by (metis empty_iff list.set(1) list.set_intros(1) neq_Nil_conv surj_pair)
  have some: "top_tally (tallies r) \<noteq> None" if pos: "0 < length (cast_votes r)"
  proof -
    have hd: "hd (cast_votes r) \<in> set (cast_votes r)" using pos by simp
    then have "dv_option (hd (cast_votes r)) \<noteq> None" unfolding cast_votes_def set_filter by simp
    then obtain c where "dv_option (hd (cast_votes r)) = Some c" by blast
    with hd have "(c, sat_sum (support r c)) \<in> set (tallies r)" using support_cast tallies_iff by blast
    then show ?thesis by (auto simp: top_tally_None)
  qed
  have two: "length (tallies r) \<noteq> 1" if "support r c \<noteq> []" "support r c' \<noteq> []" "c \<noteq> c'" for c c'
    using that tallies_iff [of c "sat_sum (support r c)" r] tallies_iff [of c' "sat_sum (support r c')" r]
    by (cases "tallies r") auto
  have none: "find (\<lambda>(_, weight). weight \<ge> q) (tallies r) = None"
    if "\<forall>c. support r c \<noteq> [] \<longrightarrow> sat_sum (support r c) < q" for q
    using that by (auto simp: find_None_iff tallies_iff)
  show ?thesis
    using nv assms(2,3) empty some two
    by (auto simp: resolve_def Let_def word_of_nat_eq_0 word_neq_0_conv [symmetric] none split: option.split)
qed

theorem decision_deadline_outcomes_witness:
  "resolve (decision_example (Threshold 9)) 60 = (DecisionTimedOut, None) \<and>
   fst (resolve (decision_example (Plurality 7)) 60) = Resolved"
proof -
  have v: "\<forall>v \<in> set (fmvalues (dr_votes (decision_example p))). \<not> dv_veto v" for p by (simp add: decision_eval)
  have c: "length (cast_votes (decision_example p)) = 1" for p by (simp add: decision_eval)
  have s: "sat_sum (support (decision_example p) c) < 9" for p c
    by (simp add: support_def weights_for_def sat_sum_def decision_eval)
  have d: "dr_deadline_ms (decision_example p) = Some 50" "dr_policy (decision_example p) = p" for p
    by (simp_all add: decision_example_def)
  show ?thesis
    using decision_deadline_outcomes [OF v d(1), of 60 "Threshold 9"] decision_deadline_outcomes [OF v d(1), of 60 "Plurality 7"]
    by (simp add: d c s)
qed

end
