(* ===== verification/Budgets.thy ===== *)
theory Budgets
  imports Lifecycles
begin

section \<open>Budgets\<close>

text \<open>
  \<open>BudgetAmount\<close>, \<open>ReservationRecord\<close>, \<open>BudgetRecord\<close> with \<open>consumed\<close>, \<open>spent\<close>, \<open>fits\<close>,
  \<open>available\<close> and \<open>view\<close>, and the handlers \<open>apply_budget_set\<close>, \<open>apply_budget_reserve\<close>,
  \<open>apply_budget_commit\<close>, \<open>apply_budget_release\<close> of \<open>src/state.rs\<close>. An axis without a limit is
  unlimited. All sums saturate.
\<close>

record budget_amount =
  usd_micros :: "u64 option"
  tokens :: "u64 option"
  tool_calls :: "u64 option"

definition amount_zero :: budget_amount where
  "amount_zero = \<lparr>usd_micros = Some 0, tokens = Some 0, tool_calls = Some 0\<rparr>"

datatype reservation_status = Held | ReservationCommitted | Released

record reservation_record =
  rr_holder :: string
  rr_reserved :: budget_amount
  rr_spent :: budget_amount
  rr_status :: reservation_status

record budget_record =
  bu_limit :: budget_amount
  bu_reservations :: "(string, reservation_record) fmap"
  bu_generation :: u64

record reservation_view =
  rv_id :: string
  rv_holder :: string
  rv_reserved :: budget_amount
  rv_spent :: budget_amount
  rv_status :: reservation_status

record budget_state =
  bv_name :: string
  bv_limit :: budget_amount
  bv_reserved :: budget_amount
  bv_spent :: budget_amount
  bv_available :: budget_amount
  bv_reservations :: "reservation_view list"
  bv_generation :: u64

type_synonym budget_store = "(string, budget_record) fmap"
type_synonym axis = "budget_amount \<Rightarrow> u64 option"

abbreviation unwrap_or :: "'a \<Rightarrow> 'a option \<Rightarrow> 'a" where
  "unwrap_or d x \<equiv> (case x of None \<Rightarrow> d | Some v \<Rightarrow> v)"

definition consumed_on :: "axis \<Rightarrow> reservation_record \<Rightarrow> u64" where
  "consumed_on ax r = (case rr_status r of
       Held \<Rightarrow> unwrap_or 0 (ax (rr_reserved r))
     | ReservationCommitted \<Rightarrow> unwrap_or 0 (ax (rr_spent r))
     | Released \<Rightarrow> 0)"

definition consumed_sum :: "axis \<Rightarrow> budget_record \<Rightarrow> u64" where
  "consumed_sum ax b = foldl (\<lambda>acc r. sat_add acc (consumed_on ax r)) 0 (fmvalues (bu_reservations b))"

definition consumed :: "budget_record \<Rightarrow> budget_amount" where
  "consumed b = \<lparr>usd_micros = Some (consumed_sum usd_micros b), tokens = Some (consumed_sum tokens b),
     tool_calls = Some (consumed_sum tool_calls b)\<rparr>"

definition spent_sum :: "axis \<Rightarrow> budget_record \<Rightarrow> u64" where
  "spent_sum ax b = foldl (\<lambda>acc r. sat_add acc (unwrap_or 0 (ax (rr_spent r)))) 0
     (filter (\<lambda>r. rr_status r = ReservationCommitted) (fmvalues (bu_reservations b)))"

definition budget_spent :: "budget_record \<Rightarrow> budget_amount" where
  "budget_spent b = \<lparr>usd_micros = Some (spent_sum usd_micros b), tokens = Some (spent_sum tokens b),
     tool_calls = Some (spent_sum tool_calls b)\<rparr>"

definition axis_ok :: "u64 option \<Rightarrow> u64 option \<Rightarrow> u64 option \<Rightarrow> bool" where
  "axis_ok limit current add = (case limit of None \<Rightarrow> True
     | Some cap \<Rightarrow> sat_add (unwrap_or 0 current) (unwrap_or 0 add) \<le> cap)"

definition fits :: "budget_record \<Rightarrow> budget_amount \<Rightarrow> bool" where
  "fits b amount =
     (axis_ok (usd_micros (bu_limit b)) (usd_micros (consumed b)) (usd_micros amount) \<and>
      axis_ok (tokens (bu_limit b)) (tokens (consumed b)) (tokens amount) \<and>
      axis_ok (tool_calls (bu_limit b)) (tool_calls (consumed b)) (tool_calls amount))"

definition axis_left :: "u64 option \<Rightarrow> u64 option \<Rightarrow> u64 option" where
  "axis_left limit used = map_option (\<lambda>cap. sat_sub cap (unwrap_or 0 used)) limit"

definition available :: "budget_record \<Rightarrow> budget_amount" where
  "available b = \<lparr>usd_micros = axis_left (usd_micros (bu_limit b)) (usd_micros (consumed b)),
     tokens = axis_left (tokens (bu_limit b)) (tokens (consumed b)),
     tool_calls = axis_left (tool_calls (bu_limit b)) (tool_calls (consumed b))\<rparr>"

definition budget_view :: "budget_record \<Rightarrow> string \<Rightarrow> budget_state" where
  "budget_view b name = \<lparr>bv_name = name, bv_limit = bu_limit b, bv_reserved = consumed b,
     bv_spent = budget_spent b, bv_available = available b,
     bv_reservations = map (\<lambda>(i, r). \<lparr>rv_id = i, rv_holder = rr_holder r, rv_reserved = rr_reserved r,
       rv_spent = rr_spent r, rv_status = rr_status r\<rparr>) (entries (bu_reservations b)),
     bv_generation = bu_generation b\<rparr>"

datatype budget_command =
    BudgetSet string budget_amount
  | BudgetReserve string string string budget_amount
  | BudgetCommit string string budget_amount
  | BudgetRelease string string

datatype budget_response =
    BudgetOk budget_state
  | BudgetNotFound
  | BudgetReserved bool budget_state
  | InsufficientBudget budget_amount budget_state
  | ReservationNotFound
  | BudgetCommitted bool budget_state
  | BudgetReleased
  | BudgetAlreadyCommitted budget_state

definition apply_budget_set :: "string \<Rightarrow> budget_amount \<Rightarrow> budget_store \<Rightarrow> budget_response \<times> budget_store" where
  "apply_budget_set name limit budgets =
     (let b = (case fmlookup budgets name of Some b \<Rightarrow> b
            | None \<Rightarrow> \<lparr>bu_limit = limit, bu_reservations = fmempty, bu_generation = 0\<rparr>);
          b' = b\<lparr>bu_limit := limit, bu_generation := bu_generation b + 1\<rparr>
      in (BudgetOk (budget_view b' name), fmupd name b' budgets))"

definition reserve_record :: "string \<Rightarrow> string \<Rightarrow> budget_amount \<Rightarrow> budget_record \<Rightarrow> budget_record" where
  "reserve_record reservation_id holder amount b =
     b\<lparr>bu_reservations := fmupd reservation_id \<lparr>rr_holder = holder, rr_reserved = amount,
         rr_spent = amount_zero, rr_status = Held\<rparr> (bu_reservations b),
       bu_generation := bu_generation b + 1\<rparr>"

definition apply_budget_reserve ::
  "string \<Rightarrow> string \<Rightarrow> string \<Rightarrow> budget_amount \<Rightarrow> budget_store \<Rightarrow> budget_response \<times> budget_store" where
  "apply_budget_reserve name reservation_id holder amount budgets =
     (case fmlookup budgets name of
        None \<Rightarrow> (BudgetNotFound, budgets)
      | Some b \<Rightarrow>
          if fmlookup (bu_reservations b) reservation_id \<noteq> None then (BudgetReserved False (budget_view b name), budgets)
          else if \<not> fits b amount then (InsufficientBudget (available b) (budget_view b name), budgets)
          else let b' = reserve_record reservation_id holder amount b
               in (BudgetReserved True (budget_view b' name), fmupd name b' budgets))"

fun cap_spend :: "u64 option \<Rightarrow> u64 option \<Rightarrow> u64 option" where
  "cap_spend (Some a) (Some r) = Some (min a r)"
| "cap_spend (Some a) None = Some a"
| "cap_spend None _ = Some 0"

definition commit_reservation :: "budget_amount \<Rightarrow> reservation_record \<Rightarrow> reservation_record" where
  "commit_reservation actual r =
     r\<lparr>rr_spent := \<lparr>usd_micros = cap_spend (usd_micros actual) (usd_micros (rr_reserved r)),
           tokens = cap_spend (tokens actual) (tokens (rr_reserved r)),
           tool_calls = cap_spend (tool_calls actual) (tool_calls (rr_reserved r))\<rparr>,
       rr_status := ReservationCommitted\<rparr>"

definition put_reservation :: "string \<Rightarrow> reservation_record \<Rightarrow> budget_record \<Rightarrow> budget_record" where
  "put_reservation reservation_id r b =
     b\<lparr>bu_reservations := fmupd reservation_id r (bu_reservations b), bu_generation := bu_generation b + 1\<rparr>"

definition apply_budget_commit ::
  "string \<Rightarrow> string \<Rightarrow> budget_amount \<Rightarrow> budget_store \<Rightarrow> budget_response \<times> budget_store" where
  "apply_budget_commit name reservation_id actual budgets =
     (case fmlookup budgets name of
        None \<Rightarrow> (BudgetNotFound, budgets)
      | Some b \<Rightarrow>
          (case fmlookup (bu_reservations b) reservation_id of
             None \<Rightarrow> (ReservationNotFound, budgets)
           | Some r \<Rightarrow>
               (case rr_status r of
                  ReservationCommitted \<Rightarrow> (BudgetCommitted False (budget_view b name), budgets)
                | Released \<Rightarrow> (BudgetReleased, budgets)
                | Held \<Rightarrow>
                    let b' = put_reservation reservation_id (commit_reservation actual r) b
                    in (BudgetCommitted True (budget_view b' name), fmupd name b' budgets))))"

definition apply_budget_release :: "string \<Rightarrow> string \<Rightarrow> budget_store \<Rightarrow> budget_response \<times> budget_store" where
  "apply_budget_release name reservation_id budgets =
     (case fmlookup budgets name of
        None \<Rightarrow> (BudgetNotFound, budgets)
      | Some b \<Rightarrow>
          (case fmlookup (bu_reservations b) reservation_id of
             None \<Rightarrow> (ReservationNotFound, budgets)
           | Some r \<Rightarrow>
               if rr_status r = ReservationCommitted then (BudgetAlreadyCommitted (budget_view b name), budgets)
               else let b' = put_reservation reservation_id (r\<lparr>rr_status := Released\<rparr>) b
                    in (BudgetOk (budget_view b' name), fmupd name b' budgets)))"

fun apply_budget :: "budget_command \<Rightarrow> budget_store \<Rightarrow> budget_response \<times> budget_store" where
  "apply_budget (BudgetSet name limit) budgets = apply_budget_set name limit budgets"
| "apply_budget (BudgetReserve name reservation_id holder amount) budgets =
     apply_budget_reserve name reservation_id holder amount budgets"
| "apply_budget (BudgetCommit name reservation_id actual) budgets = apply_budget_commit name reservation_id actual budgets"
| "apply_budget (BudgetRelease name reservation_id) budgets = apply_budget_release name reservation_id budgets"

definition budget_get :: "string \<Rightarrow> budget_store \<Rightarrow> budget_state option" where
  "budget_get name budgets = map_option (\<lambda>b. budget_view b name) (fmlookup budgets name)"

subsection \<open>Consumption\<close>

definition use_of :: "axis \<Rightarrow> reservation_record option \<Rightarrow> nat" where
  "use_of ax x = (case x of None \<Rightarrow> 0 | Some r \<Rightarrow> unat (consumed_on ax r))"

definition total_use :: "axis \<Rightarrow> (string, reservation_record) fmap \<Rightarrow> nat" where
  "total_use ax m = (\<Sum>k \<in> fset (fmdom m). use_of ax (fmlookup m k))"

lemma unat_consumed_sum: "unat (consumed_sum ax b) = min (2 ^ 64 - 1) (total_use ax (bu_reservations b))"
proof -
  have "unat (foldl (\<lambda>acc r. sat_add acc (consumed_on ax r)) w rs) =
      min (2 ^ 64 - 1) (unat w + sum_list (map (unat \<circ> consumed_on ax) rs))" for w rs
  proof (induction rs arbitrary: w)
    case Nil
    then show ?case using unat_lt_2p [of w] by simp
  qed (simp add: unat_sat_add)
  from this [of 0 "fmvalues (bu_reservations b)"]
  have "unat (consumed_sum ax b) =
      min (2 ^ 64 - 1) (\<Sum>k \<in> fset (fmdom (bu_reservations b)). unat (consumed_on ax (the (fmlookup (bu_reservations b) k))))"
    by (simp add: consumed_sum_def fmvalues_def entries_def comp_def sum_list_distinct_conv_sum_set)
  also have "(\<Sum>k \<in> fset (fmdom (bu_reservations b)). unat (consumed_on ax (the (fmlookup (bu_reservations b) k)))) =
      total_use ax (bu_reservations b)"
    unfolding total_use_def by (rule sum.cong) (auto simp: use_of_def fmlookup_dom_iff)
  finally show ?thesis .
qed

lemma total_use_upd:
  "total_use ax (fmupd k r m) + use_of ax (fmlookup m k) = total_use ax m + unat (consumed_on ax r)"
proof -
  let ?D = "fset (fmdom m) - {k}"
  have "(\<Sum>j \<in> ?D. use_of ax (fmlookup (fmupd k r m) j)) = (\<Sum>j \<in> ?D. use_of ax (fmlookup m j))"
    by (rule sum.cong) auto
  then have "total_use ax (fmupd k r m) = unat (consumed_on ax r) + (\<Sum>j \<in> ?D. use_of ax (fmlookup m j))"
    unfolding total_use_def by (simp only: fmdom_fmupd finsert.rep_eq sum.insert_remove [OF finite_fset] fmupd_lookup)
      (simp add: use_of_def)
  moreover have "total_use ax m = use_of ax (fmlookup m k) + (\<Sum>j \<in> ?D. use_of ax (fmlookup m j))"
    unfolding total_use_def
    by (cases "k |\<in>| fmdom m") (auto simp: sum.remove [of _ k] use_of_def fmdom_notD)
  ultimately show ?thesis by simp
qed

text \<open>A budget respects its ceiling on an axis.\<close>

definition within :: "axis \<Rightarrow> budget_record \<Rightarrow> bool" where
  "within ax b = (case ax (bu_limit b) of None \<Rightarrow> True | Some cap \<Rightarrow> consumed_sum ax b \<le> cap)"

lemma within_alt: "within ax b \<longleftrightarrow> (\<forall>cap. ax (bu_limit b) = Some cap \<longrightarrow> min (2 ^ 64 - 1) (total_use ax (bu_reservations b)) \<le> unat cap)"
  by (auto simp: within_def word_le_nat_alt unat_consumed_sum split: option.split)

abbreviation axes :: "axis set" where
  "axes \<equiv> {usd_micros, tokens, tool_calls}"

lemma within_le:
  assumes "within ax b" "bu_limit b' = bu_limit b" "total_use ax (bu_reservations b') \<le> total_use ax (bu_reservations b)"
  shows "within ax b'"
  unfolding within_alt
proof (intro allI impI)
  fix cap assume "ax (bu_limit b') = Some cap"
  then have "min (2 ^ 64 - 1) (total_use ax (bu_reservations b)) \<le> unat cap"
    using assms(1,2) unfolding within_alt by simp
  moreover have "min (2 ^ 64 - 1) (total_use ax (bu_reservations b')) \<le> min (2 ^ 64 - 1) (total_use ax (bu_reservations b))"
    by (rule min.mono [OF order_refl assms(3)])
  ultimately show "min (2 ^ 64 - 1) (total_use ax (bu_reservations b')) \<le> unat cap" by (rule order_trans [rotated])
qed

lemma fits_axis: "fits b amount \<Longrightarrow> ax \<in> axes \<Longrightarrow> ax (bu_limit b) = Some cap \<Longrightarrow>
    sat_add (consumed_sum ax b) (unwrap_or 0 (ax amount)) \<le> cap"
  by (auto simp: fits_def axis_ok_def consumed_def)

lemma reserve_within:
  assumes "fits b amount" "ax \<in> axes" "fmlookup (bu_reservations b) i = None"
  shows "within ax (reserve_record i holder amount b)"
  unfolding within_alt
proof (intro allI impI)
  fix cap assume "ax (bu_limit (reserve_record i holder amount b)) = Some cap"
  then have c: "ax (bu_limit b) = Some cap" by (simp add: reserve_record_def)
  have "total_use ax (bu_reservations (reserve_record i holder amount b)) =
      total_use ax (bu_reservations b) + unat (unwrap_or 0 (ax amount))"
    using total_use_upd [of ax i _ "bu_reservations b"] assms(3)
    by (simp add: reserve_record_def use_of_def consumed_on_def)
  moreover have "unat (sat_add (consumed_sum ax b) (unwrap_or 0 (ax amount))) \<le> unat cap"
    using fits_axis [OF assms(1,2) c] by (simp add: word_le_nat_alt)
  ultimately show "min (2 ^ 64 - 1) (total_use ax (bu_reservations (reserve_record i holder amount b))) \<le> unat cap"
    by (simp add: unat_sat_add unat_consumed_sum)
qed

lemma put_within:
  assumes "within ax b" "fmlookup (bu_reservations b) i = Some r" "consumed_on ax r' \<le> consumed_on ax r"
  shows "within ax (put_reservation i r' b)"
  using total_use_upd [of ax i r' "bu_reservations b"] assms(2,3)
  by (intro within_le [OF assms(1)]) (simp_all add: put_reservation_def use_of_def word_le_nat_alt)

subsection \<open>Properties\<close>

text \<open>The commits that spend, on every limited axis, only what the reservation declared there.\<close>

definition declared :: "budget_record \<Rightarrow> reservation_record \<Rightarrow> budget_amount \<Rightarrow> bool" where
  "declared b r actual = (\<forall>ax \<in> axes. ax (bu_limit b) \<noteq> None \<and> ax actual \<noteq> None \<longrightarrow> ax (rr_reserved r) \<noteq> None)"

lemma commit_consumes_less:
  assumes "rr_status r = Held" "ax \<in> axes" "ax actual \<noteq> None \<Longrightarrow> ax (rr_reserved r) \<noteq> None"
  shows "consumed_on ax (commit_reservation actual r) \<le> consumed_on ax r"
proof -
  have "ax (rr_spent (commit_reservation actual r)) = cap_spend (ax actual) (ax (rr_reserved r))"
    using assms(2) by (auto simp: commit_reservation_def)
  moreover have "rr_status (commit_reservation actual r) = ReservationCommitted" by (simp add: commit_reservation_def)
  ultimately show ?thesis using assms(1,3)
    by (cases "ax actual"; cases "ax (rr_reserved r)") (simp_all add: consumed_on_def)
qed

text \<open>C17. A budget never exceeds its ceiling through reservations, commits and releases. Whatever
  command other than a change of the limit is applied, a budget that is within its ceiling on every
  limited axis stays within it, provided a commit spends only on limited axes that its reservation
  declared. All sums saturate, so no wrap can hide an excess.\<close>

theorem budget_ceiling_is_kept:
  assumes "fmlookup budgets name = Some b" "\<forall>ax \<in> axes. within ax b"
    and "\<And>limit. c \<noteq> BudgetSet name limit"
    and "\<And>i actual r. c = BudgetCommit name i actual \<Longrightarrow> fmlookup (bu_reservations b) i = Some r \<Longrightarrow> declared b r actual"
  shows "\<exists>b'. fmlookup (snd (apply_budget c budgets)) name = Some b' \<and> bu_limit b' = bu_limit b \<and>
    (\<forall>ax \<in> axes. within ax b')"
proof -
  let ?ok = "\<lambda>b'. bu_limit b' = bu_limit b \<and> (\<forall>ax \<in> axes. within ax b')"
  have res: "?ok (reserve_record i h amount b)" if "fits b amount" "fmlookup (bu_reservations b) i = None" for i h amount
    using reserve_within [OF that(1) _ that(2), of _ h] by (auto simp: reserve_record_def)
  have rel: "?ok (put_reservation i (r\<lparr>rr_status := Released\<rparr>) b)" if "fmlookup (bu_reservations b) i = Some r" for i r
    using put_within [OF _ that] assms(2) by (auto simp: consumed_on_def put_reservation_def)
  have com: "?ok (put_reservation i (commit_reservation actual r) b)"
    if "c = BudgetCommit name i actual" "fmlookup (bu_reservations b) i = Some r" "rr_status r = Held" for i actual r
  proof -
    have "within ax (put_reservation i (commit_reservation actual r) b)" if ax: "ax \<in> axes" for ax
    proof (cases "ax (bu_limit b)")
      case (Some cap)
      then have "ax actual \<noteq> None \<Longrightarrow> ax (rr_reserved r) \<noteq> None"
        using assms(4) [OF \<open>c = BudgetCommit name i actual\<close> \<open>fmlookup (bu_reservations b) i = Some r\<close>] ax
        unfolding declared_def by blast
      from put_within [OF _ \<open>fmlookup (bu_reservations b) i = Some r\<close>
          commit_consumes_less [OF \<open>rr_status r = Held\<close> ax this]] show ?thesis using assms(2) ax by blast
    qed (simp add: within_def put_reservation_def)
    then show ?thesis by (simp add: put_reservation_def)
  qed
  show ?thesis
    using assms(1,2,3) res rel com
    by (cases c) (auto simp: apply_budget_set_def apply_budget_reserve_def apply_budget_commit_def
        apply_budget_release_def Let_def split: option.split reservation_status.split)
qed

definition limit_ten :: budget_amount where
  "limit_ten = \<lparr>usd_micros = None, tokens = Some 10, tool_calls = None\<rparr>"

definition spend :: "u64 option \<Rightarrow> budget_amount" where
  "spend n = \<lparr>usd_micros = None, tokens = n, tool_calls = None\<rparr>"

definition budget_example :: "u64 option \<Rightarrow> budget_store" where
  "budget_example n = final apply_budget [BudgetSet ''b'' limit_ten, BudgetReserve ''b'' ''r'' ''h'' (spend n)] fmempty"

lemmas budget_eval = budget_example_def limit_ten_def spend_def apply_budget_set_def apply_budget_reserve_def
  apply_budget_commit_def put_reservation_def commit_reservation_def reserve_record_def run_simps
  fits_def axis_ok_def consumed_def consumed_sum_def consumed_on_def fmvalues_def entries_def Let_def sat_add_def

theorem budget_ceiling_is_kept_witness:
  "\<exists>b'. fmlookup (snd (apply_budget (BudgetCommit ''b'' ''r'' (spend (Some 99))) (budget_example (Some 4)))) ''b'' = Some b' \<and>
    bu_limit b' = limit_ten \<and> (\<forall>ax \<in> axes. within ax b')"
proof -
  obtain b where b: "fmlookup (budget_example (Some 4)) ''b'' = Some b" "bu_limit b = limit_ten"
    "\<forall>ax \<in> axes. within ax b" "\<forall>i r. fmlookup (bu_reservations b) i = Some r \<longrightarrow> rr_reserved r = spend (Some 4)"
    by (simp add: budget_eval within_def evaluate)
  have "declared b r (spend (Some 99))" if "fmlookup (bu_reservations b) i = Some r" for i r
    using b(2,4) that by (simp add: declared_def spend_def)
  then show ?thesis using budget_ceiling_is_kept [OF b(1,3), of "BudgetCommit ''b'' ''r'' (spend (Some 99))"] b(2) by auto
qed

text \<open>A commit is capped only on the axes its reservation declared. Here the ceiling is ten tokens, the
  reservation names no tokens, and the commit of one thousand tokens is accepted: the budget has spent
  one hundred times its ceiling.\<close>

theorem budget_commit_can_exceed_ceiling:
  "let s = snd (apply_budget (BudgetCommit ''b'' ''r'' (spend (Some 1000))) (budget_example None))
   in map_option (\<lambda>v. (tokens (bv_limit v), tokens (bv_spent v))) (budget_get ''b'' s) = Some (Some 10, Some 1000)"
  by (simp add: budget_eval budget_get_def budget_view_def budget_spent_def spent_sum_def evaluate)

end
