(* ===== verification/Claims_Ledger.thy ===== *)
theory Claims_Ledger
  imports Lifecycles
begin

section \<open>The contestable claim ledger\<close>

text \<open>
  \<open>ClaimStatus\<close>, \<open>ClaimRecord\<close> with \<open>view\<close>, and the handlers \<open>apply_claim_assert\<close>,
  \<open>apply_claim_support\<close>, \<open>apply_claim_contest\<close>, \<open>apply_claim_resolve\<close>, \<open>apply_claim_supersede\<close> of
  \<open>src/state.rs\<close>.
\<close>

datatype claim_status = Asserted | Contested | ClaimAccepted | ClaimRejected | Superseded

definition claim_is_terminal :: "claim_status \<Rightarrow> bool" where
  "claim_is_terminal s = (s \<in> {ClaimAccepted, ClaimRejected, Superseded})"

record claim_record =
  cr_subject :: string
  cr_predicate :: string
  cr_value :: json
  cr_confidence :: f32
  cr_author :: string
  cr_status :: claim_status
  cr_supporters :: "string fset"
  cr_contests :: "(string, string) fmap"
  cr_evidence :: "string list"
  cr_valid_until_ms :: "u64 option"
  cr_superseded_by :: "string option"
  cr_version :: u64
  cr_generation :: u64

record claim_state =
  cs_name :: string
  cs_subject :: string
  cs_predicate :: string
  cs_value :: json
  cs_confidence :: f32
  cs_author :: string
  cs_status :: claim_status
  cs_supporters :: "string list"
  cs_contests :: "(string \<times> string) list"
  cs_evidence :: "string list"
  cs_valid_until_ms :: "u64 option"
  cs_superseded_by :: "string option"
  cs_version :: u64
  cs_generation :: u64

type_synonym claim_store = "(string, claim_record) fmap"

definition claim_view :: "claim_record \<Rightarrow> string \<Rightarrow> claim_state" where
  "claim_view r name = \<lparr>cs_name = name, cs_subject = cr_subject r, cs_predicate = cr_predicate r,
     cs_value = cr_value r, cs_confidence = cr_confidence r, cs_author = cr_author r,
     cs_status = cr_status r, cs_supporters = sorted_list_of_set (fset (cr_supporters r)),
     cs_contests = entries (cr_contests r), cs_evidence = cr_evidence r,
     cs_valid_until_ms = cr_valid_until_ms r, cs_superseded_by = cr_superseded_by r,
     cs_version = cr_version r, cs_generation = cr_generation r\<rparr>"

datatype claim_command =
    ClaimAssert string string string json f32 string "string list" "u64 option"
  | ClaimSupport string string
  | ClaimContest string string string
  | ClaimResolve string bool
  | ClaimSupersede string string

datatype claim_response =
    ClaimAsserted bool claim_state
  | ClaimTerminal claim_state
  | ClaimNotFound
  | ClaimOk claim_state
  | ClaimSuperseded bool claim_state

definition apply_claim_assert ::
  "string \<Rightarrow> string \<Rightarrow> string \<Rightarrow> json \<Rightarrow> f32 \<Rightarrow> string \<Rightarrow> string list \<Rightarrow> u64 option \<Rightarrow> claim_store \<Rightarrow>
     claim_response \<times> claim_store" where
  "apply_claim_assert name subject predicate val confidence author evidence valid_until_ms claims =
     (case fmlookup claims name of
        Some r \<Rightarrow>
          if \<not> claim_is_terminal (cr_status r) then
            let r' = r\<lparr>cr_subject := subject, cr_predicate := predicate, cr_value := val,
                  cr_confidence := confidence, cr_author := author, cr_evidence := evidence,
                  cr_valid_until_ms := valid_until_ms, cr_status := Asserted, cr_supporters := {||},
                  cr_contests := fmempty, cr_version := cr_version r + 1,
                  cr_generation := cr_generation r + 1\<rparr>
            in (ClaimAsserted False (claim_view r' name), fmupd name r' claims)
          else (ClaimTerminal (claim_view r name), claims)
      | None \<Rightarrow>
          let r = \<lparr>cr_subject = subject, cr_predicate = predicate, cr_value = val,
                cr_confidence = confidence, cr_author = author, cr_status = Asserted,
                cr_supporters = {||}, cr_contests = fmempty, cr_evidence = evidence,
                cr_valid_until_ms = valid_until_ms, cr_superseded_by = None, cr_version = 1,
                cr_generation = 1\<rparr>
          in (ClaimAsserted True (claim_view r name), fmupd name r claims))"

text \<open>The guard that support, contest and resolve share: the claim exists and is not terminal.\<close>

definition on_open_claim ::
  "string \<Rightarrow> (claim_record \<Rightarrow> claim_record) \<Rightarrow> claim_store \<Rightarrow> claim_response \<times> claim_store" where
  "on_open_claim name f claims =
     (case fmlookup claims name of
        None \<Rightarrow> (ClaimNotFound, claims)
      | Some r \<Rightarrow>
          if claim_is_terminal (cr_status r) then (ClaimTerminal (claim_view r name), claims)
          else let r' = (f r)\<lparr>cr_generation := cr_generation r + 1\<rparr>
               in (ClaimOk (claim_view r' name), fmupd name r' claims))"

definition apply_claim_support :: "string \<Rightarrow> string \<Rightarrow> claim_store \<Rightarrow> claim_response \<times> claim_store" where
  "apply_claim_support name agent claims =
     on_open_claim name (\<lambda>r. r\<lparr>cr_supporters := finsert agent (cr_supporters r)\<rparr>) claims"

definition apply_claim_contest :: "string \<Rightarrow> string \<Rightarrow> string \<Rightarrow> claim_store \<Rightarrow> claim_response \<times> claim_store" where
  "apply_claim_contest name agent reason claims =
     on_open_claim name (\<lambda>r. r\<lparr>cr_contests := fmupd agent reason (cr_contests r), cr_status := Contested\<rparr>) claims"

definition apply_claim_resolve :: "string \<Rightarrow> bool \<Rightarrow> claim_store \<Rightarrow> claim_response \<times> claim_store" where
  "apply_claim_resolve name accepted claims =
     on_open_claim name (\<lambda>r. r\<lparr>cr_status := (if accepted then ClaimAccepted else ClaimRejected)\<rparr>) claims"

definition apply_claim_supersede :: "string \<Rightarrow> string \<Rightarrow> claim_store \<Rightarrow> claim_response \<times> claim_store" where
  "apply_claim_supersede name superseded_by claims =
     (case fmlookup claims name of
        None \<Rightarrow> (ClaimNotFound, claims)
      | Some r \<Rightarrow>
          if cr_status r = Superseded then (ClaimSuperseded False (claim_view r name), claims)
          else let r' = r\<lparr>cr_status := Superseded, cr_superseded_by := Some superseded_by,
                     cr_generation := cr_generation r + 1\<rparr>
               in (ClaimSuperseded True (claim_view r' name), fmupd name r' claims))"

fun apply_claim :: "claim_command \<Rightarrow> claim_store \<Rightarrow> claim_response \<times> claim_store" where
  "apply_claim (ClaimAssert name subject predicate val confidence author evidence valid_until_ms) claims =
     apply_claim_assert name subject predicate val confidence author evidence valid_until_ms claims"
| "apply_claim (ClaimSupport name agent) claims = apply_claim_support name agent claims"
| "apply_claim (ClaimContest name agent reason) claims = apply_claim_contest name agent reason claims"
| "apply_claim (ClaimResolve name accepted) claims = apply_claim_resolve name accepted claims"
| "apply_claim (ClaimSupersede name superseded_by) claims = apply_claim_supersede name superseded_by claims"

definition claim_get :: "string \<Rightarrow> claim_store \<Rightarrow> claim_state option" where
  "claim_get name claims = map_option (\<lambda>r. claim_view r name) (fmlookup claims name)"

lemmas claim_defs = apply_claim_assert_def on_open_claim_def apply_claim_support_def apply_claim_contest_def
  apply_claim_resolve_def apply_claim_supersede_def Let_def

subsection \<open>Contracts\<close>

text \<open>What a claim says: everything but its status, its replacement and its generation.\<close>

definition claim_content :: "claim_record \<Rightarrow> claim_record" where
  "claim_content r = r\<lparr>cr_status := Asserted, cr_superseded_by := None, cr_generation := 0\<rparr>"

definition settled_content :: "claim_store \<Rightarrow> string \<Rightarrow> claim_record option" where
  "settled_content claims name = (case fmlookup claims name of None \<Rightarrow> None
     | Some r \<Rightarrow> if claim_is_terminal (cr_status r) then Some (claim_content r) else None)"

interpretation superseded_claim: lifecycle apply_claim fmlookup "\<lambda>r. cr_status r = Superseded"
proof
  fix s :: claim_store and k v c
  assume "fmlookup s k = Some v" "cr_status v = Superseded"
  then show "fmlookup (snd (apply_claim c s)) k = Some v"
    by (cases c) (auto simp: claim_defs claim_is_terminal_def split: option.split)
qed

interpretation settled_claim: lifecycle apply_claim settled_content "\<lambda>_. True"
proof
  fix s :: claim_store and k v c
  assume "settled_content s k = Some v"
  then obtain r where r: "fmlookup s k = Some r" "claim_is_terminal (cr_status r)" "v = claim_content r"
    by (auto simp: settled_content_def split: option.splits if_splits)
  then show "settled_content (snd (apply_claim c s)) k = Some v"
    by (cases c) (auto simp: settled_content_def claim_content_def claim_defs claim_is_terminal_def split: option.split)
qed

subsection \<open>Properties\<close>

text \<open>C18. A settled claim keeps its content. Once a claim is accepted, rejected or superseded, no command
  ever changes what it says, who supports or contests it, or its version; the status can only become
  superseded, and a superseded claim never changes at all.\<close>

theorem settled_claim_is_immutable:
  assumes "fmlookup claims name = Some r" "claim_is_terminal (cr_status r)"
  shows "\<exists>r'. fmlookup (final apply_claim cs claims) name = Some r' \<and> claim_content r' = claim_content r \<and>
    (cr_status r' = cr_status r \<or> cr_status r' = Superseded) \<and> (cr_status r = Superseded \<longrightarrow> r' = r)"
proof -
  let ?I = "\<lambda>s. \<exists>r'. fmlookup s name = Some r' \<and> (cr_status r' = cr_status r \<or> cr_status r' = Superseded)"
  have "?I (final apply_claim cs claims)"
  proof (rule run_invariant [where I = ?I])
    fix c and s :: claim_store assume "?I s"
    then show "?I (snd (apply_claim c s))"
      using assms(2) by (cases c) (auto simp: claim_defs claim_is_terminal_def split: option.split)
  qed (use assms in simp)
  moreover have "settled_content claims name = Some (claim_content r)" using assms by (simp add: settled_content_def)
  then have "settled_content (final apply_claim cs claims) name = Some (claim_content r)"
    by (rule settled_claim.run_absorbs) simp
  moreover have "cr_status r = Superseded \<Longrightarrow> fmlookup (final apply_claim cs claims) name = Some r"
    using superseded_claim.run_absorbs assms(1) by blast
  ultimately show ?thesis by (auto simp: settled_content_def split: if_splits)
qed

definition claim_example :: claim_store where
  "claim_example = final apply_claim [ClaimAssert ''c'' ''s'' ''p'' JNull 0 ''a'' [] None, ClaimContest ''c'' ''b'' ''why'',
     ClaimResolve ''c'' True] fmempty"

theorem settled_claim_is_immutable_witness:
  "\<exists>r r'. fmlookup claim_example ''c'' = Some r \<and> cr_status r = ClaimAccepted \<and>
     fmlookup (final apply_claim [ClaimAssert ''c'' ''s'' ''p'' (JBool True) 0 ''z'' [] None, ClaimSupersede ''c'' ''d'']
       claim_example) ''c'' = Some r' \<and> claim_content r' = claim_content r"
proof -
  obtain r where r: "fmlookup claim_example ''c'' = Some r" "cr_status r = ClaimAccepted"
    by (simp add: claim_example_def run_simps claim_defs claim_is_terminal_def)
  then have "claim_is_terminal (cr_status r)" by (simp add: claim_is_terminal_def)
  from settled_claim_is_immutable [OF r(1) this] r show ?thesis by blast
qed

end
