(* ===== verification/Idempotency.thy ===== *)
theory Idempotency
  imports Leases Lifecycles
begin

section \<open>Idempotency records\<close>

text \<open>
  \<open>IdempotencyRecord\<close>, the handlers \<open>apply_idempotency_claim\<close>, \<open>apply_idempotency_complete\<close>,
  \<open>apply_idempotency_renew\<close>, \<open>apply_idempotency_abandon\<close>, the sweep of \<open>expire_due\<close> and the read
  \<open>idempotency_get\<close> of \<open>src/state.rs\<close>, on the token counter and the record map.
\<close>

datatype idempotency_status = IdemClaimed | IdemCompleted

record idempotency_record =
  ir_key :: string
  ir_owner :: string
  ir_fencing_token :: u64
  ir_status :: idempotency_status
  ir_first_seen_ms :: u64
  ir_lease_expires_ms :: u64
  ir_retention_ms :: u64
  ir_metadata :: "(string, string) fmap"
  ir_result :: "json option"

record idempotency_store =
  id_next_fencing_token :: u64
  id_records :: "(string, idempotency_record) fmap"

datatype idempotency_command =
    IdempotencyClaim string string u64 "u64 option" "(string, string) fmap"
  | IdempotencyComplete string string u64 "json option"
  | IdempotencyRenew string string u64 u64
  | IdempotencyAbandon string string u64

datatype idempotency_response =
    IdemEmptyKey u64
  | IdemDuplicate string idempotency_record u64
  | IdemTokensExhausted u64
  | IdemGranted string idempotency_record u64 u64 u64
  | IdemNotFound string u64
  | IdemNotHolder string u64
  | IdemCompletion bool string idempotency_record u64
  | IdemAlreadyCompleted string "idempotency_record option" u64
  | IdemRenewed string u64 idempotency_record u64
  | IdemAbandoned string u64

definition put_idem :: "string \<Rightarrow> idempotency_record \<Rightarrow> idempotency_store \<Rightarrow> idempotency_store" where
  "put_idem key r s = s\<lparr>id_records := fmupd key r (id_records s)\<rparr>"

definition apply_idempotency_claim ::
  "u64 \<Rightarrow> u64 \<Rightarrow> string \<Rightarrow> string \<Rightarrow> u64 \<Rightarrow> u64 option \<Rightarrow> (string, string) fmap \<Rightarrow> idempotency_store \<Rightarrow>
     idempotency_response \<times> idempotency_store" where
  "apply_idempotency_claim revision now key owner ttl_ms retention_ms metadata s =
     (if trim_is_empty key then (IdemEmptyKey revision, s)
      else (case fmlookup (id_records s) key of
          Some r \<Rightarrow> (IdemDuplicate key r revision, s)
        | None \<Rightarrow>
            (case next_token (id_next_fencing_token s) of
               None \<Rightarrow> (IdemTokensExhausted revision, s)
             | Some token \<Rightarrow>
                 let ttl_ms = max ttl_ms 1;
                     retention_ms = max (case retention_ms of None \<Rightarrow> ttl_ms | Some v \<Rightarrow> v) ttl_ms;
                     r = \<lparr>ir_key = key, ir_owner = owner, ir_fencing_token = token, ir_status = IdemClaimed,
                       ir_first_seen_ms = now, ir_lease_expires_ms = sat_add now ttl_ms,
                       ir_retention_ms = retention_ms, ir_metadata = metadata, ir_result = None\<rparr>
                 in (IdemGranted key r token (ir_lease_expires_ms r) revision,
                     put_idem key r (s\<lparr>id_next_fencing_token := token\<rparr>)))))"

definition apply_idempotency_complete ::
  "u64 \<Rightarrow> u64 \<Rightarrow> string \<Rightarrow> string \<Rightarrow> u64 \<Rightarrow> json option \<Rightarrow> idempotency_store \<Rightarrow>
     idempotency_response \<times> idempotency_store" where
  "apply_idempotency_complete revision now key owner fencing_token result s =
     (case fmlookup (id_records s) key of
        None \<Rightarrow> (IdemNotFound key revision, s)
      | Some r \<Rightarrow>
          if ir_owner r \<noteq> owner \<or> ir_fencing_token r \<noteq> fencing_token then (IdemNotHolder key revision, s)
          else if ir_status r = IdemCompleted then (IdemCompletion True key r revision, s)
          else let r' = r\<lparr>ir_status := IdemCompleted, ir_result := result,
                     ir_lease_expires_ms := sat_add now (max (ir_retention_ms r) 1)\<rparr>
               in (IdemCompletion False key r' revision, put_idem key r' s))"

definition apply_idempotency_renew ::
  "u64 \<Rightarrow> u64 \<Rightarrow> string \<Rightarrow> string \<Rightarrow> u64 \<Rightarrow> u64 \<Rightarrow> idempotency_store \<Rightarrow> idempotency_response \<times> idempotency_store" where
  "apply_idempotency_renew revision now key owner fencing_token ttl_ms s =
     (case fmlookup (id_records s) key of
        None \<Rightarrow> (IdemNotFound key revision, s)
      | Some r \<Rightarrow>
          if ir_owner r \<noteq> owner \<or> ir_fencing_token r \<noteq> fencing_token then (IdemNotHolder key revision, s)
          else if ir_status r = IdemCompleted then (IdemAlreadyCompleted key (Some r) revision, s)
          else let r' = r\<lparr>ir_lease_expires_ms := sat_add now (max ttl_ms 1)\<rparr>
               in (IdemRenewed key (ir_lease_expires_ms r') r' revision, put_idem key r' s))"

definition apply_idempotency_abandon ::
  "u64 \<Rightarrow> string \<Rightarrow> string \<Rightarrow> u64 \<Rightarrow> idempotency_store \<Rightarrow> idempotency_response \<times> idempotency_store" where
  "apply_idempotency_abandon revision key owner fencing_token s =
     (case fmlookup (id_records s) key of
        None \<Rightarrow> (IdemNotFound key revision, s)
      | Some r \<Rightarrow>
          if ir_owner r \<noteq> owner \<or> ir_fencing_token r \<noteq> fencing_token then (IdemNotHolder key revision, s)
          else if ir_status r = IdemCompleted then (IdemAlreadyCompleted key None revision, s)
          else (IdemAbandoned key revision, s\<lparr>id_records := fmdrop key (id_records s)\<rparr>))"

fun apply_idempotency ::
  "u64 \<Rightarrow> u64 \<Rightarrow> idempotency_command \<Rightarrow> idempotency_store \<Rightarrow> idempotency_response \<times> idempotency_store" where
  "apply_idempotency revision now (IdempotencyClaim key owner ttl_ms retention_ms metadata) s =
     apply_idempotency_claim revision now key owner ttl_ms retention_ms metadata s"
| "apply_idempotency revision now (IdempotencyComplete key owner fencing_token result) s =
     apply_idempotency_complete revision now key owner fencing_token result s"
| "apply_idempotency revision now (IdempotencyRenew key owner fencing_token ttl_ms) s =
     apply_idempotency_renew revision now key owner fencing_token ttl_ms s"
| "apply_idempotency revision now (IdempotencyAbandon key owner fencing_token) s =
     apply_idempotency_abandon revision key owner fencing_token s"

definition idem_live :: "u64 \<Rightarrow> idempotency_record \<Rightarrow> bool" where
  "idem_live now r = (ir_lease_expires_ms r > now)"

definition idem_expire_due :: "u64 \<Rightarrow> idempotency_store \<Rightarrow> idempotency_store" where
  "idem_expire_due now s = s\<lparr>id_records := fmretain (\<lambda>_. idem_live now) (id_records s)\<rparr>"

definition idempotency_get :: "u64 \<Rightarrow> string \<Rightarrow> idempotency_store \<Rightarrow> idempotency_record option" where
  "idempotency_get now key s = (case fmlookup (id_records s) key of None \<Rightarrow> None
     | Some r \<Rightarrow> if idem_live now r then Some r else None)"

text \<open>One log entry at a revision: the sweep, then the command.\<close>

definition idem_step :: "u64 \<times> u64 \<times> idempotency_command \<Rightarrow> idempotency_store \<Rightarrow> idempotency_response \<times> idempotency_store" where
  "idem_step e s = apply_idempotency (fst (snd e)) (fst e) (snd (snd e)) (idem_expire_due (fst e) s)"

lemmas idem_defs = apply_idempotency_claim_def apply_idempotency_complete_def apply_idempotency_renew_def
  apply_idempotency_abandon_def put_idem_def Let_def

subsection \<open>Contracts\<close>

interpretation idem_lease: leased idem_live
  by unfold_locales (auto simp: idem_live_def)

text \<open>A command carries the credentials of a record that it may change.\<close>

fun idem_presents :: "idempotency_command \<Rightarrow> string \<Rightarrow> idempotency_record \<Rightarrow> bool" where
  "idem_presents (IdempotencyClaim _ _ _ _ _) k r \<longleftrightarrow> False"
| "idem_presents (IdempotencyComplete key owner t _) k r \<longleftrightarrow> key = k \<and> owner = ir_owner r \<and> t = ir_fencing_token r \<and> ir_status r = IdemClaimed"
| "idem_presents (IdempotencyRenew key owner t _) k r \<longleftrightarrow> key = k \<and> owner = ir_owner r \<and> t = ir_fencing_token r \<and> ir_status r = IdemClaimed"
| "idem_presents (IdempotencyAbandon key owner t) k r \<longleftrightarrow> key = k \<and> owner = ir_owner r \<and> t = ir_fencing_token r \<and> ir_status r = IdemClaimed"

lemma idem_not_completed: "st \<noteq> IdemCompleted \<longleftrightarrow> st = IdemClaimed"
  by (cases st) auto

interpretation idem_held: held_lease idem_step "\<lambda>s. fmlookup (id_records s)" idem_live "\<lambda>c. idem_presents (snd c)"
proof
  fix s :: idempotency_store and k v now and c :: "u64 \<times> idempotency_command"
  assume "fmlookup (id_records s) k = Some v" "idem_live now v" "\<not> idem_presents (snd c) k v"
  then show "fmlookup (id_records (snd (idem_step (now, c) s))) k = Some v"
    by (cases "snd c") (auto simp: idem_step_def idem_defs idem_expire_due_def idem_not_completed split: option.split)
qed

definition idem_tokens :: "idempotency_store \<Rightarrow> u64 set" where
  "idem_tokens s = {t. \<exists>k r. fmlookup (id_records s) k = Some r \<and> t = ir_fencing_token r}"

lemma apply_idempotency_fresh:
  "fresh_step (id_next_fencing_token s) (idem_tokens s)
     (id_next_fencing_token (snd (apply_idempotency rvn now c s))) (idem_tokens (snd (apply_idempotency rvn now c s)))"
  by (cases c) (auto simp: idem_tokens_def idem_defs intro!: fresh_step_refl fresh_step_mint split: option.split)

subsection \<open>Properties\<close>

text \<open>C19. An idempotency key has one owner, and a completed result is replayed. As long as every entry of the
  log is proposed before the record's lease runs out and none presents the credentials of a record still
  claimed, the record stays as it is, and every further claim of the key is answered as a duplicate with
  that record and changes nothing. For a completed record this holds whatever the commands are.\<close>

theorem idempotency_first_claim_wins:
  assumes "fmlookup (id_records s) key = Some r" "\<not> trim_is_empty key"
    and "\<And>now rvn c. (now, rvn, c) \<in> set es \<Longrightarrow> now < ir_lease_expires_ms r \<and> \<not> idem_presents c key r"
    and "now < ir_lease_expires_ms r"
  shows "idem_step (now, rvn, IdempotencyClaim key owner ttl retention meta) (final idem_step es s) =
    (IdemDuplicate key r rvn, idem_expire_due now (final idem_step es s))"
proof -
  have "fmlookup (id_records (final idem_step es s)) key = Some r"
    by (rule idem_held.run_untouched [OF assms(1)]) (use assms(3) in \<open>force simp: idem_live_def\<close>)
  then show ?thesis using assms(2,4) by (simp add: idem_step_def idem_defs idem_expire_due_def idem_live_def)
qed

definition idem_empty :: idempotency_store where
  "idem_empty = \<lparr>id_next_fencing_token = 0, id_records = fmempty\<rparr>"

definition idem_example :: idempotency_store where
  "idem_example = final idem_step [(10, 1, IdempotencyClaim ''k'' ''a'' 5 (Some 100) fmempty),
     (12, 2, IdempotencyComplete ''k'' ''a'' 1 (Some (JBool True)))] idem_empty"

definition idem_example_record :: idempotency_record where
  "idem_example_record = \<lparr>ir_key = ''k'', ir_owner = ''a'', ir_fencing_token = 1, ir_status = IdemCompleted,
     ir_first_seen_ms = 10, ir_lease_expires_ms = 112, ir_retention_ms = 100, ir_metadata = fmempty,
     ir_result = Some (JBool True)\<rparr>"

lemma idem_key_ok: "\<not> trim_is_empty ''k''"
  by (simp add: trim_is_empty_def is_whitespace_def)

lemma idem_example_eval: "fmlookup (id_records idem_example) ''k'' = Some idem_example_record"
  by (simp add: idem_example_def idem_empty_def idem_example_record_def run_simps idem_step_def idem_defs idem_key_ok
      idem_expire_due_def idem_live_def next_token_eq MAX_FENCING_TOKEN_def sat_add_def max_def word_le_nat_alt)

theorem idempotency_first_claim_wins_witness:
  "idem_step (111, 9, IdempotencyClaim ''k'' ''b'' 5 None fmempty)
     (final idem_step [(50, 3, IdempotencyAbandon ''k'' ''a'' 1)] idem_example) =
   (IdemDuplicate ''k'' idem_example_record 9,
    idem_expire_due 111 (final idem_step [(50, 3, IdempotencyAbandon ''k'' ''a'' 1)] idem_example))"
  by (rule idempotency_first_claim_wins [OF idem_example_eval idem_key_ok]) (auto simp: idem_example_record_def)

end
