(* ===== verification/Elections.thy ===== *)
theory Elections
  imports Leases Lifecycles
begin

section \<open>Leader elections\<close>

text \<open>
  \<open>Leadership\<close>, the handlers \<open>apply_election_campaign\<close>, \<open>apply_election_renew\<close>,
  \<open>apply_election_resign\<close>, the sweep of \<open>expire_due\<close> and the reads \<open>election_get\<close> and
  \<open>election_inventory_live_at\<close> of \<open>src/state.rs\<close>, on the token counter and the election map.
\<close>

record leadership =
  le_leader :: string
  le_fencing_token :: u64
  le_lease_expires_ms :: u64
  le_ttl_ms :: u64
  le_metadata :: "(string, string) fmap"

record election_store =
  el_next_fencing_token :: u64
  el_elections :: "(string, leadership) fmap"

datatype election_command =
    ElectionCampaign string string u64 "(string, string) fmap"
  | ElectionRenew string string u64 "u64 option"
  | ElectionResign string string u64

datatype election_response =
    ElectionWon string leadership u64
  | ElectionLost string leadership
  | ElectionTokensExhausted string u64
  | ElectionNotFound string
  | ElectionNotLeader string
  | ElectionRenewed string leadership
  | ElectionResigned bool string

definition put_leader :: "string \<Rightarrow> leadership \<Rightarrow> election_store \<Rightarrow> election_store" where
  "put_leader name l s = s\<lparr>el_elections := fmupd name l (el_elections s)\<rparr>"

definition apply_election_campaign ::
  "u64 \<Rightarrow> u64 \<Rightarrow> string \<Rightarrow> string \<Rightarrow> u64 \<Rightarrow> (string, string) fmap \<Rightarrow> election_store \<Rightarrow>
     election_response \<times> election_store" where
  "apply_election_campaign revision now name candidate ttl_ms metadata s =
     (case fmlookup (el_elections s) name of
        Some existing \<Rightarrow>
          if le_leader existing = candidate then (ElectionWon name existing revision, s)
          else (ElectionLost name existing, s)
      | None \<Rightarrow>
          (case next_token (el_next_fencing_token s) of
             None \<Rightarrow> (ElectionTokensExhausted name revision, s)
           | Some token \<Rightarrow>
               let l = \<lparr>le_leader = candidate, le_fencing_token = token,
                     le_lease_expires_ms = sat_add now ttl_ms, le_ttl_ms = ttl_ms, le_metadata = metadata\<rparr>
               in (ElectionWon name l revision, put_leader name l (s\<lparr>el_next_fencing_token := token\<rparr>))))"

definition apply_election_renew ::
  "u64 \<Rightarrow> string \<Rightarrow> string \<Rightarrow> u64 \<Rightarrow> u64 option \<Rightarrow> election_store \<Rightarrow> election_response \<times> election_store" where
  "apply_election_renew now name candidate fencing_token ttl_ms s =
     (case fmlookup (el_elections s) name of
        None \<Rightarrow> (ElectionNotFound name, s)
      | Some l \<Rightarrow>
          if le_leader l \<noteq> candidate \<or> le_fencing_token l \<noteq> fencing_token then (ElectionNotLeader name, s)
          else let ttl = (case ttl_ms of None \<Rightarrow> le_ttl_ms l | Some t \<Rightarrow> t);
                   l' = l\<lparr>le_ttl_ms := ttl, le_lease_expires_ms := sat_add now ttl\<rparr>
               in (ElectionRenewed name l', put_leader name l' s))"

definition apply_election_resign ::
  "string \<Rightarrow> string \<Rightarrow> u64 \<Rightarrow> election_store \<Rightarrow> election_response \<times> election_store" where
  "apply_election_resign name candidate fencing_token s =
     (let ok = (case fmlookup (el_elections s) name of None \<Rightarrow> False
            | Some l \<Rightarrow> le_leader l = candidate \<and> le_fencing_token l = fencing_token)
      in (ElectionResigned ok name,
          if ok then s\<lparr>el_elections := fmdrop name (el_elections s)\<rparr> else s))"

fun apply_election ::
  "u64 \<Rightarrow> u64 \<Rightarrow> election_command \<Rightarrow> election_store \<Rightarrow> election_response \<times> election_store" where
  "apply_election revision now (ElectionCampaign name candidate ttl_ms metadata) s =
     apply_election_campaign revision now name candidate ttl_ms metadata s"
| "apply_election revision now (ElectionRenew name candidate fencing_token ttl_ms) s =
     apply_election_renew now name candidate fencing_token ttl_ms s"
| "apply_election revision now (ElectionResign name candidate fencing_token) s =
     apply_election_resign name candidate fencing_token s"

definition leader_live :: "u64 \<Rightarrow> leadership \<Rightarrow> bool" where
  "leader_live now l = (le_lease_expires_ms l > now)"

definition election_expire_due :: "u64 \<Rightarrow> election_store \<Rightarrow> election_store" where
  "election_expire_due now s = s\<lparr>el_elections := fmretain (\<lambda>_. leader_live now) (el_elections s)\<rparr>"

definition election_get :: "u64 \<Rightarrow> string \<Rightarrow> election_store \<Rightarrow> leadership option" where
  "election_get now name s = (case fmlookup (el_elections s) name of None \<Rightarrow> None
     | Some l \<Rightarrow> if leader_live now l then Some l else None)"

definition election_inventory_live_at :: "u64 \<Rightarrow> election_store \<Rightarrow> (string \<times> leadership) list" where
  "election_inventory_live_at now s = filter (\<lambda>(_, l). leader_live now l) (entries (el_elections s))"

text \<open>One log entry at a revision: the sweep, then the command.\<close>

definition election_step :: "u64 \<times> u64 \<times> election_command \<Rightarrow> election_store \<Rightarrow> election_response \<times> election_store" where
  "election_step e s = apply_election (fst (snd e)) (fst e) (snd (snd e)) (election_expire_due (fst e) s)"

lemmas election_defs = apply_election_campaign_def apply_election_renew_def apply_election_resign_def
  put_leader_def Let_def

subsection \<open>Contracts\<close>

interpretation leader_lease: leased leader_live
  by unfold_locales (auto simp: leader_live_def)

fun leader_presents :: "election_command \<Rightarrow> string \<Rightarrow> leadership \<Rightarrow> bool" where
  "leader_presents (ElectionCampaign _ _ _ _) k l \<longleftrightarrow> False"
| "leader_presents (ElectionRenew name candidate t _) k l \<longleftrightarrow> name = k \<and> candidate = le_leader l \<and> t = le_fencing_token l"
| "leader_presents (ElectionResign name candidate t) k l \<longleftrightarrow> name = k \<and> candidate = le_leader l \<and> t = le_fencing_token l"

interpretation leader_held: held_lease election_step "\<lambda>s. fmlookup (el_elections s)" leader_live "\<lambda>c. leader_presents (snd c)"
proof
  fix s :: election_store and k v now and c :: "u64 \<times> election_command"
  assume "fmlookup (el_elections s) k = Some v" "leader_live now v" "\<not> leader_presents (snd c) k v"
  then show "fmlookup (el_elections (snd (election_step (now, c) s))) k = Some v"
    by (cases "snd c") (auto simp: election_step_def election_defs election_expire_due_def split: option.split)
qed

definition election_tokens :: "election_store \<Rightarrow> u64 set" where
  "election_tokens s = {t. \<exists>k l. fmlookup (el_elections s) k = Some l \<and> t = le_fencing_token l}"

lemma apply_election_fresh:
  "fresh_step (el_next_fencing_token s) (election_tokens s)
     (el_next_fencing_token (snd (apply_election rvn now c s))) (election_tokens (snd (apply_election rvn now c s)))"
  by (cases c) (auto simp: election_tokens_def election_defs intro!: fresh_step_refl fresh_step_mint split: option.split)

subsection \<open>Properties\<close>

text \<open>C20. A named election has one leader at a time. As long as every log entry is proposed within the lease
  and none presents the leader's name and token, the leadership stays as it is; a campaign of anyone else
  is lost to that leader, and a repeated campaign of the leader returns the same leadership and token.\<close>

theorem election_has_one_leader:
  assumes "fmlookup (el_elections s) name = Some l"
    and "\<And>now rvn c. (now, rvn, c) \<in> set es \<Longrightarrow> now < le_lease_expires_ms l \<and> \<not> leader_presents c name l"
    and "now < le_lease_expires_ms l"
  shows "fst (election_step (now, rvn, ElectionCampaign name who ttl meta) (final election_step es s)) =
    (if who = le_leader l then ElectionWon name l rvn else ElectionLost name l)"
proof -
  have "fmlookup (el_elections (final election_step es s)) name = Some l"
    by (rule leader_held.run_untouched [OF assms(1)]) (use assms(2) in \<open>force simp: leader_live_def\<close>)
  then show ?thesis using assms(3) by (simp add: election_step_def election_defs election_expire_due_def leader_live_def)
qed

definition election_example :: election_store where
  "election_example = snd (election_step (10, 1, ElectionCampaign ''e'' ''a'' 50 fmempty)
     \<lparr>el_next_fencing_token = 6, el_elections = fmempty\<rparr>)"

lemma election_example_eval:
  "fmlookup (el_elections election_example) ''e'' = Some \<lparr>le_leader = ''a'', le_fencing_token = 7,
     le_lease_expires_ms = 60, le_ttl_ms = 50, le_metadata = fmempty\<rparr>"
  by (simp add: election_example_def election_step_def election_defs election_expire_due_def next_token_eq
      MAX_FENCING_TOKEN_def sat_add_def)

theorem election_has_one_leader_witness:
  "\<exists>l. fst (election_step (59, 5, ElectionCampaign ''e'' ''b'' 10 fmempty)
     (final election_step [(20, 2, ElectionCampaign ''e'' ''b'' 10 fmempty), (21, 3, ElectionResign ''e'' ''b'' 7)] election_example)) =
     ElectionLost ''e'' l"
proof -
  have "fst (election_step (59, 5, ElectionCampaign ''e'' ''b'' 10 fmempty)
     (final election_step [(20, 2, ElectionCampaign ''e'' ''b'' 10 fmempty), (21, 3, ElectionResign ''e'' ''b'' 7)] election_example)) =
     (if ''b'' = ''a'' then ElectionWon ''e'' l 5 else ElectionLost ''e'' l)"
    if "l = \<lparr>le_leader = ''a'', le_fencing_token = 7, le_lease_expires_ms = 60, le_ttl_ms = 50, le_metadata = fmempty\<rparr>" for l
    using election_has_one_leader [OF election_example_eval,
      of "[(20, 2, ElectionCampaign ''e'' ''b'' 10 fmempty), (21, 3, ElectionResign ''e'' ''b'' 7)]" 59 5 "''b''" 10 fmempty] that
    by fastforce
  then show ?thesis by auto
qed

end
