(* ===== verification/Services.thy ===== *)
theory Services
  imports Leases Lifecycles
begin

section \<open>Service discovery\<close>

text \<open>
  \<open>ServiceInstance\<close>, the handlers \<open>apply_service_register\<close>, \<open>apply_service_heartbeat\<close>,
  \<open>apply_service_deregister\<close>, the sweep of \<open>expire_due\<close> and the reads \<open>service_list\<close> and
  \<open>service_names\<close> of \<open>src/state.rs\<close>. The reads collect the values of hash maps; the model lists
  them in key order, which is one of the orders the map may give.
\<close>

record service_instance =
  si_instance_id :: string
  si_address :: string
  si_lease_expires_ms :: u64
  si_metadata :: "(string, string) fmap"

type_synonym service_store = "(string, (string, service_instance) fmap) fmap"

datatype service_command =
    ServiceRegister string string string u64 "(string, string) fmap"
  | ServiceHeartbeat string string "u64 option"
  | ServiceDeregister string string

datatype service_response =
    Registered string service_instance
  | HeartbeatNotFound string string
  | Heartbeat string service_instance
  | Deregistered bool string string

definition instances_of :: "service_store \<Rightarrow> string \<Rightarrow> (string, service_instance) fmap" where
  "instances_of services service = (case fmlookup services service of None \<Rightarrow> fmempty | Some m \<Rightarrow> m)"

definition apply_service_register ::
  "u64 \<Rightarrow> string \<Rightarrow> string \<Rightarrow> string \<Rightarrow> u64 \<Rightarrow> (string, string) fmap \<Rightarrow> service_store \<Rightarrow>
     service_response \<times> service_store" where
  "apply_service_register now service instance_id address ttl_ms metadata services =
     (let i = \<lparr>si_instance_id = instance_id, si_address = address,
            si_lease_expires_ms = sat_add now ttl_ms, si_metadata = metadata\<rparr>
      in (Registered service i, fmupd service (fmupd instance_id i (instances_of services service)) services))"

definition apply_service_heartbeat ::
  "u64 \<Rightarrow> string \<Rightarrow> string \<Rightarrow> u64 option \<Rightarrow> service_store \<Rightarrow> service_response \<times> service_store" where
  "apply_service_heartbeat now service instance_id ttl_ms services =
     (case fmlookup services service of
        None \<Rightarrow> (HeartbeatNotFound service instance_id, services)
      | Some m \<Rightarrow>
          (case fmlookup m instance_id of
             None \<Rightarrow> (HeartbeatNotFound service instance_id, services)
           | Some i \<Rightarrow>
               let i' = i\<lparr>si_lease_expires_ms := sat_add now (case ttl_ms of None \<Rightarrow> 30000 | Some t \<Rightarrow> t)\<rparr>
               in (Heartbeat service i', fmupd service (fmupd instance_id i' m) services)))"

definition apply_service_deregister ::
  "string \<Rightarrow> string \<Rightarrow> service_store \<Rightarrow> service_response \<times> service_store" where
  "apply_service_deregister service instance_id services =
     (case fmlookup services service of
        None \<Rightarrow> (Deregistered False service instance_id, services)
      | Some m \<Rightarrow>
          let m' = fmdrop instance_id m
          in (Deregistered (fmlookup m instance_id \<noteq> None) service instance_id,
              if m' = fmempty then fmdrop service services else fmupd service m' services))"

fun apply_service :: "u64 \<Rightarrow> service_command \<Rightarrow> service_store \<Rightarrow> service_response \<times> service_store" where
  "apply_service now (ServiceRegister service instance_id address ttl_ms metadata) services =
     apply_service_register now service instance_id address ttl_ms metadata services"
| "apply_service now (ServiceHeartbeat service instance_id ttl_ms) services =
     apply_service_heartbeat now service instance_id ttl_ms services"
| "apply_service now (ServiceDeregister service instance_id) services =
     apply_service_deregister service instance_id services"

definition instance_live :: "u64 \<Rightarrow> service_instance \<Rightarrow> bool" where
  "instance_live now i = (si_lease_expires_ms i > now)"

definition service_expire_due :: "u64 \<Rightarrow> service_store \<Rightarrow> service_store" where
  "service_expire_due now services =
     fmretain (\<lambda>_ m. m \<noteq> fmempty) (fmmap (fmretain (\<lambda>_. instance_live now)) services)"

definition service_list :: "u64 \<Rightarrow> string \<Rightarrow> service_store \<Rightarrow> service_instance list" where
  "service_list now service services =
     (case fmlookup services service of None \<Rightarrow> []
      | Some m \<Rightarrow> filter (instance_live now) (fmvalues m))"

definition service_names :: "u64 \<Rightarrow> service_store \<Rightarrow> (string \<times> nat) list" where
  "service_names now services =
     filter (\<lambda>(_, n). n > 0) (map (\<lambda>(service, m). (service, length (filter (instance_live now) (fmvalues m)))) (entries services))"

text \<open>One log entry: the sweep, then the command.\<close>

definition service_step :: "u64 \<times> service_command \<Rightarrow> service_store \<Rightarrow> service_response \<times> service_store" where
  "service_step e services = apply_service (fst e) (snd e) (service_expire_due (fst e) services)"

lemmas service_defs = apply_service_register_def apply_service_heartbeat_def apply_service_deregister_def
  instances_of_def Let_def

subsection \<open>Contracts\<close>

interpretation instance_lease: leased instance_live
  by unfold_locales (auto simp: instance_live_def)

definition instance_at :: "service_store \<Rightarrow> string \<times> string \<Rightarrow> service_instance option" where
  "instance_at services si = fmlookup (instances_of services (fst si)) (snd si)"

definition no_empty_service :: "service_store \<Rightarrow> bool" where
  "no_empty_service services = (\<forall>service. fmlookup services service \<noteq> Some fmempty)"

lemma fmupd_nonempty [simp]: "fmupd k v m \<noteq> fmempty"
  by (metis fmempty_lookup fmupd_lookup option.distinct(1))

lemma service_expire_nonempty: "no_empty_service (service_expire_due now services)"
  by (auto simp: no_empty_service_def service_expire_due_def split: option.splits if_splits)

lemma apply_service_nonempty: "no_empty_service s \<Longrightarrow> no_empty_service (snd (apply_service now c s))"
  by (cases c) (auto simp: no_empty_service_def service_defs split: option.split)

lemma instance_at_expire:
  "instance_at (service_expire_due now services) si =
     (case instance_at services si of None \<Rightarrow> None | Some i \<Rightarrow> if instance_live now i then Some i else None)"
proof (cases "fmlookup services (fst si)")
  case (Some m)
  let ?m = "fmretain (\<lambda>_. instance_live now) m"
  show ?thesis
  proof (cases "?m = fmempty")
    case True
    have "fmlookup ?m (snd si) = None" by (simp only: True fmempty_lookup)
    then have "\<not> instance_live now i" if "fmlookup m (snd si) = Some i" for i
      using that by (simp split: if_splits)
    then show ?thesis using Some True
      by (auto simp: instance_at_def instances_of_def service_expire_due_def split: option.splits)
  qed (use Some in \<open>simp add: instance_at_def instances_of_def service_expire_due_def\<close>)
qed (simp add: instance_at_def instances_of_def service_expire_due_def)

subsection \<open>Properties\<close>

lemma set_service_list:
  "set (service_list t service s) = {x. \<exists>j. instance_at s (service, j) = Some x \<and> instance_live t x}"
  by (auto simp: service_list_def instance_at_def instances_of_def set_fmvalues split: option.split)

lemma instance_at_register:
  "instance_at (snd (apply_service now (ServiceRegister service i addr ttl meta) s)) (service, j) =
     (if j = i then Some \<lparr>si_instance_id = i, si_address = addr, si_lease_expires_ms = sat_add now ttl, si_metadata = meta\<rparr>
      else instance_at s (service, j))"
  by (simp add: instance_at_def service_defs)

lemma set_service_list_expire:
  "swept \<le> t \<Longrightarrow> set (service_list t service (service_expire_due swept s)) = set (service_list t service s)"
  using instance_lease.lapsed_stays [of swept t]
  by (auto simp: set_service_list instance_at_expire split: option.splits if_splits)

text \<open>An instance is discoverable for exactly its lease. After a registration, a listing of the service
  at any later time, with any sweep in between, shows the instance strictly before the saturated end of
  its lease and not from then on, shows every other instance of the service for exactly its own lease, and
  no service without instances is left in the registry.\<close>

theorem service_instance_listed_for_its_lease:
  assumes "now \<le> swept" "swept \<le> t"
  shows "set (service_list t service
      (service_expire_due swept (snd (service_step (now, ServiceRegister service i addr ttl meta) s)))) =
    (if t < sat_add now ttl
     then {\<lparr>si_instance_id = i, si_address = addr, si_lease_expires_ms = sat_add now ttl, si_metadata = meta\<rparr>} else {}) \<union>
    {x. \<exists>j. j \<noteq> i \<and> instance_at s (service, j) = Some x \<and> instance_live t x} \<and>
    no_empty_service (service_expire_due swept (snd (service_step (now, ServiceRegister service i addr ttl meta) s)))"
proof
  have nt: "now \<le> t" using assms by order
  show "set (service_list t service
      (service_expire_due swept (snd (service_step (now, ServiceRegister service i addr ttl meta) s)))) =
    (if t < sat_add now ttl
     then {\<lparr>si_instance_id = i, si_address = addr, si_lease_expires_ms = sat_add now ttl, si_metadata = meta\<rparr>} else {}) \<union>
    {x. \<exists>j. j \<noteq> i \<and> instance_at s (service, j) = Some x \<and> instance_live t x}"
    unfolding set_service_list_expire [OF assms(2)]
    unfolding set_service_list service_step_def fst_conv snd_conv instance_at_register
    using instance_lease.lapsed_stays [OF nt]
    by (auto simp: instance_at_expire instance_live_def split: option.splits if_splits)
qed (rule service_expire_nonempty)

theorem service_instance_listed_for_its_lease_witness:
  "set (service_list 39 ''s'' (service_expire_due 20 (snd (service_step (10, ServiceRegister ''s'' ''i'' ''h:1'' 30 fmempty) fmempty)))) =
     {\<lparr>si_instance_id = ''i'', si_address = ''h:1'', si_lease_expires_ms = 40, si_metadata = fmempty\<rparr>} \<and>
   service_list 40 ''s'' (service_expire_due 20 (snd (service_step (10, ServiceRegister ''s'' ''i'' ''h:1'' 30 fmempty) fmempty))) = []"
proof -
  have e: "sat_add 10 30 = (40 :: u64)" by (simp add: sat_add_def)
  have none: "instance_at fmempty si = None" for si by (simp add: instance_at_def instances_of_def)
  show ?thesis
    using service_instance_listed_for_its_lease [of 10 20 39 "''s''" "''i''" "''h:1''" 30 fmempty fmempty]
      service_instance_listed_for_its_lease [of 10 20 40 "''s''" "''i''" "''h:1''" 30 fmempty fmempty]
    by (simp add: e none)
qed

end
