(* ===== verification/Cron.thy ===== *)
theory Cron
  imports Validate "HOL-Library.Signed_Division"
begin

section \<open>Cron expressions\<close>

text \<open>
  \<open>src/cron.rs\<close>: \<open>CronSchedule\<close>, \<open>parse\<close>, \<open>parse_field\<close>, \<open>parse_value\<close>, \<open>matches\<close>,
  \<open>next_after\<close>, \<open>DateParts::from_epoch_minute\<close> and \<open>civil_from_days\<close>. Expressions are read as the
  scalar values of their UTF-8 bytes (\<open>chars\<close>). The values of a field are \<open>u32\<close> in the source and
  \<open>nat\<close> here, with the 32-bit bound written out in \<open>parse_u32\<close> and in the step of \<open>expand\<close>. The
  error texts are the constructors of \<open>cron_error\<close> with the values they print. The minute search of
  \<open>next_after\<close> is bounded by the source, and the product that turns a minute into milliseconds
  wraps at 64 bits as in a release build.
\<close>

subsection \<open>Parsing\<close>

datatype cron_error =
    ExpectedFields nat
  | BadStep "nat list"
  | StepZero
  | OutOfRange nat nat "nat list"
  | UnknownValue "nat list"

record cron_schedule =
  cs_minute :: "bool list"
  cs_hour :: "bool list"
  cs_dom :: "bool list"
  cs_month :: "bool list"
  cs_dow :: "bool list"
  cs_dom_restricted :: bool
  cs_dow_restricted :: bool

text \<open>\<open>str::split(c)\<close>, \<open>str::split_once(c)\<close>, \<open>str::split_whitespace\<close> and \<open>str::trim\<close> on scalar
  values, and \<open>u32::from_str\<close>: an optional plus sign and decimal digits below the 32-bit bound.\<close>

fun split_on :: "nat \<Rightarrow> nat list \<Rightarrow> nat list list" where
  "split_on c [] = [[]]"
| "split_on c (x # xs) = (case split_on c xs of [] \<Rightarrow> [[x]]
     | p # ps \<Rightarrow> if x = c then [] # p # ps else (x # p) # ps)"

fun split_first :: "nat \<Rightarrow> nat list \<Rightarrow> (nat list \<times> nat list) option" where
  "split_first c [] = None"
| "split_first c (x # xs) = (if x = c then Some ([], xs)
     else map_option (\<lambda>(a, b). (x # a, b)) (split_first c xs))"

fun words :: "nat list \<Rightarrow> nat list list" where
  "words [] = []"
| "words (x # xs) = (if is_whitespace x then words xs
     else if xs = [] \<or> is_whitespace (hd xs) then [x] # words xs
     else (case words xs of [] \<Rightarrow> [[x]] | w # ws \<Rightarrow> (x # w) # ws))"

definition trim :: "nat list \<Rightarrow> nat list" where
  "trim xs = rev (dropWhile is_whitespace (rev (dropWhile is_whitespace xs)))"

definition is_digit :: "nat \<Rightarrow> bool" where
  "is_digit c = (48 \<le> c \<and> c \<le> 57)"

definition parse_u32 :: "nat list \<Rightarrow> nat option" where
  "parse_u32 s =
     (let digits = (case s of c # r \<Rightarrow> if c = 43 then r else s | [] \<Rightarrow> s);
          v = foldl (\<lambda>acc c. 10 * acc + (c - 48)) 0 digits
      in if digits = [] \<or> \<not> list_all is_digit digits \<or> 2 ^ 32 \<le> v then None else Some v)"

definition to_ascii_lowercase :: "nat list \<Rightarrow> nat list" where
  "to_ascii_lowercase = map (\<lambda>c. if 65 \<le> c \<and> c \<le> 90 then c + 32 else c)"

definition ascii :: "string \<Rightarrow> nat list" where
  "ascii s = map of_char s"

definition MONTHS :: "(string \<times> nat) list" where
  "MONTHS = [(''jan'', 1), (''feb'', 2), (''mar'', 3), (''apr'', 4), (''may'', 5), (''jun'', 6),
     (''jul'', 7), (''aug'', 8), (''sep'', 9), (''oct'', 10), (''nov'', 11), (''dec'', 12)]"

definition DAYS :: "(string \<times> nat) list" where
  "DAYS = [(''sun'', 0), (''mon'', 1), (''tue'', 2), (''wed'', 3), (''thu'', 4), (''fri'', 5), (''sat'', 6)]"

definition parse_value :: "nat list \<Rightarrow> (string \<times> nat) list \<Rightarrow> cron_error + nat" where
  "parse_value token names =
     (let token = trim token
      in case parse_u32 token of
           Some n \<Rightarrow> Inr n
         | None \<Rightarrow> (case find (\<lambda>(name, _). ascii name = to_ascii_lowercase token) names of
             Some (_, v) \<Rightarrow> Inr v
           | None \<Rightarrow> Inl (UnknownValue token)))"

text \<open>The value loop of one part. The step is at least one, which \<open>parse_part\<close> checks first.\<close>

function expand :: "nat \<Rightarrow> nat \<Rightarrow> nat \<Rightarrow> nat list" where
  "expand v hi step =
     (if v \<le> hi \<and> 0 < step then v # (if v + step < 2 ^ 32 then expand (v + step) hi step else []) else [])"
  by auto
termination
  by (relation "measure (\<lambda>(v, hi, step). Suc hi - v)") auto

declare expand.simps [simp del]

definition parse_step :: "nat list \<Rightarrow> cron_error + nat list \<times> nat" where
  "parse_step part = (case split_first 47 part of
       None \<Rightarrow> Inr (part, 1)
     | Some (r, s) \<Rightarrow> (case parse_u32 s of None \<Rightarrow> Inl (BadStep s)
         | Some step \<Rightarrow> if step = 0 then Inl StepZero else Inr (r, step)))"

definition parse_range ::
  "nat list \<Rightarrow> nat \<Rightarrow> nat \<Rightarrow> nat \<Rightarrow> (string \<times> nat) list \<Rightarrow> cron_error + nat \<times> nat" where
  "parse_range range_spec step mn mx names =
     (if range_spec = [42] then Inr (mn, mx)
      else (case split_first 45 range_spec of
          Some (a, b) \<Rightarrow> (case parse_value a names of Inl e \<Rightarrow> Inl e
            | Inr lo \<Rightarrow> (case parse_value b names of Inl e \<Rightarrow> Inl e | Inr hi \<Rightarrow> Inr (lo, hi)))
        | None \<Rightarrow> (case parse_value range_spec names of Inl e \<Rightarrow> Inl e
            | Inr v \<Rightarrow> Inr (if step > 1 then (v, mx) else (v, v)))))"

definition parse_part ::
  "nat list \<Rightarrow> nat \<Rightarrow> nat \<Rightarrow> (string \<times> nat) list \<Rightarrow> cron_error + nat list" where
  "parse_part part mn mx names = (case parse_step part of Inl e \<Rightarrow> Inl e
     | Inr (range_spec, step) \<Rightarrow> (case parse_range range_spec step mn mx names of Inl e \<Rightarrow> Inl e
         | Inr (lo, hi) \<Rightarrow>
             if lo < mn \<or> hi > mx \<or> lo > hi then Inl (OutOfRange mn mx part)
             else Inr (expand lo hi step)))"

fun parse_parts :: "nat list list \<Rightarrow> nat \<Rightarrow> nat \<Rightarrow> (string \<times> nat) list \<Rightarrow> cron_error + nat list" where
  "parse_parts [] mn mx names = Inr []"
| "parse_parts (p # ps) mn mx names = (case parse_part p mn mx names of Inl e \<Rightarrow> Inl e
     | Inr vs \<Rightarrow> (case parse_parts ps mn mx names of Inl e \<Rightarrow> Inl e | Inr ws \<Rightarrow> Inr (vs @ ws)))"

definition parse_field ::
  "nat list \<Rightarrow> nat \<Rightarrow> nat \<Rightarrow> (string \<times> nat) list \<Rightarrow> cron_error + nat list \<times> bool" where
  "parse_field spec mn mx names = (case parse_parts (split_on 44 spec) mn mx names of Inl e \<Rightarrow> Inl e
     | Inr values \<Rightarrow> Inr (values, spec \<noteq> [42]))"

text \<open>The loops that fill the tables. An index out of range panics, which is the value \<open>None\<close>.\<close>

fun mark :: "bool list \<Rightarrow> nat list \<Rightarrow> bool list option" where
  "mark table [] = Some table"
| "mark table (v # values) = (if v < length table then mark (table[v := True]) values else None)"

definition parse :: "string \<Rightarrow> (cron_error + cron_schedule) option" where
  "parse expr =
     (case words (chars expr) of
        [f0, f1, f2, f3, f4] \<Rightarrow>
          (case parse_field f0 0 59 [] of Inl e \<Rightarrow> Some (Inl e) | Inr (minute, _) \<Rightarrow>
          (case parse_field f1 0 23 [] of Inl e \<Rightarrow> Some (Inl e) | Inr (hour, _) \<Rightarrow>
          (case parse_field f2 1 31 [] of Inl e \<Rightarrow> Some (Inl e) | Inr (dom_vec, dom_restricted) \<Rightarrow>
          (case parse_field f3 1 12 MONTHS of Inl e \<Rightarrow> Some (Inl e) | Inr (month, _) \<Rightarrow>
          (case parse_field f4 0 7 DAYS of Inl e \<Rightarrow> Some (Inl e) | Inr (dow_raw, dow_restricted) \<Rightarrow>
          (case mark (replicate 60 False) minute of None \<Rightarrow> None | Some minute_a \<Rightarrow>
          (case mark (replicate 24 False) hour of None \<Rightarrow> None | Some hour_a \<Rightarrow>
          (case mark (replicate 32 False) dom_vec of None \<Rightarrow> None | Some dom_a \<Rightarrow>
          (case mark (replicate 13 False) month of None \<Rightarrow> None | Some month_a \<Rightarrow>
          (case mark (replicate 7 False) (map (\<lambda>v. v mod 7) dow_raw) of None \<Rightarrow> None | Some dow_a \<Rightarrow>
             Some (Inr \<lparr>cs_minute = minute_a, cs_hour = hour_a, cs_dom = dom_a, cs_month = month_a, cs_dow = dow_a,
               cs_dom_restricted = dom_restricted, cs_dow_restricted = dow_restricted\<rparr>)))))))))))
      | parts \<Rightarrow> Some (Inl (ExpectedFields (length parts))))"

subsection \<open>Calendar\<close>

text \<open>\<open>civil_from_days\<close>. The first division may see a negative number and truncates, as in Rust; the
  operands of the others are never negative.\<close>

definition year_of_era :: "int \<Rightarrow> int" where
  "year_of_era doe = (doe - doe div 1460 + doe div 36524 - doe div 146096) div 365"

definition month_day :: "int \<Rightarrow> nat \<times> nat" where
  "month_day doy =
     (let mp = (5 * doy + 2) div 153
      in (nat (if mp < 10 then mp + 3 else mp - 9), nat (doy - (153 * mp + 2) div 5 + 1)))"

definition civil_from_days :: "int \<Rightarrow> int \<times> nat \<times> nat" where
  "civil_from_days days =
     (let z = days + 719468;
          era = (if z \<ge> 0 then z else z - 146096) sdiv 146097;
          doe = z - era * 146097;
          yoe = year_of_era doe;
          y = yoe + era * 400;
          doy = doe - (365 * yoe + yoe div 4 - yoe div 100);
          (m, d) = month_day doy
      in (if m \<le> 2 then y + 1 else y, m, d))"

record date_parts =
  dp_minute :: nat
  dp_hour :: nat
  dp_day :: nat
  dp_month :: nat
  dp_dow :: nat

definition from_epoch_minute :: "nat \<Rightarrow> date_parts" where
  "from_epoch_minute total_min =
     (let days = int (total_min div 1440); mins_in_day = total_min mod 1440;
          (_, month, day) = civil_from_days days
      in \<lparr>dp_minute = mins_in_day mod 60, dp_hour = mins_in_day div 60, dp_day = day, dp_month = month,
          dp_dow = (nat ((days mod 7 + 7) mod 7) + 4) mod 7\<rparr>)"

definition cron_matches :: "cron_schedule \<Rightarrow> date_parts \<Rightarrow> bool" where
  "cron_matches c p =
     (cs_minute c ! dp_minute p \<and> cs_hour c ! dp_hour p \<and> cs_month c ! dp_month p \<and>
      (let dom_ok = cs_dom c ! dp_day p; dow_ok = cs_dow c ! dp_dow p
       in if cs_dom_restricted c then (if cs_dow_restricted c then dom_ok \<or> dow_ok else dom_ok)
          else (if cs_dow_restricted c then dow_ok else True)))"

definition MAX_SEARCH_MINUTES :: nat where "MAX_SEARCH_MINUTES = 5 * 366 * 24 * 60"

function search_minutes :: "cron_schedule \<Rightarrow> nat \<Rightarrow> nat \<Rightarrow> u64 option" where
  "search_minutes c minute n =
     (if n = 0 then None
      else if cron_matches c (from_epoch_minute minute) then Some (word_of_nat (minute * 60000))
      else search_minutes c (minute + 1) (n - 1))"
  by auto
termination
  by (relation "measure (\<lambda>(c, minute, n). n)") auto

declare search_minutes.simps [simp del]

definition next_after :: "cron_schedule \<Rightarrow> u64 \<Rightarrow> u64 option" where
  "next_after c after_ms = search_minutes c (unat after_ms div 60000 + 1) MAX_SEARCH_MINUTES"

subsection \<open>Bounds of the parsed fields\<close>

lemma expand_bounds: "x \<in> set (expand v hi step) \<Longrightarrow> v \<le> x \<and> x \<le> hi"
proof (induction v hi step rule: expand.induct)
  case (1 v hi step)
  then show ?case by (subst (asm) expand.simps) (auto split: if_splits)
qed

lemma set_expand:
  "0 < step \<Longrightarrow> hi < 2 ^ 32 \<Longrightarrow> set (expand v hi step) = {x. v \<le> x \<and> x \<le> hi \<and> step dvd (x - v)}"
proof (induction v hi step rule: expand.induct)
  case (1 v hi step)
  show ?case
  proof (cases "v \<le> hi")
    case True
    have rest: "set (if v + step < 2 ^ 32 then expand (v + step) hi step else []) =
        {x. v + step \<le> x \<and> x \<le> hi \<and> step dvd (x - (v + step))}"
      using 1 True by auto
    have "{x. v \<le> x \<and> x \<le> hi \<and> step dvd (x - v)} =
        insert v {x. v + step \<le> x \<and> x \<le> hi \<and> step dvd (x - (v + step))}"
    proof (intro equalityI subsetI)
      fix x assume x: "x \<in> {x. v \<le> x \<and> x \<le> hi \<and> step dvd (x - v)}"
      show "x \<in> insert v {x. v + step \<le> x \<and> x \<le> hi \<and> step dvd (x - (v + step))}"
      proof (cases "x = v")
        case False
        then have "v + step \<le> x" using x dvd_imp_le [of step "x - v"] by auto
        then show ?thesis using x dvd_minus_self [of step "x - v"] by (auto simp: diff_diff_left)
      qed simp
    next
      fix x assume "x \<in> insert v {x. v + step \<le> x \<and> x \<le> hi \<and> step dvd (x - (v + step))}"
      then show "x \<in> {x. v \<le> x \<and> x \<le> hi \<and> step dvd (x - v)}"
        using True dvd_minus_self [of step "x - v"] by (auto simp: diff_diff_left)
    qed
    then show ?thesis using True 1(2) rest by (subst expand.simps) simp
  qed (subst expand.simps, auto)
qed

lemma parse_parts_bounds:
  "parse_parts ps mn mx names = Inr vs \<Longrightarrow> v \<in> set vs \<Longrightarrow> mn \<le> v \<and> v \<le> mx"
  by (induction ps arbitrary: vs)
    (auto simp: parse_part_def dest!: expand_bounds split: sum.splits prod.splits if_splits)

lemma parse_field_bounds:
  "parse_field spec mn mx names = Inr (vs, r) \<Longrightarrow> v \<in> set vs \<Longrightarrow> mn \<le> v \<and> v \<le> mx"
  by (auto simp: parse_field_def dest!: parse_parts_bounds split: sum.splits)

text \<open>A table that says of each index whether it is among the values.\<close>

definition marked :: "nat \<Rightarrow> nat list \<Rightarrow> bool list" where
  "marked n values = map (\<lambda>i. i \<in> set values) [0..<n]"

lemma length_marked [simp]: "length (marked n vs) = n"
  by (simp add: marked_def)

lemma mark_marked:
  assumes "\<forall>v \<in> set vs. v < n"
  shows "mark (replicate n False) vs = Some (marked n vs)"
proof -
  have "\<forall>v \<in> set vs. v < length t \<Longrightarrow> mark t vs = Some (map (\<lambda>i. t ! i \<or> i \<in> set vs) [0..<length t])" for t
  proof (induction vs arbitrary: t)
    case Nil
    then show ?case by (simp add: map_nth)
  next
    case (Cons a vs)
    then show ?case by (simp add: Cons.IH [of "t[a := True]"]) (auto simp: nth_list_update)
  qed
  from this [of "replicate n False"] assms show ?thesis by (auto simp: marked_def)
qed

lemma parse_field_marks:
  "parse_field spec mn mx names = Inr (vs, r) \<Longrightarrow> mx < n \<Longrightarrow> mark (replicate n False) vs = Some (marked n vs)"
  by (intro mark_marked) (fastforce dest: parse_field_bounds)

lemma mark_weekdays: "mark (replicate 7 False) (map (\<lambda>v. v mod 7) vs) = Some (marked 7 (map (\<lambda>v. v mod 7) vs))"
  by (intro mark_marked) simp

text \<open>The tables of a schedule are those of five lists of values, each within the bounds of its field.\<close>

definition in_bounds :: "nat \<Rightarrow> nat \<Rightarrow> nat list \<Rightarrow> bool" where
  "in_bounds mn mx vs \<longleftrightarrow> (\<forall>v \<in> set vs. mn \<le> v \<and> v \<le> mx)"

definition marks_fields :: "cron_schedule \<Rightarrow> bool" where
  "marks_fields c \<longleftrightarrow> (\<exists>minute hour dom_vec month dow_raw.
     in_bounds 0 59 minute \<and> in_bounds 0 23 hour \<and> in_bounds 1 31 dom_vec \<and> in_bounds 1 12 month \<and> in_bounds 0 7 dow_raw \<and>
     cs_minute c = marked 60 minute \<and> cs_hour c = marked 24 hour \<and> cs_dom c = marked 32 dom_vec \<and>
     cs_month c = marked 13 month \<and> cs_dow c = marked 7 (map (\<lambda>v. v mod 7) dow_raw))"

lemma parse_field_in_bounds: "parse_field spec mn mx names = Inr (vs, r) \<Longrightarrow> in_bounds mn mx vs"
  using parse_field_bounds by (auto simp: in_bounds_def)

lemma parse_total: "parse expr \<noteq> None \<and> (parse expr = Some (Inr c) \<longrightarrow> marks_fields c)"
  unfolding marks_fields_def
  by (auto simp: parse_def parse_field_marks mark_weekdays split: list.split sum.split prod.split)
    (metis parse_field_in_bounds)

subsection \<open>The calendar is the Gregorian calendar\<close>

definition leap :: "int \<Rightarrow> bool" where
  "leap y \<longleftrightarrow> 4 dvd y \<and> (\<not> 100 dvd y \<or> 400 dvd y)"

definition days_in_month :: "int \<Rightarrow> nat \<Rightarrow> nat" where
  "days_in_month y m = (if m = 2 then (if leap y then 29 else 28) else if m \<in> {4, 6, 9, 11} then 30 else 31)"

definition next_day :: "int \<times> nat \<times> nat \<Rightarrow> int \<times> nat \<times> nat" where
  "next_day date = (case date of (y, m, d) \<Rightarrow>
     if d < days_in_month y m then (y, m, d + 1)
     else if m < 12 then (y, m + 1, 1) else (y + 1, 1, 1))"

text \<open>Years of an era run from March to February: where the years of an era start, and how many days
  they have.\<close>

definition year_start :: "int \<Rightarrow> int" where
  "year_start y = 365 * y + y div 4 - y div 100"

definition year_length :: "int \<Rightarrow> int" where
  "year_length y = (if leap (y + 1) then 366 else 365)"

lemma div_succ: "0 \<le> y \<Longrightarrow> 0 < n \<Longrightarrow> (y + 1) div n = y div n + (if n dvd y + 1 then 1 else 0)" for y n :: int
proof -
  assume a: "0 \<le> y" "0 < n"
  have "Suc (nat y) div nat n = nat y div nat n + (if nat n dvd Suc (nat y) then 1 else 0)"
    by (simp add: div_Suc dvd_eq_mod_eq_0)
  moreover have "nat n dvd Suc (nat y) \<longleftrightarrow> n dvd y + 1"
    using a by (simp add: int_dvd_int_iff [symmetric] add.commute)
  ultimately have "int (Suc (nat y) div nat n) = int (nat y div nat n) + (if n dvd y + 1 then 1 else 0)" by simp
  then show ?thesis using a by (simp add: zdiv_int add.commute)
qed

lemma year_start_next:
  assumes "0 \<le> y" "y < 399"
  shows "year_start (y + 1) = year_start y + year_length y"
proof -
  have "\<not> 400 dvd y + 1" using zdvd_imp_le [of 400 "y + 1"] assms by auto
  moreover have "100 dvd y + 1 \<Longrightarrow> 4 dvd y + 1" using dvd_trans [of 4 100 "y + 1"] by simp
  ultimately show ?thesis
    using div_succ [OF assms(1), of 4] div_succ [OF assms(1), of 100]
    by (auto simp: year_start_def year_length_def leap_def)
qed

lemma year_start_nonneg: "0 \<le> y \<Longrightarrow> 0 \<le> year_start y"
  unfolding year_start_def by linarith

text \<open>A year of an era by century, cycle of four years and year of the cycle.\<close>

lemma year_cycle:
  assumes "0 \<le> y" "y \<le> 399"
  obtains b p q where "y = 100 * b + 4 * p + q" "0 \<le> b" "b \<le> 3" "0 \<le> p" "p \<le> 24" "0 \<le> q" "q \<le> 3"
    "year_start y = 36524 * b + 1461 * p + 365 * q"
    "year_length y = (if q = 3 \<and> (p < 24 \<or> b = 3) then 366 else 365)"
proof -
  define b s where "b = y div 100" and "s = y mod 100"
  define p q where "p = s div 4" and "q = s mod 4"
  have ranges: "0 \<le> b" "b \<le> 3" "0 \<le> p" "p \<le> 24" "0 \<le> q" "q \<le> 3"
    using assms pos_mod_bound [of 100 y] by (auto simp: b_def s_def p_def q_def)
  have y: "y = 100 * b + 4 * p + q" by (simp add: b_def p_def q_def s_def)
  have d4: "y div 4 = 25 * b + p" using ranges by (intro int_div_pos_eq [of _ _ _ q]) (auto simp: y)
  have st: "year_start y = 36524 * b + 1461 * p + 365 * q"
    by (simp add: year_start_def d4 b_def [symmetric]) (simp add: y)
  have "4 dvd y + 1 \<longleftrightarrow> q = 3" using ranges unfolding y by presburger
  moreover have "100 dvd y + 1 \<longleftrightarrow> p = 24 \<and> q = 3"
  proof -
    have "100 dvd y + 1 \<longleftrightarrow> 100 dvd (4 * p + q + 1)"
      using dvd_add_right_iff [of 100 "100 * b" "4 * p + q + 1"] by (simp add: y add.assoc)
    then show ?thesis using ranges zdvd_imp_le [of 100 "4 * p + q + 1"] by auto
  qed
  moreover have "400 dvd y + 1 \<longleftrightarrow> y = 399" using assms zdvd_imp_le [of 400 "y + 1"] by auto
  moreover have "y = 399 \<longleftrightarrow> b = 3 \<and> p = 24 \<and> q = 3"
  proof
    assume "y = 399"
    then have "300 \<le> 100 * b" "100 * b + 4 * p + q = 399" using ranges y by linarith+
    then have "b = 3" using ranges by linarith
    then show "b = 3 \<and> p = 24 \<and> q = 3" using ranges \<open>100 * b + 4 * p + q = 399\<close> by presburger
  qed (simp add: y)
  ultimately have "year_length y = (if q = 3 \<and> (p < 24 \<or> b = 3) then 366 else 365)"
    using ranges by (auto simp: year_length_def leap_def)
  from that [OF y ranges st this] show thesis .
qed

lemma year_end: "0 \<le> y \<Longrightarrow> y \<le> 399 \<Longrightarrow> year_start y + year_length y - 1 \<le> 146096"
  by (rule year_cycle [of y]) auto

lemma split_era:
  assumes "0 \<le> doe" "doe \<le> 146096"
  shows "\<exists>y doy. 0 \<le> y \<and> y \<le> 399 \<and> 0 \<le> doy \<and> doy < year_length y \<and> doe = year_start y + doy"
proof -
  have "int n \<le> 146096 \<Longrightarrow> \<exists>y doy. 0 \<le> y \<and> y \<le> 399 \<and> 0 \<le> doy \<and> doy < year_length y \<and> int n = year_start y + doy" for n
  proof (induction n)
    case 0
    show ?case by (rule exI [of _ 0], rule exI [of _ 0]) (simp add: year_start_def year_length_def)
  next
    case (Suc n)
    then obtain y doy where y: "0 \<le> y" "y \<le> 399" "0 \<le> doy" "doy < year_length y" "int n = year_start y + doy" by auto
    show ?case
    proof (cases "doy + 1 < year_length y")
      case True
      then show ?thesis using y by (intro exI [of _ y] exI [of _ "doy + 1"]) auto
    next
      case False
      have "y \<noteq> 399" using y Suc.prems False by (auto simp: year_start_def year_length_def leap_def)
      then have "year_start (y + 1) = year_start y + year_length y" using y year_start_next by auto
      then show ?thesis using y False \<open>y \<noteq> 399\<close>
        by (intro exI [of _ "y + 1"] exI [of _ 0]) (auto simp: year_length_def)
    qed
  qed
  from this [of "nat doe"] assms show ?thesis by simp
qed

lemma year_of_era_eq:
  assumes "0 \<le> y" "y \<le> 399" "0 \<le> doy" "doy < year_length y"
  shows "year_of_era (year_start y + doy) = y"
proof -
  obtain b p q where y: "y = 100 * b + 4 * p + q" and r: "0 \<le> b" "b \<le> 3" "0 \<le> p" "p \<le> 24" "0 \<le> q" "q \<le> 3"
    and st: "year_start y = 36524 * b + 1461 * p + 365 * q"
    and len: "year_length y = (if q = 3 \<and> (p < 24 \<or> b = 3) then 366 else 365)"
    by (rule year_cycle [OF assms(1,2)])
  define doe where "doe = year_start y + doy"
  define e :: int where "e = (if q = 3 \<and> doy + 24 * b + p \<ge> 365 then 1 else 0)"
  have q3: "doy = 365 \<Longrightarrow> q = 3" using assms(4) len by (auto split: if_splits)
  have doy: "doy \<le> 365" using assms(4) len by (auto split: if_splits)
  have "doe div 1460 = 25 * b + p + e"
    using r assms(3) doy q3
    by (intro int_div_pos_eq [of _ _ _ "24 * b + p + 365 * q + doy - 1460 * e"]) (auto simp: doe_def st e_def)
  moreover have "doe div 36524 - doe div 146096 = b"
  proof (cases "doe = 146096")
    case True
    then have "b = 3" using r assms(3,4) len by (auto simp: doe_def st split: if_splits)
    then show ?thesis using True by simp
  next
    case False
    then have "1461 * p + 365 * q + doy < 36524" using r assms(4) len by (auto simp: doe_def st split: if_splits)
    then have "doe div 36524 = b"
      using r assms(3) by (intro int_div_pos_eq [of _ _ _ "1461 * p + 365 * q + doy"]) (auto simp: doe_def st)
    moreover have "doe div 146096 = 0"
      using \<open>1461 * p + 365 * q + doy < 36524\<close> r assms(3) by (auto simp: doe_def st)
    ultimately show ?thesis by simp
  qed
  ultimately have "doe - doe div 1460 + doe div 36524 - doe div 146096 = 365 * y + (doy - e)"
    using y unfolding doe_def st by linarith
  moreover have "0 \<le> doy - e" "doy - e < 365"
    using r assms(3) doy q3 by (cases "doy = 365"; auto simp: e_def)+
  ultimately have "(doe - doe div 1460 + doe div 36524 - doe div 146096) div 365 = y"
    by (intro int_div_pos_eq [of _ _ _ "doy - e"]) auto
  then show ?thesis by (simp add: year_of_era_def doe_def)
qed

lemma era_floor: "(if z \<ge> 0 then z else z - 146096) sdiv 146097 = z div (146097 :: int)"
proof (cases "z \<ge> 0")
  case False
  then have "(z - 146096) sdiv 146097 = - ((146096 - z) div 146097)" by (simp add: signed_divide_int_def)
  also have "(146096 - z) div 146097 = - (z div 146097)"
  proof (rule int_div_pos_eq)
    show "146096 - z = 146097 * - (z div 146097) + (146096 - z mod 146097)"
      using mult_div_mod_eq [of 146097 z] by linarith
    show "0 \<le> 146096 - z mod 146097" using pos_mod_bound [of 146097 z] by linarith
    show "146096 - z mod 146097 < 146097" using pos_mod_sign [of 146097 z] by linarith
  qed
  finally show ?thesis using False by simp
qed (simp add: signed_divide_int_def sgn_if)

lemma civil_eq:
  assumes "days + 719468 = 146097 * era + (year_start y + doy)" "0 \<le> y" "y \<le> 399" "0 \<le> doy" "doy < year_length y"
  shows "civil_from_days days = (let (m, d) = month_day doy in (if m \<le> 2 then y + era * 400 + 1 else y + era * 400, m, d))"
proof -
  have "0 \<le> year_start y + doy" "year_start y + doy \<le> 146096"
    using assms(2-5) year_end [OF assms(2,3)] year_start_nonneg [OF assms(2)] by auto
  then have e: "(days + 719468) div 146097 = era" using assms(1) by auto
  have r: "days + 719468 - era * 146097 = year_start y + doy" using assms(1) by simp
  have d: "year_start y + doy - (365 * y + y div 4 - y div 100) = doy" by (simp add: year_start_def)
  show ?thesis
    unfolding civil_from_days_def Let_def era_floor e r year_of_era_eq [OF assms(2-5)] d ..
qed

text \<open>The days of a March year, one by one.\<close>

definition next_month_day :: "nat \<Rightarrow> nat \<times> nat \<Rightarrow> nat \<times> nat" where
  "next_month_day february md = (case md of (m, d) \<Rightarrow>
     if d < (if m = 2 then february else if m \<in> {4, 6, 9, 11} then 30 else 31) then (m, d + 1)
     else if m < 12 then (m + 1, 1) else (1, 1))"

lemma month_day_eq:
  assumes "153 * mp \<le> 5 * doy + 2" "5 * doy + 2 < 153 * (mp + 1)"
  shows "month_day doy = (nat (if mp < 10 then mp + 3 else mp - 9), nat (doy - (153 * mp + 2) div 5 + 1))"
proof -
  have "(5 * doy + 2) div 153 = mp" using assms by (intro int_div_pos_eq [of _ _ _ "5 * doy + 2 - 153 * mp"]) auto
  then show ?thesis by (simp add: month_day_def)
qed

lemma month_cases:
  fixes doy :: int
  assumes "0 \<le> doy" "doy < 366"
  obtains (0) "0 \<le> doy" "doy < 31" | (31) "31 \<le> doy" "doy < 61" | (61) "61 \<le> doy" "doy < 92" | (92) "92 \<le> doy" "doy < 122" |
    (122) "122 \<le> doy" "doy < 153" | (153) "153 \<le> doy" "doy < 184" | (184) "184 \<le> doy" "doy < 214" | (214) "214 \<le> doy" "doy < 245" |
    (245) "245 \<le> doy" "doy < 275" | (275) "275 \<le> doy" "doy < 306" | (306) "306 \<le> doy" "doy < 337" | (337) "337 \<le> doy" "doy < 366"
  using assms unfolding not_less [symmetric] by blast

lemma month_day_chain:
  assumes "0 \<le> doy" "doy \<le> 365"
  shows "month_day doy =
    (if doy < 31 then (3, nat (doy + 1)) else if doy < 61 then (4, nat (doy - 30))
     else if doy < 92 then (5, nat (doy - 60)) else if doy < 122 then (6, nat (doy - 91))
     else if doy < 153 then (7, nat (doy - 121)) else if doy < 184 then (8, nat (doy - 152))
     else if doy < 214 then (9, nat (doy - 183)) else if doy < 245 then (10, nat (doy - 213))
     else if doy < 275 then (11, nat (doy - 244)) else if doy < 306 then (12, nat (doy - 274))
     else if doy < 337 then (1, nat (doy - 305)) else (2, nat (doy - 336)))"
proof (rule month_cases [of doy])
  show ?thesis if "0 \<le> doy" "doy < 31"
    using month_day_eq [of 0 doy] that by simp
  show ?thesis if "31 \<le> doy" "doy < 61"
    using month_day_eq [of 1 doy] that by simp
  show ?thesis if "61 \<le> doy" "doy < 92"
    using month_day_eq [of 2 doy] that by simp
  show ?thesis if "92 \<le> doy" "doy < 122"
    using month_day_eq [of 3 doy] that by simp
  show ?thesis if "122 \<le> doy" "doy < 153"
    using month_day_eq [of 4 doy] that by simp
  show ?thesis if "153 \<le> doy" "doy < 184"
    using month_day_eq [of 5 doy] that by simp
  show ?thesis if "184 \<le> doy" "doy < 214"
    using month_day_eq [of 6 doy] that by simp
  show ?thesis if "214 \<le> doy" "doy < 245"
    using month_day_eq [of 7 doy] that by simp
  show ?thesis if "245 \<le> doy" "doy < 275"
    using month_day_eq [of 8 doy] that by simp
  show ?thesis if "275 \<le> doy" "doy < 306"
    using month_day_eq [of 9 doy] that by simp
  show ?thesis if "306 \<le> doy" "doy < 337"
    using month_day_eq [of 10 doy] that by simp
  show ?thesis if "337 \<le> doy" "doy < 366"
    using month_day_eq [of 11 doy] that by simp
qed (use assms in auto)

lemma month_day_ends: "month_day 0 = (3, 1)" "month_day 364 = (2, 28)" "month_day 365 = (2, 29)"
  by (simp_all add: month_day_chain)

lemma month_day_step:
  assumes "0 \<le> doy" "doy \<le> 364"
  shows "month_day (doy + 1) = next_month_day 29 (month_day doy)"
proof (rule month_cases [of doy])
  show ?thesis if "0 \<le> doy" "doy < 31"
    using that assms by (cases "doy = 30") (simp_all add: month_day_chain next_month_day_def nat_less_iff Suc_nat_eq_nat_zadd1)
  show ?thesis if "31 \<le> doy" "doy < 61"
    using that assms by (cases "doy = 60") (simp_all add: month_day_chain next_month_day_def nat_less_iff Suc_nat_eq_nat_zadd1)
  show ?thesis if "61 \<le> doy" "doy < 92"
    using that assms by (cases "doy = 91") (simp_all add: month_day_chain next_month_day_def nat_less_iff Suc_nat_eq_nat_zadd1)
  show ?thesis if "92 \<le> doy" "doy < 122"
    using that assms by (cases "doy = 121") (simp_all add: month_day_chain next_month_day_def nat_less_iff Suc_nat_eq_nat_zadd1)
  show ?thesis if "122 \<le> doy" "doy < 153"
    using that assms by (cases "doy = 152") (simp_all add: month_day_chain next_month_day_def nat_less_iff Suc_nat_eq_nat_zadd1)
  show ?thesis if "153 \<le> doy" "doy < 184"
    using that assms by (cases "doy = 183") (simp_all add: month_day_chain next_month_day_def nat_less_iff Suc_nat_eq_nat_zadd1)
  show ?thesis if "184 \<le> doy" "doy < 214"
    using that assms by (cases "doy = 213") (simp_all add: month_day_chain next_month_day_def nat_less_iff Suc_nat_eq_nat_zadd1)
  show ?thesis if "214 \<le> doy" "doy < 245"
    using that assms by (cases "doy = 244") (simp_all add: month_day_chain next_month_day_def nat_less_iff Suc_nat_eq_nat_zadd1)
  show ?thesis if "245 \<le> doy" "doy < 275"
    using that assms by (cases "doy = 274") (simp_all add: month_day_chain next_month_day_def nat_less_iff Suc_nat_eq_nat_zadd1)
  show ?thesis if "275 \<le> doy" "doy < 306"
    using that assms by (cases "doy = 305") (simp_all add: month_day_chain next_month_day_def nat_less_iff Suc_nat_eq_nat_zadd1)
  show ?thesis if "306 \<le> doy" "doy < 337"
    using that assms by (cases "doy = 336") (simp_all add: month_day_chain next_month_day_def nat_less_iff Suc_nat_eq_nat_zadd1)
  show ?thesis if "337 \<le> doy" "doy < 366"
    using that assms by (cases "doy = 365") (simp_all add: month_day_chain next_month_day_def nat_less_iff Suc_nat_eq_nat_zadd1)
qed (use assms in auto)

lemma month_day_february:
  assumes "0 \<le> doy" "doy \<le> 364" "fst (month_day doy) = 2"
  shows "snd (month_day doy) \<le> 28" "snd (month_day doy) = 28 \<longleftrightarrow> doy = 364"
proof -
  have "\<not> doy < 337" using assms by (auto simp: month_day_chain split: if_splits)
  then show "snd (month_day doy) \<le> 28" "snd (month_day doy) = 28 \<longleftrightarrow> doy = 364"
    using assms by (simp_all add: month_day_chain nat_le_iff nat_eq_iff)
qed

lemma month_day_range:
  assumes "0 \<le> doy" "doy \<le> 365"
  shows "1 \<le> fst (month_day doy)" "fst (month_day doy) \<le> 12" "1 \<le> snd (month_day doy)" "snd (month_day doy) \<le> 31"
  using assms by (simp_all add: month_day_chain nat_le_iff Suc_le_eq)

lemma leap_period: "leap (y + 400 * e + 1) = leap (y + 1)"
proof -
  have "k dvd y + 400 * e + 1 \<longleftrightarrow> k dvd y + 1" if "k dvd 400" for k :: int
    using that dvd_add_left_iff [of k "400 * e" "y + 1"] by (simp add: ac_simps)
  then show ?thesis by (simp add: leap_def)
qed

lemma next_day_same_year:
  assumes "0 \<le> doy" "doy + 1 < year_length y"
  shows "(let (m, d) = month_day (doy + 1) in (if m \<le> 2 then y + 400 * e + 1 else y + 400 * e, m, d)) =
    next_day (let (m, d) = month_day doy in (if m \<le> 2 then y + 400 * e + 1 else y + 400 * e, m, d))"
proof -
  have d: "0 \<le> doy" "doy \<le> 364" using assms by (auto simp: year_length_def split: if_splits)
  have t: "month_day (doy + 1) = next_month_day 29 (month_day doy)"
    "fst (month_day doy) = 2 \<Longrightarrow> snd (month_day doy) \<le> 28" "fst (month_day doy) = 2 \<Longrightarrow> snd (month_day doy) = 28 \<Longrightarrow> doy = 364"
    "1 \<le> fst (month_day doy)" "fst (month_day doy) \<le> 12"
    using month_day_step [OF d] month_day_february [OF d] month_day_range [of doy] d by auto
  note l = leap_period [of y e]
  have "doy = 364 \<Longrightarrow> leap (y + 1)" using assms by (auto simp: year_length_def split: if_splits)
  then have "snd (month_day doy) < 28" if "fst (month_day doy) = 2" "\<not> leap (y + 1)"
    using t(2,3) that by (cases "snd (month_day doy) = 28") auto
  then show ?thesis using t l
    by (cases "month_day doy") (auto simp: next_month_day_def next_day_def days_in_month_def Let_def)
qed

lemma next_day_new_year:
  assumes "doy + 1 = year_length y"
  shows "(y + 1 + 400 * e, 3, 1) =
    next_day (let (m, d) = month_day doy in (if m \<le> 2 then y + 400 * e + 1 else y + 400 * e, m, d))"
proof -
  note l = leap_period [of y e]
  have "doy = (if leap (y + 1) then 365 else 364)" using assms by (auto simp: year_length_def)
  then show ?thesis using l month_day_ends by (auto simp: next_day_def days_in_month_def)
qed

lemma civil_epoch: "civil_from_days 0 = (1970, 1, 1)"
proof -
  have "civil_from_days 0 = (let (m, d) = month_day 306 in (if m \<le> 2 then 369 + 4 * 400 + 1 else 369 + 4 * 400, m, d))"
    by (rule civil_eq) (simp_all add: year_start_def year_length_def)
  then show ?thesis by (simp add: month_day_chain)
qed

lemma dow_eq: "dp_dow (from_epoch_minute k) = (k div 1440 + 4) mod 7"
proof -
  have "nat ((int d mod 7 + 7) mod 7) = d mod 7" for d
    by (simp add: nat_mod_distrib)
  then show ?thesis by (simp add: from_epoch_minute_def Let_def case_prod_unfold mod_add_left_eq)
qed

lemma civil_march: \<open>days + 719468 = 146097 * era + year_start y \<Longrightarrow> 0 \<le> y \<Longrightarrow> y \<le> 399 \<Longrightarrow>
    civil_from_days days = (y + 400 * era, 3, 1)\<close>
  using civil_eq [of days era y 0] by (simp add: month_day_ends(1) year_length_def)

lemma civil_next: "civil_from_days (z + 1) = next_day (civil_from_days z)"
proof -
  define era where "era = (z + 719468) div 146097"
  have "0 \<le> (z + 719468) mod 146097" "(z + 719468) mod 146097 \<le> 146096"
    using pos_mod_bound [of 146097 "z + 719468"] by simp_all
  from split_era [OF this] obtain y doy where y: "0 \<le> y" "y \<le> 399" "0 \<le> doy" "doy < year_length y"
    "(z + 719468) mod 146097 = year_start y + doy" by blast
  have z: "z + 719468 = 146097 * era + (year_start y + doy)"
    using mult_div_mod_eq [of 146097 "z + 719468"] unfolding y(5) era_def by (rule sym)
  note c = civil_eq [OF z y(1-4)]
  show ?thesis
  proof (cases "doy + 1 < year_length y")
    case True
    have "z + 1 + 719468 = 146097 * era + (year_start y + (doy + 1))" using z by linarith
    from civil_eq [OF this y(1,2) _ True] y(3)
    have "civil_from_days (z + 1) = (let (m, d) = month_day (doy + 1) in (if m \<le> 2 then y + era * 400 + 1 else y + era * 400, m, d))"
      by linarith
    then show ?thesis unfolding c using next_day_same_year [OF y(3) True, of era] unfolding mult.commute [of era 400] by (rule trans)
  next
    case False
    then have e: "doy + 1 = year_length y" using y(4) by linarith
    have "civil_from_days (z + 1) = (y + 1 + 400 * era, 3, 1)"
    proof (cases "y = 399")
      case True
      then have "year_start y + year_length y = 146097" by (simp add: year_start_def year_length_def leap_def)
      then have "z + 1 + 719468 = 146097 * (era + 1) + year_start 0"
        using z e by (simp add: year_start_def)
      from civil_march [OF this] show ?thesis using True by simp
    next
      case False
      then have "year_start (y + 1) = year_start y + year_length y" using year_start_next [OF y(1)] y(2) by simp
      then have "z + 1 + 719468 = 146097 * era + year_start (y + 1)" using z e by linarith
      from civil_march [OF this] show ?thesis using y False by simp
    qed
    then show ?thesis unfolding c using next_day_new_year [OF e, of era] unfolding mult.commute [of era 400] by (rule trans)
  qed
qed

text \<open>C21. The civil calendar of the cron scheduler is the proleptic Gregorian calendar: day zero is the first
  of January 1970, a Thursday, and the date of the following day is always the next day by the rules of
  month lengths and leap years, for every day before and after the epoch.\<close>

theorem cron_calendar_is_gregorian:
  "civil_from_days 0 = (1970, 1, 1) \<and> dp_dow (from_epoch_minute 0) = 4 \<and>
   (\<forall>z. civil_from_days (z + 1) = next_day (civil_from_days z)) \<and>
   (\<forall>n. dp_dow (from_epoch_minute (n + 1440)) = (dp_dow (from_epoch_minute n) + 1) mod 7)"
  by (simp add: civil_epoch civil_next dow_eq mod_simps)

subsection \<open>The next fire\<close>

lemma search_minutes_Some:
  "search_minutes c minute n = Some t \<Longrightarrow>
    \<exists>m \<ge> minute. m < minute + n \<and> t = word_of_nat (m * 60000) \<and> cron_matches c (from_epoch_minute m) \<and>
      (\<forall>k. minute \<le> k \<and> k < m \<longrightarrow> \<not> cron_matches c (from_epoch_minute k))"
proof (induction c minute n rule: search_minutes.induct)
  case (1 c minute n)
  show ?case
  proof (cases "cron_matches c (from_epoch_minute minute)")
    case True
    then show ?thesis using 1(2) by (subst (asm) search_minutes.simps) (auto split: if_splits)
  next
    case False
    then have n: "n \<noteq> 0" "search_minutes c (minute + 1) (n - 1) = Some t"
      using 1(2) by (subst (asm) search_minutes.simps, simp split: if_splits)+
    from 1(1) [OF n(1) False n(2)] obtain m where m: "minute + 1 \<le> m" "m < minute + 1 + (n - 1)"
      "t = word_of_nat (m * 60000)" "cron_matches c (from_epoch_minute m)"
      "\<And>k. minute + 1 \<le> k \<Longrightarrow> k < m \<Longrightarrow> \<not> cron_matches c (from_epoch_minute k)" by blast
    have "\<not> cron_matches c (from_epoch_minute k)" if "minute \<le> k" "k < m" for k
      using m(5) [of k] that False by (cases "k = minute") auto
    then show ?thesis using m n(1) by (intro exI [of _ m]) auto
  qed
qed

lemma search_minutes_None:
  "search_minutes c minute n = None \<longleftrightarrow> (\<forall>k. minute \<le> k \<and> k < minute + n \<longrightarrow> \<not> cron_matches c (from_epoch_minute k))"
proof (induction c minute n rule: search_minutes.induct)
  case (1 c minute n)
  show ?case
  proof (cases "n = 0 \<or> cron_matches c (from_epoch_minute minute)")
    case True
    then show ?thesis by (subst search_minutes.simps) auto
  next
    case False
    have "search_minutes c minute n = search_minutes c (minute + 1) (n - 1)"
      using False by (subst search_minutes.simps) simp
    moreover have "(\<forall>k. minute \<le> k \<and> k < minute + n \<longrightarrow> \<not> cron_matches c (from_epoch_minute k)) \<longleftrightarrow>
        (\<forall>k. minute + 1 \<le> k \<and> k < minute + 1 + (n - 1) \<longrightarrow> \<not> cron_matches c (from_epoch_minute k))"
    proof -
      have "minute \<le> k \<longleftrightarrow> k = minute \<or> minute + 1 \<le> k" for k by auto
      then show ?thesis using False by auto
    qed
    ultimately show ?thesis using 1 False by simp
  qed
qed

lemma MAX_SEARCH_MINUTES_eval: "MAX_SEARCH_MINUTES = 2635200"
  by (simp add: MAX_SEARCH_MINUTES_def)

text \<open>The whole minutes after an instant that the search covers.\<close>

definition candidate :: "u64 \<Rightarrow> nat \<Rightarrow> bool" where
  "candidate after m \<longleftrightarrow> unat after < m * 60000 \<and> m \<le> unat after div 60000 + MAX_SEARCH_MINUTES"

lemma next_after_Some:
  assumes "unat after + (MAX_SEARCH_MINUTES + 1) * 60000 < 2 ^ 64" "next_after c after = Some t"
  obtains m where "unat after div 60000 + 1 \<le> m" "m < unat after div 60000 + 1 + MAX_SEARCH_MINUTES"
    "unat t = m * 60000" "after < t" "cron_matches c (from_epoch_minute m)"
    "\<And>k. unat after div 60000 + 1 \<le> k \<Longrightarrow> k < m \<Longrightarrow> \<not> cron_matches c (from_epoch_minute k)"
proof -
  let ?s = "unat after div 60000 + 1"
  from search_minutes_Some [OF assms(2) [unfolded next_after_def]] obtain m where m: "?s \<le> m"
    "m < ?s + MAX_SEARCH_MINUTES" "t = word_of_nat (m * 60000)" "cron_matches c (from_epoch_minute m)"
    "\<And>k. ?s \<le> k \<Longrightarrow> k < m \<Longrightarrow> \<not> cron_matches c (from_epoch_minute k)" by blast
  have "m * 60000 \<le> (unat after div 60000 + MAX_SEARCH_MINUTES) * 60000" using m(2) by simp
  also have "\<dots> \<le> unat after + MAX_SEARCH_MINUTES * 60000"
    using div_times_less_eq_dividend [of "unat after" 60000] by (simp add: add_mult_distrib)
  finally have "m * 60000 < 2 ^ 64" using assms by simp
  then have "m * 60000 < 2 ^ LENGTH(64)" by simp
  then have u: "unat t = m * 60000" unfolding m(3) by (rule unat_of_nat_small)
  have "after < t" using m(1) u by (simp add: word_less_nat_alt div_less_iff_less_mult Suc_le_eq)
  then show ?thesis using that m(1,2,4,5) u by blast
qed

lemma next_after_later:
  assumes "unat after + (MAX_SEARCH_MINUTES + 1) * 60000 < 2 ^ 64" "next_after c after = Some t"
  shows "after < t"
  using next_after_Some [OF assms] by blast

text \<open>C22. The next fire of a schedule is the first matching minute strictly after the given instant. If
  \<open>next_after\<close> answers with a time, that time is a whole minute after the instant that matches the
  schedule and no earlier minute after the instant does; it answers nothing exactly when no minute within
  five years of 366 days matches. The times must stay clear of the end of the 64-bit range.\<close>

theorem next_after_is_first_match:
  assumes "unat after + (MAX_SEARCH_MINUTES + 1) * 60000 < 2 ^ 64"
  shows "case next_after c after of
      Some t \<Rightarrow> \<exists>m. candidate after m \<and> unat t = m * 60000 \<and> after < t \<and> cron_matches c (from_epoch_minute m) \<and>
        (\<forall>k. unat after < k * 60000 \<and> k < m \<longrightarrow> \<not> cron_matches c (from_epoch_minute k))
    | None \<Rightarrow> \<forall>m. candidate after m \<longrightarrow> \<not> cron_matches c (from_epoch_minute m)"
proof -
  let ?s = "unat after div 60000 + 1"
  have s: "unat after < k * 60000 \<longleftrightarrow> ?s \<le> k" for k
    by (simp add: div_less_iff_less_mult Suc_le_eq)
  show ?thesis
  proof (cases "next_after c after")
    case None
    then have "\<forall>k. ?s \<le> k \<and> k < ?s + MAX_SEARCH_MINUTES \<longrightarrow> \<not> cron_matches c (from_epoch_minute k)"
      unfolding next_after_def search_minutes_None .
    then show ?thesis using None by (auto simp: candidate_def s)
  next
    case (Some t)
    from next_after_Some [OF assms Some] obtain m where m: "?s \<le> m" "m < ?s + MAX_SEARCH_MINUTES"
      "unat t = m * 60000" "after < t" "cron_matches c (from_epoch_minute m)"
      "\<And>k. ?s \<le> k \<Longrightarrow> k < m \<Longrightarrow> \<not> cron_matches c (from_epoch_minute k)" by blast
    have "candidate after m" using m(1,2) by (simp add: candidate_def s)
    then show ?thesis using Some m(3-6) by (auto simp: s)
  qed
qed

definition every_day_9am :: cron_schedule where
  "every_day_9am = \<lparr>cs_minute = marked 60 [0], cs_hour = marked 24 [9], cs_dom = marked 32 [1..<32],
     cs_month = marked 13 [1..<13], cs_dow = marked 7 (map (\<lambda>v. v mod 7) [0..<8]), cs_dom_restricted = False, cs_dow_restricted = False\<rparr>"

theorem next_after_is_first_match_witness:
  "case next_after every_day_9am 0 of
      Some t \<Rightarrow> \<exists>m. candidate 0 m \<and> unat t = m * 60000 \<and> 0 < t \<and> cron_matches every_day_9am (from_epoch_minute m) \<and>
        (\<forall>k. unat (0 :: u64) < k * 60000 \<and> k < m \<longrightarrow> \<not> cron_matches every_day_9am (from_epoch_minute k))
    | None \<Rightarrow> \<forall>m. candidate 0 m \<longrightarrow> \<not> cron_matches every_day_9am (from_epoch_minute m)"
  by (rule next_after_is_first_match) (simp add: MAX_SEARCH_MINUTES_eval)

subsection \<open>No index out of range\<close>

lemma civil_range:
  "civil_from_days z = (y, m, d) \<Longrightarrow> 1 \<le> m \<and> m \<le> 12 \<and> 1 \<le> d \<and> d \<le> 31"
proof -
  assume c: "civil_from_days z = (y, m, d)"
  have "0 \<le> (z + 719468) mod 146097" "(z + 719468) mod 146097 \<le> 146096"
    using pos_mod_bound [of 146097 "z + 719468"] by simp_all
  from split_era [OF this] obtain yo doy where y: "0 \<le> yo" "yo \<le> 399" "0 \<le> doy" "doy < year_length yo"
    "(z + 719468) mod 146097 = year_start yo + doy" by blast
  have "z + 719468 = 146097 * ((z + 719468) div 146097) + (year_start yo + doy)"
    using mult_div_mod_eq [of 146097 "z + 719468"] unfolding y(5) by (rule sym)
  from civil_eq [OF this y(1-4)] c have "(m, d) = month_day doy" by (simp add: Let_def case_prod_unfold)
  moreover have "doy \<le> 365" using y(4) by (simp add: year_length_def split: if_splits)
  ultimately show ?thesis using month_day_range [OF y(3)] by (metis fst_conv snd_conv)
qed

lemma date_parts_range:
  "dp_minute (from_epoch_minute n) < 60" "dp_hour (from_epoch_minute n) < 24"
  "1 \<le> dp_day (from_epoch_minute n)" "dp_day (from_epoch_minute n) < 32"
  "1 \<le> dp_month (from_epoch_minute n)" "dp_month (from_epoch_minute n) < 13" "dp_dow (from_epoch_minute n) < 7"
proof -
  obtain y m d where c: "civil_from_days (int (n div 1440)) = (y, m, d)" by (metis prod_cases3)
  have "n mod 1440 < 1440" by simp
  then show "dp_hour (from_epoch_minute n) < 24" by (simp add: from_epoch_minute_def Let_def case_prod_unfold)
  show "dp_minute (from_epoch_minute n) < 60" "dp_dow (from_epoch_minute n) < 7"
    by (simp_all add: from_epoch_minute_def Let_def case_prod_unfold)
  show "1 \<le> dp_day (from_epoch_minute n)" "dp_day (from_epoch_minute n) < 32"
    "1 \<le> dp_month (from_epoch_minute n)" "dp_month (from_epoch_minute n) < 13"
    using civil_range [OF c] c by (simp_all add: from_epoch_minute_def Let_def)
qed

text \<open>C23. Neither parsing a cron expression nor matching a parsed one indexes an array out of range. \<open>parse\<close>
  returns an error or a schedule for every input, it never panics while it fills the tables; the tables of a parsed
  schedule mark exactly the values listed by its five fields, all within the bounds of their field; and every
  calendar part of every minute is within its table.\<close>

theorem cron_never_indexes_out_of_range:
  "\<exists>outcome. parse expr = Some outcome \<and>
    (\<forall>c. outcome = Inr c \<longrightarrow> marks_fields c \<and> dp_minute (from_epoch_minute n) < length (cs_minute c) \<and>
      dp_hour (from_epoch_minute n) < length (cs_hour c) \<and> dp_day (from_epoch_minute n) < length (cs_dom c) \<and>
      dp_month (from_epoch_minute n) < length (cs_month c) \<and> dp_dow (from_epoch_minute n) < length (cs_dow c))"
proof -
  obtain outcome where "parse expr = Some outcome" using parse_total by blast
  moreover have "marks_fields c" if "outcome = Inr c" for c
    using parse_total [of expr c] that \<open>parse expr = Some outcome\<close> by simp
  ultimately show ?thesis using date_parts_range [of n] by (fastforce simp: marks_fields_def)
qed

lemma expand_one: "hi < 2 ^ 32 - 1 \<Longrightarrow> expand v hi 1 = [v..<Suc hi]"
proof (induction "Suc hi - v" arbitrary: v)
  case 0
  then show ?case by (subst expand.simps) simp
next
  case (Suc n)
  then show ?case by (subst expand.simps) (simp add: upt_conv_Cons)
qed

lemma parse_field_star:
  "mn \<le> mx \<Longrightarrow> mx < 2 ^ 32 - 1 \<Longrightarrow> parse_field [42] mn mx names = Inr ([mn..<Suc mx], False)"
  using expand_one [of mx mn] by (simp add: parse_field_def parse_part_def parse_step_def parse_range_def)

lemma parse_field_digit:
  "48 \<le> c \<Longrightarrow> c \<le> 57 \<Longrightarrow> mn \<le> c - 48 \<Longrightarrow> c - 48 \<le> mx \<Longrightarrow> parse_field [c] mn mx names = Inr ([c - 48], True)"
proof -
  assume c: "48 \<le> c" "c \<le> 57" "mn \<le> c - 48" "c - 48 \<le> mx"
  then have "c - 48 < 10" by simp
  then have b: "c - 48 < 2 ^ 32 - 1" "\<not> 2 ^ 32 \<le> c - 48" by simp_all
  have "parse_value [c] names = Inr (c - 48)"
    using c b(2) by (simp add: parse_value_def trim_def parse_u32_def is_digit_def is_whitespace_def Let_def)
  then show ?thesis
    using c expand_one [OF b(1), of "c - 48"]
    by (simp add: parse_field_def parse_part_def parse_step_def parse_range_def)
qed

lemma parse_every_day_9am: "parse ''0 9 * * *'' = Some (Inr every_day_9am)"
proof -
  have "words (chars ''0 9 * * *'') = [[48], [57], [42], [42], [42]]"
    by (simp add: is_whitespace_def)
  then show ?thesis
    by (simp add: parse_def parse_field_star parse_field_digit mark_weekdays mark_marked every_day_9am_def
        del: mark.simps upt_Suc)
qed

theorem cron_never_indexes_out_of_range_witness:
  "parse ''0 9 * * *'' = Some (Inr every_day_9am) \<and> marks_fields every_day_9am \<and>
   dp_day (from_epoch_minute 44640) < length (cs_dom every_day_9am)"
  using cron_never_indexes_out_of_range [of "''0 9 * * *''" 44640] parse_every_day_9am by simp

end
