(* ===== verification/Schedules.thy ===== *)
theory Schedules
  imports Lifecycles Cron
begin

section \<open>Schedules\<close>

text \<open>
  \<open>Schedule\<close>, \<open>ScheduleRun\<close>, \<open>ScheduleRecord\<close>, \<open>next_fire_for\<close>, \<open>trim_history\<close>,
  \<open>bounded_schedule_text\<close>, the handlers \<open>apply_schedule_upsert\<close>, \<open>apply_schedule_record_run\<close>,
  \<open>apply_schedule_claim_fire\<close>, \<open>apply_schedule_set_enabled\<close>, \<open>apply_schedule_delete\<close>,
  \<open>apply_schedule_trigger\<close>, \<open>apply_schedule_record_result\<close> and the reads \<open>schedule_get\<close>,
  \<open>schedule_history\<close>, \<open>schedule_list\<close> of \<open>src/state.rs\<close>.
\<close>

datatype schedule_target =
    Webhook string
  | Queue string
  | Grpc string
  | Function string

datatype delivery_semantics = AtLeastOnce | ExactlyOnce

record schedule =
  sd_name :: string
  sd_cron :: "string option"
  sd_one_shot_at_ms :: "u64 option"
  sd_target :: schedule_target
  sd_delivery :: delivery_semantics
  sd_max_retries :: u32
  sd_enabled :: bool
  sd_next_fire_ms :: "u64 option"

datatype run_status = RunPending | Delivered | RunFailed

datatype run_trigger = Scheduled | Manual | Legacy

record schedule_run =
  ru_fire_id :: string
  ru_fired_at_ms :: u64
  ru_attempts :: u32
  ru_duplicate :: bool
  ru_target :: schedule_target
  ru_status :: run_status
  ru_error :: "string option"
  ru_trigger :: run_trigger
  ru_error_class :: "string option"
  ru_http_status :: "u16 option"
  ru_duration_ms :: "u64 option"
  ru_completed_at_ms :: "u64 option"
  ru_trace_id :: "string option"
  ru_span_id :: "string option"

record schedule_record =
  sc_definition :: schedule
  sc_history :: "schedule_run list"

type_synonym schedule_store = "(string, schedule_record) fmap"

text \<open>\<open>parse\<close> never panics (lemma \<open>parse_total\<close>), so the remaining case of the two matches is the parse error.\<close>

definition valid_cron_expression :: "string \<Rightarrow> bool" where
  "valid_cron_expression val = (case parse val of Some (Inr _) \<Rightarrow> True | _ \<Rightarrow> False)"

definition next_fire_for :: "string option \<Rightarrow> u64 option \<Rightarrow> u64 \<Rightarrow> u64 option" where
  "next_fire_for cron one_shot_at_ms after_ms =
     (case one_shot_at_ms of Some at \<Rightarrow> Some at
      | None \<Rightarrow> (case cron of None \<Rightarrow> None
          | Some expr \<Rightarrow> (case parse expr of Some (Inr c) \<Rightarrow> next_after c after_ms | _ \<Rightarrow> None)))"

definition MAX_SCHEDULE_HISTORY :: nat where "MAX_SCHEDULE_HISTORY = 100"

definition trim_history :: "schedule_run list \<Rightarrow> schedule_run list" where
  "trim_history history =
     (let len = length history
      in if len > MAX_SCHEDULE_HISTORY then drop (len - MAX_SCHEDULE_HISTORY) history else history)"

text \<open>\<open>str::is_char_boundary\<close>: an end of the text or a byte that does not continue a character.\<close>

definition is_char_boundary :: "string \<Rightarrow> nat \<Rightarrow> bool" where
  "is_char_boundary text i = (i = 0 \<or> i = length text \<or>
     i < length text \<and> \<not> (128 \<le> (of_char (text ! i) :: nat) \<and> (of_char (text ! i) :: nat) < 192))"

fun boundary_before :: "string \<Rightarrow> nat \<Rightarrow> nat" where
  "boundary_before text 0 = 0"
| "boundary_before text (Suc i) = (if is_char_boundary text (Suc i) then Suc i else boundary_before text i)"

definition MAX_BYTES :: nat where "MAX_BYTES = 512"

definition bounded_schedule_text :: "string option \<Rightarrow> string option" where
  "bounded_schedule_text val = map_option (\<lambda>text.
     if length text > MAX_BYTES then take (boundary_before text MAX_BYTES) text else text) val"

datatype schedule_command =
    ScheduleUpsert string "string option" "u64 option" schedule_target delivery_semantics u32 u64
  | ScheduleRecordRun string string u64
  | ScheduleClaimFire string u64
  | ScheduleRecordResult string u64 bool u32 "string option"
  | ScheduleSetEnabled string bool u64 bool
  | ScheduleDelete string
  | ScheduleTrigger string u64 u64
  | ScheduleRecordResultV2 string u64 bool u32 "string option" "string option" "u16 option" u64 u64
      "string option" "string option"

datatype schedule_response =
    ScheduleNotFound string
  | ScheduleUpserted string "u64 option"
  | RunRecorded bool string string
  | FireDisabled string
  | FireStale string "u64 option"
  | FireClaimed string u64 schedule_target delivery_semantics u32 "u64 option"
  | ScheduleUpdated bool string bool bool "u64 option"
  | ScheduleDeleted bool string
  | TriggerDuplicate string u64
  | Triggered string u64 u64
  | ResultDuplicate string u64 bool
  | ResultRecorded string u64 bool
  | NoRun string u64

definition apply_schedule_upsert ::
  "string \<Rightarrow> string option \<Rightarrow> u64 option \<Rightarrow> schedule_target \<Rightarrow> delivery_semantics \<Rightarrow> u32 \<Rightarrow> u64 \<Rightarrow>
     schedule_store \<Rightarrow> schedule_response \<times> schedule_store" where
  "apply_schedule_upsert name cron one_shot_at_ms target delivery max_retries now_ms schedules =
     (let next_fire_ms = next_fire_for cron one_shot_at_ms now_ms;
          enabled = (case fmlookup schedules name of None \<Rightarrow> True | Some r \<Rightarrow> sd_enabled (sc_definition r));
          d = \<lparr>sd_name = name, sd_cron = cron, sd_one_shot_at_ms = one_shot_at_ms, sd_target = target,
            sd_delivery = delivery, sd_max_retries = max_retries, sd_enabled = enabled,
            sd_next_fire_ms = next_fire_ms\<rparr>;
          r = (case fmlookup schedules name of Some r \<Rightarrow> r\<lparr>sc_definition := d\<rparr>
            | None \<Rightarrow> \<lparr>sc_definition = d, sc_history = []\<rparr>)
      in (ScheduleUpserted name next_fire_ms, fmupd name r schedules))"

definition apply_schedule_record_run ::
  "string \<Rightarrow> string \<Rightarrow> u64 \<Rightarrow> schedule_store \<Rightarrow> schedule_response \<times> schedule_store" where
  "apply_schedule_record_run name fire_id fired_at_ms schedules =
     (case fmlookup schedules name of
        None \<Rightarrow> (ScheduleNotFound name, schedules)
      | Some r \<Rightarrow>
          let duplicate = (sd_delivery (sc_definition r) = ExactlyOnce \<and>
                list_ex (\<lambda>run. ru_fire_id run = fire_id) (sc_history r));
              run = \<lparr>ru_fire_id = fire_id, ru_fired_at_ms = fired_at_ms, ru_attempts = 1,
                ru_duplicate = False, ru_target = sd_target (sc_definition r), ru_status = Delivered,
                ru_error = None, ru_trigger = Legacy, ru_error_class = None, ru_http_status = None,
                ru_duration_ms = None, ru_completed_at_ms = Some fired_at_ms, ru_trace_id = None,
                ru_span_id = None\<rparr>
          in (RunRecorded duplicate name fire_id,
              if duplicate then schedules
              else fmupd name (r\<lparr>sc_history := trim_history (sc_history r @ [run])\<rparr>) schedules))"

definition pending_run :: "string \<Rightarrow> u64 \<Rightarrow> run_trigger \<Rightarrow> schedule_target \<Rightarrow> schedule_run" where
  "pending_run fire_id fired_at_ms trigger target =
     \<lparr>ru_fire_id = fire_id, ru_fired_at_ms = fired_at_ms, ru_attempts = 0, ru_duplicate = False,
      ru_target = target, ru_status = RunPending, ru_error = None, ru_trigger = trigger,
      ru_error_class = None, ru_http_status = None, ru_duration_ms = None, ru_completed_at_ms = None,
      ru_trace_id = None, ru_span_id = None\<rparr>"

definition apply_schedule_claim_fire ::
  "string \<Rightarrow> u64 \<Rightarrow> schedule_store \<Rightarrow> schedule_response \<times> schedule_store" where
  "apply_schedule_claim_fire name fire_id_ms schedules =
     (case fmlookup schedules name of
        None \<Rightarrow> (ScheduleNotFound name, schedules)
      | Some r \<Rightarrow>
          let d = sc_definition r
          in if \<not> sd_enabled d then (FireDisabled name, schedules)
             else if sd_next_fire_ms d \<noteq> Some fire_id_ms then (FireStale name (sd_next_fire_ms d), schedules)
             else
               let run = pending_run (show_word fire_id_ms) fire_id_ms Scheduled (sd_target d);
                   nxt = (if sd_one_shot_at_ms d \<noteq> None then None
                     else next_fire_for (sd_cron d) None fire_id_ms)
               in (FireClaimed name fire_id_ms (sd_target d) (sd_delivery d) (sd_max_retries d) nxt,
                   fmupd name (r\<lparr>sc_definition := d\<lparr>sd_next_fire_ms := nxt\<rparr>,
                     sc_history := trim_history (sc_history r @ [run])\<rparr>) schedules))"

definition apply_schedule_set_enabled ::
  "string \<Rightarrow> bool \<Rightarrow> u64 \<Rightarrow> bool \<Rightarrow> schedule_store \<Rightarrow> schedule_response \<times> schedule_store" where
  "apply_schedule_set_enabled name enabled now_ms catch_up schedules =
     (case fmlookup schedules name of
        None \<Rightarrow> (ScheduleNotFound name, schedules)
      | Some r \<Rightarrow>
          let d = sc_definition r;
              nxt = (if enabled \<and> \<not> catch_up
                then (case sd_one_shot_at_ms d of
                    Some one_shot \<Rightarrow> if one_shot > now_ms then Some one_shot else None
                  | None \<Rightarrow> next_fire_for (sd_cron d) None now_ms)
                else sd_next_fire_ms d)
          in (ScheduleUpdated (sd_enabled d \<noteq> enabled) name enabled catch_up nxt,
              fmupd name (r\<lparr>sc_definition := d\<lparr>sd_enabled := enabled, sd_next_fire_ms := nxt\<rparr>\<rparr>) schedules))"

definition apply_schedule_delete :: "string \<Rightarrow> schedule_store \<Rightarrow> schedule_response \<times> schedule_store" where
  "apply_schedule_delete name schedules =
     (ScheduleDeleted (fmlookup schedules name \<noteq> None) name, fmdrop name schedules)"

definition apply_schedule_trigger ::
  "string \<Rightarrow> u64 \<Rightarrow> u64 \<Rightarrow> schedule_store \<Rightarrow> schedule_response \<times> schedule_store" where
  "apply_schedule_trigger name fire_id_ms requested_at_ms schedules =
     (case fmlookup schedules name of
        None \<Rightarrow> (ScheduleNotFound name, schedules)
      | Some r \<Rightarrow>
          let fire_id = show_word fire_id_ms
          in if list_ex (\<lambda>run. ru_fire_id run = fire_id) (sc_history r)
             then (TriggerDuplicate name fire_id_ms, schedules)
             else
               let run = pending_run fire_id requested_at_ms Manual (sd_target (sc_definition r))
               in (Triggered name fire_id_ms requested_at_ms,
                   fmupd name (r\<lparr>sc_history := trim_history (sc_history r @ [run])\<rparr>) schedules))"

text \<open>\<open>iter_mut().rev().find(..)\<close>: the last run with the fire id, and its replacement.\<close>

fun update_last :: "('a \<Rightarrow> bool) \<Rightarrow> ('a \<Rightarrow> 'a) \<Rightarrow> 'a list \<Rightarrow> 'a list" where
  "update_last P f [] = []"
| "update_last P f (x # xs) = (if P x \<and> \<not> list_ex P xs then f x # xs else x # update_last P f xs)"

definition apply_schedule_record_result ::
  "string \<Rightarrow> u64 \<Rightarrow> bool \<Rightarrow> u32 \<Rightarrow> string option \<Rightarrow> string option \<Rightarrow> u16 option \<Rightarrow> u64 option \<Rightarrow> u64 option \<Rightarrow>
     string option \<Rightarrow> string option \<Rightarrow> schedule_store \<Rightarrow> schedule_response \<times> schedule_store" where
  "apply_schedule_record_result name fire_id_ms delivered attempts err error_class http_status duration_ms
      completed_at_ms trace_id span_id schedules =
     (case fmlookup schedules name of
        None \<Rightarrow> (ScheduleNotFound name, schedules)
      | Some r \<Rightarrow>
          (let hit = (\<lambda>x. ru_fire_id x = show_word fire_id_ms);
               record_outcome = (\<lambda>x. x\<lparr>
                 ru_status := (if delivered then Delivered else RunFailed),
                 ru_attempts := attempts,
                 ru_error := bounded_schedule_text err,
                 ru_error_class := bounded_schedule_text error_class,
                 ru_http_status := http_status,
                 ru_duration_ms := duration_ms,
                 ru_completed_at_ms := completed_at_ms,
                 ru_trace_id := bounded_schedule_text trace_id,
                 ru_span_id := bounded_schedule_text span_id\<rparr>)
           in (case find hit (rev (sc_history r)) of
                 None \<Rightarrow> (NoRun name fire_id_ms, schedules)
               | Some x \<Rightarrow>
                   if ru_status x \<noteq> RunPending
                   then (ResultDuplicate name fire_id_ms (ru_status x = Delivered), schedules)
                   else (ResultRecorded name fire_id_ms delivered,
                     fmupd name (r\<lparr>sc_history := update_last hit record_outcome (sc_history r)\<rparr>) schedules))))"

fun apply_schedule :: "schedule_command \<Rightarrow> schedule_store \<Rightarrow> schedule_response \<times> schedule_store" where
  "apply_schedule (ScheduleUpsert name cron one_shot target delivery retries now_ms) s =
     apply_schedule_upsert name cron one_shot target delivery retries now_ms s"
| "apply_schedule (ScheduleRecordRun name fire_id fired_at_ms) s = apply_schedule_record_run name fire_id fired_at_ms s"
| "apply_schedule (ScheduleClaimFire name fire_id_ms) s = apply_schedule_claim_fire name fire_id_ms s"
| "apply_schedule (ScheduleRecordResult name fire_id_ms delivered attempts err) s =
     apply_schedule_record_result name fire_id_ms delivered attempts err None None None None None None s"
| "apply_schedule (ScheduleSetEnabled name enabled now_ms catch_up) s =
     apply_schedule_set_enabled name enabled now_ms catch_up s"
| "apply_schedule (ScheduleDelete name) s = apply_schedule_delete name s"
| "apply_schedule (ScheduleTrigger name fire_id_ms requested_at_ms) s =
     apply_schedule_trigger name fire_id_ms requested_at_ms s"
| "apply_schedule (ScheduleRecordResultV2 name fire_id_ms delivered attempts err error_class http_status
      duration_ms completed_at_ms trace_id span_id) s =
     apply_schedule_record_result name fire_id_ms delivered attempts err error_class http_status
       (Some duration_ms) (Some completed_at_ms) trace_id span_id s"

definition schedule_get :: "string \<Rightarrow> schedule_store \<Rightarrow> schedule option" where
  "schedule_get name schedules = map_option sc_definition (fmlookup schedules name)"

definition schedule_history :: "string \<Rightarrow> schedule_store \<Rightarrow> schedule_run list" where
  "schedule_history name schedules = (case fmlookup schedules name of None \<Rightarrow> [] | Some r \<Rightarrow> sc_history r)"

definition schedule_list :: "schedule_store \<Rightarrow> schedule list" where
  "schedule_list schedules = sort_key sd_name (map sc_definition (fmvalues schedules))"

lemmas schedule_defs = apply_schedule_upsert_def apply_schedule_record_run_def apply_schedule_claim_fire_def
  apply_schedule_set_enabled_def apply_schedule_delete_def apply_schedule_trigger_def
  apply_schedule_record_result_def Let_def

subsection \<open>Firing\<close>

text \<open>A fire time from which the minute search cannot reach the end of the 64-bit range.\<close>

definition far_from_end :: "u64 \<Rightarrow> bool" where
  "far_from_end f \<longleftrightarrow> unat f + (MAX_SEARCH_MINUTES + 1) * 60000 < 2 ^ 64"

lemma next_fire_later:
  assumes "far_from_end f" "next_fire_for cron None f = Some t"
  shows "f < t"
proof -
  obtain c where c: "next_after c f = Some t"
    using assms(2) by (auto simp: next_fire_for_def split: option.splits sum.splits)
  show ?thesis using next_after_later [OF assms(1)[unfolded far_from_end_def] c] .
qed

fun reconfigures :: "schedule_command \<Rightarrow> string \<Rightarrow> bool" where
  "reconfigures (ScheduleUpsert n _ _ _ _ _ _) name \<longleftrightarrow> n = name"
| "reconfigures (ScheduleSetEnabled n _ _ _) name \<longleftrightarrow> n = name"
| "reconfigures (ScheduleDelete n) name \<longleftrightarrow> n = name"
| "reconfigures _ name \<longleftrightarrow> False"

fun claims_fire :: "string \<Rightarrow> u64 \<Rightarrow> schedule_command \<Rightarrow> schedule_response \<Rightarrow> bool" where
  "claims_fire name f (ScheduleClaimFire n i) (FireClaimed _ _ _ _ _ _) \<longleftrightarrow> n = name \<and> i = f"
| "claims_fire name f _ _ \<longleftrightarrow> False"

text \<open>The cursor has moved past a fire.\<close>

definition past :: "string \<Rightarrow> u64 \<Rightarrow> schedule_store \<Rightarrow> bool" where
  "past name f s = (\<forall>r t. fmlookup s name = Some r \<longrightarrow> sd_next_fire_ms (sc_definition r) = Some t \<longrightarrow> f < t)"

lemma claims_fireD:
  assumes "claims_fire name f c (fst (apply_schedule c s))"
  shows "c = ScheduleClaimFire name f"
    and "\<exists>r. fmlookup s name = Some r \<and> sd_next_fire_ms (sc_definition r) = Some f"
proof -
  show c: "c = ScheduleClaimFire name f"
    using assms by (cases "(name, f, c, fst (apply_schedule c s))" rule: claims_fire.cases) auto
  show "\<exists>r. fmlookup s name = Some r \<and> sd_next_fire_ms (sc_definition r) = Some f"
    using assms unfolding c by (auto simp: schedule_defs split: option.splits if_splits)
qed

lemma claim_moves_cursor:
  assumes "far_from_end f" "fmlookup s name = Some r" "sd_next_fire_ms (sc_definition r) = Some f"
    "sd_enabled (sc_definition r)"
  shows "past name f (snd (apply_schedule (ScheduleClaimFire name f) s))"
  using assms next_fire_later [OF assms(1)] by (auto simp: past_def schedule_defs)

lemma past_stays:
  assumes "past name f s" "\<not> reconfigures c name" "\<And>i. c = ScheduleClaimFire name i \<Longrightarrow> far_from_end i"
  shows "past name f (snd (apply_schedule c s))"
proof (cases c)
  case (ScheduleClaimFire n i)
  show ?thesis
  proof (cases "n = name \<and> (\<exists>r. fmlookup s name = Some r \<and> sd_enabled (sc_definition r) \<and> sd_next_fire_ms (sc_definition r) = Some i)")
    case True
    then obtain r where r: "n = name" "fmlookup s name = Some r" "sd_enabled (sc_definition r)"
      "sd_next_fire_ms (sc_definition r) = Some i" by auto
    have "f < i" using assms(1) r by (auto simp: past_def)
    then show ?thesis
      using claim_moves_cursor [OF assms(3) r(2,4,3)] r(1) ScheduleClaimFire
      by (auto simp: past_def intro: order_less_trans)
  next
    case False
    then show ?thesis using assms(1) ScheduleClaimFire by (auto simp: past_def schedule_defs split: option.split)
  qed
qed (use assms in \<open>auto simp: past_def schedule_defs split: option.split\<close>)

text \<open>C24. In every log that does not reconfigure a schedule (no upsert, pause, resume or delete of its name),
  each fire of it is claimed at most once, whatever the other commands of the log are; the fires claimed
  lie far enough from the end of the 64-bit range for the minute search not to wrap.\<close>

theorem schedule_fire_claimed_at_most_once:
  assumes "\<forall>c \<in> set cs. \<not> reconfigures c name"
    and "\<forall>c \<in> set cs. \<forall>i. c = ScheduleClaimFire name i \<longrightarrow> far_from_end i"
  shows "length (filter (\<lambda>(c, a). claims_fire name f c a) (answers apply_schedule cs s)) \<le> 1"
proof (rule run_at_most_once [where D = "past name f"])
  fix c and s :: schedule_store
  assume c: "c \<in> set cs"
  show "past name f (snd (apply_schedule c s))" if "claims_fire name f c (fst (apply_schedule c s))"
  proof -
    from claims_fireD [OF that] obtain r where r: "c = ScheduleClaimFire name f" "fmlookup s name = Some r"
      "sd_next_fire_ms (sc_definition r) = Some f" by blast
    have "sd_enabled (sc_definition r)" using that r by (auto simp: schedule_defs split: if_splits)
    then show ?thesis using claim_moves_cursor r assms(2) c by blast
  qed
  show "past name f (snd (apply_schedule c s))" if "past name f s"
    using past_stays [OF that] assms c by blast
  show "\<not> claims_fire name f c (fst (apply_schedule c s))" if "past name f s"
    using claims_fireD(2) [of name f c s] that unfolding past_def by fastforce
qed

definition launch :: schedule_command where
  "launch = ScheduleUpsert ''launch'' None (Some 5000) (Webhook ''https://a'') ExactlyOnce 3 1000"

definition launch_armed :: schedule_store where
  "launch_armed = snd (apply_schedule launch fmempty)"

theorem schedule_fire_claimed_at_most_once_witness:
  "length (filter (\<lambda>(c, a). claims_fire ''launch'' 5000 c a)
     (answers apply_schedule [ScheduleClaimFire ''launch'' 5000, ScheduleClaimFire ''launch'' 5000] launch_armed)) \<le> 1"
  by (rule schedule_fire_claimed_at_most_once) (auto simp: far_from_end_def MAX_SEARCH_MINUTES_eval)

text \<open>Repeating the upsert of a one-shot that was already claimed and delivered arms it again: the same fire
  is claimed a second time, so one fire has two runs in the history.\<close>

theorem upsert_rearms_delivered_one_shot:
  "map (\<lambda>(c, a). claims_fire ''launch'' 5000 c a) (answers apply_schedule
       [launch, ScheduleClaimFire ''launch'' 5000, ScheduleRecordResult ''launch'' 5000 True 1 None,
        launch, ScheduleClaimFire ''launch'' 5000] fmempty) = [False, True, False, False, True] \<and>
   map ru_fire_id (schedule_history ''launch'' (final apply_schedule
       [launch, ScheduleClaimFire ''launch'' 5000, ScheduleRecordResult ''launch'' 5000 True 1 None,
        launch, ScheduleClaimFire ''launch'' 5000] fmempty)) = [show_word (5000 :: u64), show_word (5000 :: u64)]"
  by (simp add: run_simps launch_def schedule_defs next_fire_for_def pending_run_def trim_history_def
      MAX_SCHEDULE_HISTORY_def bounded_schedule_text_def schedule_history_def)

subsection \<open>Bounds on the recorded history\<close>

lemma length_trim_history: "length (trim_history xs) \<le> MAX_SCHEDULE_HISTORY"
  by (simp add: trim_history_def Let_def)

lemma length_update_last [simp]: "length (update_last P f xs) = length xs"
  by (induction xs) auto

lemma set_update_last: "set (update_last P f xs) \<subseteq> set xs \<union> f ` set xs"
  by (induction xs) auto

lemma set_trim_history: "set (trim_history xs) \<subseteq> set xs"
  by (auto simp: trim_history_def Let_def dest: in_set_dropD)

lemma boundary_before_le: "boundary_before text n \<le> n"
  by (induction n) auto

lemma boundary_before_is_boundary: "is_char_boundary text (boundary_before text n)"
  by (induction n) (auto simp: is_char_boundary_def)

definition short_text :: "string option \<Rightarrow> bool" where
  "short_text v = (case v of None \<Rightarrow> True | Some t \<Rightarrow> length t \<le> MAX_BYTES)"

lemma short_bounded [simp]: "short_text (bounded_schedule_text v)"
proof (cases v)
  case (Some t)
  then show ?thesis using boundary_before_le [of t MAX_BYTES]
    by (simp add: short_text_def bounded_schedule_text_def)
qed (simp add: short_text_def bounded_schedule_text_def)

definition short_run :: "schedule_run \<Rightarrow> bool" where
  "short_run r = (short_text (ru_error r) \<and> short_text (ru_error_class r) \<and> short_text (ru_trace_id r) \<and>
     short_text (ru_span_id r))"

definition schedule_inv :: "schedule_store \<Rightarrow> bool" where
  "schedule_inv s = (\<forall>n r. fmlookup s n = Some r \<longrightarrow> sd_name (sc_definition r) = n \<and>
     length (sc_history r) \<le> MAX_SCHEDULE_HISTORY \<and> list_all short_run (sc_history r))"

lemma short_trim: "list_all short_run xs \<Longrightarrow> list_all short_run (trim_history xs)"
  using set_trim_history by (fastforce simp: list_all_iff)

lemma short_update:
  "list_all short_run xs \<Longrightarrow> (\<And>x. short_run x \<Longrightarrow> short_run (f x)) \<Longrightarrow> list_all short_run (update_last P f xs)"
  using set_update_last [of P f xs] by (fastforce simp: list_all_iff)

lemma schedule_inv_upd:
  "schedule_inv s \<Longrightarrow> sd_name (sc_definition r) = n \<Longrightarrow> length (sc_history r) \<le> MAX_SCHEDULE_HISTORY \<Longrightarrow>
    list_all short_run (sc_history r) \<Longrightarrow> schedule_inv (fmupd n r s)"
  by (simp add: schedule_inv_def)

lemma schedule_invD:
  assumes "schedule_inv s" "fmlookup s n = Some r"
  shows "sd_name (sc_definition r) = n" "length (sc_history r) \<le> MAX_SCHEDULE_HISTORY"
    "list_all short_run (sc_history r)"
  using assms by (simp_all add: schedule_inv_def)

lemma short_text_None [simp]: "short_text None"
  by (simp add: short_text_def)

lemma record_result_inv:
  "schedule_inv s \<Longrightarrow> schedule_inv (snd (apply_schedule_record_result n i d a e ec h du co t sp s))"
  by (auto simp: apply_schedule_record_result_def Let_def short_run_def
      intro!: schedule_inv_upd short_update intro: schedule_invD split: option.split)

lemma schedule_push_inv:
  assumes "schedule_inv s" "fmlookup s n = Some r" "short_run x"
  shows "sd_name d = n \<Longrightarrow>
      schedule_inv (fmupd n (r\<lparr>sc_definition := d, sc_history := trim_history (sc_history r @ [x])\<rparr>) s)"
    "schedule_inv (fmupd n (r\<lparr>sc_history := trim_history (sc_history r @ [x])\<rparr>) s)"
  using assms schedule_invD [OF assms(1,2)]
  by (simp_all add: schedule_inv_upd short_trim length_trim_history)

lemma apply_schedule_inv:
  assumes "schedule_inv s"
  shows "schedule_inv (snd (apply_schedule c s))"
proof (cases c)
  case (ScheduleDelete n)
  then show ?thesis using assms by (auto simp: schedule_defs schedule_inv_def)
next
  case (ScheduleUpsert n)
  then show ?thesis using assms
    by (auto simp: apply_schedule_upsert_def Let_def schedule_invD [OF assms] intro!: schedule_inv_upd split: option.split)
next
  case (ScheduleSetEnabled n)
  then show ?thesis using assms
    by (auto simp: apply_schedule_set_enabled_def Let_def schedule_invD [OF assms] intro!: schedule_inv_upd split: option.split)
qed (use assms in \<open>auto simp: apply_schedule_record_run_def apply_schedule_claim_fire_def apply_schedule_trigger_def
    Let_def record_result_inv schedule_push_inv schedule_invD short_run_def pending_run_def split: option.split\<close>)

text \<open>In every state reached from the empty store each schedule keeps at most 100 runs, every diagnostic
  text of a run is at most 512 bytes, and a text is cut to a prefix that ends on a character boundary.\<close>

theorem schedule_history_is_bounded:
  "length (schedule_history name (final apply_schedule cs fmempty)) \<le> 100 \<and>
   list_all short_run (schedule_history name (final apply_schedule cs fmempty)) \<and>
   (\<exists>i. bounded_schedule_text (Some val) = Some (take i val) \<and> is_char_boundary val (min i (length val)))"
proof -
  have "schedule_inv (final apply_schedule cs fmempty)"
    by (rule run_invariant [where I = schedule_inv]) (simp_all add: apply_schedule_inv, simp add: schedule_inv_def)
  then have "length (schedule_history name (final apply_schedule cs fmempty)) \<le> 100 \<and>
      list_all short_run (schedule_history name (final apply_schedule cs fmempty))"
    by (auto simp: schedule_history_def schedule_inv_def MAX_SCHEDULE_HISTORY_def split: option.split)
  moreover have "\<exists>i. bounded_schedule_text (Some val) = Some (take i val) \<and> is_char_boundary val (min i (length val))"
  proof (cases "length val > MAX_BYTES")
    case True
    then show ?thesis using boundary_before_le [of val MAX_BYTES] boundary_before_is_boundary [of val MAX_BYTES]
      by (intro exI [of _ "boundary_before val MAX_BYTES"]) (simp add: bounded_schedule_text_def min_def)
  qed (auto simp: bounded_schedule_text_def is_char_boundary_def intro!: exI [of _ "length val"])
  ultimately show ?thesis by blast
qed

end
