(* ===== verification/Floats.thy ===== *)
theory Floats
  imports Prelude Complex_Main
begin

section \<open>Double-precision arithmetic\<close>

text \<open>
  The IEEE 754 binary64 values and operations the token bucket of \<open>src/state.rs\<close> computes with. A finite
  value is the rational it denotes; every operation is the exact rational result rounded to the nearest
  representable value, ties to even. The two zeros are identified: the code never divides by a zero and
  prints no sign.
\<close>

unbundle bit_operations_syntax

datatype f64 = NaN | Inf bool | Fin rat

definition pow2 :: "int \<Rightarrow> rat" where
  "pow2 k = (if 0 \<le> k then 2 ^ nat k else 1 / 2 ^ nat (- k))"

fun bit_length :: "nat \<Rightarrow> nat" where
  "bit_length n = (if n = 0 then 0 else Suc (bit_length (n div 2)))"

declare bit_length.simps [simp del]

text \<open>The exponent of the leading bit of a positive rational.\<close>

definition leading_exponent :: "rat \<Rightarrow> int" where
  "leading_exponent x =
     (let (p, q) = quotient_of x;
          e = int (bit_length (nat p)) - int (bit_length (nat q))
      in if x < pow2 e then e - 1 else e)"

definition round_half_even :: "rat \<Rightarrow> int" where
  "round_half_even x =
     (let f = \<lfloor>x\<rfloor>; d = x - of_int f
      in if d < 1 / 2 then f else if 1 / 2 < d then f + 1 else if even f then f else f + 1)"

definition quantum :: "rat \<Rightarrow> int" where
  "quantum x = max (leading_exponent \<bar>x\<bar>) (- 1022) - 52"

definition round64 :: "rat \<Rightarrow> f64" where
  "round64 x =
     (if x = 0 then Fin 0
      else let k = quantum x; r = of_int (round_half_even (x / pow2 k)) * pow2 k
           in if pow2 1024 \<le> \<bar>r\<bar> then Inf (x < 0) else Fin r)"

definition f64_of_bits :: "u64 \<Rightarrow> f64" where
  "f64_of_bits b =
     (let e = unat (drop_bit 52 b AND 2047); m = unat (b AND mask 52); neg = bit b 63;
          sgn = (\<lambda>x. if neg then - x else x)
      in if e = 2047 then (if m = 0 then Inf neg else NaN)
         else if e = 0 then Fin (sgn (of_nat m * pow2 (- 1074)))
         else Fin (sgn (of_nat (2 ^ 52 + m) * pow2 (int e - 1075))))"

definition f64_of_word :: "'a::len word \<Rightarrow> f64" where
  "f64_of_word w = round64 (of_nat (unat w))"

fun f64_add :: "f64 \<Rightarrow> f64 \<Rightarrow> f64" where
  "f64_add (Fin x) (Fin y) = round64 (x + y)"
| "f64_add (Inf a) (Inf b) = (if a = b then Inf a else NaN)"
| "f64_add (Inf a) (Fin y) = Inf a"
| "f64_add (Fin x) (Inf b) = Inf b"
| "f64_add _ _ = NaN"

fun f64_neg :: "f64 \<Rightarrow> f64" where
  "f64_neg NaN = NaN"
| "f64_neg (Inf a) = Inf (\<not> a)"
| "f64_neg (Fin x) = Fin (- x)"

definition f64_sub :: "f64 \<Rightarrow> f64 \<Rightarrow> f64" where
  "f64_sub a b = f64_add a (f64_neg b)"

fun f64_mul :: "f64 \<Rightarrow> f64 \<Rightarrow> f64" where
  "f64_mul (Fin x) (Fin y) = round64 (x * y)"
| "f64_mul (Inf a) (Inf b) = Inf (a \<noteq> b)"
| "f64_mul (Inf a) (Fin y) = (if y = 0 then NaN else Inf (a \<noteq> (y < 0)))"
| "f64_mul (Fin x) (Inf b) = (if x = 0 then NaN else Inf ((x < 0) \<noteq> b))"
| "f64_mul _ _ = NaN"

fun f64_div :: "f64 \<Rightarrow> f64 \<Rightarrow> f64" where
  "f64_div (Fin x) (Fin y) = (if y = 0 then (if x = 0 then NaN else Inf (x < 0)) else round64 (x / y))"
| "f64_div (Inf a) (Fin y) = Inf (a \<noteq> (y < 0))"
| "f64_div (Fin x) (Inf b) = Fin 0"
| "f64_div _ _ = NaN"

text \<open>Comparison: every comparison with NaN is false.\<close>

fun f64_le :: "f64 \<Rightarrow> f64 \<Rightarrow> bool" where
  "f64_le (Fin x) (Fin y) = (x \<le> y)"
| "f64_le (Inf a) (Inf b) = (a \<or> \<not> b)"
| "f64_le (Inf a) (Fin y) = a"
| "f64_le (Fin x) (Inf b) = (\<not> b)"
| "f64_le _ _ = False"

text \<open>\<open>f64::max\<close> ignores a NaN operand; \<open>f64::clamp\<close> is called on a number.\<close>

definition f64_max :: "f64 \<Rightarrow> f64 \<Rightarrow> f64" where
  "f64_max a b = (if a = NaN then b else if b = NaN then a else if f64_le a b then b else a)"

definition f64_clamp :: "f64 \<Rightarrow> f64 \<Rightarrow> f64 \<Rightarrow> f64" where
  "f64_clamp lo hi a = (if \<not> f64_le lo a then lo else if \<not> f64_le a hi then hi else a)"

fun f64_floor :: "f64 \<Rightarrow> f64" where
  "f64_floor (Fin x) = Fin (of_int \<lfloor>x\<rfloor>)"
| "f64_floor a = a"

fun f64_ceil :: "f64 \<Rightarrow> f64" where
  "f64_ceil (Fin x) = Fin (of_int \<lceil>x\<rceil>)"
| "f64_ceil a = a"

text \<open>A cast to an unsigned integer truncates and saturates; NaN is 0.\<close>

fun f64_to_word :: "f64 \<Rightarrow> 'a::len word" where
  "f64_to_word NaN = 0"
| "f64_to_word (Inf a) = (if a then 0 else - 1)"
| "f64_to_word (Fin x) = (if x \<le> 0 then 0 else if of_nat (2 ^ LENGTH('a)) \<le> x then - 1 else word_of_int \<lfloor>x\<rfloor>)"

subsection \<open>Rounding against an integer bound\<close>

lemma pow2_pos [simp]: "0 < pow2 k"
  by (simp add: pow2_def)

lemma round_half_even_le:
  assumes "x \<le> of_int m"
  shows "round_half_even x \<le> m"
proof (cases "x = of_int m")
  case False
  then have "\<lfloor>x\<rfloor> < m" using assms by (simp add: floor_less_iff)
  then show ?thesis by (auto simp: round_half_even_def Let_def)
qed (simp add: round_half_even_def)

lemma round_half_even_ge:
  assumes "of_int m \<le> x"
  shows "m \<le> round_half_even x"
proof -
  have "m \<le> \<lfloor>x\<rfloor>" using assms by (simp add: le_floor_iff)
  then show ?thesis by (auto simp: round_half_even_def Let_def)
qed

lemma bit_length_bounds: "0 < n \<Longrightarrow> 2 ^ (bit_length n - 1) \<le> n \<and> n < 2 ^ bit_length n \<and> 0 < bit_length n"
proof (induction n rule: bit_length.induct)
  case (1 n)
  show ?case
  proof (cases "n div 2 = 0")
    case True
    then have "n = 1" using "1.prems" by linarith
    then show ?thesis by (simp add: bit_length.simps)
  next
    case False
    with 1 have ih: "2 ^ (bit_length (n div 2) - 1) \<le> n div 2" "n div 2 < 2 ^ bit_length (n div 2)"
      "0 < bit_length (n div 2)" by auto
    have b: "bit_length n = Suc (bit_length (n div 2))" using "1.prems" by (simp add: bit_length.simps [of n])
    obtain k where k: "bit_length (n div 2) = Suc k" using ih(3) by (cases "bit_length (n div 2)") auto
    have "2 * 2 ^ k \<le> n" "n < 2 * (2 * 2 ^ k)" using ih(1,2) unfolding k by simp_all
    then show ?thesis by (simp add: b k)
  qed
qed

lemma leading_exponent_le:
  assumes "0 < x" "x < 2 ^ n"
  shows "leading_exponent x \<le> int n"
proof -
  obtain p q where pq: "quotient_of x = (p, q)" by fastforce
  have q: "0 < q" "x = of_int p / of_int q" using pq quotient_of_denom_pos quotient_of_div by auto
  then have p: "0 < p" using assms(1) by (simp add: zero_less_divide_iff)
  let ?a = "bit_length (nat p)" and ?b = "bit_length (nat q)"
  have a: "2 ^ (?a - 1) \<le> nat p" "0 < ?a" and b: "nat q < 2 ^ ?b"
    using bit_length_bounds [of "nat p"] bit_length_bounds [of "nat q"] p q by auto
  have "(2 :: rat) ^ (?a - 1) \<le> of_nat (nat p)" using a(1) by (metis of_nat_le_iff of_nat_numeral of_nat_power)
  then have lo: "(2 :: rat) ^ (?a - 1) \<le> of_int p" using p by simp
  have "of_nat (nat q) < (2 :: rat) ^ ?b" using b by (metis of_nat_less_iff of_nat_numeral of_nat_power)
  then have hi: "of_int q < (2 :: rat) ^ ?b" using q by simp
  have "(2 :: rat) ^ (?a - 1) < 2 ^ n * 2 ^ ?b"
  proof -
    have "of_int p = x * of_int q" using q by simp
    also have "\<dots> < 2 ^ n * 2 ^ ?b" using assms hi q(1) by (intro mult_strict_mono) auto
    finally show ?thesis using lo by (rule le_less_trans [rotated])
  qed
  then have "(2 :: rat) ^ (?a - 1) < 2 ^ (n + ?b)" by (simp add: power_add)
  then have "?a - 1 < n + ?b" by (rule power_less_imp_less_exp [rotated]) simp
  then have "int ?a - int ?b \<le> int n" using a(2) by linarith
  then show ?thesis using pq by (simp add: leading_exponent_def Let_def)
qed

lemma pow2_scale: "k \<le> 0 \<Longrightarrow> of_int (int m * 2 ^ nat (- k)) * pow2 k = of_nat m"
  by (cases "k = 0") (simp_all add: pow2_def)

lemma quantum_nonpos:
  assumes "0 < x" "x \<le> of_nat m" "m < 2 ^ 52"
  shows "quantum x \<le> 0"
proof -
  have "of_nat m < (of_nat (2 ^ 52) :: rat)" using assms(3) by (simp only: of_nat_less_iff)
  then have "x < 2 ^ 52" using assms(2) by simp
  then have "leading_exponent x \<le> 52" using leading_exponent_le [OF assms(1), of 52] by simp
  then show ?thesis using assms(1) by (simp add: quantum_def)
qed

lemma below_overflow:
  assumes "m < 2 ^ 52" "0 \<le> r" "r \<le> of_nat m"
  shows "\<not> pow2 1024 \<le> \<bar>r\<bar>"
proof -
  have "of_nat m < (of_nat (2 ^ 52) :: rat)" using assms(1) by (simp only: of_nat_less_iff)
  also have "\<dots> = 2 ^ 52" by simp
  also have "(2 :: rat) ^ 52 \<le> 2 ^ 1024" by (rule power_increasing) simp_all
  also have "\<dots> = pow2 1024" by (simp add: pow2_def)
  finally show ?thesis using assms(2,3) by linarith
qed

lemma scaled_le:
  assumes "k \<le> 0" "x \<le> of_nat m"
  shows "of_int (round_half_even (x / pow2 k)) * pow2 k \<le> of_nat m"
proof -
  have "x / pow2 k \<le> of_int (int m * 2 ^ nat (- k))"
    using assms(2) unfolding pos_divide_le_eq [OF pow2_pos] pow2_scale [OF assms(1)] .
  then have "round_half_even (x / pow2 k) \<le> int m * 2 ^ nat (- k)" by (rule round_half_even_le)
  then have "(of_int (round_half_even (x / pow2 k)) :: rat) \<le> of_int (int m * 2 ^ nat (- k))"
    by (simp only: of_int_le_iff)
  then have "of_int (round_half_even (x / pow2 k)) * pow2 k \<le> of_int (int m * 2 ^ nat (- k)) * pow2 k"
    by (rule mult_right_mono) (rule less_imp_le [OF pow2_pos])
  then show ?thesis unfolding pow2_scale [OF assms(1)] .
qed

lemma scaled_ge:
  assumes "k \<le> 0" "of_nat m \<le> x"
  shows "of_nat m \<le> of_int (round_half_even (x / pow2 k)) * pow2 k"
proof -
  have "of_int (int m * 2 ^ nat (- k)) \<le> x / pow2 k"
    using assms(2) unfolding pos_le_divide_eq [OF pow2_pos] pow2_scale [OF assms(1)] .
  then have "int m * 2 ^ nat (- k) \<le> round_half_even (x / pow2 k)" by (rule round_half_even_ge)
  then have "of_int (int m * 2 ^ nat (- k)) \<le> (of_int (round_half_even (x / pow2 k)) :: rat)"
    by (simp only: of_int_le_iff)
  then have "of_int (int m * 2 ^ nat (- k)) * pow2 k \<le> of_int (round_half_even (x / pow2 k)) * pow2 k"
    by (rule mult_right_mono) (rule less_imp_le [OF pow2_pos])
  then show ?thesis unfolding pow2_scale [OF assms(1)] .
qed

text \<open>A value between two integers below \<open>2 ^ 52\<close> rounds to a finite value between them.\<close>

lemma round64_between:
  assumes "of_nat l \<le> x" "x \<le> of_nat m" "m < 2 ^ 52"
  obtains r where "round64 x = Fin r" "of_nat l \<le> r" "r \<le> of_nat m"
proof (cases "x = 0")
  case True
  then show ?thesis using that [of 0] assms by (simp add: round64_def)
next
  case False
  let ?k = "quantum x" and ?r = "of_int (round_half_even (x / pow2 (quantum x))) * pow2 (quantum x)"
  have "0 < x" using False assms(1) order_trans [OF of_nat_0_le_iff assms(1)] by linarith
  note k = quantum_nonpos [OF this assms(2,3)]
  note lo = scaled_ge [OF k assms(1)] and hi = scaled_le [OF k assms(2)]
  have "\<not> pow2 1024 \<le> \<bar>?r\<bar>"
    using below_overflow [OF assms(3) _ hi] lo order_trans [OF of_nat_0_le_iff lo] by blast
  then have "round64 x = Fin ?r" using False by (simp add: round64_def Let_def)
  then show ?thesis using that lo hi by blast
qed

lemma round64_integer: "m < 2 ^ 52 \<Longrightarrow> round64 (of_nat m) = Fin (of_nat m)"
  using round64_between [of m "of_nat m" m] by (metis order_antisym order_refl)

lemma f64_of_u32: "f64_of_word (w :: u32) = Fin (of_nat (unat w))"
proof -
  have "unat w < 2 ^ 52" using unat_lt_2p [of w] by simp
  then show ?thesis unfolding f64_of_word_def by (rule round64_integer)
qed

end
