(* ===== verification/Rate_Limit.thy ===== *)
theory Rate_Limit
  imports Floats Lifecycles
begin

section \<open>Rate limits\<close>

text \<open>
  \<open>RateLimitRecord\<close>, \<open>RateLimitSnapshot\<close>, \<open>clamp_tokens\<close>, \<open>rate_limit_store_key\<close>,
  \<open>apply_rate_limit_check\<close> and \<open>rate_limit_snapshot\<close> of \<open>src/state.rs\<close>, with the arm of \<open>apply_at\<close>
  that raises the cost to at least one. The refill rate of a command is the bit pattern of its \<open>f64\<close>.
\<close>

datatype rate_limit_algorithm = TokenBucket | SlidingWindow

record rate_limit_record =
  rl_algorithm :: rate_limit_algorithm
  rl_limit :: u32
  rl_window_ms :: u64
  rl_tokens :: f64
  rl_updated_ms :: u64
  rl_events :: "u64 list"
  rl_last_allowed :: bool

record rate_limit_snap =
  rs_key :: string
  rs_tenant :: string
  rs_algorithm :: rate_limit_algorithm
  rs_allowed :: bool
  rs_remaining :: u32
  rs_reset_ms :: u64

record rate_limit_check_input =
  ri_key :: string
  ri_tenant :: string
  ri_algorithm :: rate_limit_algorithm
  ri_limit :: u32
  ri_window_ms :: u64
  ri_refill_per_second :: "u64 option"
  ri_cost :: u32

type_synonym rate_limit_store = "(string, rate_limit_record) fmap"

datatype rate_limit_response = RateLimitAnswer (allowed: bool) u32 u64 string string rate_limit_algorithm

definition clamp_tokens :: "f64 \<Rightarrow> u32 \<Rightarrow> f64" where
  "clamp_tokens tokens limit = (if tokens = NaN then Fin 0 else f64_clamp (Fin 0) (f64_of_word limit) tokens)"

definition rate_limit_store_key :: "string \<Rightarrow> string \<Rightarrow> string" where
  "rate_limit_store_key tenant key = tenant @ '':'' @ key"

definition token_bucket ::
  "u64 \<Rightarrow> u32 \<Rightarrow> u64 \<Rightarrow> u64 option \<Rightarrow> u32 \<Rightarrow> rate_limit_record \<Rightarrow> (bool \<times> u32 \<times> u64) \<times> rate_limit_record" where
  "token_bucket now limit window_ms refill_per_second cost r =
     (let refill = (case refill_per_second of Some b \<Rightarrow> f64_of_bits b
            | None \<Rightarrow> f64_div (f64_of_word limit) (f64_div (f64_of_word (max window_ms 1)) (Fin 1000)));
          elapsed = f64_div (f64_of_word (sat_sub now (rl_updated_ms r))) (Fin 1000);
          tokens = clamp_tokens (f64_add (rl_tokens r) (f64_mul elapsed refill)) limit
      in if f64_le (f64_of_word cost) tokens
         then let left = f64_sub tokens (f64_of_word cost)
              in ((True, f64_to_word (f64_floor left), now), r\<lparr>rl_tokens := left, rl_updated_ms := now\<rparr>)
         else let missing = f64_sub (f64_of_word cost) tokens;
                  wait_ms = f64_to_word (f64_ceil
                    (f64_mul (f64_div missing (f64_max refill (round64 (1 / 1000000)))) (Fin 1000)))
              in ((False, f64_to_word (f64_floor tokens), sat_add now wait_ms),
                  r\<lparr>rl_tokens := tokens, rl_updated_ms := now\<rparr>))"

definition sliding_window ::
  "u64 \<Rightarrow> u32 \<Rightarrow> u64 \<Rightarrow> u32 \<Rightarrow> rate_limit_record \<Rightarrow> (bool \<times> u32 \<times> u64) \<times> rate_limit_record" where
  "sliding_window now limit window_ms cost r =
     (let cutoff = sat_sub now window_ms;
          events = dropWhile (\<lambda>ts. ts \<le> cutoff) (rl_events r);
          available = sat_sub limit (word_of_nat (length events))
      in if cost \<le> available
         then ((True, available - cost, sat_add now window_ms),
               r\<lparr>rl_events := events @ replicate (unat cost) now\<rparr>)
         else ((False, available, sat_add (case events of [] \<Rightarrow> now | ts # _ \<Rightarrow> ts) window_ms),
               r\<lparr>rl_events := events\<rparr>))"

definition apply_rate_limit_check ::
  "u64 \<Rightarrow> rate_limit_check_input \<Rightarrow> rate_limit_store \<Rightarrow> rate_limit_response \<times> rate_limit_store" where
  "apply_rate_limit_check now inp rate_limits =
     (let store_key = rate_limit_store_key (ri_tenant inp) (ri_key inp);
          r0 = (case fmlookup rate_limits store_key of Some r \<Rightarrow> r
            | None \<Rightarrow> \<lparr>rl_algorithm = ri_algorithm inp, rl_limit = ri_limit inp, rl_window_ms = ri_window_ms inp,
                rl_tokens = f64_of_word (ri_limit inp), rl_updated_ms = now, rl_events = [],
                rl_last_allowed = True\<rparr>);
          r1 = r0\<lparr>rl_algorithm := ri_algorithm inp, rl_limit := ri_limit inp, rl_window_ms := ri_window_ms inp\<rparr>;
          ((ok, remaining, reset_ms), r2) = (case ri_algorithm inp of
              TokenBucket \<Rightarrow>
                token_bucket now (ri_limit inp) (ri_window_ms inp) (ri_refill_per_second inp) (ri_cost inp) r1
            | SlidingWindow \<Rightarrow> sliding_window now (ri_limit inp) (ri_window_ms inp) (ri_cost inp) r1)
      in (RateLimitAnswer ok remaining reset_ms (ri_key inp) (ri_tenant inp) (rl_algorithm r2),
          fmupd store_key (r2\<lparr>rl_last_allowed := ok\<rparr>) rate_limits))"

text \<open>The arm of \<open>apply_at\<close>, at the proposer's time.\<close>

fun apply_rate_limit ::
  "u64 \<times> rate_limit_check_input \<Rightarrow> rate_limit_store \<Rightarrow> rate_limit_response \<times> rate_limit_store" where
  "apply_rate_limit (now, inp) s = apply_rate_limit_check now (inp\<lparr>ri_cost := max (ri_cost inp) 1\<rparr>) s"

definition rate_limit_snapshot :: "string \<Rightarrow> string \<Rightarrow> rate_limit_store \<Rightarrow> rate_limit_snap option" where
  "rate_limit_snapshot tenant key rate_limits =
     map_option (\<lambda>r. \<lparr>rs_key = key, rs_tenant = tenant, rs_algorithm = rl_algorithm r,
       rs_allowed = rl_last_allowed r,
       rs_remaining = (case rl_algorithm r of TokenBucket \<Rightarrow> f64_to_word (f64_floor (rl_tokens r))
         | SlidingWindow \<Rightarrow> sat_sub (rl_limit r) (word_of_nat (length (rl_events r)))),
       rs_reset_ms = sat_add (rl_updated_ms r) (rl_window_ms r)\<rparr>)
     (fmlookup rate_limits (rate_limit_store_key tenant key))"

subsection \<open>Token bucket: the level stays a number between 0 and the limit\<close>

declare of_nat_unat [simp del]

definition level_within :: "u32 \<Rightarrow> f64 \<Rightarrow> bool" where
  "level_within limit t = (case t of Fin x \<Rightarrow> 0 \<le> x \<and> x \<le> of_nat (unat limit) | _ \<Rightarrow> False)"

lemma level_withinE:
  assumes "level_within limit t"
  obtains x where "t = Fin x" "0 \<le> x" "x \<le> of_nat (unat limit)"
  using assms by (cases t) (auto simp: level_within_def)

lemma clamp_within: "level_within limit (clamp_tokens t limit)"
  by (cases t) (auto simp: clamp_tokens_def f64_clamp_def f64_of_u32 level_within_def)

lemma sub_within:
  assumes "level_within limit t" "f64_le (f64_of_word (cost :: u32)) t"
  shows "level_within limit (f64_sub t (f64_of_word cost))"
proof -
  obtain x where x: "t = Fin x" "0 \<le> x" "x \<le> of_nat (unat limit)" using level_withinE [OF assms(1)] .
  have c: "of_nat (unat cost) \<le> x" using assms(2) x by (simp add: f64_of_u32)
  have "x - of_nat (unat cost) \<le> of_nat (unat limit)" using x(3) by (simp add: diff_le_eq add_increasing2)
  moreover have "of_nat 0 \<le> x - of_nat (unat cost)" using c by simp
  moreover have "unat limit < 2 ^ 52" using unat_lt_2p [of limit] by simp
  ultimately obtain r where "round64 (x - of_nat (unat cost)) = Fin r" "of_nat 0 \<le> r" "r \<le> of_nat (unat limit)"
    using round64_between by blast
  then show ?thesis by (simp add: x(1) f64_sub_def f64_of_u32 level_within_def)
qed

lemma token_bucket_within: "level_within limit (rl_tokens (snd (token_bucket now limit w refill cost r)))"
  using clamp_within sub_within by (auto simp: token_bucket_def Let_def)

lemma level_within_mono: "level_within l t \<Longrightarrow> unat l \<le> unat m \<Longrightarrow> level_within m t"
proof (cases t)
  case (Fin x)
  assume "level_within l t" "unat l \<le> unat m"
  then have "0 \<le> x" "x \<le> of_nat (unat l)" "of_nat (unat l) \<le> (of_nat (unat m) :: rat)"
    using Fin by (simp_all add: level_within_def)
  then show ?thesis using Fin by (simp add: level_within_def)
qed (simp_all add: level_within_def)

lemma level_within_max: "level_within l t \<Longrightarrow> level_within (- 1) t"
  by (rule level_within_mono) (use unat_le_2p [of l] in simp_all)

lemma sliding_window_tokens [simp]: "rl_tokens (snd (sliding_window now limit w cost r)) = rl_tokens r"
  by (simp add: sliding_window_def Let_def)

definition levels_finite :: "rate_limit_store \<Rightarrow> bool" where
  "levels_finite s = (\<forall>k r. fmlookup s k = Some r \<longrightarrow> level_within (- 1) (rl_tokens r))"

lemma fresh_level: "level_within limit (f64_of_word limit)"
  by (simp add: f64_of_u32 level_within_def)

lemma apply_rate_limit_finite: "levels_finite s \<Longrightarrow> levels_finite (snd (apply_rate_limit c s))"
  using level_within_max [OF token_bucket_within] level_within_max [OF fresh_level]
  by (cases c) (auto simp: levels_finite_def apply_rate_limit_check_def Let_def case_prod_unfold
      split: rate_limit_algorithm.split option.split)

text \<open>C26. In every state reached from the empty store the token level of every record is a finite number that is
  not negative, and right after a token-bucket check, whatever the refill rate is (also when it is not a
  number or infinite), the level of that record is at most the limit of the check.\<close>

theorem token_levels_stay_finite:
  "levels_finite (final apply_rate_limit cs fmempty) \<and>
   (\<exists>r. fmlookup (snd (apply_rate_limit (now, inp\<lparr>ri_algorithm := TokenBucket\<rparr>) s))
      (rate_limit_store_key (ri_tenant inp) (ri_key inp)) = Some r \<and> level_within (ri_limit inp) (rl_tokens r))"
proof
  show "levels_finite (final apply_rate_limit cs fmempty)"
    by (rule run_invariant [where I = levels_finite])
      (simp_all add: apply_rate_limit_finite, simp add: levels_finite_def)
qed (simp add: apply_rate_limit_check_def Let_def case_prod_unfold token_bucket_within)

subsection \<open>Sliding window: at most the limit in every window\<close>

text \<open>The checks of one store key, and the times at which they admitted a unit of cost.\<close>

definition on_key :: "string \<Rightarrow> u64 \<times> rate_limit_check_input \<Rightarrow> bool" where
  "on_key sk c = (rate_limit_store_key (ri_tenant (snd c)) (ri_key (snd c)) = sk)"

definition admitted :: "string \<Rightarrow> ((u64 \<times> rate_limit_check_input) \<times> rate_limit_response) list \<Rightarrow> u64 list" where
  "admitted sk as = concat (map (\<lambda>(c, a). if on_key sk c \<and> allowed a
     then replicate (unat (max (ri_cost (snd c)) 1)) (fst c) else []) as)"

definition in_window :: "u64 \<Rightarrow> nat \<Rightarrow> u64 \<Rightarrow> bool" where
  "in_window window_ms T t \<longleftrightarrow> unat t \<le> T \<and> T < unat t + unat window_ms"

definition window_check :: "string \<Rightarrow> u32 \<Rightarrow> u64 \<Rightarrow> u64 \<times> rate_limit_check_input \<Rightarrow> bool" where
  "window_check sk limit window_ms c \<longleftrightarrow> 0 < fst c \<and> (on_key sk c \<longrightarrow>
     ri_algorithm (snd c) = SlidingWindow \<and> ri_limit (snd c) = limit \<and> ri_window_ms (snd c) = window_ms)"

text \<open>The events of the record are the admitted times that the window of the last check still covers.\<close>

definition window_inv :: "string \<Rightarrow> u32 \<Rightarrow> u64 \<Rightarrow> u64 \<Rightarrow> u64 list \<Rightarrow> rate_limit_store \<Rightarrow> bool" where
  "window_inv sk limit w now adm s \<longleftrightarrow>
     sorted adm \<and> (\<forall>t \<in> set adm. 0 < t \<and> t \<le> now) \<and>
     (\<forall>T. length (filter (in_window w T) adm) \<le> unat limit) \<and>
     (\<exists>n \<le> now. (case fmlookup s sk of None \<Rightarrow> [] | Some r \<Rightarrow> rl_events r) =
        filter (\<lambda>t. unat n < unat t + unat w) adm)"

lemma window_inv_later: "window_inv sk limit w now adm s \<Longrightarrow> now \<le> now' \<Longrightarrow> window_inv sk limit w now' adm s"
  unfolding window_inv_def by (meson order_trans)

lemma cutoff_iff:
  assumes "0 < t"
  shows "t \<le> sat_sub now w \<longleftrightarrow> \<not> unat now < unat t + unat (w :: u64)"
proof (cases "now < w")
  case True
  then show ?thesis using assms by (auto simp: sat_sub_def word_less_nat_alt word_le_nat_alt)
next
  case False
  then have "unat (now - w) = unat now - unat w" by (simp add: unat_sub not_less)
  then show ?thesis using False assms by (auto simp: sat_sub_def word_less_nat_alt word_le_nat_alt)
qed

lemma dropWhile_sorted:
  "sorted (xs :: u64 list) \<Longrightarrow> dropWhile (\<lambda>t. t \<le> c) xs = filter (\<lambda>t. \<not> t \<le> c) xs"
proof (induction xs)
  case (Cons x xs)
  then have "\<not> x \<le> c \<Longrightarrow> filter (\<lambda>t. \<not> t \<le> c) xs = xs"
    by (intro filter_True) (auto dest: order_trans)
  then show ?case using Cons by auto
qed simp

lemma expired_events:
  assumes "sorted adm" "\<forall>t \<in> set adm. 0 < t" "n \<le> now"
  shows "dropWhile (\<lambda>t. t \<le> sat_sub now w) (filter (\<lambda>t. unat n < unat t + unat w) adm) =
    filter (\<lambda>t. unat now < unat t + unat (w :: u64)) adm"
proof -
  have "sorted (filter (\<lambda>t. unat n < unat t + unat w) adm)"
    using assms(1) sorted_filter [of "\<lambda>x. x" adm] by simp
  then have "dropWhile (\<lambda>t. t \<le> sat_sub now w) (filter (\<lambda>t. unat n < unat t + unat w) adm) =
      filter (\<lambda>t. \<not> t \<le> sat_sub now w \<and> unat n < unat t + unat w) adm"
    by (simp add: dropWhile_sorted conj_commute)
  also have "\<dots> = filter (\<lambda>t. unat now < unat t + unat w) adm"
    using assms(2) assms(3) [unfolded word_le_nat_alt] by (intro filter_cong) (auto simp: cutoff_iff)
  finally show ?thesis .
qed

lemma covered_le:
  assumes "\<forall>t \<in> set adm. t \<le> now" "unat now \<le> T"
  shows "length (filter (in_window w T) adm) \<le> length (filter (\<lambda>t. unat now < unat t + unat w) adm)"
  using assms
  by (induction adm) (auto simp: in_window_def)

lemma covered_eq:
  assumes "\<forall>t \<in> set adm. t \<le> now"
  shows "filter (\<lambda>t. unat now < unat t + unat w) adm = filter (in_window w (unat now)) adm"
  using assms by (intro filter_cong) (auto simp: in_window_def word_le_nat_alt)

lemma available_iff:
  assumes "k \<le> unat limit"
  shows "cost \<le> sat_sub limit (word_of_nat k) \<longleftrightarrow> k + unat cost \<le> unat (limit :: u32)"
proof -
  have "k < 2 ^ LENGTH(32)" using assms unat_lt_2p [of limit] by simp
  then have k: "unat (word_of_nat k :: u32) = k" by (rule unat_of_nat_small)
  then have "unat (sat_sub limit (word_of_nat k)) = unat limit - k"
    using assms by (simp add: sat_sub_def word_less_nat_alt unat_sub word_le_nat_alt)
  then show ?thesis using assms by (auto simp: word_le_nat_alt)
qed

lemma window_inv_push:
  assumes inv: "window_inv sk limit w now adm s" and "0 < now" "0 < w"
    and ev: "(case fmlookup s' sk of None \<Rightarrow> [] | Some r \<Rightarrow> rl_events r) =
      filter (\<lambda>t. unat now < unat t + unat w) adm @ replicate m now"
    and room: "length (filter (\<lambda>t. unat now < unat t + unat w) adm) + m \<le> unat limit"
  shows "window_inv sk limit w now (adm @ replicate m now) s'"
proof -
  have le: "\<forall>t \<in> set adm. 0 < t \<and> t \<le> now" and so: "sorted adm"
    and bound: "\<And>T. length (filter (in_window w T) adm) \<le> unat limit"
    using inv by (auto simp: window_inv_def)
  have "length (filter (in_window w T) (adm @ replicate m now)) \<le> unat limit" for T
  proof (cases "unat now \<le> T")
    case True
    have "length (filter (in_window w T) (replicate m now)) \<le> m"
      using length_filter_le [of "in_window w T" "replicate m now"] by simp
    then show ?thesis using covered_le [of adm now T w] True le room by fastforce
  qed (use bound in \<open>simp add: in_window_def\<close>)
  moreover have "sorted (adm @ replicate m now)" using so le by (auto simp: sorted_append sorted_replicate)
  moreover have "filter (\<lambda>t. unat now < unat t + unat w) (adm @ replicate m now) =
      filter (\<lambda>t. unat now < unat t + unat w) adm @ replicate m now"
    using assms(3) by (simp add: word_less_nat_alt)
  ultimately show ?thesis using le assms(2) ev by (auto simp: window_inv_def)
qed

lemma apply_rate_limit_other: "\<not> on_key sk c \<Longrightarrow> fmlookup (snd (apply_rate_limit c s)) sk = fmlookup s sk"
  by (cases c) (simp add: on_key_def apply_rate_limit_check_def Let_def case_prod_unfold)

lemma apply_sliding_window:
  fixes s :: rate_limit_store
  assumes "on_key sk (now, inp)" "ri_algorithm inp = SlidingWindow"
  defines "ev \<equiv> dropWhile (\<lambda>ts. ts \<le> sat_sub now (ri_window_ms inp))
      (case fmlookup s sk of None \<Rightarrow> [] | Some r \<Rightarrow> rl_events r)"
    and "ok \<equiv> allowed (fst (apply_rate_limit (now, inp) s))"
  shows "ok \<longleftrightarrow> max (ri_cost inp) 1 \<le> sat_sub (ri_limit inp) (word_of_nat (length ev))"
    and "(case fmlookup (snd (apply_rate_limit (now, inp) s)) sk of None \<Rightarrow> [] | Some r \<Rightarrow> rl_events r) =
      ev @ (if ok then replicate (unat (max (ri_cost inp) 1)) now else [])"
  using assms(1,2) unfolding ev_def ok_def
  by (auto simp: on_key_def apply_rate_limit_check_def sliding_window_def Let_def case_prod_unfold split: option.split)

lemma window_step:
  assumes inv: "window_inv sk limit w now adm s" and c: "window_check sk limit w c" "now \<le> fst c" "0 < w"
  shows "window_inv sk limit w (fst c) (adm @ admitted sk [(c, fst (apply_rate_limit c s))]) (snd (apply_rate_limit c s))"
proof (cases "on_key sk c")
  case False
  then show ?thesis using window_inv_later [OF inv c(2)]
    by (simp add: window_inv_def admitted_def apply_rate_limit_other)
next
  case True
  obtain t inp where ti: "c = (t, inp)" by (cases c)
  have kind: "ri_algorithm inp = SlidingWindow" "ri_limit inp = limit" "ri_window_ms inp = w" "0 < t"
    using c(1) True by (auto simp: window_check_def ti)
  note inv' = window_inv_later [OF inv c(2), unfolded ti fst_conv]
  let ?cov = "filter (\<lambda>x. unat t < unat x + unat w) adm"
  obtain n where n: "n \<le> now" "(case fmlookup s sk of None \<Rightarrow> [] | Some r \<Rightarrow> rl_events r) =
      filter (\<lambda>x. unat n < unat x + unat w) adm" using inv by (auto simp: window_inv_def)
  have "n \<le> t" using n(1) c(2) by (simp add: ti)
  then have ev: "dropWhile (\<lambda>ts. ts \<le> sat_sub t w) (case fmlookup s sk of None \<Rightarrow> [] | Some r \<Rightarrow> rl_events r) = ?cov"
    unfolding n(2) using inv by (intro expired_events) (auto simp: window_inv_def)
  have fits: "length ?cov \<le> unat limit"
    using inv' covered_eq [of adm t w] by (simp add: window_inv_def)
  note ap = apply_sliding_window [OF True [unfolded ti] kind(1), of s, unfolded kind ev available_iff [OF fits]]
  show ?thesis
  proof (cases "allowed (fst (apply_rate_limit (t, inp) s))")
    case True
    then show ?thesis using window_inv_push [OF inv' kind(4) c(3), of _ "unat (max (ri_cost inp) 1)"] ap
        \<open>on_key sk c\<close> by (simp add: admitted_def ti)
  next
    case False
    then show ?thesis using window_inv_push [OF inv' kind(4) c(3), of _ 0] ap(2) fits
        \<open>on_key sk c\<close> by (simp add: admitted_def ti)
  qed
qed

lemma admitted_Cons: "admitted sk (ca # as) = admitted sk [ca] @ admitted sk as"
  by (simp add: admitted_def)

lemma window_run:
  assumes "window_inv sk limit w now adm s" "list_all (window_check sk limit w) cs" "sorted (now # map fst cs)" "0 < w"
  shows "length (filter (in_window w T) (adm @ admitted sk (answers apply_rate_limit cs s))) \<le> unat limit"
  using assms
proof (induction cs arbitrary: now adm s)
  case Nil
  then show ?case by (simp add: run_simps admitted_def window_inv_def)
next
  case (Cons c cs)
  have "window_inv sk limit w (fst c) (adm @ admitted sk [(c, fst (apply_rate_limit c s))]) (snd (apply_rate_limit c s))"
    using Cons.prems by (intro window_step [of _ _ _ now]) auto
  from Cons.IH [OF this] Cons.prems show ?case
    by (simp add: run_simps admitted_Cons [of sk _ "answers apply_rate_limit cs (snd (apply_rate_limit c s))"])
qed

text \<open>C25. A sliding-window limiter admits at most its limit in every window: from a store without a record of
  the key, for every log of checks in time order that uses one limit and one window length on a store key, also interleaved with checks of other keys, the
  units of cost admitted on the key at times in \<open>(T - window_ms, T]\<close> are at most the limit, for every \<open>T\<close>.\<close>

theorem sliding_window_admits_at_most_limit:
  assumes "list_all (window_check sk limit window_ms) cs" "sorted (map fst cs)" "0 < window_ms"
    and "fmlookup s sk = None"
  shows "length (filter (in_window window_ms T) (admitted sk (answers apply_rate_limit cs s))) \<le> unat limit"
proof -
  have "window_inv sk limit window_ms 0 [] s" using assms(4) by (simp add: window_inv_def)
  then show ?thesis using window_run [of sk limit window_ms 0 "[]" s cs T] assms by simp
qed

definition login_check :: "u64 \<Rightarrow> u64 \<times> rate_limit_check_input" where
  "login_check now = (now, \<lparr>ri_key = ''login'', ri_tenant = ''acme'', ri_algorithm = SlidingWindow, ri_limit = 2,
     ri_window_ms = 10, ri_refill_per_second = None, ri_cost = 1\<rparr>)"

theorem sliding_window_admits_at_most_limit_witness:
  "length (filter (in_window 10 7) (admitted ''acme:login'' (answers apply_rate_limit
     [login_check 5, login_check 6, login_check 7] fmempty))) \<le> unat (2 :: u32)"
  by (rule sliding_window_admits_at_most_limit)
    (simp_all add: window_check_def login_check_def on_key_def rate_limit_store_key_def word_le_nat_alt)

subsection \<open>Separation of the store keys\<close>

text \<open>The store key joins tenant and key with a colon and does not escape it, so raw segments could share a
  record. The handlers scope both segments with the prefix of the organisation. That prefix begins with a
  delimiter other than the colon, which validated segments do not contain, and then two scoped pairs have the
  same store key only when they are the same pair.\<close>

theorem rate_limit_scoped_keys_are_separate:
  assumes "\<And>key. scope key = delim # prefix @ key" "delim \<noteq> CHR '':''"
    and "delim \<notin> set tenant" "delim \<notin> set tenant'"
  shows "rate_limit_store_key (scope tenant) (scope key) = rate_limit_store_key (scope tenant') (scope key') \<longleftrightarrow>
    tenant = tenant' \<and> key = key'"
proof -
  have "rate_limit_store_key (scope tenant) (scope key) = rate_limit_store_key (scope tenant') (scope key') \<longleftrightarrow>
      (tenant @ '':'') @ delim # prefix @ key = (tenant' @ '':'') @ delim # prefix @ key'"
    using assms(1) by (simp add: rate_limit_store_key_def)
  also have "\<dots> \<longleftrightarrow> tenant = tenant' \<and> key = key'"
    using assms(2-4) by (subst split_at_delimiter) auto
  finally show ?thesis .
qed

definition org_scope_example :: "string \<Rightarrow> string" where
  "org_scope_example key = CHR 0x01 # (''org'' @ [CHR 0x01]) @ key"

theorem rate_limit_scoped_keys_are_separate_witness:
  "rate_limit_store_key ''a:b'' ''c'' = rate_limit_store_key ''a'' ''b:c'' \<and>
   rate_limit_store_key (org_scope_example ''a:b'') (org_scope_example ''c'') \<noteq>
   rate_limit_store_key (org_scope_example ''a'') (org_scope_example ''b:c'')"
  using rate_limit_scoped_keys_are_separate [of org_scope_example "CHR 0x01" "''org'' @ [CHR 0x01]" "''a:b''" "''a''" "''c''" "''b:c''"]
  by (simp add: org_scope_example_def rate_limit_store_key_def)

end
