(* ===== verification/Store_Machine.thy ===== *)
theory Store_Machine
  imports Locks Semaphores Kv_Counters Barriers Tasks Effects Handoffs Decisions Budgets Claims_Ledger
    Idempotency Elections Services Schedules Rate_Limit
begin

section \<open>The replicated state machine\<close>

text \<open>
  \<open>Store\<close>, the \<open>Command\<close> enum with \<open>routing_key\<close>, \<open>kind\<close>, \<open>required_protocol\<close> and
  \<open>for_active_protocol\<close>, \<open>Store::expire_due\<close> and \<open>StateMachine::apply_at\<close> of \<open>src/state.rs\<close>. A command is one
  constructor per component around that component's commands. The components work on their part of the
  store, with the token counter that the lock, semaphore, task, handoff, idempotency and election parts share.

  The hash function and the scope delimiter of the routing crate are parameters, and so are the two fixed
  routing keys that crate defines. The order in which the sweep visits the semaphores is part of a log entry.
\<close>

record store =
  st_command_protocol :: u16
  st_revision :: u64
  st_next_fencing_token :: u64
  st_kv :: kv_store
  st_counters :: counter_store
  st_barriers :: barrier_store
  st_tasks :: "(string, task_record) fmap"
  st_effects :: effect_store
  st_handoffs :: "(string, handoff_record) fmap"
  st_decisions :: decision_store
  st_budgets :: budget_store
  st_claims :: claim_store
  st_locks :: lock_manager
  st_semaphores :: "(string, semaphore) fmap"
  st_lock_cancellations :: cancellation_ledger
  st_semaphore_cancellations :: cancellation_ledger
  st_rate_limits :: rate_limit_store
  st_idempotency :: "(string, idempotency_record) fmap"
  st_elections :: "(string, leadership) fmap"
  st_schedules :: schedule_store
  st_services :: service_store

definition LEGACY_COMMAND_PROTOCOL :: u16 where "LEGACY_COMMAND_PROTOCOL = 1"
definition LOCK_COMMAND_PROTOCOL :: u16 where "LOCK_COMMAND_PROTOCOL = 2"
definition CURRENT_COMMAND_PROTOCOL :: u16 where "CURRENT_COMMAND_PROTOCOL = 3"
definition COMMAND_PROTOCOL_ROUTING_KEY :: string where
  "COMMAND_PROTOCOL_ROUTING_KEY = CHR 0x00 # ''fiducia-command-protocol''"

lemmas protocol_defs = LEGACY_COMMAND_PROTOCOL_def LOCK_COMMAND_PROTOCOL_def CURRENT_COMMAND_PROTOCOL_def

definition store_default :: store where
  "store_default = \<lparr>st_command_protocol = LEGACY_COMMAND_PROTOCOL, st_revision = 0, st_next_fencing_token = 0,
     st_kv = fmempty, st_counters = fmempty, st_barriers = fmempty, st_tasks = fmempty, st_effects = fmempty,
     st_handoffs = fmempty, st_decisions = fmempty, st_budgets = fmempty, st_claims = fmempty,
     st_locks = lock_manager_new, st_semaphores = fmempty, st_lock_cancellations = ledger_new,
     st_semaphore_cancellations = ledger_new, st_rate_limits = fmempty, st_idempotency = fmempty,
     st_elections = fmempty, st_schedules = fmempty, st_services = fmempty\<rparr>"

datatype command =
    ActivateCommandProtocol u16
  | KvC kv_command
  | CounterC counter_command
  | BarrierC barrier_command
  | TaskC task_command
  | EffectC effect_command
  | HandoffC handoff_command
  | DecisionC decision_command
  | BudgetC budget_command
  | ClaimC claim_command
  | LockC lock_command
  | SemaphoreC semaphore_command
  | RateLimitC rate_limit_check_input
  | IdempotencyC idempotency_command
  | ScheduleC schedule_command
  | ElectionC election_command
  | ServiceC service_command

datatype command_output =
    Activated u16 u64
  | ActivatedDuplicate u16 u64
  | NotActivated u16 u16 u64
  | KvO kv_response
  | CounterO counter_response
  | BarrierO barrier_response
  | TaskO task_response
  | EffectO effect_response
  | HandoffO handoff_response
  | DecisionO decision_response
  | BudgetO budget_response
  | ClaimO claim_response
  | LockO lock_response
  | SemaphoreO semaphore_response
  | RateLimitO rate_limit_response
  | IdempotencyO idempotency_response
  | ScheduleO schedule_response
  | ElectionO election_response
  | ServiceO service_response

record apply_result =
  ar_revision :: u64
  ar_output :: command_output

subsection \<open>Routing, labels and protocols\<close>

fun kv_key :: "kv_command \<Rightarrow> string" where
  "kv_key (KvPut key _ _ _) = key" | "kv_key (KvDelete key) = key"

fun counter_key :: "counter_command \<Rightarrow> string" where
  "counter_key (CounterAdd key _ _) = key" | "counter_key (CounterSet key _ _) = key"

fun barrier_name :: "barrier_command \<Rightarrow> string" where
  "barrier_name (BarrierCreate name _ _ _) = name" | "barrier_name (BarrierArrive name _ _ _) = name"

fun task_name :: "task_command \<Rightarrow> string" where
  "task_name (TaskCreate name _ _ _) = name" | "task_name (TaskClaim name _ _) = name"
| "task_name (TaskProgress name _ _ _ _) = name" | "task_name (TaskComplete name _ _ _) = name"
| "task_name (TaskFail name _ _ _) = name" | "task_name (TaskCancel name) = name"

fun effect_name :: "effect_command \<Rightarrow> string" where
  "effect_name (EffectPrepare name _ _ _ _ _) = name" | "effect_name (EffectApprove name _) = name"
| "effect_name (EffectCommit name _) = name" | "effect_name (EffectAbort name) = name"

fun handoff_name :: "handoff_command \<Rightarrow> string" where
  "handoff_name (HandoffOffer name _ _ _ _ _ _) = name" | "handoff_name (HandoffAccept name _) = name"
| "handoff_name (HandoffReject name _) = name"

fun decision_name :: "decision_command \<Rightarrow> string" where
  "decision_name (DecisionPropose name _ _ _ _) = name" | "decision_name (DecisionVote name _ _ _ _ _ _) = name"

fun budget_name :: "budget_command \<Rightarrow> string" where
  "budget_name (BudgetSet name _) = name" | "budget_name (BudgetReserve name _ _ _) = name"
| "budget_name (BudgetCommit name _ _) = name" | "budget_name (BudgetRelease name _) = name"

fun claim_name :: "claim_command \<Rightarrow> string" where
  "claim_name (ClaimAssert name _ _ _ _ _ _ _) = name" | "claim_name (ClaimSupport name _) = name"
| "claim_name (ClaimContest name _ _) = name" | "claim_name (ClaimResolve name _) = name"
| "claim_name (ClaimSupersede name _) = name"

fun idempotency_key :: "idempotency_command \<Rightarrow> string" where
  "idempotency_key (IdempotencyClaim key _ _ _ _) = key" | "idempotency_key (IdempotencyComplete key _ _ _) = key"
| "idempotency_key (IdempotencyRenew key _ _ _) = key" | "idempotency_key (IdempotencyAbandon key _ _) = key"

fun schedule_name :: "schedule_command \<Rightarrow> string" where
  "schedule_name (ScheduleUpsert name _ _ _ _ _ _) = name" | "schedule_name (ScheduleRecordRun name _ _) = name"
| "schedule_name (ScheduleClaimFire name _) = name" | "schedule_name (ScheduleRecordResult name _ _ _ _) = name"
| "schedule_name (ScheduleSetEnabled name _ _ _) = name" | "schedule_name (ScheduleDelete name) = name"
| "schedule_name (ScheduleTrigger name _ _) = name"
| "schedule_name (ScheduleRecordResultV2 name _ _ _ _ _ _ _ _ _ _) = name"

fun election_name :: "election_command \<Rightarrow> string" where
  "election_name (ElectionCampaign name _ _ _) = name" | "election_name (ElectionRenew name _ _ _) = name"
| "election_name (ElectionResign name _ _) = name"

fun routing_key :: "string \<Rightarrow> string \<Rightarrow> command \<Rightarrow> string" where
  "routing_key lock_domain service_domain (ActivateCommandProtocol _) = COMMAND_PROTOCOL_ROUTING_KEY"
| "routing_key lock_domain service_domain (LockC _) = lock_domain"
| "routing_key lock_domain service_domain (SemaphoreC _) = lock_domain"
| "routing_key lock_domain service_domain (KvC c) = kv_key c"
| "routing_key lock_domain service_domain (CounterC c) = counter_key c"
| "routing_key lock_domain service_domain (RateLimitC c) = ri_key c"
| "routing_key lock_domain service_domain (IdempotencyC c) = idempotency_key c"
| "routing_key lock_domain service_domain (BarrierC c) = barrier_name c"
| "routing_key lock_domain service_domain (TaskC c) = task_name c"
| "routing_key lock_domain service_domain (EffectC c) = effect_name c"
| "routing_key lock_domain service_domain (HandoffC c) = handoff_name c"
| "routing_key lock_domain service_domain (DecisionC c) = decision_name c"
| "routing_key lock_domain service_domain (BudgetC c) = budget_name c"
| "routing_key lock_domain service_domain (ClaimC c) = claim_name c"
| "routing_key lock_domain service_domain (ScheduleC c) = schedule_name c"
| "routing_key lock_domain service_domain (ElectionC c) = election_name c"
| "routing_key lock_domain service_domain (ServiceC _) = service_domain"

fun required_protocol :: "command \<Rightarrow> u16" where
  "required_protocol (ActivateCommandProtocol version) = version"
| "required_protocol (LockC c) = (case c of
      LockAcquire _ _ _ _ _ \<Rightarrow> LEGACY_COMMAND_PROTOCOL
    | LockRelease _ _ \<Rightarrow> LEGACY_COMMAND_PROTOCOL
    | _ \<Rightarrow> LOCK_COMMAND_PROTOCOL)"
| "required_protocol (SemaphoreC c) = (case c of
      SemaphoreAcquire _ _ _ _ _ _ \<Rightarrow> LEGACY_COMMAND_PROTOCOL
    | SemaphoreRelease _ _ _ \<Rightarrow> LEGACY_COMMAND_PROTOCOL
    | _ \<Rightarrow> LOCK_COMMAND_PROTOCOL)"
| "required_protocol (ScheduleC c) = (case c of
      ScheduleUpsert _ _ _ (Function _) _ _ _ \<Rightarrow> CURRENT_COMMAND_PROTOCOL
    | ScheduleSetEnabled _ _ _ _ \<Rightarrow> CURRENT_COMMAND_PROTOCOL
    | ScheduleDelete _ \<Rightarrow> CURRENT_COMMAND_PROTOCOL
    | ScheduleTrigger _ _ _ \<Rightarrow> CURRENT_COMMAND_PROTOCOL
    | ScheduleRecordResultV2 _ _ _ _ _ _ _ _ _ _ _ \<Rightarrow> CURRENT_COMMAND_PROTOCOL
    | _ \<Rightarrow> LEGACY_COMMAND_PROTOCOL)"
| "required_protocol _ = LEGACY_COMMAND_PROTOCOL"

definition for_active_protocol :: "command \<Rightarrow> u16 \<Rightarrow> u16 + command" where
  "for_active_protocol c active =
     (if required_protocol c \<le> active then Inr c
      else (case c of
          LockC (LockAcquireV2 keys holder ttl_ms wait wait_timeout_ms) \<Rightarrow>
            if active < LOCK_COMMAND_PROTOCOL
            then Inr (LockC (LockAcquire keys holder ttl_ms wait wait_timeout_ms))
            else Inl (required_protocol c)
        | SemaphoreC (SemaphoreAcquireV2 key holder limit ttl_ms wait wait_timeout_ms) \<Rightarrow>
            if active < LOCK_COMMAND_PROTOCOL
            then Inr (SemaphoreC (SemaphoreAcquire key holder limit ttl_ms wait wait_timeout_ms))
            else Inl (required_protocol c)
        | ScheduleC (ScheduleRecordResultV2 name fire_id_ms delivered attempts err _ _ _ _ _ _) \<Rightarrow>
            if active < CURRENT_COMMAND_PROTOCOL
            then Inr (ScheduleC (ScheduleRecordResult name fire_id_ms delivered attempts err))
            else Inl (required_protocol c)
        | _ \<Rightarrow> Inl (required_protocol c)))"

fun kind :: "command \<Rightarrow> string" where
  "kind (ActivateCommandProtocol _) = ''raft.command_protocol.activate''"
| "kind (KvC c) = (case c of KvPut _ _ _ _ \<Rightarrow> ''kv.put'' | KvDelete _ \<Rightarrow> ''kv.delete'')"
| "kind (CounterC c) = (case c of CounterAdd _ _ _ \<Rightarrow> ''counter.add'' | CounterSet _ _ _ \<Rightarrow> ''counter.set'')"
| "kind (BarrierC c) = (case c of BarrierCreate _ _ _ _ \<Rightarrow> ''barrier.create''
    | BarrierArrive _ _ _ _ \<Rightarrow> ''barrier.arrive'')"
| "kind (TaskC c) = (case c of TaskCreate _ _ _ _ \<Rightarrow> ''task.create'' | TaskClaim _ _ _ \<Rightarrow> ''task.claim''
    | TaskProgress _ _ _ _ _ \<Rightarrow> ''task.progress'' | TaskComplete _ _ _ _ \<Rightarrow> ''task.complete''
    | TaskFail _ _ _ _ \<Rightarrow> ''task.fail'' | TaskCancel _ \<Rightarrow> ''task.cancel'')"
| "kind (EffectC c) = (case c of EffectPrepare _ _ _ _ _ _ \<Rightarrow> ''effect.prepare'' | EffectApprove _ _ \<Rightarrow> ''effect.approve''
    | EffectCommit _ _ \<Rightarrow> ''effect.commit'' | EffectAbort _ \<Rightarrow> ''effect.abort'')"
| "kind (HandoffC c) = (case c of HandoffOffer _ _ _ _ _ _ _ \<Rightarrow> ''handoff.offer''
    | HandoffAccept _ _ \<Rightarrow> ''handoff.accept'' | HandoffReject _ _ \<Rightarrow> ''handoff.reject'')"
| "kind (DecisionC c) = (case c of DecisionPropose _ _ _ _ _ \<Rightarrow> ''decision.propose''
    | DecisionVote _ _ _ _ _ _ _ \<Rightarrow> ''decision.vote'')"
| "kind (BudgetC c) = (case c of BudgetSet _ _ \<Rightarrow> ''budget.set'' | BudgetReserve _ _ _ _ \<Rightarrow> ''budget.reserve''
    | BudgetCommit _ _ _ \<Rightarrow> ''budget.commit'' | BudgetRelease _ _ \<Rightarrow> ''budget.release'')"
| "kind (ClaimC c) = (case c of ClaimAssert _ _ _ _ _ _ _ _ \<Rightarrow> ''claim.assert'' | ClaimSupport _ _ \<Rightarrow> ''claim.support''
    | ClaimContest _ _ _ \<Rightarrow> ''claim.contest'' | ClaimResolve _ _ \<Rightarrow> ''claim.resolve''
    | ClaimSupersede _ _ \<Rightarrow> ''claim.supersede'')"
| "kind (LockC c) = (case c of LockRenew _ _ _ _ \<Rightarrow> ''lock.renew'' | LockRelease _ _ \<Rightarrow> ''lock.release''
    | LockCancel _ _ \<Rightarrow> ''lock.cancel'' | LockCancelAttempt _ _ _ \<Rightarrow> ''lock.cancel'' | _ \<Rightarrow> ''lock.acquire'')"
| "kind (SemaphoreC c) = (case c of SemaphoreRenew _ _ _ _ \<Rightarrow> ''semaphore.renew''
    | SemaphoreRelease _ _ _ \<Rightarrow> ''semaphore.release'' | SemaphoreCancel _ _ \<Rightarrow> ''semaphore.cancel''
    | SemaphoreCancelAttempt _ _ _ \<Rightarrow> ''semaphore.cancel'' | _ \<Rightarrow> ''semaphore.acquire'')"
| "kind (RateLimitC _) = ''ratelimit.check''"
| "kind (IdempotencyC c) = (case c of IdempotencyClaim _ _ _ _ _ \<Rightarrow> ''idempotency.claim''
    | IdempotencyComplete _ _ _ _ \<Rightarrow> ''idempotency.complete'' | IdempotencyRenew _ _ _ _ \<Rightarrow> ''idempotency.renew''
    | IdempotencyAbandon _ _ _ \<Rightarrow> ''idempotency.abandon'')"
| "kind (ScheduleC c) = (case c of ScheduleUpsert _ _ _ _ _ _ _ \<Rightarrow> ''schedule.upsert''
    | ScheduleRecordRun _ _ _ \<Rightarrow> ''schedule.record_run'' | ScheduleClaimFire _ _ \<Rightarrow> ''schedule.claim_fire''
    | ScheduleRecordResult _ _ _ _ _ \<Rightarrow> ''schedule.record_result''
    | ScheduleRecordResultV2 _ _ _ _ _ _ _ _ _ _ _ \<Rightarrow> ''schedule.record_result''
    | ScheduleSetEnabled _ enabled _ _ \<Rightarrow> if enabled then ''schedule.resume'' else ''schedule.pause''
    | ScheduleDelete _ \<Rightarrow> ''schedule.delete'' | ScheduleTrigger _ _ _ \<Rightarrow> ''schedule.trigger'')"
| "kind (ElectionC c) = (case c of ElectionCampaign _ _ _ _ \<Rightarrow> ''election.campaign''
    | ElectionRenew _ _ _ _ \<Rightarrow> ''election.renew'' | ElectionResign _ _ _ \<Rightarrow> ''election.resign'')"
| "kind (ServiceC c) = (case c of ServiceRegister _ _ _ _ _ \<Rightarrow> ''service.register''
    | ServiceHeartbeat _ _ _ \<Rightarrow> ''service.heartbeat'' | ServiceDeregister _ _ \<Rightarrow> ''service.deregister'')"

subsection \<open>The parts of the store that share the token counter\<close>

definition lock_part :: "store \<Rightarrow> lock_store" where
  "lock_part s = \<lparr>ls_next_fencing_token = st_next_fencing_token s, ls_locks = st_locks s,
     ls_cancellations = st_lock_cancellations s\<rparr>"

definition put_locks :: "lock_store \<Rightarrow> store \<Rightarrow> store" where
  "put_locks x s = s\<lparr>st_next_fencing_token := ls_next_fencing_token x, st_locks := ls_locks x,
     st_lock_cancellations := ls_cancellations x\<rparr>"

definition sem_part :: "store \<Rightarrow> sem_store" where
  "sem_part s = \<lparr>ms_next_fencing_token = st_next_fencing_token s, ms_semaphores = st_semaphores s,
     ms_cancellations = st_semaphore_cancellations s\<rparr>"

definition put_sems :: "sem_store \<Rightarrow> store \<Rightarrow> store" where
  "put_sems x s = s\<lparr>st_next_fencing_token := ms_next_fencing_token x, st_semaphores := ms_semaphores x,
     st_semaphore_cancellations := ms_cancellations x\<rparr>"

definition task_part :: "store \<Rightarrow> task_store" where
  "task_part s = \<lparr>ks_next_fencing_token = st_next_fencing_token s, ks_tasks = st_tasks s\<rparr>"

definition put_tasks :: "task_store \<Rightarrow> store \<Rightarrow> store" where
  "put_tasks x s = s\<lparr>st_next_fencing_token := ks_next_fencing_token x, st_tasks := ks_tasks x\<rparr>"

definition handoff_part :: "store \<Rightarrow> handoff_store" where
  "handoff_part s = \<lparr>hf_next_fencing_token = st_next_fencing_token s, hf_handoffs = st_handoffs s\<rparr>"

definition put_handoffs :: "handoff_store \<Rightarrow> store \<Rightarrow> store" where
  "put_handoffs x s = s\<lparr>st_next_fencing_token := hf_next_fencing_token x, st_handoffs := hf_handoffs x\<rparr>"

definition idem_part :: "store \<Rightarrow> idempotency_store" where
  "idem_part s = \<lparr>id_next_fencing_token = st_next_fencing_token s, id_records = st_idempotency s\<rparr>"

definition put_idem :: "idempotency_store \<Rightarrow> store \<Rightarrow> store" where
  "put_idem x s = s\<lparr>st_next_fencing_token := id_next_fencing_token x, st_idempotency := id_records x\<rparr>"

definition election_part :: "store \<Rightarrow> election_store" where
  "election_part s = \<lparr>el_next_fencing_token = st_next_fencing_token s, el_elections = st_elections s\<rparr>"

definition put_elections :: "election_store \<Rightarrow> store \<Rightarrow> store" where
  "put_elections x s = s\<lparr>st_next_fencing_token := el_next_fencing_token x, st_elections := el_elections x\<rparr>"

lemmas part_defs = lock_part_def put_locks_def sem_part_def put_sems_def task_part_def put_tasks_def
  handoff_part_def put_handoffs_def idem_part_def put_idem_def election_part_def put_elections_def

subsection \<open>The sweep and the application of a log entry\<close>

definition expire_due :: "string list \<Rightarrow> u64 \<Rightarrow> store \<Rightarrow> store" where
  "expire_due order now s =
     (let s = s\<lparr>st_kv := kv_expire_due now (st_kv s)\<rparr>;
          s = put_locks (lock_expire_due now (lock_part s)) s;
          s = put_sems (sem_expire_due order now (sem_part s)) s;
          s = put_elections (election_expire_due now (election_part s)) s;
          s = put_idem (idem_expire_due now (idem_part s)) s
      in s\<lparr>st_services := service_expire_due now (st_services s)\<rparr>)"

definition activate_command_protocol :: "u64 \<Rightarrow> u16 \<Rightarrow> store \<Rightarrow> command_output \<times> store" where
  "activate_command_protocol revision version s =
     (if LOCK_COMMAND_PROTOCOL \<le> version \<and> version \<le> CURRENT_COMMAND_PROTOCOL \<and> st_command_protocol s \<le> version
      then (Activated version revision, s\<lparr>st_command_protocol := version\<rparr>)
      else if version = st_command_protocol s then (ActivatedDuplicate (st_command_protocol s) revision, s)
      else (NotActivated version (st_command_protocol s) revision, s))"

fun apply_command :: "(string \<Rightarrow> string) \<Rightarrow> string \<Rightarrow> u64 \<Rightarrow> u64 \<Rightarrow> command \<Rightarrow> store \<Rightarrow> command_output \<times> store" where
  "apply_command sha256 delim revision now (ActivateCommandProtocol version) s = activate_command_protocol revision version s"
| "apply_command sha256 delim revision now (KvC c) s =
     (case apply_kv revision now c (st_kv s) of (a, x) \<Rightarrow> (KvO a, s\<lparr>st_kv := x\<rparr>))"
| "apply_command sha256 delim revision now (CounterC c) s =
     (case apply_counter revision c (st_counters s) of (a, x) \<Rightarrow> (CounterO a, s\<lparr>st_counters := x\<rparr>))"
| "apply_command sha256 delim revision now (BarrierC c) s =
     (case apply_barrier now c (st_barriers s) of (a, x) \<Rightarrow> (BarrierO a, s\<lparr>st_barriers := x\<rparr>))"
| "apply_command sha256 delim revision now (TaskC c) s =
     (case apply_task now c (task_part s) of (a, x) \<Rightarrow> (TaskO a, put_tasks x s))"
| "apply_command sha256 delim revision now (EffectC c) s =
     (case apply_effect c (st_effects s) of (a, x) \<Rightarrow> (EffectO a, s\<lparr>st_effects := x\<rparr>))"
| "apply_command sha256 delim revision now (HandoffC c) s =
     (case apply_handoff now c (handoff_part s) of (a, x) \<Rightarrow> (HandoffO a, put_handoffs x s))"
| "apply_command sha256 delim revision now (DecisionC c) s =
     (case apply_decision now c (st_decisions s) of (a, x) \<Rightarrow> (DecisionO a, s\<lparr>st_decisions := x\<rparr>))"
| "apply_command sha256 delim revision now (BudgetC c) s =
     (case apply_budget c (st_budgets s) of (a, x) \<Rightarrow> (BudgetO a, s\<lparr>st_budgets := x\<rparr>))"
| "apply_command sha256 delim revision now (ClaimC c) s =
     (case apply_claim c (st_claims s) of (a, x) \<Rightarrow> (ClaimO a, s\<lparr>st_claims := x\<rparr>))"
| "apply_command sha256 delim revision now (LockC c) s =
     (case apply_lock sha256 delim revision now c (lock_part s) of (a, x) \<Rightarrow> (LockO a, put_locks x s))"
| "apply_command sha256 delim revision now (SemaphoreC c) s =
     (case apply_semaphore sha256 delim revision now c (sem_part s) of (a, x) \<Rightarrow> (SemaphoreO a, put_sems x s))"
| "apply_command sha256 delim revision now (RateLimitC c) s =
     (case apply_rate_limit (now, c) (st_rate_limits s) of (a, x) \<Rightarrow> (RateLimitO a, s\<lparr>st_rate_limits := x\<rparr>))"
| "apply_command sha256 delim revision now (IdempotencyC c) s =
     (case apply_idempotency revision now c (idem_part s) of (a, x) \<Rightarrow> (IdempotencyO a, put_idem x s))"
| "apply_command sha256 delim revision now (ScheduleC c) s =
     (case apply_schedule c (st_schedules s) of (a, x) \<Rightarrow> (ScheduleO a, s\<lparr>st_schedules := x\<rparr>))"
| "apply_command sha256 delim revision now (ElectionC c) s =
     (case apply_election revision now c (election_part s) of (a, x) \<Rightarrow> (ElectionO a, put_elections x s))"
| "apply_command sha256 delim revision now (ServiceC c) s =
     (case apply_service now c (st_services s) of (a, x) \<Rightarrow> (ServiceO a, s\<lparr>st_services := x\<rparr>))"

definition is_activation :: "command \<Rightarrow> bool" where
  "is_activation c = (case c of ActivateCommandProtocol _ \<Rightarrow> True | _ \<Rightarrow> False)"

record log_entry =
  en_command :: command
  en_proposed_at_ms :: u64
  en_order :: "string list"

definition apply_at :: "(string \<Rightarrow> string) \<Rightarrow> string \<Rightarrow> log_entry \<Rightarrow> store \<Rightarrow> apply_result \<times> store" where
  "apply_at sha256 delim e s =
     (let c = en_command e; now = en_proposed_at_ms e;
          s = (if is_activation c then s
            else s\<lparr>st_command_protocol := max (st_command_protocol s) (required_protocol c)\<rparr>);
          s = (if is_activation c then s
            else (let s = expire_due (en_order e) now s in s\<lparr>st_revision := st_revision s + 1\<rparr>));
          revision = st_revision s;
          (out, s) = apply_command sha256 delim revision now c s
      in (\<lparr>ar_revision = revision, ar_output = out\<rparr>, s))"

end
