(* ===== verification/Store_Invariants.thy ===== *)
theory Store_Invariants
  imports Store_Machine
begin

section \<open>Invariants of the replicated state machine\<close>

text \<open>
  The invariants of the components hold together on the whole store, although one token counter serves all of
  them: \<open>store_ok\<close> is kept by every log entry, and \<open>store_tokens\<close>, the tokens the store references, only
  grows by tokens above the counter. The locale \<open>fenced\<close> is interpreted on the store, so no token is issued
  twice in any execution.
\<close>

definition store_tokens :: "store \<Rightarrow> u64 set" where
  "store_tokens s = lock_tokens (lock_part s) \<union> sem_tokens (sem_part s) \<union> task_tokens (task_part s) \<union>
     handoff_tokens (handoff_part s) \<union> idem_tokens (idem_part s) \<union> election_tokens (election_part s)"

definition store_ok :: "store \<Rightarrow> bool" where
  "store_ok s \<longleftrightarrow> lock_store_ok (lock_part s) \<and> sem_store_sound (sem_part s) \<and> task_inv (task_part s) \<and>
     handoff_inv (handoff_part s)"

definition store_step_ok :: "store \<Rightarrow> store \<Rightarrow> bool" where
  "store_step_ok s s' \<longleftrightarrow> store_ok s' \<and>
     fresh_step (st_next_fencing_token s) (store_tokens s) (st_next_fencing_token s') (store_tokens s')"

lemma store_step_ok_trans: "store_step_ok s s1 \<Longrightarrow> store_step_ok s1 s2 \<Longrightarrow> store_step_ok s s2"
  by (auto simp: store_step_ok_def intro: fresh_step_trans)

lemma fresh_step_Un: "fresh_step c T c' T' \<Longrightarrow> fresh_step c (T \<union> U) c' (T' \<union> U)"
  by (auto simp: fresh_step_def)

lemma fresh_step_counter:
  assumes "fresh_step c T c' T'" "c \<le> MAX_FENCING_TOKEN"
  shows "c \<le> c'" "c' \<le> MAX_FENCING_TOKEN"
  using assms by (auto simp: fresh_step_def)

text \<open>The invariants of the parts that a step leaves alone survive a growing counter.\<close>

lemma lock_store_ok_counter:
  "lock_store_ok s \<Longrightarrow> ls_next_fencing_token s \<le> c \<Longrightarrow> c \<le> MAX_FENCING_TOKEN \<Longrightarrow> lock_store_ok (s\<lparr>ls_next_fencing_token := c\<rparr>)"
  by (auto simp: lock_store_ok_def intro: lock_inv_mono)

lemma sem_store_sound_counter:
  "sem_store_sound s \<Longrightarrow> ms_next_fencing_token s \<le> c \<Longrightarrow> c \<le> MAX_FENCING_TOKEN \<Longrightarrow> sem_store_sound (s\<lparr>ms_next_fencing_token := c\<rparr>)"
  by (auto simp: sem_store_sound_def intro: sem_inv_mono)

lemma task_inv_counter: "task_inv s \<Longrightarrow> ks_next_fencing_token s \<le> c \<Longrightarrow> task_inv (s\<lparr>ks_next_fencing_token := c\<rparr>)"
  by (fastforce simp: task_inv_def)

lemma handoff_inv_counter: "handoff_inv s \<Longrightarrow> hf_next_fencing_token s \<le> c \<Longrightarrow> handoff_inv (s\<lparr>hf_next_fencing_token := c\<rparr>)"
  by (fastforce simp: handoff_inv_def)

lemma store_ok_bound: "store_ok s \<Longrightarrow> st_next_fencing_token s \<le> MAX_FENCING_TOKEN"
  by (simp add: store_ok_def lock_store_ok_def lock_part_def)

lemma other_parts:
  assumes "store_ok s" "st_next_fencing_token s \<le> c" "c \<le> MAX_FENCING_TOKEN"
  shows "lock_store_ok \<lparr>ls_next_fencing_token = c, ls_locks = st_locks s, ls_cancellations = st_lock_cancellations s\<rparr>"
    "sem_store_sound \<lparr>ms_next_fencing_token = c, ms_semaphores = st_semaphores s, ms_cancellations = st_semaphore_cancellations s\<rparr>"
    "task_inv \<lparr>ks_next_fencing_token = c, ks_tasks = st_tasks s\<rparr>"
    "handoff_inv \<lparr>hf_next_fencing_token = c, hf_handoffs = st_handoffs s\<rparr>"
  using assms lock_store_ok_counter [of "lock_part s" c] sem_store_sound_counter [of "sem_part s" c]
    task_inv_counter [of "task_part s" c] handoff_inv_counter [of "handoff_part s" c]
  by (simp_all add: store_ok_def part_defs)

lemmas token_defs = store_tokens_def lock_tokens_def sem_tokens_def task_tokens_def handoff_tokens_def
  idem_tokens_def election_tokens_def part_defs

lemma get_put [simp]:
  "lock_part (put_locks x s) = x" "sem_part (put_sems y s) = y" "task_part (put_tasks k s) = k"
  "handoff_part (put_handoffs h s) = h" "idem_part (put_idem i s) = i" "election_part (put_elections e s) = e"
  by (simp_all add: part_defs)

lemma part_counter [simp]:
  "ls_next_fencing_token (lock_part s) = st_next_fencing_token s"
  "ms_next_fencing_token (sem_part s) = st_next_fencing_token s"
  "ks_next_fencing_token (task_part s) = st_next_fencing_token s"
  "hf_next_fencing_token (handoff_part s) = st_next_fencing_token s"
  "id_next_fencing_token (idem_part s) = st_next_fencing_token s"
  "el_next_fencing_token (election_part s) = st_next_fencing_token s"
  by (simp_all add: part_defs)

text \<open>Replacing one part whose tokens are fresh: the other parts only see the counter move.\<close>

lemma part_step:
  assumes "store_ok s" "fresh_step (st_next_fencing_token s) T (st_next_fencing_token s') T'"
    and "store_tokens s = T \<union> U" "store_tokens s' \<subseteq> T' \<union> U"
    and "st_next_fencing_token s \<le> st_next_fencing_token s' \<Longrightarrow> st_next_fencing_token s' \<le> MAX_FENCING_TOKEN \<Longrightarrow> store_ok s'"
  shows "store_step_ok s s'"
  using fresh_step_counter [OF assms(2) store_ok_bound [OF assms(1)]] assms(3,4,5)
    fresh_step_mono [OF fresh_step_Un [OF assms(2), of U]] by (auto simp: store_step_ok_def)

lemma put_locks_ok:
  assumes "store_ok s" "lock_step_ok (lock_part s) x"
  shows "store_step_ok s (put_locks x s)"
proof (rule part_step [OF assms(1), where T = "lock_tokens (lock_part s)" and T' = "lock_tokens x" and
    U = "sem_tokens (sem_part s) \<union> task_tokens (task_part s) \<union> handoff_tokens (handoff_part s) \<union>
      idem_tokens (idem_part s) \<union> election_tokens (election_part s)"])
  show "store_ok (put_locks x s)" if "st_next_fencing_token s \<le> st_next_fencing_token (put_locks x s)"
    "st_next_fencing_token (put_locks x s) \<le> MAX_FENCING_TOKEN"
    using other_parts [OF assms(1) that] assms(2) get_put(1) [of x s]
    by (simp add: store_ok_def lock_step_ok_def) (simp add: part_defs)
qed (use assms(2) in \<open>auto simp: lock_step_ok_def lock_fresh_def token_defs\<close>)

lemma put_sems_ok:
  assumes "store_ok s" "sem_store_sound x" "sem_fresh (sem_part s) x"
  shows "store_step_ok s (put_sems x s)"
proof (rule part_step [OF assms(1), where T = "sem_tokens (sem_part s)" and T' = "sem_tokens x" and
    U = "lock_tokens (lock_part s) \<union> task_tokens (task_part s) \<union> handoff_tokens (handoff_part s) \<union>
      idem_tokens (idem_part s) \<union> election_tokens (election_part s)"])
  show "store_ok (put_sems x s)" if "st_next_fencing_token s \<le> st_next_fencing_token (put_sems x s)"
    "st_next_fencing_token (put_sems x s) \<le> MAX_FENCING_TOKEN"
    using other_parts [OF assms(1) that] assms(2) get_put(2) [of x s]
    by (simp add: store_ok_def) (simp add: part_defs)
qed (use assms(3) in \<open>auto simp: sem_fresh_def token_defs\<close>)

lemma put_tasks_ok:
  assumes "store_ok s" "task_inv x"
    "fresh_step (st_next_fencing_token s) (task_tokens (task_part s)) (ks_next_fencing_token x) (task_tokens x)"
  shows "store_step_ok s (put_tasks x s)"
proof (rule part_step [OF assms(1), where T = "task_tokens (task_part s)" and T' = "task_tokens x" and
    U = "lock_tokens (lock_part s) \<union> sem_tokens (sem_part s) \<union> handoff_tokens (handoff_part s) \<union>
      idem_tokens (idem_part s) \<union> election_tokens (election_part s)"])
  show "store_ok (put_tasks x s)" if "st_next_fencing_token s \<le> st_next_fencing_token (put_tasks x s)"
    "st_next_fencing_token (put_tasks x s) \<le> MAX_FENCING_TOKEN"
    using other_parts [OF assms(1) that] assms(2) get_put(3) [of x s]
    by (simp add: store_ok_def) (simp add: part_defs)
qed (use assms(3) in \<open>auto simp: token_defs\<close>)

lemma put_handoffs_ok:
  assumes "store_ok s" "handoff_inv x"
    "fresh_step (st_next_fencing_token s) (handoff_tokens (handoff_part s)) (hf_next_fencing_token x) (handoff_tokens x)"
  shows "store_step_ok s (put_handoffs x s)"
proof (rule part_step [OF assms(1), where T = "handoff_tokens (handoff_part s)" and T' = "handoff_tokens x" and
    U = "lock_tokens (lock_part s) \<union> sem_tokens (sem_part s) \<union> task_tokens (task_part s) \<union>
      idem_tokens (idem_part s) \<union> election_tokens (election_part s)"])
  show "store_ok (put_handoffs x s)" if "st_next_fencing_token s \<le> st_next_fencing_token (put_handoffs x s)"
    "st_next_fencing_token (put_handoffs x s) \<le> MAX_FENCING_TOKEN"
    using other_parts [OF assms(1) that] assms(2) get_put(4) [of x s]
    by (simp add: store_ok_def) (simp add: part_defs)
qed (use assms(3) in \<open>auto simp: token_defs\<close>)

lemma put_idem_ok:
  assumes "store_ok s"
    "fresh_step (st_next_fencing_token s) (idem_tokens (idem_part s)) (id_next_fencing_token x) (idem_tokens x)"
  shows "store_step_ok s (put_idem x s)"
proof (rule part_step [OF assms(1), where T = "idem_tokens (idem_part s)" and T' = "idem_tokens x" and
    U = "lock_tokens (lock_part s) \<union> sem_tokens (sem_part s) \<union> task_tokens (task_part s) \<union>
      handoff_tokens (handoff_part s) \<union> election_tokens (election_part s)"])
  show "store_ok (put_idem x s)" if "st_next_fencing_token s \<le> st_next_fencing_token (put_idem x s)"
    "st_next_fencing_token (put_idem x s) \<le> MAX_FENCING_TOKEN"
    using other_parts [OF assms(1) that] by (simp add: store_ok_def) (simp add: part_defs)
qed (use assms(2) in \<open>auto simp: token_defs\<close>)

lemma put_elections_ok:
  assumes "store_ok s"
    "fresh_step (st_next_fencing_token s) (election_tokens (election_part s)) (el_next_fencing_token x) (election_tokens x)"
  shows "store_step_ok s (put_elections x s)"
proof (rule part_step [OF assms(1), where T = "election_tokens (election_part s)" and T' = "election_tokens x" and
    U = "lock_tokens (lock_part s) \<union> sem_tokens (sem_part s) \<union> task_tokens (task_part s) \<union>
      handoff_tokens (handoff_part s) \<union> idem_tokens (idem_part s)"])
  show "store_ok (put_elections x s)" if "st_next_fencing_token s \<le> st_next_fencing_token (put_elections x s)"
    "st_next_fencing_token (put_elections x s) \<le> MAX_FENCING_TOKEN"
    using other_parts [OF assms(1) that] by (simp add: store_ok_def) (simp add: part_defs)
qed (use assms(2) in \<open>auto simp: token_defs\<close>)

text \<open>A step that leaves all these parts alone.\<close>

lemma frame_ok:
  assumes "store_ok s" "st_next_fencing_token s' = st_next_fencing_token s" "st_locks s' = st_locks s"
    "st_lock_cancellations s' = st_lock_cancellations s" "st_semaphores s' = st_semaphores s"
    "st_semaphore_cancellations s' = st_semaphore_cancellations s" "st_tasks s' = st_tasks s"
    "st_handoffs s' = st_handoffs s" "st_idempotency s' = st_idempotency s" "st_elections s' = st_elections s"
  shows "store_step_ok s s'"
  using assms by (auto simp: store_step_ok_def store_ok_def store_tokens_def part_defs intro!: fresh_step_refl)

subsection \<open>Every log entry keeps the invariants\<close>

lemma idem_expire_fresh: "fresh_step (id_next_fencing_token x) (idem_tokens x)
    (id_next_fencing_token (idem_expire_due now x)) (idem_tokens (idem_expire_due now x))"
  by (auto simp: idem_expire_due_def idem_tokens_def intro!: fresh_step_refl split: if_splits option.splits)

lemma election_expire_fresh: "fresh_step (el_next_fencing_token x) (election_tokens x)
    (el_next_fencing_token (election_expire_due now x)) (election_tokens (election_expire_due now x))"
  by (auto simp: election_expire_due_def election_tokens_def intro!: fresh_step_refl split: if_splits option.splits)

lemma store_step_okD: "store_step_ok s s' \<Longrightarrow> store_ok s'"
  by (simp add: store_step_ok_def)

lemma expire_due_ok:
  assumes "store_ok s"
  shows "store_step_ok s (expire_due order now s)"
proof -
  define s1 where "s1 = s\<lparr>st_kv := kv_expire_due now (st_kv s)\<rparr>"
  define s2 where "s2 = put_locks (lock_expire_due now (lock_part s1)) s1"
  define s3 where "s3 = put_sems (sem_expire_due order now (sem_part s2)) s2"
  define s4 where "s4 = put_elections (election_expire_due now (election_part s3)) s3"
  define s5 where "s5 = put_idem (idem_expire_due now (idem_part s4)) s4"
  have 1: "store_step_ok s s1" unfolding s1_def by (rule frame_ok [OF assms]) simp_all
  have 2: "store_step_ok s1 s2" unfolding s2_def
    using store_step_okD [OF 1] by (intro put_locks_ok lock_expire_due_ok) (simp_all add: store_ok_def)
  have 3: "store_step_ok s2 s3" unfolding s3_def
    using store_step_okD [OF 2] sem_expire_due_sound [of "sem_part s2" order now]
    by (intro put_sems_ok) (simp_all add: store_ok_def sem_step_sound_def)
  have 4: "store_step_ok s3 s4" unfolding s4_def
    using election_expire_fresh [of "election_part s3" now] by (intro put_elections_ok store_step_okD [OF 3]) simp
  have 5: "store_step_ok s4 s5" unfolding s5_def
    using idem_expire_fresh [of "idem_part s4" now] by (intro put_idem_ok store_step_okD [OF 4]) simp
  have 6: "store_step_ok s5 (s5\<lparr>st_services := service_expire_due now (st_services s5)\<rparr>)"
    by (rule frame_ok [OF store_step_okD [OF 5]]) simp_all
  have "expire_due order now s = s5\<lparr>st_services := service_expire_due now (st_services s5)\<rparr>"
    by (simp add: expire_due_def s1_def s2_def s3_def s4_def s5_def Let_def)
  then show ?thesis using 1 2 3 4 5 6 by (metis store_step_ok_trans)
qed

lemma apply_command_ok:
  assumes ok: "store_ok s"
  shows "store_step_ok s (snd (apply_command sha256 delim revision now c s))"
proof (cases c)
  case (LockC x)
  then show ?thesis using ok by (simp add: case_prod_unfold put_locks_ok apply_lock_ok store_ok_def)
next
  case (SemaphoreC x)
  have "sem_step_sound (sem_part s) (snd (apply_semaphore sha256 delim revision now x (sem_part s)))"
    using ok by (simp add: apply_semaphore_sound store_ok_def)
  then show ?thesis using SemaphoreC ok by (simp add: case_prod_unfold put_sems_ok sem_step_sound_def)
next
  case (TaskC x)
  then show ?thesis using ok apply_task_fresh [of "task_part s" now x]
    by (simp add: case_prod_unfold put_tasks_ok apply_task_inv store_ok_def)
next
  case (HandoffC x)
  then show ?thesis using ok apply_handoff_fresh [of "handoff_part s" now x]
    by (simp add: case_prod_unfold put_handoffs_ok apply_handoff_inv store_ok_def)
next
  case (IdempotencyC x)
  then show ?thesis using ok apply_idempotency_fresh [of "idem_part s" revision now x]
    by (simp add: case_prod_unfold put_idem_ok)
next
  case (ElectionC x)
  then show ?thesis using ok apply_election_fresh [of "election_part s" revision now x]
    by (simp add: case_prod_unfold put_elections_ok)
qed (auto simp: case_prod_unfold activate_command_protocol_def intro!: frame_ok [OF ok])

text \<open>The state in which the command of an entry runs: stamped, swept and numbered.\<close>

definition entry_state :: "log_entry \<Rightarrow> store \<Rightarrow> store" where
  "entry_state e s = (if is_activation (en_command e) then s
     else (expire_due (en_order e) (en_proposed_at_ms e)
         (s\<lparr>st_command_protocol := max (st_command_protocol s) (required_protocol (en_command e))\<rparr>))
       \<lparr>st_revision := st_revision s + 1\<rparr>)"

lemma expire_due_simps [simp]:
  "st_revision (expire_due order now s) = st_revision s"
  "st_command_protocol (expire_due order now s) = st_command_protocol s"
  by (simp_all add: expire_due_def part_defs Let_def)

lemma apply_at_split:
  "apply_at sha256 delim e s =
    (let r = apply_command sha256 delim (st_revision (entry_state e s)) (en_proposed_at_ms e) (en_command e) (entry_state e s)
     in (\<lparr>ar_revision = st_revision (entry_state e s), ar_output = fst r\<rparr>, snd r))"
  by (simp add: apply_at_def entry_state_def Let_def case_prod_unfold)

lemma entry_state_ok:
  assumes "store_ok s"
  shows "store_step_ok s (entry_state e s)"
proof (cases "is_activation (en_command e)")
  case True
  then show ?thesis using frame_ok [OF assms, of s] by (simp add: entry_state_def)
next
  case False
  define s1 where "s1 = s\<lparr>st_command_protocol := max (st_command_protocol s) (required_protocol (en_command e))\<rparr>"
  have 1: "store_step_ok s s1" unfolding s1_def by (rule frame_ok [OF assms]) simp_all
  note 2 = expire_due_ok [OF store_step_okD [OF 1], of "en_order e" "en_proposed_at_ms e"]
  have "store_step_ok (expire_due (en_order e) (en_proposed_at_ms e) s1) (entry_state e s)"
    by (rule frame_ok [OF store_step_okD [OF 2]]) (simp_all add: entry_state_def False s1_def)
  then show ?thesis using 1 2 by (metis store_step_ok_trans)
qed

lemma apply_at_ok:
  assumes "store_ok s"
  shows "store_step_ok s (snd (apply_at sha256 delim e s))"
  using store_step_ok_trans [OF entry_state_ok [OF assms] apply_command_ok [OF store_step_okD [OF entry_state_ok [OF assms]]]]
  by (simp add: apply_at_split Let_def)

lemma store_ok_default: "store_ok store_default"
  using lock_store_ok_new sem_store_sound_new
  by (simp add: store_ok_def store_default_def part_defs lock_store_new_def sem_store_new_def task_inv_def handoff_inv_def)

text \<open>One log entry applied to a store that satisfies the invariants.\<close>

inductive log_step :: "store \<Rightarrow> store \<Rightarrow> bool" where
  log_step: "store_ok s \<Longrightarrow> log_step s (snd (apply_at sha256 delim e s))"

inductive_cases log_stepE: "log_step s s'"

interpretation machine: fenced st_next_fencing_token store_tokens log_step
proof
  fix s s' :: store
  assume "log_step s s'"
  then show "fresh_step (st_next_fencing_token s) (store_tokens s) (st_next_fencing_token s') (store_tokens s')"
    by (rule log_stepE) (use apply_at_ok in \<open>auto simp: store_step_ok_def\<close>)
qed

definition run_log :: "(string \<Rightarrow> string) \<Rightarrow> string \<Rightarrow> log_entry list \<Rightarrow> store \<Rightarrow> store" where
  "run_log sha256 delim es s = final (apply_at sha256 delim) es s"

lemma run_log_Nil [simp]: "run_log sha256 delim [] s = s"
  by (simp add: run_log_def run_simps)

lemma run_log_Cons: "run_log sha256 delim (e # es) s = run_log sha256 delim es (snd (apply_at sha256 delim e s))"
  by (simp add: run_log_def run_simps)

lemma run_log_steps:
  "store_ok s \<Longrightarrow> log_step\<^sup>*\<^sup>* s (run_log sha256 delim es s) \<and> store_ok (run_log sha256 delim es s)"
proof (induction es arbitrary: s)
  case Nil
  then show ?case by (simp add: run_log_def run_simps)
next
  case (Cons e es)
  let ?s = "snd (apply_at sha256 delim e s)"
  have "store_ok ?s" using apply_at_ok [OF Cons.prems] by (simp add: store_step_ok_def)
  moreover have "log_step s ?s" using Cons.prems by (intro log_step) simp_all
  ultimately show ?case using Cons.IH [of ?s] Cons.prems by (simp add: run_log_Cons converse_rtranclp_into_rtranclp)
qed

subsection \<open>Evaluating an idle lock service\<close>

lemma ledger_expire_new [simp]: "ledger_expire now ledger_new = ledger_new"
  by (simp add: ledger_expire_def ledger_new_def entries_def)

lemma lock_expire_idle [simp]:
  "lock_expire_due now \<lparr>ls_next_fencing_token = c, ls_locks = lock_manager_new, ls_cancellations = ledger_new\<rparr> =
     \<lparr>ls_next_fencing_token = c, ls_locks = lock_manager_new, ls_cancellations = ledger_new\<rparr>"
  by (simp add: lock_expire_due_def lock_expire_grants_def lock_expire_waiters_def lock_manager_new_def
      lock_promote.simps lock_first_grantable_def entries_def)

lemma lm_grants_new [simp]: "lm_grants lock_manager_new = fmempty"
  by (simp add: lock_manager_new_def)

lemma sem_expire_idle [simp]:
  "sem_expire_due [] now \<lparr>ms_next_fencing_token = c, ms_semaphores = m, ms_cancellations = ledger_new\<rparr> =
     \<lparr>ms_next_fencing_token = c, ms_semaphores = fmmap (sem_expire now) m, ms_cancellations = ledger_new\<rparr>"
  by (simp add: sem_expire_due_def semaphores_promote_def)

lemmas machine_eval = run_log_Cons apply_at_split entry_state_def expire_due_def Let_def is_activation_def
  part_defs store_default_def kv_expire_due_def election_expire_due_def idem_expire_due_def service_expire_due_def

definition entry :: "u64 \<Rightarrow> command \<Rightarrow> log_entry" where
  "entry now c = \<lparr>en_command = c, en_proposed_at_ms = now, en_order = []\<rparr>"

definition terms :: "log_entry list" where
  "terms = [entry 10 (ElectionC (ElectionCampaign ''n'' ''a'' 100 fmempty)), entry 20 (ElectionC (ElectionResign ''n'' ''a'' 1))]"

lemma terms_eval:
  "st_next_fencing_token (run_log sha256 delim terms store_default) = 1"
  "store_tokens (run_log sha256 delim terms store_default) = {}"
  by (simp_all add: token_defs terms_def entry_def machine_eval election_defs case_prod_unfold
      next_token_eq limit_defs leader_live_def sat_add_def)

subsection \<open>Properties of the whole machine\<close>

text \<open>C27. The tokens a shard issues are never reused. After any log of commands of all components applied to the
  initial store, every token that was issued to a lock grant, permit, task claim, accepted handoff, idempotency
  record or leadership is positive and at most the counter, and a token at most the counter that none of them
  carries is carried by none of them after any further log. The token an offer of a handoff names
  (\<open>from_token\<close>) is supplied by the caller, not issued, and is not among them.\<close>

theorem fencing_tokens_are_never_reused:
  assumes "t \<le> st_next_fencing_token (run_log sha256 delim es store_default)"
    and "t \<notin> store_tokens (run_log sha256 delim es store_default)"
  shows "t \<notin> store_tokens (run_log sha256 delim es' (run_log sha256 delim es store_default)) \<and>
    (\<forall>u \<in> store_tokens (run_log sha256 delim es store_default).
      0 < u \<and> u \<le> st_next_fencing_token (run_log sha256 delim es store_default))"
proof
  note r = run_log_steps [OF store_ok_default, of sha256 delim es]
  show "t \<notin> store_tokens (run_log sha256 delim es' (run_log sha256 delim es store_default))"
    using machine.retired_token_never_returns [OF _ assms(2,1)] run_log_steps [OF conjunct2 [OF r]] by blast
  have "store_tokens store_default = {}" by (simp add: token_defs store_default_def lock_manager_new_def)
  then show "\<forall>u \<in> store_tokens (run_log sha256 delim es store_default).
      0 < u \<and> u \<le> st_next_fencing_token (run_log sha256 delim es store_default)"
    using machine.run_bounded [OF conjunct1 [OF r]] by simp
qed

theorem fencing_tokens_are_never_reused_witness:
  "(1 :: u64) \<notin> store_tokens (run_log id [] [entry 30 (ElectionC (ElectionCampaign ''n'' ''b'' 100 fmempty))]
     (run_log id [] terms store_default))"
  using fencing_tokens_are_never_reused [of 1 id "[]" terms] by (simp add: terms_eval)

text \<open>C28. Mutual exclusion of the lock service in the whole machine: after any log of commands of all components,
  the historical ones included, two grants that share a key are the same grant, and the held index names exactly the grant of each held key.\<close>

theorem locks_exclude_in_the_whole_machine:
  assumes "fmlookup (lm_grants (st_locks (run_log sha256 delim es store_default))) t = Some g"
    and "fmlookup (lm_grants (st_locks (run_log sha256 delim es store_default))) t' = Some g'"
    and "k \<in> set (lg_keys g)" "k \<in> set (lg_keys g')"
  shows "t = t' \<and> fmlookup (lm_held (st_locks (run_log sha256 delim es store_default))) k = Some t"
proof -
  have inv: "lock_inv (st_next_fencing_token (run_log sha256 delim es store_default)) (st_locks (run_log sha256 delim es store_default))"
    using run_log_steps [OF store_ok_default] by (simp add: store_ok_def lock_store_ok_def lock_part_def)
  show ?thesis using lock_inv_exclusive [OF inv assms] lock_inv_held_iff [OF inv, of k t] assms(1,3) by blast
qed

definition lock_log :: "log_entry list" where
  "lock_log = [entry 10 (TaskC (TaskCreate ''t'' ''build'' (JNull) None)), entry 20 (LockC (LockAcquireV2 [''a''] ''w1'' 1000 True None))]"

lemma lock_log_eval:
  "st_locks (run_log id [] lock_log store_default) =
     \<lparr>lm_held = fmupd ''a'' 1 fmempty, lm_grants = fmupd 1 \<lparr>lg_holder = ''w1'', lg_keys = [''a''], lg_fencing_token = 1,
        lg_lease_expires_ms = 1020, lg_request_id = None\<rparr> fmempty, lm_queue = []\<rparr>"
  by (simp add: lock_log_def entry_def machine_eval task_defs case_prod_unfold canonical_keys_examples lock_eval
      lock_expire_idle [unfolded lock_manager_new_def])

theorem locks_exclude_in_the_whole_machine_witness:
  "(1 :: u64) = 1 \<and> fmlookup (lm_held (st_locks (run_log id [] lock_log store_default))) ''a'' = Some 1"
  by (rule locks_exclude_in_the_whole_machine [of id "[]" lock_log 1 _ 1])
    (simp add: lock_log_eval, simp add: lock_log_eval, simp_all)

text \<open>The protocol of a store never goes back, the revision advances by one for each entry that is not a protocol
  activation (wrapping at the end of the 64-bit range), and the answer carries the revision of its entry.\<close>

theorem revision_and_protocol_advance:
  "st_command_protocol s \<le> st_command_protocol (snd (apply_at sha256 delim e s)) \<and>
   st_revision (snd (apply_at sha256 delim e s)) = (if is_activation (en_command e) then st_revision s else st_revision s + 1) \<and>
   ar_revision (fst (apply_at sha256 delim e s)) = st_revision (snd (apply_at sha256 delim e s))"
proof -
  have c: "st_revision (snd (apply_command sha256 delim r n c x)) = st_revision x"
      "st_command_protocol x \<le> st_command_protocol (snd (apply_command sha256 delim r n c x))" for r n c x
    by (cases c; auto simp: case_prod_unfold activate_command_protocol_def part_defs)+
  have "st_command_protocol s \<le> st_command_protocol (entry_state e s)"
    by (simp add: entry_state_def)
  then have "st_command_protocol s \<le> st_command_protocol (snd (apply_at sha256 delim e s))"
    using c(2) [of "entry_state e s"] order_trans by (fastforce simp: apply_at_split Let_def)
  then show ?thesis by (simp add: apply_at_split Let_def c(1)) (simp add: entry_state_def)
qed

text \<open>During a rolling upgrade a proposer never writes a command that the active protocol does not permit: a command
  is either passed on, possibly in its historical form, which then needs no more than the active protocol and keeps
  the label and the routing key, or it is refused with the protocol it needs.\<close>

theorem proposed_commands_fit_the_active_protocol:
  assumes "LEGACY_COMMAND_PROTOCOL \<le> active"
  shows "case for_active_protocol c active of
      Inr c' \<Rightarrow> required_protocol c' \<le> active \<and> kind c' = kind c \<and>
        routing_key lock_domain service_domain c' = routing_key lock_domain service_domain c
    | Inl v \<Rightarrow> v = required_protocol c \<and> active < v"
  using assms
  by (auto simp: for_active_protocol_def not_le split: command.splits lock_command.splits semaphore_command.splits schedule_command.splits)

theorem proposed_commands_fit_the_active_protocol_witness:
  "\<exists>c'. for_active_protocol (LockC (LockAcquireV2 [''a''] ''w'' 1000 True None)) 1 = Inr c' \<and> required_protocol c' \<le> 1"
  using proposed_commands_fit_the_active_protocol [of 1 "LockC (LockAcquireV2 [''a''] ''w'' 1000 True None)" "[]" "[]"]
  by (simp add: for_active_protocol_def protocol_defs word_le_nat_alt word_less_nat_alt)

end
