(* ===== verification/Restore.thy ===== *)
theory Restore
  imports Store_Invariants
begin

section \<open>Snapshots and the validation of a restored store\<close>

text \<open>
  \<open>StateMachine::snapshot\<close>, \<open>StateMachine::restore\<close>, \<open>Store::max_referenced_fencing_token\<close> and
  \<open>Store::validate_restored\<close> of \<open>src/state.rs\<close>. The JSON encoding of a store belongs to \<open>serde_json\<close> and is a pair
  of parameters. An error of \<open>validate_restored\<close> is a constructor with the values its message shows; a map is
  visited in key order, which only decides which of several violations is reported.
\<close>

datatype restore_error =
    UnsupportedProtocol u16
  | FloorTooHigh u64
  | CounterTooHigh u64
  | CounterBelowFloor u64 u64
  | HeldWithoutGrant string u64
  | HeldNotInGrant string u64
  | GrantTokenMismatch u64 u64
  | GrantHolderInvalid u64
  | GrantKeysInvalid u64
  | GrantRequestIdInvalid u64
  | GrantKeyNotHeld u64 string
  | QueueIndexMismatch
  | QueueRequestInvalid
  | GrantedAndQueued
  | SemaphoreInvalid string
  | SemaphoreHolderInvalid string
  | SemaphoreWaiterInvalid string
  | LedgerInvalid string

definition max_referenced_fencing_token :: "store \<Rightarrow> u64" where
  "max_referenced_fencing_token s = fold max
     (concat (map (\<lambda>(token, g). [token, lg_fencing_token g]) (entries (lm_grants (st_locks s)))) @
      fmvalues (lm_held (st_locks s)) @
      concat (map (\<lambda>sem. map ss_fencing_token (sm_holders sem)) (fmvalues (st_semaphores s))) @
      map ir_fencing_token (fmvalues (st_idempotency s)) @
      map le_fencing_token (fmvalues (st_elections s)) @
      map tr_fencing_token (fmvalues (st_tasks s)) @
      concat (map (\<lambda>h. hr_from_token h # (case hr_to_token h of None \<Rightarrow> [] | Some t \<Rightarrow> [t])) (fmvalues (st_handoffs s)))) 0"

definition first_error :: "('a \<Rightarrow> restore_error option) \<Rightarrow> 'a list \<Rightarrow> restore_error option" where
  "first_error f xs = (case find (\<lambda>x. f x \<noteq> None) xs of None \<Rightarrow> None | Some x \<Rightarrow> f x)"

definition bad_keys :: "string list \<Rightarrow> bool" where
  "bad_keys keys \<longleftrightarrow> keys = [] \<or> length keys > MAX_LOCK_KEYS \<or> canonical_keys keys \<noteq> keys \<or>
     list_ex (\<lambda>key. key = [] \<or> length key > MAX_KEY_BYTES) keys"

definition held_error :: "lock_manager \<Rightarrow> string \<times> u64 \<Rightarrow> restore_error option" where
  "held_error m h = (case h of (key, token) \<Rightarrow> (case fmlookup (lm_grants m) token of
       None \<Rightarrow> Some (HeldWithoutGrant key token)
     | Some g \<Rightarrow> if key \<in> set (lg_keys g) then None else Some (HeldNotInGrant key token)))"

definition grant_error :: "string \<Rightarrow> lock_manager \<Rightarrow> u64 \<times> lock_grant \<Rightarrow> restore_error option" where
  "grant_error delim m tg = (case tg of (token, g) \<Rightarrow>
     if token = 0 \<or> lg_fencing_token g \<noteq> token then Some (GrantTokenMismatch token (lg_fencing_token g))
     else if \<not> valid_stored_holder delim (lg_holder g) then Some (GrantHolderInvalid token)
     else if bad_keys (lg_keys g) then Some (GrantKeysInvalid token)
     else if \<not> valid_request_id (lg_request_id g) then Some (GrantRequestIdInvalid token)
     else map_option (GrantKeyNotHeld token) (find (\<lambda>key. fmlookup (lm_held m) key \<noteq> Some token) (lg_keys g)))"

definition queue_error :: "string \<Rightarrow> lock_manager \<Rightarrow> lock_id \<times> queued_lock \<Rightarrow> restore_error option" where
  "queue_error delim m q = (case q of ((holder, keys), w) \<Rightarrow>
     if holder \<noteq> ql_holder w \<or> keys \<noteq> ql_keys w then Some QueueIndexMismatch
     else if \<not> valid_stored_holder delim (ql_holder w) \<or> bad_keys (ql_keys w) \<or> ql_ttl_ms w = 0 \<or>
       ql_ttl_ms w > MAX_TTL_MS \<or> (case ql_wait_expires_ms w of None \<Rightarrow> False | Some e \<Rightarrow> e < ql_requested_ms w) \<or>
       \<not> valid_request_id (ql_request_id w) then Some QueueRequestInvalid
     else if list_ex (\<lambda>g. lg_holder g = ql_holder w \<and> lg_keys g = ql_keys w \<and> lg_request_id g = ql_request_id w)
       (fmvalues (lm_grants m)) then Some GrantedAndQueued
     else None)"

text \<open>\<open>holders.insert\<close> and \<open>tokens.insert\<close> fail on the second occurrence, so both lists must be distinct.\<close>

definition semaphore_error :: "string \<Rightarrow> string \<times> semaphore \<Rightarrow> restore_error option" where
  "semaphore_error delim ks = (case ks of (key, sem) \<Rightarrow>
     if key = [] \<or> length key > MAX_KEY_BYTES \<or> sm_limit sem = 0 \<or> sm_limit sem > MAX_SEMAPHORE_LIMIT \<or>
       length (sm_holders sem) > unat (sm_limit sem) then Some (SemaphoreInvalid key)
     else if list_ex (\<lambda>p. \<not> valid_stored_holder delim (ss_holder p) \<or> ss_fencing_token p = 0 \<or>
         \<not> valid_request_id (ss_request_id p)) (sm_holders sem) \<or>
       \<not> distinct (map ss_holder (sm_holders sem)) \<or> \<not> distinct (map ss_fencing_token (sm_holders sem))
     then Some (SemaphoreHolderInvalid key)
     else if list_ex (\<lambda>(holder, w). holder \<noteq> qp_holder w \<or> \<not> valid_stored_holder delim (qp_holder w) \<or>
         qp_holder w \<in> set (map ss_holder (sm_holders sem)) \<or> qp_ttl_ms w = 0 \<or> qp_ttl_ms w > MAX_TTL_MS \<or>
         (case qp_wait_expires_ms w of None \<Rightarrow> False | Some e \<Rightarrow> e < qp_requested_ms w) \<or>
         \<not> valid_request_id (qp_request_id w)) (sm_queue sem)
     then Some (SemaphoreWaiterInvalid key)
     else None)"

definition ledger_error :: "string + unit \<Rightarrow> restore_error option" where
  "ledger_error r = (case r of Inl m \<Rightarrow> Some (LedgerInvalid m) | Inr _ \<Rightarrow> None)"

definition or_else :: "restore_error option \<Rightarrow> restore_error option \<Rightarrow> restore_error option" where
  "or_else a b = (case a of None \<Rightarrow> b | Some e \<Rightarrow> Some e)"

definition validate_restored :: "string \<Rightarrow> store \<Rightarrow> restore_error + unit" where
  "validate_restored delim s =
     (let m = st_locks s; flr = max_referenced_fencing_token s
      in if st_command_protocol s < LEGACY_COMMAND_PROTOCOL \<or> st_command_protocol s > CURRENT_COMMAND_PROTOCOL
         then Inl (UnsupportedProtocol (st_command_protocol s))
         else if flr > MAX_FENCING_TOKEN then Inl (FloorTooHigh flr)
         else if st_next_fencing_token s > MAX_FENCING_TOKEN then Inl (CounterTooHigh (st_next_fencing_token s))
         else if st_next_fencing_token s < flr then Inl (CounterBelowFloor (st_next_fencing_token s) flr)
         else (case
             or_else (first_error (held_error m) (entries (lm_held m)))
             (or_else (first_error (grant_error delim m) (entries (lm_grants m)))
             (or_else (first_error (queue_error delim m) (lm_queue m))
             (or_else (first_error (semaphore_error delim) (entries (st_semaphores s)))
             (or_else (ledger_error (ledger_validate ''lock'' (st_lock_cancellations s)))
               (ledger_error (ledger_validate ''semaphore'' (st_semaphore_cancellations s)))))))
           of None \<Rightarrow> Inr () | Some e \<Rightarrow> Inl e))"

definition PREVIOUS_PROTOCOL_SNAPSHOT_MAGIC :: string where
  "PREVIOUS_PROTOCOL_SNAPSHOT_MAGIC = ''FIDUCIA-STATE-MACHINE'' @ [CHR 0x00] @ ''V2'' @ [CHR 0x0A]"
definition CURRENT_PROTOCOL_SNAPSHOT_MAGIC :: string where
  "CURRENT_PROTOCOL_SNAPSHOT_MAGIC = ''FIDUCIA-STATE-MACHINE'' @ [CHR 0x00] @ ''V3'' @ [CHR 0x0A]"

datatype snapshot_error = SnapshotUnsupportedProtocol

definition snapshot :: "(store \<Rightarrow> string) \<Rightarrow> store \<Rightarrow> snapshot_error + string" where
  "snapshot to_vec s =
     (if st_command_protocol s = LEGACY_COMMAND_PROTOCOL then Inr (to_vec s)
      else if st_command_protocol s = LOCK_COMMAND_PROTOCOL then Inr (PREVIOUS_PROTOCOL_SNAPSHOT_MAGIC @ to_vec s)
      else if st_command_protocol s = CURRENT_COMMAND_PROTOCOL then Inr (CURRENT_PROTOCOL_SNAPSHOT_MAGIC @ to_vec s)
      else Inl SnapshotUnsupportedProtocol)"

datatype restore_failure = Malformed | StampMismatch | Invalid restore_error

definition restore :: "string \<Rightarrow> (string \<Rightarrow> store option) \<Rightarrow> string \<Rightarrow> restore_failure + store" where
  "restore delim from_slice bytes =
     (let (stamp, payload) = (case strip_prefix CURRENT_PROTOCOL_SNAPSHOT_MAGIC bytes of
            Some payload \<Rightarrow> (Some CURRENT_COMMAND_PROTOCOL, payload)
          | None \<Rightarrow> (case strip_prefix PREVIOUS_PROTOCOL_SNAPSHOT_MAGIC bytes of
                Some payload \<Rightarrow> (Some LOCK_COMMAND_PROTOCOL, payload)
              | None \<Rightarrow> (None, bytes)))
      in case from_slice payload of
           None \<Rightarrow> Inl Malformed
         | Some restored \<Rightarrow>
             let expected_stamp = (if st_command_protocol restored = LOCK_COMMAND_PROTOCOL then Some LOCK_COMMAND_PROTOCOL
                   else if st_command_protocol restored = CURRENT_COMMAND_PROTOCOL then Some CURRENT_COMMAND_PROTOCOL
                   else None)
             in if stamp \<noteq> expected_stamp then Inl StampMismatch
                else (case validate_restored delim restored of Inl e \<Rightarrow> Inl (Invalid e) | Inr _ \<Rightarrow> Inr restored))"

subsection \<open>What an accepted store guarantees\<close>

lemma fold_max_le: "fold max xs (c :: u64) \<le> b \<longleftrightarrow> c \<le> b \<and> (\<forall>x \<in> set xs. x \<le> b)"
  by (induction xs arbitrary: c) auto

lemma first_error_None: "first_error f xs = None \<longleftrightarrow> (\<forall>x \<in> set xs. f x = None)"
  by (induction xs) (auto simp: first_error_def)

lemma or_else_None: "or_else a b = None \<longleftrightarrow> a = None \<and> b = None"
  by (simp add: or_else_def split: option.split)

lemma validate_restored_ok:
  assumes "validate_restored delim s = Inr ()"
  shows "max_referenced_fencing_token s \<le> st_next_fencing_token s" "st_next_fencing_token s \<le> MAX_FENCING_TOKEN"
    "\<And>h. h \<in> set (entries (lm_held (st_locks s))) \<Longrightarrow> held_error (st_locks s) h = None"
    "\<And>g. g \<in> set (entries (lm_grants (st_locks s))) \<Longrightarrow> grant_error delim (st_locks s) g = None"
  using assms by (auto simp: validate_restored_def Let_def or_else_None first_error_None split: if_splits option.splits)

lemma accepted_dual_index:
  assumes "validate_restored delim s = Inr ()"
  shows "dual_index (st_locks s)"
proof -
  let ?m = "st_locks s"
  have h: "\<exists>g. fmlookup (lm_grants ?m) t = Some g \<and> k \<in> set (lg_keys g)" if "fmlookup (lm_held ?m) k = Some t" for k t
    using validate_restored_ok(3) [OF assms, of "(k, t)"] that
    by (auto simp: entries_iff held_error_def split: option.splits if_splits)
  have g: "fmlookup (lm_held ?m) k = Some t" if "fmlookup (lm_grants ?m) t = Some g" "k \<in> set (lg_keys g)" for t g k
    using validate_restored_ok(4) [OF assms, of "(t, g)"] that
    by (auto simp: entries_iff grant_error_def find_None_iff split: if_splits)
  show ?thesis using h g by (auto simp: dual_index_def)
qed

lemma referenced_le:
  "max_referenced_fencing_token s \<le> b \<longleftrightarrow>
    (\<forall>t g. fmlookup (lm_grants (st_locks s)) t = Some g \<longrightarrow> t \<le> b \<and> lg_fencing_token g \<le> b) \<and>
    (\<forall>k t. fmlookup (lm_held (st_locks s)) k = Some t \<longrightarrow> t \<le> b) \<and>
    (\<forall>k sem p. fmlookup (st_semaphores s) k = Some sem \<longrightarrow> p \<in> set (sm_holders sem) \<longrightarrow> ss_fencing_token p \<le> b) \<and>
    (\<forall>k r. fmlookup (st_idempotency s) k = Some r \<longrightarrow> ir_fencing_token r \<le> b) \<and>
    (\<forall>k l. fmlookup (st_elections s) k = Some l \<longrightarrow> le_fencing_token l \<le> b) \<and>
    (\<forall>k r. fmlookup (st_tasks s) k = Some r \<longrightarrow> tr_fencing_token r \<le> b) \<and>
    (\<forall>k h. fmlookup (st_handoffs s) k = Some h \<longrightarrow> hr_from_token h \<le> b \<and> (\<forall>t. hr_to_token h = Some t \<longrightarrow> t \<le> b))"
proof -
  have e: "(\<forall>x \<in> set (entries m). P x) \<longleftrightarrow> (\<forall>k v. fmlookup m k = Some v \<longrightarrow> P (k, v))" for m :: "(u64, lock_grant) fmap" and P
    by (force simp: entries_iff)
  show ?thesis
    unfolding max_referenced_fencing_token_def fold_max_le set_append set_concat set_map ball_Un
    by (auto simp: e set_fmvalues split: option.split)
qed

lemma token_referenced:
  assumes "t \<in> store_tokens s"
  shows "t \<le> max_referenced_fencing_token s"
  using assms referenced_le [of s "max_referenced_fencing_token s", THEN iffD1, OF order_refl]
  by (auto simp: token_defs)

text \<open>C29. A store that \<open>restore\<close> accepts cannot reissue a token or serve a broken lock table: its counter is at least
  every token it references, the tokens that offers of handoffs name included, and at most the supported maximum, so the
  next token minted is none of those issued, and the held index and the grants agree, so that every key is held by one
  grant.\<close>

theorem accepted_snapshot_is_safe:
  assumes "restore delim from_slice bytes = Inr s"
  shows "(\<forall>t \<in> store_tokens s. t \<le> st_next_fencing_token s) \<and> st_next_fencing_token s \<le> MAX_FENCING_TOKEN \<and>
    (\<forall>name h. fmlookup (st_handoffs s) name = Some h \<longrightarrow> hr_from_token h \<le> st_next_fencing_token s) \<and>
    (\<forall>t. next_token (st_next_fencing_token s) = Some t \<longrightarrow> t \<notin> store_tokens s) \<and> dual_index (st_locks s)"
proof -
  have v: "validate_restored delim s = Inr ()"
    using assms by (auto simp: restore_def Let_def split: option.splits if_splits prod.splits sum.splits)
  have b: "t \<le> st_next_fencing_token s" if "t \<in> store_tokens s" for t
    using token_referenced [OF that] validate_restored_ok(1) [OF v] by (rule order_trans)
  moreover have "t \<notin> store_tokens s" if "next_token (st_next_fencing_token s) = Some t" for t
    using b [of t] next_token_Some(1) [OF that] by (auto dest: order_le_less_trans)
  moreover have "hr_from_token h \<le> st_next_fencing_token s" if "fmlookup (st_handoffs s) name = Some h" for name h
    using referenced_le [THEN iffD1, OF validate_restored_ok(1) [OF v]] that by blast
  ultimately show ?thesis using validate_restored_ok(2) [OF v] accepted_dual_index [OF v] by blast
qed

lemma strip_prefix_append [simp]: "strip_prefix p (p @ s) = Some s"
  by (induction p) auto

lemma magics_differ: "strip_prefix CURRENT_PROTOCOL_SNAPSHOT_MAGIC (PREVIOUS_PROTOCOL_SNAPSHOT_MAGIC @ s) = None"
  by (simp add: CURRENT_PROTOCOL_SNAPSHOT_MAGIC_def PREVIOUS_PROTOCOL_SNAPSHOT_MAGIC_def)

subsection \<open>Witnesses\<close>

definition soh :: string where "soh = [CHR 0x01]"

lemma valid_holder_w1: "valid_stored_holder soh ''w1''"
  by (simp add: soh_def valid_stored_holder_def valid_holder_component_def trim_is_empty_def has_control_def
      is_whitespace_def is_control_def limit_defs)

lemma ledger_validate_new: "ledger_validate label ledger_new = Inr ()"
  by (rule ledger_ok_validate [OF ledger_ok_new])

definition snap_log :: "log_entry list" where
  "snap_log = [entry 20 (LockC (LockAcquireV2 [''a''] ''w1'' 1000 True None))]"

definition snap_store :: store where
  "snap_store = store_default\<lparr>st_command_protocol := 2, st_revision := 1, st_next_fencing_token := 1,
     st_locks := \<lparr>lm_held = fmupd ''a'' 1 fmempty, lm_grants = fmupd 1 \<lparr>lg_holder = ''w1'', lg_keys = [''a''],
       lg_fencing_token = 1, lg_lease_expires_ms = 1020, lg_request_id = None\<rparr> fmempty, lm_queue = []\<rparr>\<rparr>"

lemma max_protocols: "max (1 :: u16) 2 = 2"
  by (simp add: max_def word_le_nat_alt)

lemma snap_log_eval: "run_log id delim snap_log store_default = snap_store"
  by (simp add: snap_log_def snap_store_def entry_def machine_eval case_prod_unfold canonical_keys_examples lock_eval
      lock_expire_idle [unfolded lock_manager_new_def] protocol_defs max_protocols)

lemmas validation_eval = validate_restored_def or_else_def first_error_def held_error_def grant_error_def
  queue_error_def semaphore_error_def ledger_error_def ledger_validate_new bad_keys_def valid_request_id_def
  max_referenced_fencing_token_def entries_def fmvalues_def limit_defs protocol_defs Let_def

lemma snap_store_valid: "validate_restored soh snap_store = Inr ()"
  by (simp add: validation_eval snap_store_def store_default_def valid_holder_w1 canonical_keys_examples max_def
      word_less_nat_alt word_le_nat_alt)

lemma snap_store_restored:
  "restore soh (\<lambda>_. Some snap_store) (PREVIOUS_PROTOCOL_SNAPSHOT_MAGIC @ ''{}'') = Inr snap_store"
  using snap_store_valid by (simp add: restore_def magics_differ) (simp add: snap_store_def protocol_defs)

theorem accepted_snapshot_is_safe_witness:
  "next_token (st_next_fencing_token snap_store) = Some 2 \<and> (1 :: u64) \<in> store_tokens snap_store \<and>
    2 \<notin> store_tokens snap_store \<and> dual_index (st_locks snap_store)"
proof -
  have t: "next_token (st_next_fencing_token snap_store) = Some 2"
    by (simp add: snap_store_def next_token_eq limit_defs word_less_nat_alt)
  moreover have "(1 :: u64) \<in> store_tokens snap_store" by (simp add: snap_store_def token_defs)
  ultimately show ?thesis using accepted_snapshot_is_safe [OF snap_store_restored] by blast
qed

subsection \<open>Reachable stores that a restore refuses\<close>

lemma restore_valid: "restore delim from_slice bytes = Inr s \<Longrightarrow> validate_restored delim s = Inr ()"
  by (auto simp: restore_def Let_def split: option.splits if_splits prod.splits sum.splits)

lemma accepted_offer_recorded:
  assumes "apply_handoff_offer now name resource giver recipient tok ctx ttl h = (HandoffOk view, h')"
  shows "\<exists>r. fmlookup (hf_handoffs h') name = Some r \<and> hr_from_token r = tok"
  using assms by (auto simp: apply_handoff_offer_def put_handoff_def Let_def split: if_splits option.splits)

text \<open>C30. An accepted handoff offer can make the shard unrestorable. From whatever store, when the log entry of an offer
  is answered as accepted and the token it names is above the counter, which the offer does not advance, then no
  snapshot restores the resulting store: whatever bytes were written and however they are decoded, \<open>restore\<close> does not
  return it, because \<open>validate_restored\<close> counts the token among those referenced.\<close>

theorem handoff_offer_blocks_restore:
  assumes "en_command e = HandoffC (HandoffOffer name resource giver recipient from_token ctx ttl)"
    and "apply_at sha256 delim e s = (result, s')" "ar_output result = HandoffO (HandoffOk view)"
    and "st_next_fencing_token s' < from_token"
  shows "restore delim' from_slice bytes \<noteq> Inr s'"
proof
  assume "restore delim' from_slice bytes = Inr s'"
  note v = referenced_le [THEN iffD1, OF validate_restored_ok(1) [OF restore_valid [OF this]]]
  obtain h h' where "apply_handoff_offer (en_proposed_at_ms e) name resource giver recipient from_token ctx ttl h =
      (HandoffOk view, h')" "st_handoffs s' = hf_handoffs h'"
    using assms(2,3) by (auto simp: assms(1) apply_at_split Let_def part_defs split: prod.splits)
  then have "\<exists>r. fmlookup (st_handoffs s') name = Some r \<and> hr_from_token r = from_token"
    using accepted_offer_recorded by metis
  then show False using v assms(4) by fastforce
qed

theorem handoff_offer_blocks_restore_witness:
  "\<exists>s'. run_log id soh [entry 10 (HandoffC (HandoffOffer ''h'' ''r'' ''a'' ''b'' 1 JNull 30000))] store_default = s' \<and>
     restore soh (\<lambda>_. Some s') ''{}'' \<noteq> Inr s'"
proof -
  let ?e = "entry 10 (HandoffC (HandoffOffer ''h'' ''r'' ''a'' ''b'' 1 JNull 30000))"
  obtain result s' where a: "apply_at id soh ?e store_default = (result, s')" by (cases "apply_at id soh ?e store_default")
  have c: "st_next_fencing_token (snd (apply_at id soh ?e store_default)) = 0"
    and "\<exists>view. ar_output (fst (apply_at id soh ?e store_default)) = HandoffO (HandoffOk view)"
    by (simp_all add: entry_def machine_eval handoff_defs case_prod_unfold sat_add_def lock_manager_new_def
        lock_expire_idle [unfolded lock_manager_new_def] MAX_HANDOFF_TOKEN_ADVANCE_def word_less_nat_alt word_le_nat_alt)
  then obtain view where "ar_output result = HandoffO (HandoffOk view)" using a by auto
  from handoff_offer_blocks_restore [OF _ a this] have "restore soh (\<lambda>_. Some s') ''{}'' \<noteq> Inr s'"
    using a c by (simp add: entry_def)
  then show ?thesis using a by (simp add: run_log_Cons)
qed

definition two_permits_log :: "log_entry list" where
  "two_permits_log = [entry 10 (SemaphoreC (SemaphoreAcquireAttempt ''k'' ''w1'' ''r1'' 2 1000 False None)),
     \<lparr>en_command = SemaphoreC (SemaphoreAcquireAttempt ''k'' ''w1'' ''r2'' 2 1000 False None), en_proposed_at_ms = 20,
      en_order = [''k'']\<rparr>]"

definition two_permits :: store where
  "two_permits = store_default\<lparr>st_command_protocol := 2, st_revision := 2, st_next_fencing_token := 2,
     st_semaphores := fmupd ''k'' \<lparr>sm_limit = 2, sm_holders =
       [\<lparr>ss_holder = ''w1'', ss_fencing_token = 1, ss_lease_expires_ms = 1010, ss_request_id = Some ''r1''\<rparr>,
        \<lparr>ss_holder = ''w1'', ss_fencing_token = 2, ss_lease_expires_ms = 1020, ss_request_id = Some ''r2''\<rparr>],
       sm_queue = []\<rparr> fmempty\<rparr>"

lemma ledger_contains_new [simp]: "\<not> ledger_contains i ledger_new"
  by (simp add: ledger_contains_def ledger_new_def)

lemma admit_nobody: "sm_queue sem = [] \<Longrightarrow> admit_waiters now c sem = ([], c, sem)"
  by (simp add: admit_waiters.simps)

lemma two_permits_eval: "run_log id soh two_permits_log store_default = two_permits"
  by (simp add: two_permits_log_def two_permits_def entry_def machine_eval sem_eval case_prod_unfold protocol_defs
      max_protocols sem_expire_due_def semaphores_promote_def semaphore_promote_def sem_expire_def admit_nobody
      word_less_nat_alt)

text \<open>Two permits of one holder make the snapshot of the shard unrestorable: a holder that acquires twice under
  different request ids gets two permits, and \<open>validate_restored\<close> refuses a semaphore that lists a holder twice.\<close>

theorem second_permit_blocks_restore:
  "validate_restored soh (run_log id soh two_permits_log store_default) = Inl (SemaphoreHolderInvalid ''k'')"
  unfolding two_permits_eval
  by (simp add: validation_eval two_permits_def store_default_def lock_manager_new_def max_def word_less_nat_alt word_le_nat_alt)

lemma canonical_singleton: "k \<noteq> [] \<Longrightarrow> canonical_keys [k] = [k]"
  by (simp add: canonical_keys_def)

definition long_key :: string where "long_key = replicate 1024 (CHR ''k'')"

definition scoped :: "string \<Rightarrow> string" where "scoped key = soh @ ''org'' @ soh @ key"

definition long_key_log :: "log_entry list" where
  "long_key_log = [entry 10 (LockC (LockAcquireV2 [scoped long_key] ''w1'' 1000 True None))]"

lemma long_key_grants:
  "st_locks (run_log id soh long_key_log store_default) =
     \<lparr>lm_held = fmupd (scoped long_key) 1 fmempty, lm_grants = fmupd 1 \<lparr>lg_holder = ''w1'', lg_keys = [scoped long_key],
       lg_fencing_token = 1, lg_lease_expires_ms = 1010, lg_request_id = None\<rparr> fmempty, lm_queue = []\<rparr>"
proof -
  have "scoped long_key \<noteq> []" by (simp add: scoped_def soh_def)
  then show ?thesis
    by (simp add: long_key_log_def entry_def machine_eval case_prod_unfold canonical_singleton lock_eval
        lock_expire_idle [unfolded lock_manager_new_def])
qed

lemma long_key_counters:
  "st_next_fencing_token (run_log id soh long_key_log store_default) = 1"
  "st_command_protocol (run_log id soh long_key_log store_default) = 2"
  "max_referenced_fencing_token (run_log id soh long_key_log store_default) = 1"
proof -
  have "scoped long_key \<noteq> []" by (simp add: scoped_def soh_def)
  then have e: "run_log id soh long_key_log store_default = store_default\<lparr>st_command_protocol := 2, st_revision := 1,
      st_next_fencing_token := 1, st_locks := st_locks (run_log id soh long_key_log store_default)\<rparr>"
    by (simp add: long_key_log_def entry_def machine_eval case_prod_unfold canonical_singleton lock_eval
        lock_expire_idle [unfolded lock_manager_new_def] protocol_defs max_protocols)
  show "st_next_fencing_token (run_log id soh long_key_log store_default) = 1"
    "st_command_protocol (run_log id soh long_key_log store_default) = 2"
    by (subst e, simp)+
  show "max_referenced_fencing_token (run_log id soh long_key_log store_default) = 1"
    by (subst e [unfolded long_key_grants])
      (simp add: max_referenced_fencing_token_def store_default_def entries_def fmvalues_def max_def)
qed

text \<open>A lock on a key of the longest length that the boundary accepts makes the snapshot of the shard
  unrestorable: the boundary limits the caller's key to 1024 bytes, the handlers store the key with the prefix of the
  organisation in front, and \<open>validate_restored\<close> limits the stored key to the same 1024 bytes.\<close>

theorem longest_lock_key_blocks_restore:
  "check_lock_key long_key = Inr () \<and>
   validate_restored soh (run_log id soh long_key_log store_default) = Inl (GrantKeysInvalid 1)"
proof
  show "check_lock_key long_key = Inr ()"
    by (simp add: check_lock_key_def check_str_def long_key_def limit_defs accept_def)
  have len: "length (scoped long_key) = 1029" by (simp add: scoped_def soh_def long_key_def)
  then have bad: "bad_keys [scoped long_key]" by (simp add: bad_keys_def limit_defs)
  have "grant_error soh (st_locks (run_log id soh long_key_log store_default)) (1, \<lparr>lg_holder = ''w1'',
      lg_keys = [scoped long_key], lg_fencing_token = 1, lg_lease_expires_ms = 1010, lg_request_id = None\<rparr>) =
      Some (GrantKeysInvalid 1)"
    using bad by (simp add: grant_error_def valid_holder_w1)
  then show "validate_restored soh (run_log id soh long_key_log store_default) = Inl (GrantKeysInvalid 1)"
    by (simp add: validate_restored_def long_key_counters long_key_grants or_else_def first_error_def held_error_def
        entries_def limit_defs protocol_defs word_less_nat_alt)
qed

end
