(* ===== verification/Org_Scope.thy ===== *)
theory Org_Scope
  imports Validate
begin

section \<open>Organisation scopes\<close>

text \<open>
  \<open>OrgScope\<close>, \<open>unscope_value\<close>, \<open>valid_org\<close>, \<open>is_exempt\<close> and \<open>require_org\<close> of \<open>src/org_scope.rs\<close>. The routing
  crate provides the prefix of an organisation and the scoped form of a key; both are parameters. What the
  theorems assume of them is the format that the module documents: a delimiter, the organisation, the delimiter
  again and the caller's key.
\<close>

definition ORG_HEADER :: string where "ORG_HEADER = ''x-fiducia-org-id''"

definition scope :: "(string \<Rightarrow> string \<Rightarrow> string) \<Rightarrow> string \<Rightarrow> string \<Rightarrow> string" where
  "scope org_scoped_key org key = org_scoped_key org key"

definition unscope :: "(string \<Rightarrow> string) \<Rightarrow> string \<Rightarrow> string \<Rightarrow> string option" where
  "unscope org_scope_prefix org scoped = strip_prefix (org_scope_prefix org) scoped"

definition scope_all :: "(string \<Rightarrow> string \<Rightarrow> string) \<Rightarrow> string \<Rightarrow> string list \<Rightarrow> string list" where
  "scope_all org_scoped_key org keys = map (scope org_scoped_key org) keys"

definition IDENTITY_FIELDS :: "string list" where
  "IDENTITY_FIELDS = [''key'', ''keys'', ''held_keys'', ''conflicts'', ''name'', ''tenant'', ''service'', ''holder'',
     ''superseded_by'', ''idempotency_key'']"

definition OPAQUE_FIELDS :: "string list" where
  "OPAQUE_FIELDS = [''value'', ''payload'', ''result'', ''context'', ''checkpoint'', ''metadata'', ''evidence'', ''target'']"

text \<open>The value is rewritten in place; \<open>all\<close> stops at the first failure and leaves the rest as it was.\<close>

fun unscope_value :: "(string \<Rightarrow> string) \<Rightarrow> string \<Rightarrow> string \<Rightarrow> bool \<Rightarrow> json \<Rightarrow> bool \<times> json"
  and unscope_items :: "(string \<Rightarrow> string) \<Rightarrow> string \<Rightarrow> string \<Rightarrow> bool \<Rightarrow> json list \<Rightarrow> bool \<times> json list"
  and unscope_fields :: "(string \<Rightarrow> string) \<Rightarrow> string \<Rightarrow> string \<Rightarrow> (string \<times> json) list \<Rightarrow> bool \<times> (string \<times> json) list" where
  "unscope_value prefix delim org identity (JString t) =
     (if identity \<and> strip_prefix delim t \<noteq> None
      then (case unscope prefix org t of None \<Rightarrow> (False, JString t) | Some caller_value \<Rightarrow> (True, JString caller_value))
      else (True, JString t))"
| "unscope_value prefix delim org identity (JArray items) =
     (case unscope_items prefix delim org identity items of (ok, items') \<Rightarrow> (ok, JArray items'))"
| "unscope_value prefix delim org identity (JObject flds) =
     (case unscope_fields prefix delim org flds of (ok, flds') \<Rightarrow> (ok, JObject flds'))"
| "unscope_value prefix delim org identity v = (True, v)"
| "unscope_items prefix delim org identity [] = (True, [])"
| "unscope_items prefix delim org identity (v # vs) =
     (case unscope_value prefix delim org identity v of (ok, v') \<Rightarrow>
        if \<not> ok then (False, v' # vs)
        else (case unscope_items prefix delim org identity vs of (ok', vs') \<Rightarrow> (ok', v' # vs')))"
| "unscope_fields prefix delim org [] = (True, [])"
| "unscope_fields prefix delim org ((f, v) # fs) =
     (case (if f \<in> set OPAQUE_FIELDS then (True, v) else unscope_value prefix delim org (f \<in> set IDENTITY_FIELDS) v) of
        (ok, v') \<Rightarrow>
          if \<not> ok then (False, (f, v') # fs)
          else (case unscope_fields prefix delim org fs of (ok', fs') \<Rightarrow> (ok', (f, v') # fs')))"

datatype org_response = OrgJson json | ScopeViolation

definition org_response :: "(string \<Rightarrow> string) \<Rightarrow> string \<Rightarrow> string \<Rightarrow> json \<Rightarrow> org_response" where
  "org_response prefix delim org v =
     (case unscope_value prefix delim org False v of (ok, v') \<Rightarrow> if ok then OrgJson v' else ScopeViolation)"

definition valid_org :: "string \<Rightarrow> bool" where
  "valid_org v \<longleftrightarrow> v \<noteq> [] \<and> length v \<le> MAX_ORG_BYTES \<and> \<not> list_ex (\<lambda>c. is_control c \<or> is_whitespace c) (chars v)"

definition is_exempt :: "string \<Rightarrow> bool" where
  "is_exempt path \<longleftrightarrow> path \<in> {''/status'', ''/observe/shards'', ''/observe/metrics'', ''/v1/status'',
     ''/v1/observe/shards'', ''/v1/observe/metrics''}"

text \<open>What the middleware does with a request: pass it on, with or without a scope, or refuse it.\<close>

datatype org_guard = PassUnscoped | PassScoped string | InvalidOrg | MissingOrg

definition require_org :: "string \<Rightarrow> string option \<Rightarrow> org_guard" where
  "require_org path header =
     (if is_exempt path then PassUnscoped
      else (case header of Some org \<Rightarrow> if valid_org org then PassScoped org else InvalidOrg | None \<Rightarrow> MissingOrg))"

subsection \<open>Isolation\<close>

text \<open>The organisation ids that the middleware lets through do not contain the delimiter of the scopes, the control
  character SOH. A header value is read as text only when it is ASCII.\<close>

lemma chars_ascii: "\<forall>c \<in> set s. (of_char c :: nat) < 128 \<Longrightarrow> chars s = map of_char s"
  by (induction s) (simp_all add: Let_def)

lemma accepted_org_has_no_delimiter:
  assumes "require_org path (Some org) = PassScoped org" "\<forall>c \<in> set org. (of_char c :: nat) < 128"
  shows "CHR 0x01 \<notin> set org"
proof
  assume "CHR 0x01 \<in> set org"
  then have "(1 :: nat) \<in> set (chars org)" using chars_ascii [OF assms(2)] by force
  then have "\<not> valid_org org" by (fastforce simp: valid_org_def list_ex_iff is_control_def)
  then show False using assms(1) by (simp add: require_org_def split: if_splits)
qed

text \<open>C31. Organisations are isolated. A key that an organisation stored is recovered by that organisation, whatever
  bytes the caller put in the key, and by no other organisation; two organisations never share a stored key. The
  delimiter is a single byte that the organisation ids do not contain; lemma \<open>accepted_org_has_no_delimiter\<close> gives
  that for the ids the middleware accepts.\<close>

theorem organisations_are_isolated:
  assumes "\<And>org. org_scope_prefix org = d # org @ [d]" "\<And>org key. org_scoped_key org key = org_scope_prefix org @ key"
    and "d \<notin> set a" "d \<notin> set b"
  shows "unscope org_scope_prefix b (scope org_scoped_key a key) = (if a = b then Some key else None) \<and>
    (scope org_scoped_key a key = scope org_scoped_key b key' \<longleftrightarrow> a = b \<and> key = key')"
proof
  have s: "scope org_scoped_key x k = d # x @ d # k" for x k by (simp add: scope_def assms(1,2))
  have "unscope org_scope_prefix b (scope org_scoped_key a key) = Some r \<longleftrightarrow> a = b \<and> r = key" for r
    using split_at_delimiter [OF assms(3,4), of key r] by (auto simp: unscope_def strip_prefix_Some s assms(1))
  then show "unscope org_scope_prefix b (scope org_scoped_key a key) = (if a = b then Some key else None)"
    by (cases "unscope org_scope_prefix b (scope org_scoped_key a key)") auto
  show "scope org_scoped_key a key = scope org_scoped_key b key' \<longleftrightarrow> a = b \<and> key = key'"
    using split_at_delimiter [OF assms(3,4), of key key'] by (simp add: s)
qed

definition soh_prefix :: "string \<Rightarrow> string" where "soh_prefix org = CHR 0x01 # org @ [CHR 0x01]"

theorem organisations_are_isolated_witness:
  "unscope soh_prefix ''victim'' (scope (\<lambda>org key. soh_prefix org @ key) ''evil'' (soh_prefix ''victim'' @ ''secret'')) = None"
  using organisations_are_isolated [of soh_prefix "CHR 0x01" "\<lambda>org key. soh_prefix org @ key" "''evil''" "''victim''"]
  by (simp add: soh_prefix_def)

text \<open>All strings of a JSON value with the names of the fields on the way to them; positions in arrays are left out.\<close>

definition below :: "string \<Rightarrow> (string list \<times> string) list \<Rightarrow> (string list \<times> string) list" where
  "below f xs = map (\<lambda>(p, t). (f # p, t)) xs"

fun strings :: "json \<Rightarrow> (string list \<times> string) list"
  and strings_items :: "json list \<Rightarrow> (string list \<times> string) list"
  and strings_fields :: "(string \<times> json) list \<Rightarrow> (string list \<times> string) list" where
  "strings (JString t) = [([], t)]"
| "strings (JArray items) = strings_items items"
| "strings (JObject flds) = strings_fields flds"
| "strings v = []"
| "strings_items [] = []"
| "strings_items (v # vs) = strings v @ strings_items vs"
| "strings_fields [] = []"
| "strings_fields ((f, v) # fs) = below f (strings v) @ strings_fields fs"

text \<open>The positions in which a string is a coordination identity: directly or within arrays under one of ten fields,
  and not below an application payload.\<close>

definition identity_path :: "string list \<Rightarrow> bool" where
  "identity_path p \<longleftrightarrow> p \<noteq> [] \<and> last p \<in> {''key'', ''keys'', ''held_keys'', ''conflicts'', ''name'', ''tenant'', ''service'',
     ''holder'', ''superseded_by'', ''idempotency_key''} \<and>
   set p \<inter> {''value'', ''payload'', ''result'', ''context'', ''checkpoint'', ''metadata'', ''evidence'', ''target''} = {}"

definition begins_with :: "string \<Rightarrow> string \<Rightarrow> bool" where
  "begins_with p t \<longleftrightarrow> take (length p) t = p"

lemma strip_prefix_begins: "strip_prefix p t = (if begins_with p t then Some (drop (length p) t) else None)"
  unfolding begins_with_def by (induction p t rule: strip_prefix.induct) auto

definition at_identity :: "bool \<Rightarrow> string list \<Rightarrow> bool" where
  "at_identity identity p \<longleftrightarrow> (if p = [] then identity else last p \<in> set IDENTITY_FIELDS) \<and> set p \<inter> set OPAQUE_FIELDS = {}"

definition foreign_at :: "(string \<Rightarrow> string) \<Rightarrow> string \<Rightarrow> string \<Rightarrow> bool \<Rightarrow> string list \<times> string \<Rightarrow> bool" where
  "foreign_at prefix delim org identity x \<longleftrightarrow> at_identity identity (fst x) \<and> begins_with delim (snd x) \<and> \<not> begins_with (prefix org) (snd x)"

definition unscoped_at :: "(string \<Rightarrow> string) \<Rightarrow> string \<Rightarrow> string \<Rightarrow> bool \<Rightarrow> string list \<times> string \<Rightarrow> string list \<times> string" where
  "unscoped_at prefix delim org identity x =
     (if at_identity identity (fst x) \<and> begins_with delim (snd x) then (fst x, drop (length (prefix org)) (snd x)) else x)"

lemma at_identity_simps [simp]:
  "at_identity identity [] = identity"
  "at_identity identity (f # p) \<longleftrightarrow> f \<notin> set OPAQUE_FIELDS \<and> at_identity (f \<in> set IDENTITY_FIELDS) p"
  by (auto simp: at_identity_def)

lemma at_identity_path: "at_identity False p = identity_path p"
  by (auto simp: at_identity_def identity_path_def IDENTITY_FIELDS_def OPAQUE_FIELDS_def)

lemma below_field:
  "(\<forall>x \<in> set (below f xs). \<not> foreign_at prefix delim org identity x) \<longleftrightarrow>
     f \<in> set OPAQUE_FIELDS \<or> (\<forall>x \<in> set xs. \<not> foreign_at prefix delim org (f \<in> set IDENTITY_FIELDS) x)"
  "map (unscoped_at prefix delim org identity) (below f xs) =
     (if f \<in> set OPAQUE_FIELDS then below f xs else below f (map (unscoped_at prefix delim org (f \<in> set IDENTITY_FIELDS)) xs))"
  by (auto simp: below_def foreign_at_def unscoped_at_def)

definition clean :: "(string \<Rightarrow> string) \<Rightarrow> string \<Rightarrow> string \<Rightarrow> bool \<Rightarrow> (string list \<times> string) list \<Rightarrow> bool" where
  "clean prefix delim org identity xs \<longleftrightarrow> (\<forall>x \<in> set xs. \<not> foreign_at prefix delim org identity x)"

lemma clean_simps [simp]:
  "clean prefix delim org identity []"
  "clean prefix delim org identity (xs @ ys) \<longleftrightarrow> clean prefix delim org identity xs \<and> clean prefix delim org identity ys"
  "clean prefix delim org identity (below f xs) \<longleftrightarrow>
     f \<in> set OPAQUE_FIELDS \<or> clean prefix delim org (f \<in> set IDENTITY_FIELDS) xs"
  unfolding clean_def below_field by auto

lemma strings_fields_named: "x \<in> set (strings_fields fs) \<Longrightarrow> fst x \<noteq> []"
  by (induction fs) (auto simp: below_def)

lemma fields_identity:
  "clean prefix delim org identity (strings_fields fs) = clean prefix delim org False (strings_fields fs)"
  "map (unscoped_at prefix delim org identity) (strings_fields fs) = map (unscoped_at prefix delim org False) (strings_fields fs)"
  using strings_fields_named [of _ fs]
  by (auto simp: clean_def foreign_at_def unscoped_at_def at_identity_def)

lemma unscope_strings:
  "(fst (unscope_value prefix delim org identity v) \<longleftrightarrow> clean prefix delim org identity (strings v)) \<and>
   (clean prefix delim org identity (strings v) \<longrightarrow>
      strings (snd (unscope_value prefix delim org identity v)) = map (unscoped_at prefix delim org identity) (strings v))"
  "(fst (unscope_items prefix delim org identity vs) \<longleftrightarrow> clean prefix delim org identity (strings_items vs)) \<and>
   (clean prefix delim org identity (strings_items vs) \<longrightarrow>
      strings_items (snd (unscope_items prefix delim org identity vs)) = map (unscoped_at prefix delim org identity) (strings_items vs))"
  "(fst (unscope_fields prefix delim org fs) \<longleftrightarrow> clean prefix delim org False (strings_fields fs)) \<and>
   (clean prefix delim org False (strings_fields fs) \<longrightarrow>
      strings_fields (snd (unscope_fields prefix delim org fs)) = map (unscoped_at prefix delim org False) (strings_fields fs))"
proof (induction v and vs and fs arbitrary: identity and identity and identity
    rule: strings_strings_items_strings_fields.induct)
  case (1 t)
  then show ?case by (auto simp: unscope_def strip_prefix_begins foreign_at_def unscoped_at_def clean_def)
next
  case (3 flds)
  then show ?case by (simp add: case_prod_unfold fields_identity [where identity = identity])
qed (simp_all add: case_prod_unfold below_field)

text \<open>C32. A response leaves the node exactly when every delimited string in an identity position begins with the
  prefix of the requesting organisation, at any depth of arrays and objects; then all strings are where they were and
  unchanged, except that the delimited ones in identity positions have lost that prefix. Otherwise the whole response
  is replaced by an error. Strings in other fields are passed on unread, whatever organisation they name.\<close>

theorem responses_never_name_a_foreign_identity:
  "case org_response prefix delim org v of
     ScopeViolation \<Rightarrow> \<exists>(p, t) \<in> set (strings v). identity_path p \<and> begins_with delim t \<and> \<not> begins_with (prefix org) t
   | OrgJson v' \<Rightarrow>
       (\<forall>(p, t) \<in> set (strings v). identity_path p \<and> begins_with delim t \<longrightarrow> begins_with (prefix org) t) \<and>
       strings v' = map (\<lambda>(p, t). (p, if identity_path p \<and> begins_with delim t then drop (length (prefix org)) t else t)) (strings v)"
proof -
  have u: "unscoped_at prefix delim org False =
      (\<lambda>(p, t). (p, if identity_path p \<and> begins_with delim t then drop (length (prefix org)) t else t))"
    by (auto simp: unscoped_at_def at_identity_path)
  show ?thesis
    using unscope_strings(1) [of prefix delim org False v]
    by (auto simp: org_response_def case_prod_unfold clean_def foreign_at_def at_identity_path u)
qed

theorem responses_never_name_a_foreign_identity_witness:
  "org_response soh_prefix [CHR 0x01] ''a'' (JObject [(''key'', JString (soh_prefix ''b'' @ ''k''))]) = ScopeViolation \<and>
   org_response soh_prefix [CHR 0x01] ''a'' (JObject [(''key'', JString (soh_prefix ''a'' @ ''k''))]) =
     OrgJson (JObject [(''key'', JString ''k'')])"
proof -
  have "org_response soh_prefix [CHR 0x01] ''a'' (JObject [(''key'', JString (soh_prefix ''b'' @ ''k''))]) = ScopeViolation"
    using responses_never_name_a_foreign_identity [where prefix = soh_prefix and delim = "[CHR 0x01]" and org = "''a''" and
        v = "JObject [(''key'', JString (soh_prefix ''b'' @ ''k''))]"]
    by (simp add: below_def identity_path_def begins_with_def soh_prefix_def split: org_response.splits)
  then show ?thesis
    by (simp add: org_response_def OPAQUE_FIELDS_def IDENTITY_FIELDS_def unscope_def soh_prefix_def)
qed

end
