(* ===== verification/Persist.thy ===== *)
theory Persist
  imports Store_Machine
begin

section \<open>The durable store of a shard\<close>

text \<open>
  \<open>ShardStore\<close> of \<open>src/persist.rs\<close> on the bytes of its three files. The JSON codec of \<open>serde_json\<close> is the parameter
  \<open>codec\<close>. A write is an argument of its operation: a file that is replaced by a rename has its old or its new bytes
  when the operation fails or the process dies, and a reported failure leaves either of them, since the rename takes
  effect before the directory is synced; an append leaves any number of its bytes. An error is a constructor with the
  values its message shows. Reads succeed: an error of the operating system while reading is returned unchanged.
\<close>

record raft_entry =
  rg_term :: u64
  rg_index :: u64
  rg_proposed_at_ms :: u64
  rg_command :: "command option"

record meta =
  me_current_term :: u64
  me_voted_for :: "string option"
  me_commit_index :: u64

definition meta_default :: meta where
  "meta_default = \<lparr>me_current_term = 0, me_voted_for = None, me_commit_index = 0\<rparr>"

record persisted_snapshot =
  ps_last_included_index :: u64
  ps_last_included_term :: u64
  ps_state :: string

record recovered =
  rc_current_term :: u64
  rc_voted_for :: "string option"
  rc_commit_index :: u64
  rc_log :: "raft_entry list"
  rc_snapshot :: "persisted_snapshot option"

record codec =
  cd_meta :: "meta \<Rightarrow> string"
  cd_read_meta :: "string \<Rightarrow> meta option"
  cd_entry :: "raft_entry \<Rightarrow> string"
  cd_read_entry :: "string \<Rightarrow> raft_entry option"
  cd_snapshot :: "persisted_snapshot \<Rightarrow> string"
  cd_read_snapshot :: "string \<Rightarrow> persisted_snapshot option"

record shard_files =
  sf_meta :: "string option"
  sf_log :: "string option"
  sf_snapshot :: "string option"

text \<open>\<open>ss_attached\<close>: the append handle is open on the live log file, not on one that a rename has replaced.\<close>

record shard_store =
  ss_files :: shard_files
  ss_durable_len :: nat
  ss_attached :: bool

datatype persist_error =
    EmptyFile | InvalidJson | VoteInTermZero | SnapshotIndexTermMismatch u64 u64
  | EmptyRecord nat | InvalidRecord nat | ZeroIndexOrTerm nat | TermDescends nat u64 u64 | IndexOverflow
  | IndexGap nat u64 u64 | SnapshotTermDisagrees u64 u64 u64 | SuffixOverflow | SuffixGap u64 u64
  | MetaMissing | TermExceedsMeta u64 | CommitExceedsTail u64 u64 | WriteFailed

datatype write_result = Saved | LostWrite | UnreportedWrite

subsection \<open>Reading\<close>

definition read_optional_json :: "(string \<Rightarrow> 'a option) \<Rightarrow> string option \<Rightarrow> persist_error + 'a option" where
  "read_optional_json from_slice file = (case file of
       None \<Rightarrow> Inr None
     | Some bytes \<Rightarrow> if bytes = [] then Inl EmptyFile
         else (case from_slice bytes of None \<Rightarrow> Inl InvalidJson | Some v \<Rightarrow> Inr (Some v)))"

definition newline :: char where "newline = CHR 0x0A"

text \<open>\<open>bytes.split(|byte| *byte == b'\n')\<close>: one piece more than there are newlines.\<close>

fun split_lines :: "string \<Rightarrow> string list" where
  "split_lines [] = [[]]"
| "split_lines (b # bs) = (if b = newline then [] # split_lines bs
     else (case split_lines bs of [] \<Rightarrow> [[b]] | l # ls \<Rightarrow> (b # l) # ls))"

record scan =
  sn_previous_index :: "u64 option"
  sn_previous_term :: "u64 option"
  sn_log :: "raft_entry list"

definition scan_empty :: scan where
  "scan_empty = \<lparr>sn_previous_index = None, sn_previous_term = None, sn_log = []\<rparr>"

text \<open>The checks of one parsed record, and the suffix after the snapshot it extends.\<close>

definition check_record :: "u64 \<Rightarrow> u64 \<Rightarrow> nat \<Rightarrow> raft_entry \<Rightarrow> scan \<Rightarrow> persist_error + scan" where
  "check_record snapshot_index snapshot_term line_number e sc =
     (if rg_index e = 0 \<or> rg_term e = 0 then Inl (ZeroIndexOrTerm line_number)
      else if (case sn_previous_term sc of None \<Rightarrow> False | Some previous \<Rightarrow> rg_term e < previous)
      then Inl (TermDescends line_number (the (sn_previous_term sc)) (rg_term e))
      else
        let gap = (case sn_previous_index sc of None \<Rightarrow> None
              | Some previous \<Rightarrow> (case checked_add previous 1 of None \<Rightarrow> Some IndexOverflow
                  | Some expected \<Rightarrow> if rg_index e \<noteq> expected then Some (IndexGap line_number expected (rg_index e)) else None));
            sc' = sc\<lparr>sn_previous_index := Some (rg_index e), sn_previous_term := Some (rg_term e)\<rparr>
        in if gap \<noteq> None then Inl (the gap)
           else if rg_index e = snapshot_index \<and> rg_term e \<noteq> snapshot_term
           then Inl (SnapshotTermDisagrees (rg_term e) snapshot_index snapshot_term)
           else if rg_index e > snapshot_index
           then (case checked_add snapshot_index (word_of_nat (length (sn_log sc))) of
               None \<Rightarrow> Inl SuffixOverflow
             | Some index \<Rightarrow> (case checked_add index 1 of
                   None \<Rightarrow> Inl SuffixOverflow
                 | Some expected \<Rightarrow> if rg_index e \<noteq> expected then Inl (SuffixGap expected (rg_index e))
                     else Inr (sc'\<lparr>sn_log := sn_log sc @ [e]\<rparr>)))
           else Inr sc')"

text \<open>The loop over the lines. \<open>terminated\<close>: the file ends with a newline.\<close>

fun scan_lines :: "codec \<Rightarrow> bool \<Rightarrow> bool \<Rightarrow> u64 \<Rightarrow> u64 \<Rightarrow> nat \<Rightarrow> string list \<Rightarrow> scan \<Rightarrow> persist_error + raft_entry list" where
  "scan_lines cd terminated no_bytes snapshot_index snapshot_term line_number [] sc = Inr (sn_log sc)"
| "scan_lines cd terminated no_bytes snapshot_index snapshot_term line_number (line # rest) sc =
     (let is_last = (rest = [])
      in if line = []
         then (if is_last \<and> (terminated \<or> no_bytes)
           then scan_lines cd terminated no_bytes snapshot_index snapshot_term (line_number + 1) rest sc
           else Inl (EmptyRecord (line_number + 1)))
         else (case cd_read_entry cd line of
             None \<Rightarrow> if is_last \<and> \<not> terminated then Inr (sn_log sc) else Inl (InvalidRecord (line_number + 1))
           | Some e \<Rightarrow> (case check_record snapshot_index snapshot_term (line_number + 1) e sc of
                 Inl err \<Rightarrow> Inl err
               | Inr sc' \<Rightarrow> scan_lines cd terminated no_bytes snapshot_index snapshot_term (line_number + 1) rest sc')))"

definition scan_log :: "codec \<Rightarrow> u64 \<Rightarrow> u64 \<Rightarrow> string \<Rightarrow> persist_error + raft_entry list" where
  "scan_log cd snapshot_index snapshot_term bytes =
     scan_lines cd (bytes \<noteq> [] \<and> last bytes = newline) (bytes = []) snapshot_index snapshot_term 0 (split_lines bytes) scan_empty"

definition snapshot_index_of :: "persisted_snapshot option \<Rightarrow> u64" where
  "snapshot_index_of snapshot = (case snapshot of None \<Rightarrow> 0 | Some s \<Rightarrow> ps_last_included_index s)"

definition snapshot_term_of :: "persisted_snapshot option \<Rightarrow> u64" where
  "snapshot_term_of snapshot = (case snapshot of None \<Rightarrow> 0 | Some s \<Rightarrow> ps_last_included_term s)"

definition durable_tail :: "persisted_snapshot option \<Rightarrow> raft_entry list \<Rightarrow> u64" where
  "durable_tail snapshot lg = (if lg = [] then snapshot_index_of snapshot else rg_index (last lg))"

text \<open>The checks of \<open>open\<close> once the three files are parsed.\<close>

definition check_recovered ::
  "meta option \<Rightarrow> persisted_snapshot option \<Rightarrow> raft_entry list \<Rightarrow> persist_error + recovered" where
  "check_recovered persisted_meta snapshot lg =
     (let m = (case persisted_meta of None \<Rightarrow> meta_default | Some m \<Rightarrow> m)
      in if persisted_meta = None \<and> (snapshot \<noteq> None \<or> lg \<noteq> []) then Inl MetaMissing
         else if snapshot_term_of snapshot > me_current_term m \<or> list_ex (\<lambda>e. rg_term e > me_current_term m) lg
         then Inl (TermExceedsMeta (me_current_term m))
         else if me_commit_index m > durable_tail snapshot lg
         then Inl (CommitExceedsTail (me_commit_index m) (durable_tail snapshot lg))
         else Inr \<lparr>rc_current_term = me_current_term m, rc_voted_for = me_voted_for m,
           rc_commit_index = max (me_commit_index m) (snapshot_index_of snapshot), rc_log = lg, rc_snapshot = snapshot\<rparr>)"

definition recover :: "codec \<Rightarrow> shard_files \<Rightarrow> persist_error + recovered" where
  "recover cd f = (case read_optional_json (cd_read_meta cd) (sf_meta f) of
       Inl err \<Rightarrow> Inl err
     | Inr persisted_meta \<Rightarrow>
         let m = (case persisted_meta of None \<Rightarrow> meta_default | Some m \<Rightarrow> m)
         in if me_current_term m = 0 \<and> me_voted_for m \<noteq> None then Inl VoteInTermZero
            else (case read_optional_json (cd_read_snapshot cd) (sf_snapshot f) of
                Inl err \<Rightarrow> Inl err
              | Inr snapshot \<Rightarrow>
                  if (snapshot_index_of snapshot = 0) \<noteq> (snapshot_term_of snapshot = 0)
                  then Inl (SnapshotIndexTermMismatch (snapshot_index_of snapshot) (snapshot_term_of snapshot))
                  else (case scan_log cd (snapshot_index_of snapshot) (snapshot_term_of snapshot)
                        (case sf_log f of None \<Rightarrow> [] | Some bytes \<Rightarrow> bytes) of
                      Inl err \<Rightarrow> Inl err
                    | Inr lg \<Rightarrow> check_recovered persisted_meta snapshot lg)))"

subsection \<open>Writing\<close>

definition encode_log :: "codec \<Rightarrow> raft_entry list \<Rightarrow> string" where
  "encode_log cd lg = concat (map (\<lambda>e. cd_entry cd e @ [newline]) lg)"

definition save_meta :: "codec \<Rightarrow> write_result \<Rightarrow> meta \<Rightarrow> shard_store \<Rightarrow> bool \<times> shard_store" where
  "save_meta cd w m s =
     (let saved = s\<lparr>ss_files := (ss_files s)\<lparr>sf_meta := Some (cd_meta cd m)\<rparr>\<rparr>
      in case w of Saved \<Rightarrow> (True, saved) | LostWrite \<Rightarrow> (False, s) | UnreportedWrite \<Rightarrow> (False, saved))"

text \<open>\<open>append_tail\<close>: \<open>None\<close> is a write and a sync that succeed, \<open>Some n\<close> one that fails after \<open>n\<close> bytes.\<close>

definition append_tail :: "codec \<Rightarrow> nat option \<Rightarrow> raft_entry list \<Rightarrow> shard_store \<Rightarrow> bool \<times> shard_store" where
  "append_tail cd torn lg s =
     (if length lg \<le> ss_durable_len s then (True, s)
      else
        let buf = encode_log cd (drop (ss_durable_len s) lg);
            old = (case sf_log (ss_files s) of None \<Rightarrow> [] | Some bytes \<Rightarrow> bytes);
            put = (\<lambda>bytes s. if ss_attached s then s\<lparr>ss_files := (ss_files s)\<lparr>sf_log := Some (old @ bytes)\<rparr>\<rparr> else s)
        in case torn of None \<Rightarrow> (True, (put buf s)\<lparr>ss_durable_len := length lg\<rparr>)
           | Some n \<Rightarrow> (False, put (take n buf) s))"

definition rewrite :: "codec \<Rightarrow> write_result \<Rightarrow> raft_entry list \<Rightarrow> shard_store \<Rightarrow> bool \<times> shard_store" where
  "rewrite cd w lg s =
     (let renamed = s\<lparr>ss_files := (ss_files s)\<lparr>sf_log := Some (encode_log cd lg)\<rparr>\<rparr>
      in case w of Saved \<Rightarrow> (True, renamed\<lparr>ss_durable_len := length lg, ss_attached := True\<rparr>)
         | LostWrite \<Rightarrow> (False, s) | UnreportedWrite \<Rightarrow> (False, renamed\<lparr>ss_attached := False\<rparr>))"

definition save_snapshot ::
  "codec \<Rightarrow> write_result \<Rightarrow> write_result \<Rightarrow> persisted_snapshot \<Rightarrow> raft_entry list \<Rightarrow> shard_store \<Rightarrow> bool \<times> shard_store" where
  "save_snapshot cd w w_log snapshot remaining_log s =
     (let renamed = s\<lparr>ss_files := (ss_files s)\<lparr>sf_snapshot := Some (cd_snapshot cd snapshot)\<rparr>\<rparr>
      in case w of Saved \<Rightarrow> rewrite cd w_log remaining_log renamed
         | LostWrite \<Rightarrow> (False, s) | UnreportedWrite \<Rightarrow> (False, renamed))"

text \<open>\<open>ShardStore::open\<close>: recovery, the canonical log file, and a first metadata file for a fresh shard.\<close>

definition open_store ::
  "codec \<Rightarrow> write_result \<Rightarrow> write_result \<Rightarrow> shard_files \<Rightarrow> persist_error + shard_store \<times> recovered" where
  "open_store cd w_log w_meta f = (case recover cd f of
       Inl err \<Rightarrow> Inl err
     | Inr r \<Rightarrow>
         (case rewrite cd w_log (rc_log r) \<lparr>ss_files = f, ss_durable_len = 0, ss_attached = True\<rparr> of
            (False, _) \<Rightarrow> Inl WriteFailed
          | (True, s) \<Rightarrow>
              if sf_meta f = None
              then (case save_meta cd w_meta meta_default s of (False, _) \<Rightarrow> Inl WriteFailed | (True, s) \<Rightarrow> Inr (s, r))
              else Inr (s, r)))"

subsection \<open>What a restart recovers\<close>

text \<open>What the store relies on of the codec for one log entry: its record reads back, has no newline, and no shorter
  part of the record is a record of its own.\<close>

definition reads_back :: "codec \<Rightarrow> raft_entry \<Rightarrow> bool" where
  "reads_back cd e \<longleftrightarrow> cd_read_entry cd (cd_entry cd e) = Some e \<and> newline \<notin> set (cd_entry cd e) \<and> cd_entry cd e \<noteq> [] \<and>
     list_all (\<lambda>n. n = 0 \<or> cd_read_entry cd (take n (cd_entry cd e)) = None) [0..<length (cd_entry cd e)]"

fun scan_entries :: "u64 \<Rightarrow> u64 \<Rightarrow> nat \<Rightarrow> raft_entry list \<Rightarrow> scan \<Rightarrow> persist_error + raft_entry list" where
  "scan_entries si st n [] sc = Inr (sn_log sc)"
| "scan_entries si st n (e # es) sc = (case check_record si st (n + 1) e sc of Inl err \<Rightarrow> Inl err
     | Inr sc' \<Rightarrow> scan_entries si st (n + 1) es sc')"

lemma split_lines_not_Nil [simp]: "split_lines bs \<noteq> []"
  by (induction bs) (auto split: list.split)

lemma split_lines_plain: "newline \<notin> set bs \<Longrightarrow> split_lines bs = [bs]"
  by (induction bs) auto

lemma split_lines_append: "newline \<notin> set bs \<Longrightarrow> split_lines (bs @ newline # cs) = bs # split_lines cs"
  by (induction bs) auto

lemma encode_log_simps [simp]:
  "encode_log cd [] = []" "encode_log cd (e # es) = cd_entry cd e @ newline # encode_log cd es"
  "encode_log cd (es @ fs) = encode_log cd es @ encode_log cd fs"
  by (simp_all add: encode_log_def)

lemma split_encoded:
  "list_all (reads_back cd) es \<Longrightarrow> newline \<notin> set part \<Longrightarrow>
    split_lines (encode_log cd es @ part) = map (cd_entry cd) es @ [part]"
  by (induction es) (auto simp: split_lines_plain split_lines_append reads_back_def)

lemma last_encoded: "es \<noteq> [] \<Longrightarrow> last (encode_log cd es) = newline"
  by (induction es) (auto simp: encode_log_def)

lemma encode_log_Nil_iff [simp]: "encode_log cd es = [] \<longleftrightarrow> es = []"
  by (cases es) simp_all

text \<open>Whole records read as their entries, and an unfinished last record is dropped.\<close>

lemma scan_whole_records:
  "list_all (reads_back cd) es \<Longrightarrow> term_ok \<Longrightarrow>
    scan_lines cd term_ok no_bytes si st n (map (cd_entry cd) es @ [[]]) sc = scan_entries si st n es sc"
  by (induction es arbitrary: n sc) (auto simp: reads_back_def split: sum.split)

lemma scan_torn_record:
  "list_all (reads_back cd) es \<Longrightarrow> part \<noteq> [] \<Longrightarrow> cd_read_entry cd part = None \<Longrightarrow>
    scan_lines cd False no_bytes si st n (map (cd_entry cd) es @ [part]) sc = scan_entries si st n es sc"
  by (induction es arbitrary: n sc) (auto simp: reads_back_def split: sum.split)

lemma scan_unterminated_record:
  "list_all (reads_back cd) (es @ [e]) \<Longrightarrow>
    scan_lines cd False no_bytes si st n (map (cd_entry cd) es @ [cd_entry cd e]) sc = scan_entries si st n (es @ [e]) sc"
  by (induction es arbitrary: n sc) (auto simp: reads_back_def split: sum.split)

lemma scan_log_encoded:
  assumes "list_all (reads_back cd) es"
  shows "scan_log cd si st (encode_log cd es) = scan_entries si st 0 es scan_empty"
proof -
  have "split_lines (encode_log cd es) = map (cd_entry cd) es @ [[]]" using split_encoded [OF assms, of "[]"] by simp
  then show ?thesis
    unfolding scan_log_def using scan_whole_records [OF assms, of True] last_encoded [of es cd]
    by (cases "es = []") simp_all
qed

lemma reads_back_part:
  assumes "reads_back cd e" "0 < m" "m < length (cd_entry cd e)"
  shows "cd_read_entry cd (take m (cd_entry cd e)) = None"
proof -
  have "list_all (\<lambda>n. n = 0 \<or> cd_read_entry cd (take n (cd_entry cd e)) = None) [0..<length (cd_entry cd e)]"
    using assms(1) by (simp only: reads_back_def)
  then have "m = 0 \<or> cd_read_entry cd (take m (cd_entry cd e)) = None"
    unfolding list_all_iff by (rule bspec) (simp add: assms(3))
  then show ?thesis using assms(2) by simp
qed

lemma scan_log_torn:
  assumes ok: "list_all (reads_back cd) (es @ [e])" and m: "m < length (cd_entry cd e)"
  shows "scan_log cd si st (encode_log cd es @ take m (cd_entry cd e)) = scan_entries si st 0 es scan_empty"
proof (cases "m = 0")
  case True
  then show ?thesis using ok by (simp add: scan_log_encoded)
next
  case False
  let ?p = "take m (cd_entry cd e)"
  have e: "reads_back cd e" using ok by simp
  have p: "newline \<notin> set ?p" "?p \<noteq> []" using e m False by (auto simp: reads_back_def dest: in_set_takeD)
  have r: "cd_read_entry cd ?p = None" using reads_back_part [OF e _ m] False by simp
  have es: "list_all (reads_back cd) es" using ok by simp
  have last: "last (encode_log cd es @ ?p) \<noteq> newline" using p by (metis last_appendR last_in_set)
  show ?thesis
    unfolding scan_log_def split_encoded [OF es p(1)] using last p(2) scan_torn_record [OF es p(2) r] by simp
qed

lemma scan_log_unterminated:
  assumes ok: "list_all (reads_back cd) (es @ [e])"
  shows "scan_log cd si st (encode_log cd es @ cd_entry cd e) = scan_entries si st 0 (es @ [e]) scan_empty"
proof -
  have p: "newline \<notin> set (cd_entry cd e)" "cd_entry cd e \<noteq> []" using ok by (auto simp: reads_back_def)
  have es: "list_all (reads_back cd) es" using ok by simp
  have last: "last (encode_log cd es @ cd_entry cd e) \<noteq> newline" using p by (metis last_appendR last_in_set)
  show ?thesis
    unfolding scan_log_def split_encoded [OF es p(1)] using last p(2) scan_unterminated_record [OF ok] by simp
qed

text \<open>The bytes of a torn append: whole records and the beginning of one more.\<close>

lemma torn_shape:
  "\<exists>k m. k \<le> length es \<and> (k < length es \<longrightarrow> m \<le> length (cd_entry cd (es ! k))) \<and> (k = length es \<longrightarrow> m = 0) \<and>
     take n (encode_log cd es) = encode_log cd (take k es) @ (if k < length es then take m (cd_entry cd (es ! k)) else [])"
proof (induction es arbitrary: n)
  case (Cons e es)
  show ?case
  proof (cases "n \<le> length (cd_entry cd e)")
    case True
    then show ?thesis by (intro exI [of _ 0] exI [of _ n]) simp
  next
    case False
    from Cons.IH [of "n - Suc (length (cd_entry cd e))"] obtain k m where
      k: "k \<le> length es" "k < length es \<longrightarrow> m \<le> length (cd_entry cd (es ! k))" "k = length es \<longrightarrow> m = 0"
         "take (n - Suc (length (cd_entry cd e))) (encode_log cd es) =
            encode_log cd (take k es) @ (if k < length es then take m (cd_entry cd (es ! k)) else [])" by blast
    show ?thesis
      using k False by (intro exI [of _ "Suc k"] exI [of _ m]) (simp add: take_Cons' diff_Suc split: nat.split)
  qed
qed simp

lemma scan_log_prefix:
  assumes ok: "list_all (reads_back cd) (old @ new)"
  shows "\<exists>k\<le>length new. \<forall>si st. scan_log cd si st (encode_log cd old @ take n (encode_log cd new)) =
           scan_log cd si st (encode_log cd (old @ take k new))"
proof -
  obtain k m where k: "k \<le> length new" "k < length new \<longrightarrow> m \<le> length (cd_entry cd (new ! k))"
      "take n (encode_log cd new) = encode_log cd (take k new) @
        (if k < length new then take m (cd_entry cd (new ! k)) else [])"
    using torn_shape [of new cd n] by blast
  have okk: "list_all (reads_back cd) (old @ take j new)" for j
    using ok by (auto simp: list_all_iff dest: in_set_takeD)
  show ?thesis
  proof (cases "k < length new")
    case False
    then show ?thesis using k by (intro exI [of _ k]) simp
  next
    case True
    then have app: "old @ take (Suc k) new = (old @ take k new) @ [new ! k]" by (simp add: take_Suc_conv_app_nth)
    have ok1: "list_all (reads_back cd) ((old @ take k new) @ [new ! k])" using okk [of "Suc k"] unfolding app .
    show ?thesis
    proof (cases "m = length (cd_entry cd (new ! k))")
      case True
      then show ?thesis
        using k \<open>k < length new\<close> scan_log_unterminated [OF ok1] scan_log_encoded [OF okk [of "Suc k"]] app
        by (intro exI [of _ "Suc k"]) simp
    next
      case False
      then have "m < length (cd_entry cd (new ! k))" using k \<open>k < length new\<close> by simp
      then show ?thesis
        using k \<open>k < length new\<close> scan_log_torn [OF ok1] scan_log_encoded [OF okk [of k]]
        by (intro exI [of _ k]) simp
    qed
  qed
qed

text \<open>A log whose indexes count up from \<open>b\<close>.\<close>

fun log_from :: "nat \<Rightarrow> raft_entry list \<Rightarrow> bool" where
  "log_from b [] = True"
| "log_from b (e # es) = (unat (rg_index e) = Suc b \<and> log_from (Suc b) es)"

lemma unat_0_iff_word: "unat (w :: u64) = 0 \<longleftrightarrow> w = 0"
  by (simp add: unat_eq_zero)

lemma checked_add_unat: "unat a + unat b < 2 ^ 64 \<Longrightarrow> checked_add (a :: u64) b = Some (a + b) \<and> unat (a + b) = unat a + unat b"
  by (simp add: checked_add_def unat_word_ariths)

lemma scan_entries_sound:
  assumes "log_from b es" "\<forall>e\<in>set es. rg_term e \<noteq> 0 \<and> (rg_index e = si \<longrightarrow> rg_term e = st)"
    "sorted (map rg_term es)"
    "case sn_previous_index sc of None \<Rightarrow> b \<le> unat si | Some p \<Rightarrow> unat p = b"
    "case sn_previous_term sc of None \<Rightarrow> True | Some t \<Rightarrow> \<forall>e\<in>set es. t \<le> rg_term e"
    "length (sn_log sc) = b - unat si"
  shows "scan_entries si st n es sc = Inr (sn_log sc @ filter (\<lambda>e. si < rg_index e) es)"
  using assms
proof (induction es arbitrary: b n sc)
  case (Cons e es)
  have ie: "unat (rg_index e) = Suc b" and lt: "Suc b < 2 ^ 64"
    using Cons.prems(1) unat_lt_2p [of "rg_index e"] by auto
  have nz: "rg_index e \<noteq> 0" using ie by (metis Zero_not_Suc unat_0)
  have idx: "sn_previous_index sc = Some p \<Longrightarrow> checked_add p 1 = Some (rg_index e)" for p
    using Cons.prems(4) ie lt checked_add_unat [of p 1] by (auto simp: word_unat_eq_iff)
  have trm: "(case sn_previous_term sc of None \<Rightarrow> False | Some previous \<Rightarrow> rg_term e < previous) = False"
    using Cons.prems(5) by (auto split: option.splits)
  define sc' where "sc' = sc\<lparr>sn_previous_index := Some (rg_index e), sn_previous_term := Some (rg_term e)\<rparr>"
  define sc'' where "sc'' = (if si < rg_index e then sc'\<lparr>sn_log := sn_log sc @ [e]\<rparr> else sc')"
  have suffix: "\<exists>i. checked_add si (word_of_nat (length (sn_log sc))) = Some i \<and> checked_add i 1 = Some (rg_index e)"
    if "si < rg_index e"
  proof -
    have "unat si \<le> b" using that ie by (simp add: word_less_nat_alt)
    moreover have "unat (word_of_nat (length (sn_log sc)) :: u64) = length (sn_log sc)"
      using Cons.prems(6) lt by (intro unat_of_nat_small) simp
    ultimately have sum: "unat si + unat (word_of_nat (length (sn_log sc)) :: u64) = b"
      using Cons.prems(6) by linarith
    define i where "i = si + word_of_nat (length (sn_log sc))"
    have i: "checked_add si (word_of_nat (length (sn_log sc))) = Some i" "unat i = b"
      using sum lt checked_add_unat [of si "word_of_nat (length (sn_log sc))"] by (simp_all add: i_def)
    have "checked_add i 1 = Some (i + 1)" "unat (i + 1) = Suc b" using i(2) lt checked_add_unat [of i 1] by simp_all
    then show ?thesis using i(1) ie by (metis word_unat_eq_iff)
  qed
  have chk: "check_record si st (n + 1) e sc = Inr sc''"
    using Cons.prems(2) nz trm idx suffix
    by (auto simp: check_record_def sc''_def sc'_def Let_def split: option.splits)
  have "scan_entries si st (n + 1) es sc'' = Inr (sn_log sc'' @ filter (\<lambda>e. si < rg_index e) es)"
  proof (rule Cons.IH)
    show "log_from (Suc b) es" "\<forall>e\<in>set es. rg_term e \<noteq> 0 \<and> (rg_index e = si \<longrightarrow> rg_term e = st)" "sorted (map rg_term es)"
      using Cons.prems by auto
    show "case sn_previous_index sc'' of None \<Rightarrow> Suc b \<le> unat si | Some p \<Rightarrow> unat p = Suc b"
      by (simp add: sc''_def sc'_def ie)
    show "case sn_previous_term sc'' of None \<Rightarrow> True | Some t \<Rightarrow> \<forall>e\<in>set es. t \<le> rg_term e"
      using Cons.prems(3) by (simp add: sc''_def sc'_def)
    show "length (sn_log sc'') = Suc b - unat si"
      using Cons.prems(6) ie by (auto simp: sc''_def sc'_def word_less_nat_alt)
  qed
  then show ?case using chk by (simp add: sc''_def sc'_def)
qed simp

text \<open>An intact disk: what its three files hold, and what recovery returns for them.\<close>

definition files_of :: "codec \<Rightarrow> meta \<Rightarrow> persisted_snapshot option \<Rightarrow> raft_entry list \<Rightarrow> shard_files" where
  "files_of cd m snap lg = \<lparr>sf_meta = Some (cd_meta cd m), sf_log = Some (encode_log cd lg),
     sf_snapshot = map_option (cd_snapshot cd) snap\<rparr>"

definition records_back :: "codec \<Rightarrow> meta \<Rightarrow> persisted_snapshot option \<Rightarrow> bool" where
  "records_back cd m snap \<longleftrightarrow> cd_meta cd m \<noteq> [] \<and> cd_read_meta cd (cd_meta cd m) = Some m \<and>
     (case snap of None \<Rightarrow> True | Some p \<Rightarrow> cd_snapshot cd p \<noteq> [] \<and> cd_read_snapshot cd (cd_snapshot cd p) = Some p)"

definition suffix_after :: "persisted_snapshot option \<Rightarrow> raft_entry list \<Rightarrow> raft_entry list" where
  "suffix_after snap lg = filter (\<lambda>e. snapshot_index_of snap < rg_index e) lg"

definition disk_ok :: "meta \<Rightarrow> persisted_snapshot option \<Rightarrow> raft_entry list \<Rightarrow> bool" where
  "disk_ok m snap lg \<longleftrightarrow> (me_current_term m = 0 \<longrightarrow> me_voted_for m = None) \<and>
     (snapshot_index_of snap = 0 \<longleftrightarrow> snapshot_term_of snap = 0) \<and> snapshot_term_of snap \<le> me_current_term m \<and>
     (\<exists>b\<le>unat (snapshot_index_of snap). log_from b lg) \<and> sorted (map rg_term lg) \<and>
     list_all (\<lambda>e. rg_term e \<noteq> 0 \<and> rg_term e \<le> me_current_term m \<and>
       (rg_index e = snapshot_index_of snap \<longrightarrow> rg_term e = snapshot_term_of snap)) lg \<and>
     me_commit_index m \<le> durable_tail snap (suffix_after snap lg)"

definition recovered_of :: "meta \<Rightarrow> persisted_snapshot option \<Rightarrow> raft_entry list \<Rightarrow> recovered" where
  "recovered_of m snap lg = \<lparr>rc_current_term = me_current_term m, rc_voted_for = me_voted_for m,
     rc_commit_index = max (me_commit_index m) (snapshot_index_of snap), rc_log = suffix_after snap lg, rc_snapshot = snap\<rparr>"

lemma recover_intact:
  assumes "records_back cd m snap" "list_all (reads_back cd) lg" "disk_ok m snap lg"
  shows "recover cd (files_of cd m snap lg) = Inr (recovered_of m snap lg)"
proof -
  from assms(3) obtain b where "b \<le> unat (snapshot_index_of snap)" "log_from b lg" by (auto simp: disk_ok_def)
  then have "scan_log cd (snapshot_index_of snap) (snapshot_term_of snap) (encode_log cd lg) = Inr (suffix_after snap lg)"
    using assms(3) scan_entries_sound [of b lg "snapshot_index_of snap" "snapshot_term_of snap" scan_empty 0]
    by (simp add: scan_log_encoded [OF assms(2)] suffix_after_def disk_ok_def list_all_iff scan_empty_def)
  moreover have "read_optional_json (cd_read_meta cd) (Some (cd_meta cd m)) = Inr (Some m)"
    "read_optional_json (cd_read_snapshot cd) (map_option (cd_snapshot cd) snap) = Inr snap"
    using assms(1) by (auto simp: records_back_def read_optional_json_def split: option.splits)
  moreover have "check_recovered (Some m) snap (suffix_after snap lg) = Inr (recovered_of m snap lg)"
    using assms(3) by (auto simp: check_recovered_def disk_ok_def recovered_of_def suffix_after_def list_all_iff list_ex_iff)
  ultimately show ?thesis using assms(3) by (auto simp: recover_def files_of_def disk_ok_def)
qed

lemma recover_log_cong:
  assumes "\<And>si st. scan_log cd si st xs = scan_log cd si st ys"
  shows "recover cd (f\<lparr>sf_log := Some xs\<rparr>) = recover cd (f\<lparr>sf_log := Some ys\<rparr>)"
  by (auto simp: recover_def Let_def assms split: sum.split)

lemma log_from_append: "log_from b (es @ fs) \<longleftrightarrow> log_from b es \<and> log_from (b + length es) fs"
  by (induction es arbitrary: b) auto

lemma log_from_index: "log_from b lg \<Longrightarrow> i < length lg \<Longrightarrow> unat (rg_index (lg ! i)) = b + 1 + i"
  by (induction lg arbitrary: b i) (auto simp: nth_Cons split: nat.split)

lemma log_from_last: "log_from b lg \<Longrightarrow> lg \<noteq> [] \<Longrightarrow> unat (rg_index (last lg)) = b + length lg"
  using log_from_index [of b lg "length lg - 1"] by (simp add: last_conv_nth)

text \<open>The entries after an index are a final part of the log.\<close>

lemma log_from_filter:
  "log_from b lg \<Longrightarrow> b \<le> unat j \<Longrightarrow> filter (\<lambda>e. j < rg_index e) lg = drop (unat j - b) lg"
proof (induction lg arbitrary: b)
  case (Cons e lg)
  show ?case
  proof (cases "unat j = b")
    case True
    then have "\<forall>x\<in>set lg. j < rg_index x"
      using Cons.prems log_from_index [of "Suc b" lg] by (auto simp: in_set_conv_nth word_less_nat_alt)
    then show ?thesis using Cons.prems True by (simp add: word_less_nat_alt)
  next
    case False
    then have "filter (\<lambda>e. j < rg_index e) lg = drop (unat j - Suc b) lg" using Cons by simp
    moreover have "\<not> j < rg_index e" "unat j - b = Suc (unat j - Suc b)"
      using Cons.prems False by (auto simp: word_less_nat_alt)
    ultimately show ?thesis by simp
  qed
qed simp

lemma log_from_suffix:
  assumes "log_from b lg" "b \<le> unat j"
  shows "log_from (unat j) (filter (\<lambda>e. j < rg_index e) lg)"
proof (cases "unat j - b \<le> length lg")
  case True
  then have "b + length (take (unat j - b) lg) = unat j" using assms(2) by simp
  then show ?thesis
    using assms(1) log_from_append [of b "take (unat j - b) lg" "drop (unat j - b) lg"] log_from_filter [OF assms]
    by (metis append_take_drop_id)
qed (simp add: log_from_filter [OF assms])

lemma durable_tail_suffix:
  assumes "log_from b lg" "b \<le> unat (snapshot_index_of snap)"
  shows "unat (durable_tail snap (suffix_after snap lg)) = max (unat (snapshot_index_of snap)) (b + length lg)"
proof (cases "suffix_after snap lg = []")
  case True
  then show ?thesis using log_from_filter [OF assms] assms by (auto simp: durable_tail_def suffix_after_def)
next
  case False
  then show ?thesis
    using log_from_last [OF log_from_suffix [OF assms]] log_from_filter [OF assms] assms(2)
    by (auto simp: durable_tail_def suffix_after_def)
qed

lemma disk_ok_between:
  assumes "disk_ok m snap old" "disk_ok m snap (old @ new)"
  shows "disk_ok m snap (old @ take k new)"
proof -
  from assms(2) obtain b where b: "b \<le> unat (snapshot_index_of snap)" "log_from b (old @ new)" by (auto simp: disk_ok_def)
  then have full: "log_from b ((old @ take k new) @ drop k new)" by simp
  have lf: "log_from b old" "log_from b (old @ take k new)"
    using b full by (simp_all only: log_from_append)
  have "unat (durable_tail snap (suffix_after snap old)) \<le> unat (durable_tail snap (suffix_after snap (old @ take k new)))"
    using lf b by (simp add: durable_tail_suffix)
  then have "me_commit_index m \<le> durable_tail snap (suffix_after snap (old @ take k new))"
    using assms(1) by (auto simp: disk_ok_def word_le_nat_alt)
  moreover have "sorted (map rg_term (old @ take k new))"
    using assms(2) sorted_append [of "map rg_term (old @ take k new)" "map rg_term (drop k new)"]
    by (simp add: disk_ok_def flip: map_append)
  ultimately show ?thesis
    using assms(2) b(1) lf(2) by (auto simp: disk_ok_def list_all_iff dest: in_set_takeD)
qed

lemma disk_ok_compacted:
  assumes ok: "disk_ok m snap lg" and e: "e \<in> set lg" "rg_index e = ps_last_included_index p" "rg_term e = ps_last_included_term p"
    and j: "snapshot_index_of snap \<le> ps_last_included_index p"
  shows "disk_ok m (Some p) lg" "disk_ok m (Some p) (suffix_after (Some p) lg)"
proof -
  let ?j = "ps_last_included_index p"
  obtain b where b: "b \<le> unat (snapshot_index_of snap)" "log_from b lg" using ok by (auto simp: disk_ok_def)
  then have bj: "b \<le> unat ?j" using j by (simp add: word_le_nat_alt)
  obtain i where i: "i < length lg" "lg ! i = e" using e(1) by (auto simp: in_set_conv_nth)
  have ij: "unat ?j = b + 1 + i" using log_from_index [OF b(2) i(1)] i(2) e(2) by simp
  have te: "rg_term e \<noteq> 0" "rg_term e \<le> me_current_term m" using ok e(1) by (auto simp: disk_ok_def list_all_iff)
  have same: "x = e" if "x \<in> set lg" "rg_index x = ?j" for x
  proof -
    note x = that
    obtain k where k: "k < length lg" "lg ! k = x" using x(1) by (auto simp: in_set_conv_nth)
    then have "unat ?j = b + 1 + k" using log_from_index [OF b(2) k(1)] x(2) by simp
    then have "k = i" using ij by linarith
    then show ?thesis using k i by simp
  qed
  have sf: "suffix_after (Some p) (suffix_after (Some p) lg) = suffix_after (Some p) lg" by (simp add: suffix_after_def)
  have "unat (durable_tail snap (suffix_after snap lg)) = unat (durable_tail (Some p) (suffix_after (Some p) lg))"
    using durable_tail_suffix [OF b(2)] b(1) bj i(1) ij j
    by (simp add: snapshot_index_of_def [of "Some p"] word_le_nat_alt)
  then have tail: "me_commit_index m \<le> durable_tail (Some p) (suffix_after (Some p) lg)"
    using ok by (auto simp: disk_ok_def word_le_nat_alt)
  have idx: "snapshot_index_of (Some p) = ?j" "snapshot_term_of (Some p) = rg_term e" "?j \<noteq> 0"
    using e(3) ij by (auto simp: snapshot_index_of_def snapshot_term_of_def)
  show "disk_ok m (Some p) lg"
    using ok b(2) bj te tail same unfolding disk_ok_def idx by (auto simp: list_all_iff idx(3))
  have "log_from (unat ?j) (suffix_after (Some p) lg)"
    using log_from_suffix [OF b(2) bj] by (simp add: suffix_after_def idx)
  moreover have "sorted (map rg_term (suffix_after (Some p) lg))"
    using ok unfolding disk_ok_def suffix_after_def by (metis sorted_filter)
  ultimately show "disk_ok m (Some p) (suffix_after (Some p) lg)"
    using ok te tail same unfolding disk_ok_def sf idx
    by (auto simp: list_all_iff idx(3) suffix_after_def [of _ lg])
qed

text \<open>An old log that disagrees with a newer snapshot is rejected.\<close>

lemma scan_entries_conflict:
  assumes "log_from b es" "\<forall>x\<in>set es. rg_term x \<noteq> 0" "sorted (map rg_term es)"
    "e \<in> set es" "rg_index e = si" "rg_term e \<noteq> st"
    "case sn_previous_index sc of None \<Rightarrow> True | Some p \<Rightarrow> unat p = b"
    "case sn_previous_term sc of None \<Rightarrow> True | Some t \<Rightarrow> \<forall>x\<in>set es. t \<le> rg_term x"
  shows "scan_entries si st n es sc = Inl (SnapshotTermDisagrees (rg_term e) si st)"
  using assms
proof (induction es arbitrary: b n sc)
  case (Cons x es)
  have ix: "unat (rg_index x) = Suc b" and lt: "Suc b < 2 ^ 64"
    using Cons.prems(1) unat_lt_2p [of "rg_index x"] by auto
  have nz: "rg_index x \<noteq> 0" using ix by (metis Zero_not_Suc unat_0)
  have idx: "sn_previous_index sc = Some p \<Longrightarrow> checked_add p 1 = Some (rg_index x)" for p
    using Cons.prems(7) ix lt checked_add_unat [of p 1] by (auto simp: word_unat_eq_iff)
  have trm: "(case sn_previous_term sc of None \<Rightarrow> False | Some previous \<Rightarrow> rg_term x < previous) = False"
    using Cons.prems(8) by (auto split: option.splits)
  show ?case
  proof (cases "x = e")
    case True
    have "check_record si st (n + 1) x sc = Inl (SnapshotTermDisagrees (rg_term e) si st)"
      using Cons.prems(2,5,6) nz trm idx True by (auto simp: check_record_def Let_def split: option.splits)
    then show ?thesis by simp
  next
    case False
    then have es: "e \<in> set es" using Cons.prems(4) by simp
    then obtain i where "i < length es" "es ! i = e" by (auto simp: in_set_conv_nth)
    then have lt_e: "rg_index x < si"
      using log_from_index [of "Suc b" es i] Cons.prems(1,5) ix by (auto simp: word_less_nat_alt)
    define sc' where "sc' = sc\<lparr>sn_previous_index := Some (rg_index x), sn_previous_term := Some (rg_term x)\<rparr>"
    have "check_record si st (n + 1) x sc = Inr sc'"
      using Cons.prems(2) nz trm idx lt_e by (auto simp: check_record_def sc'_def Let_def split: option.splits)
    moreover have "scan_entries si st (n + 1) es sc' = Inl (SnapshotTermDisagrees (rg_term e) si st)"
      by (rule Cons.IH [of "Suc b"]) (use Cons.prems es ix in \<open>auto simp: sc'_def\<close>)
    ultimately show ?thesis by simp
  qed
qed simp

subsection \<open>Properties\<close>

text \<open>A codec for two entries, one metadata record and one snapshot, for the examples.\<close>

definition sample_entry :: "u64 \<Rightarrow> u64 \<Rightarrow> raft_entry" where
  "sample_entry i t = \<lparr>rg_term = t, rg_index = i, rg_proposed_at_ms = 0, rg_command = None\<rparr>"

definition sample_codec :: "raft_entry \<Rightarrow> raft_entry \<Rightarrow> meta \<Rightarrow> persisted_snapshot \<Rightarrow> codec" where
  "sample_codec x y m p = \<lparr>cd_meta = (\<lambda>_. ''{m}''), cd_read_meta = (\<lambda>s. if s = ''{m}'' then Some m else None),
     cd_entry = (\<lambda>e. if e = x then ''{0}'' else ''{1}''),
     cd_read_entry = (\<lambda>s. if s = ''{0}'' then Some x else if s = ''{1}'' then Some y else None),
     cd_snapshot = (\<lambda>_. ''{s}''), cd_read_snapshot = (\<lambda>s. if s = ''{s}'' then Some p else None)\<rparr>"

lemma sample_reads_back: "list_all (reads_back (sample_codec x y m p)) [x, y]"
  by (simp add: reads_back_def sample_codec_def newline_def upt_rec)

lemma sample_records_back:
  "records_back (sample_codec x y m p) m None" "records_back (sample_codec x y m p) m (Some p)"
  by (simp_all add: records_back_def sample_codec_def)

lemmas sample_disk = disk_ok_def sample_entry_def snapshot_index_of_def snapshot_term_of_def durable_tail_def suffix_after_def

definition store_of :: "codec \<Rightarrow> meta \<Rightarrow> persisted_snapshot option \<Rightarrow> raft_entry list \<Rightarrow> shard_store" where
  "store_of cd m snap lg = \<lparr>ss_files = files_of cd m snap lg, ss_durable_len = length lg, ss_attached = True\<rparr>"

text \<open>C33. An append that is torn at any byte loses only entries of that append. Whatever number of bytes of the new
  entries reached the file, the next start recovers the metadata and snapshot as saved, every entry that was there
  before, and some first part of the new ones, never a damaged record and never an error.\<close>

theorem acknowledged_entries_survive_a_torn_append:
  assumes "records_back cd m snap" "list_all (reads_back cd) (old @ new)"
    "disk_ok m snap old" "disk_ok m snap (old @ new)"
  shows "\<exists>k\<le>length new. recover cd (ss_files (snd (append_tail cd (Some n) (old @ new) (store_of cd m snap old)))) =
           Inr (recovered_of m snap (old @ take k new))"
proof -
  let ?f = "\<lambda>bytes. (files_of cd m snap old)\<lparr>sf_log := Some bytes\<rparr>"
  obtain k where k: "k \<le> length new"
      "\<And>si st. scan_log cd si st (encode_log cd old @ take n (encode_log cd new)) = scan_log cd si st (encode_log cd (old @ take k new))"
    using scan_log_prefix [OF assms(2)] by blast
  have "ss_files (snd (append_tail cd (Some n) (old @ new) (store_of cd m snap old))) =
      ?f (encode_log cd old @ take n (encode_log cd new))"
    by (cases "new = []") (auto simp: append_tail_def store_of_def files_of_def Let_def)
  moreover have "recover cd (?f (encode_log cd old @ take n (encode_log cd new))) = recover cd (?f (encode_log cd (old @ take k new)))"
    using k(2) by (rule recover_log_cong)
  moreover have "?f (encode_log cd (old @ take k new)) = files_of cd m snap (old @ take k new)"
    by (simp add: files_of_def)
  moreover have "list_all (reads_back cd) (old @ take k new)"
    using assms(2) by (auto simp: list_all_iff dest: in_set_takeD)
  ultimately show ?thesis
    using recover_intact [OF assms(1) _ disk_ok_between [OF assms(3,4), of k]] k(1) by auto
qed

theorem acknowledged_entries_survive_a_torn_append_witness:
  "let x = sample_entry 1 1; y = sample_entry 2 1; m = \<lparr>me_current_term = 1, me_voted_for = None, me_commit_index = 1\<rparr>;
       cd = sample_codec x y m undefined
   in \<exists>k\<le>length [y]. recover cd (ss_files (snd (append_tail cd (Some 2) ([x] @ [y]) (store_of cd m None [x])))) =
        Inr (recovered_of m None ([x] @ take k [y]))"
  unfolding Let_def
  by (rule acknowledged_entries_survive_a_torn_append)
    (use sample_reads_back sample_records_back(1) in \<open>simp_all add: sample_disk\<close>)

text \<open>C34. Compaction is safe against a crash at every point. A snapshot taken at an entry of the log, followed by the
  removal of the entries it covers, leaves a disk that recovers to the state before the compaction or to the state
  after it, whichever of its two file replacements took effect, and a reported success recovers to the state after it.\<close>

theorem compaction_survives_a_crash:
  assumes "records_back cd m snap" "records_back cd m (Some p)" "list_all (reads_back cd) lg" "disk_ok m snap lg"
    "e \<in> set lg" "rg_index e = ps_last_included_index p" "rg_term e = ps_last_included_term p"
    "snapshot_index_of snap \<le> ps_last_included_index p"
  shows "case save_snapshot cd w w_log p (suffix_after (Some p) lg) (store_of cd m snap lg) of (ok, s) \<Rightarrow>
     recover cd (ss_files s) = Inr (recovered_of m (Some p) lg) \<or>
     \<not> ok \<and> recover cd (ss_files s) = Inr (recovered_of m snap lg)"
proof -
  note ok = disk_ok_compacted [OF assms(4-8)]
  have "suffix_after (Some p) (suffix_after (Some p) lg) = suffix_after (Some p) lg" by (simp add: suffix_after_def)
  then have same: "recovered_of m (Some p) (suffix_after (Some p) lg) = recovered_of m (Some p) lg"
    by (simp add: recovered_of_def)
  have sub: "list_all (reads_back cd) (suffix_after (Some p) lg)"
    using assms(3) by (auto simp: suffix_after_def list_all_iff)
  have upd: "(files_of cd m snap lg)\<lparr>sf_snapshot := Some (cd_snapshot cd p)\<rparr> = files_of cd m (Some p) lg"
    "(files_of cd m (Some p) lg)\<lparr>sf_log := Some (encode_log cd es)\<rparr> = files_of cd m (Some p) es" for es
    by (simp_all add: files_of_def)
  show ?thesis
    using recover_intact [OF assms(1,3,4)] recover_intact [OF assms(2,3) ok(1)] recover_intact [OF assms(2) sub ok(2)] same
    by (cases w; cases w_log) (simp_all add: save_snapshot_def rewrite_def store_of_def upd Let_def)
qed

theorem compaction_survives_a_crash_witness:
  "let x = sample_entry 1 1; y = sample_entry 2 1; m = \<lparr>me_current_term = 1, me_voted_for = None, me_commit_index = 1\<rparr>;
       p = \<lparr>ps_last_included_index = 1, ps_last_included_term = 1, ps_state = ''s''\<rparr>; cd = sample_codec x y m p
   in case save_snapshot cd Saved LostWrite p (suffix_after (Some p) [x, y]) (store_of cd m None [x, y]) of (ok, s) \<Rightarrow>
     recover cd (ss_files s) = Inr (recovered_of m (Some p) [x, y]) \<or>
     \<not> ok \<and> recover cd (ss_files s) = Inr (recovered_of m None [x, y])"
  unfolding Let_def
  by (rule compaction_survives_a_crash [where e = "sample_entry 1 1"])
    (use sample_reads_back sample_records_back in \<open>simp_all add: sample_disk\<close>)

text \<open>C35. Installing a snapshot is not safe against a crash between its two file replacements. When the follower's log
  has another term at the snapshot's index, the log is to be dropped, but the snapshot file is replaced first; a
  start at that point finds the old entry beside the new snapshot and refuses the shard's whole state.\<close>

theorem interrupted_install_cannot_be_reopened:
  assumes "records_back cd m (Some p)" "list_all (reads_back cd) lg" "disk_ok m snap lg"
    "e \<in> set lg" "rg_index e = ps_last_included_index p" "rg_term e \<noteq> ps_last_included_term p"
    "ps_last_included_term p \<noteq> 0"
  shows "recover cd (ss_files (snd (save_snapshot cd Saved LostWrite p [] (store_of cd m snap lg)))) =
     Inl (SnapshotTermDisagrees (rg_term e) (ps_last_included_index p) (ps_last_included_term p))"
proof -
  obtain b where b: "log_from b lg" using assms(3) by (auto simp: disk_ok_def)
  have nz: "ps_last_included_index p \<noteq> 0"
  proof -
    obtain k where k: "k < length lg" "lg ! k = e" using assms(4) by (auto simp: in_set_conv_nth)
    have "unat (ps_last_included_index p) = b + 1 + k" using log_from_index [OF b k(1)] k(2) assms(5) by simp
    then show ?thesis by auto
  qed
  have "scan_log cd (ps_last_included_index p) (ps_last_included_term p) (encode_log cd lg) =
      Inl (SnapshotTermDisagrees (rg_term e) (ps_last_included_index p) (ps_last_included_term p))"
    unfolding scan_log_encoded [OF assms(2)]
    by (rule scan_entries_conflict [OF b]) (use assms in \<open>auto simp: disk_ok_def list_all_iff scan_empty_def\<close>)
  moreover have "ss_files (snd (save_snapshot cd Saved LostWrite p [] (store_of cd m snap lg))) = files_of cd m (Some p) lg"
    by (simp add: save_snapshot_def rewrite_def store_of_def files_of_def Let_def)
  moreover have "read_optional_json (cd_read_meta cd) (Some (cd_meta cd m)) = Inr (Some m)"
    "read_optional_json (cd_read_snapshot cd) (Some (cd_snapshot cd p)) = Inr (Some p)"
    using assms(1) by (auto simp: records_back_def read_optional_json_def)
  moreover have "me_current_term m = 0 \<longrightarrow> me_voted_for m = None" using assms(3) by (simp add: disk_ok_def)
  ultimately show ?thesis
    using nz assms(7) by (auto simp: recover_def files_of_def snapshot_index_of_def snapshot_term_of_def)
qed

theorem interrupted_install_cannot_be_reopened_witness:
  "let x = sample_entry 1 1; y = sample_entry 2 1; m = \<lparr>me_current_term = 3, me_voted_for = None, me_commit_index = 1\<rparr>;
       p = \<lparr>ps_last_included_index = 2, ps_last_included_term = 3, ps_state = ''s''\<rparr>; cd = sample_codec x y m p
   in recover cd (ss_files (snd (save_snapshot cd Saved LostWrite p [] (store_of cd m None [x, y])))) =
     Inl (SnapshotTermDisagrees 1 2 3)"
proof -
  let ?m = "\<lparr>me_current_term = 3, me_voted_for = None, me_commit_index = 1\<rparr>"
  let ?p = "\<lparr>ps_last_included_index = 2, ps_last_included_term = 3, ps_state = ''s''\<rparr>"
  show ?thesis
    using interrupted_install_cannot_be_reopened [OF sample_records_back(2) [of "sample_entry 1 1" "sample_entry 2 1" ?m ?p]
        sample_reads_back, of None "sample_entry 2 1"]
    by (simp add: sample_disk)
qed

end
