(* ===== verification/Raft.thy ===== *)
theory Raft
  imports Restore Persist
begin

unbundle bit_operations_syntax

section \<open>One shard's Raft actor\<close>

text \<open>
  \<open>ShardActor\<close> of \<open>src/consensus.rs\<close> with every field that its handlers read, the wire records of
  \<open>src/transport.rs\<close>, and the pure rules of \<open>src/raft_callback.rs\<close> and \<open>src/raft_reply.rs\<close>. A handler maps the
  actor's state to its answer and the new state; what it sends, resolves and publishes is appended to
  \<open>ra_outbox\<close>.

  \<open>raft_env\<close> is what one call of a handler takes from outside: the outcome of each disk write by the name the source
  gives the operation, the instant and the wall clock, the parameters of the state machine and of the JSON encoding.
  A handler reads the clock once. Instants and durations are nanoseconds. \<open>ra_disk\<close> is what the three files of
  theory \<open>Persist\<close> hold, \<open>None\<close> for an actor without a data directory. \<open>storage_fault\<close> keeps the name of the failed
  operation without the text of the operating system. Log lines are left out.
\<close>

datatype role = Follower | Candidate | Leader

record request_stamp =
  rq_term :: u64
  rq_sequence :: u64
  rq_sent_at :: nat

record leader_state =
  ld_next_index :: "(string, u64) fmap"
  ld_match_index :: "(string, u64) fmap"
  ld_in_flight :: "(string, bool) fmap"
  ld_pending_requests :: "(string, request_stamp) fmap"
  ld_request_sequence :: u64
  ld_last_contact :: "(string, nat) fmap"
  ld_peer_command_protocol :: "(string, u16) fmap"

definition leader_state_default :: leader_state where
  "leader_state_default = \<lparr>ld_next_index = fmempty, ld_match_index = fmempty, ld_in_flight = fmempty,
     ld_pending_requests = fmempty, ld_request_sequence = 0, ld_last_contact = fmempty,
     ld_peer_command_protocol = fmempty\<rparr>"

record raft_timing =
  tm_tick :: nat
  tm_heartbeat :: nat
  tm_election_min_ms :: u64
  tm_election_jitter_ms :: u64
  tm_pre_vote :: bool
  tm_check_quorum :: bool
  tm_snapshot_threshold :: u64

record shard_metrics =
  mt_append_rtt_ms_last :: "u64 option"
  mt_quorum_rtt_ms_last :: "u64 option"
  mt_follower_lag_max :: u64
  mt_leader_transfer_count :: u64

definition shard_metrics_default :: shard_metrics where
  "shard_metrics_default = \<lparr>mt_append_rtt_ms_last = None, mt_quorum_rtt_ms_last = None, mt_follower_lag_max = 0,
     mt_leader_transfer_count = 0\<rparr>"

record append_req =
  aq_term :: u64
  aq_leader_id :: string
  aq_prev_log_index :: u64
  aq_prev_log_term :: u64
  aq_entries :: "raft_entry list"
  aq_leader_commit :: u64
  aq_command_protocol :: u16

record append_resp =
  as_term :: u64
  as_success :: bool
  as_match_index :: u64
  as_command_protocol :: u16

record install_req =
  iq_term :: u64
  iq_leader_id :: string
  iq_last_included_index :: u64
  iq_last_included_term :: u64
  iq_state :: string

record install_resp =
  is_term :: u64
  is_success :: bool
  is_match_index :: u64

record vote_req =
  vq_term :: u64
  vq_candidate_id :: string
  vq_last_log_index :: u64
  vq_last_log_term :: u64
  vq_pre_vote :: bool

record vote_resp =
  vr_term :: u64
  vr_granted :: bool

record propose_outcome =
  po_shard :: u32
  po_log_index :: u64
  po_revision :: u64
  po_output :: command_output

datatype propose_error = NotLeader u32 "string option" | Unavailable u32

record change_event =
  ce_scope :: string
  ce_kind :: string
  ce_key :: string
  ce_revision :: u64
  ce_detail :: "(leadership + service_instance) option"

datatype outgoing =
    SendVote string vote_req
  | SendAppend string request_stamp u64 append_req
  | SendSnapshot string request_stamp u64 install_req
  | Resolve u64 "propose_error + propose_outcome"
  | Publish change_event

text \<open>What the files of the store hold: \<open>du_len\<close> is \<open>durable_len\<close>.\<close>

record durable =
  du_meta :: meta
  du_log :: "raft_entry list"
  du_snapshot :: "persisted_snapshot option"
  du_len :: nat

record shard =
  ra_shard_id :: u32
  ra_node_id :: string
  ra_peers :: "string list"
  ra_role :: role
  ra_current_term :: u64
  ra_voted_for :: "string option"
  ra_leader_id :: "string option"
  ra_snapshot_index :: u64
  ra_snapshot_term :: u64
  ra_snapshot_state :: string
  ra_log :: "raft_entry list"
  ra_commit_index :: u64
  ra_last_applied :: u64
  ra_disk :: "durable option"
  ra_storage_fault :: "string option"
  ra_votes :: "string fset"
  ra_campaign_started_at :: nat
  ra_pre_votes :: "string fset"
  ra_pre_vote_term :: u64
  ra_leader :: "leader_state option"
  ra_timing :: raft_timing
  ra_election_deadline :: nat
  ra_heartbeat_deadline :: nat
  ra_last_leader_contact :: nat
  ra_rng :: u64
  ra_pending :: "(u64, nat) fmap"
  ra_state :: store
  ra_metrics :: shard_metrics
  ra_outbox :: "outgoing list"

record raft_env =
  rv_disk :: "string \<Rightarrow> write_result"
  rv_torn :: nat
  rv_now :: nat
  rv_now_ms :: u64
  rv_sha256 :: "string \<Rightarrow> string"
  rv_delim :: string
  rv_order :: "store \<Rightarrow> string list"
  rv_to_vec :: "store \<Rightarrow> string"
  rv_from_slice :: "string \<Rightarrow> store option"
  rv_body_len :: "append_req \<Rightarrow> nat option"
  rv_append_max_entries :: nat
  rv_append_max_bytes :: nat

definition from_millis :: "u64 \<Rightarrow> nat" where "from_millis ms = unat ms * 1000000"

text \<open>\<open>duration_millis\<close>: whole milliseconds, capped.\<close>

definition duration_millis :: "nat \<Rightarrow> u64" where
  "duration_millis d = (if d div 1000000 < 2 ^ 64 then word_of_nat (d div 1000000) else - 1)"

definition members :: "shard \<Rightarrow> nat" where "members a = length (ra_peers a) + 1"

definition majority :: "shard \<Rightarrow> nat" where "majority a = members a div 2 + 1"

definition last_log_index :: "shard \<Rightarrow> u64" where
  "last_log_index a = sat_add (ra_snapshot_index a) (word_of_nat (length (ra_log a)))"

definition last_log_term :: "shard \<Rightarrow> u64" where
  "last_log_term a = (if ra_log a = [] then ra_snapshot_term a else rg_term (last (ra_log a)))"

definition term_at :: "u64 \<Rightarrow> shard \<Rightarrow> u64" where
  "term_at index a =
     (if index = 0 then 0
      else if index = ra_snapshot_index a then ra_snapshot_term a
      else if index < ra_snapshot_index a then 0
      else let i = unat (index - ra_snapshot_index a - 1)
           in if i < length (ra_log a) then rg_term (ra_log a ! i) else 0)"

subsection \<open>Randomised deadlines\<close>

definition rng_next :: "u64 \<Rightarrow> u64 \<times> u64" where
  "rng_next s =
     (let s = s + 0x9E3779B97F4A7C15;
          z = (s XOR drop_bit 30 s) * 0xBF58476D1CE4E5B9;
          z = (z XOR drop_bit 27 z) * 0x94D049BB133111EB
      in (z XOR drop_bit 31 z, s))"

definition rng_below :: "u64 \<Rightarrow> u64 \<Rightarrow> u64 \<times> u64" where
  "rng_below bound s = (if bound = 0 then (0, s) else (case rng_next s of (z, s) \<Rightarrow> (z mod bound, s)))"

text \<open>The seed: an FNV-1a hash of the node id, the shard and the clock in nanoseconds.\<close>

definition rng_seeded :: "u64 \<Rightarrow> string \<Rightarrow> u32 \<Rightarrow> u64" where
  "rng_seeded now_nanos node_id shard_id =
     (let h = fold (\<lambda>b h. (h XOR word_of_nat (of_char b)) * 0x100000001b3) node_id 0xcbf29ce484222325
      in ((h XOR ucast shard_id) XOR now_nanos) OR 1)"

definition reset_election_deadline :: "raft_env \<Rightarrow> shard \<Rightarrow> shard" where
  "reset_election_deadline env a = (case rng_below (tm_election_jitter_ms (ra_timing a)) (ra_rng a) of
     (jitter, rng) \<Rightarrow> a\<lparr>ra_rng := rng,
       ra_election_deadline := rv_now env + from_millis (tm_election_min_ms (ra_timing a) + jitter)\<rparr>)"

subsection \<open>Role changes, waiters and durability\<close>

definition record_leader_transfer :: "role \<Rightarrow> role \<Rightarrow> shard \<Rightarrow> shard" where
  "record_leader_transfer from_role to_role a =
     (if from_role = to_role \<or> from_role \<noteq> Leader \<and> to_role \<noteq> Leader then a
      else a\<lparr>ra_metrics := (ra_metrics a)\<lparr>mt_leader_transfer_count := mt_leader_transfer_count (ra_metrics a) + 1\<rparr>\<rparr>)"

definition send :: "outgoing list \<Rightarrow> shard \<Rightarrow> shard" where
  "send msgs a = a\<lparr>ra_outbox := ra_outbox a @ msgs\<rparr>"

definition fail_pending :: "shard \<Rightarrow> shard" where
  "fail_pending a = (send (map (\<lambda>(i, _). Resolve i (Inl (NotLeader (ra_shard_id a) (ra_leader_id a)))) (entries (ra_pending a))) a)
     \<lparr>ra_pending := fmempty\<rparr>"

definition fail_pending_unavailable :: "shard \<Rightarrow> shard" where
  "fail_pending_unavailable a = (send (map (\<lambda>(i, _). Resolve i (Inl (Unavailable (ra_shard_id a)))) (entries (ra_pending a))) a)
     \<lparr>ra_pending := fmempty\<rparr>"

definition fail_storage :: "string \<Rightarrow> shard \<Rightarrow> shard" where
  "fail_storage operation a =
     (let a = (if ra_storage_fault a = None then a\<lparr>ra_storage_fault := Some operation\<rparr> else a);
          a = record_leader_transfer (ra_role a) Follower a
      in fail_pending_unavailable (a\<lparr>ra_role := Follower, ra_leader_id := None, ra_leader := None, ra_votes := {||},
           ra_pre_votes := {||}\<rparr>))"

text \<open>Each of the writes answers whether it was reported as done.\<close>

definition persist_hard_state_at :: "raft_env \<Rightarrow> string \<Rightarrow> u64 \<Rightarrow> shard \<Rightarrow> bool \<times> shard" where
  "persist_hard_state_at env operation commit_index a = (case ra_disk a of
       None \<Rightarrow> (True, a)
     | Some d \<Rightarrow>
         let saved = a\<lparr>ra_disk := Some (d\<lparr>du_meta := \<lparr>me_current_term = ra_current_term a, me_voted_for = ra_voted_for a,
               me_commit_index = commit_index\<rparr>\<rparr>)\<rparr>
         in case rv_disk env operation of Saved \<Rightarrow> (True, saved) | LostWrite \<Rightarrow> (False, a) | UnreportedWrite \<Rightarrow> (False, saved))"

definition persist_hard_state :: "raft_env \<Rightarrow> string \<Rightarrow> shard \<Rightarrow> bool \<times> shard" where
  "persist_hard_state env operation a = persist_hard_state_at env operation (ra_commit_index a) a"

text \<open>An append that fails leaves some of the new entries in the file.\<close>

definition persist_log_append :: "raft_env \<Rightarrow> string \<Rightarrow> shard \<Rightarrow> bool \<times> shard" where
  "persist_log_append env operation a = (case ra_disk a of
       None \<Rightarrow> (True, a)
     | Some d \<Rightarrow>
         if length (ra_log a) \<le> du_len d then (True, a)
         else
           let tail = drop (du_len d) (ra_log a)
           in case rv_disk env operation of
                Saved \<Rightarrow> (True, a\<lparr>ra_disk := Some (d\<lparr>du_log := du_log d @ tail, du_len := length (ra_log a)\<rparr>)\<rparr>)
              | LostWrite \<Rightarrow> (False, a)
              | UnreportedWrite \<Rightarrow> (False, a\<lparr>ra_disk := Some (d\<lparr>du_log := du_log d @ take (rv_torn env) tail\<rparr>)\<rparr>))"

definition disk_rewrite :: "write_result \<Rightarrow> raft_entry list \<Rightarrow> durable \<Rightarrow> bool \<times> durable" where
  "disk_rewrite w lg d = (case w of Saved \<Rightarrow> (True, d\<lparr>du_log := lg, du_len := length lg\<rparr>)
     | LostWrite \<Rightarrow> (False, d) | UnreportedWrite \<Rightarrow> (False, d\<lparr>du_log := lg\<rparr>))"

definition persist_log_rewrite :: "raft_env \<Rightarrow> string \<Rightarrow> shard \<Rightarrow> bool \<times> shard" where
  "persist_log_rewrite env operation a = (case ra_disk a of
       None \<Rightarrow> (True, a)
     | Some d \<Rightarrow> (case disk_rewrite (rv_disk env operation) (ra_log a) d of (ok, d) \<Rightarrow> (ok, a\<lparr>ra_disk := Some d\<rparr>)))"

text \<open>\<open>save_snapshot\<close>: the snapshot file, then the remaining log; the second write has its own outcome.\<close>

definition persist_snapshot ::
  "raft_env \<Rightarrow> string \<Rightarrow> persisted_snapshot \<Rightarrow> raft_entry list \<Rightarrow> shard \<Rightarrow> bool \<times> shard" where
  "persist_snapshot env operation snap remaining a = (case ra_disk a of
       None \<Rightarrow> (True, a)
     | Some d \<Rightarrow>
         let renamed = d\<lparr>du_snapshot := Some snap\<rparr>
         in case rv_disk env operation of
              Saved \<Rightarrow> (case disk_rewrite (rv_disk env (operation @ '': log'')) remaining renamed of
                  (ok, d) \<Rightarrow> (ok, a\<lparr>ra_disk := Some d\<rparr>))
            | LostWrite \<Rightarrow> (False, a)
            | UnreportedWrite \<Rightarrow> (False, a\<lparr>ra_disk := Some renamed\<rparr>))"

definition step_down :: "raft_env \<Rightarrow> u64 \<Rightarrow> string option \<Rightarrow> shard \<Rightarrow> shard" where
  "step_down env trm leader a =
     (if trm < ra_current_term a then a
      else
        let a = record_leader_transfer (ra_role a) Follower a;
            a = (if trm > ra_current_term a then a\<lparr>ra_current_term := trm, ra_voted_for := None\<rparr> else a);
            a = a\<lparr>ra_role := Follower, ra_leader := None, ra_votes := {||}, ra_leader_id := leader\<rparr>;
            (ok, a) = persist_hard_state env ''persisting higher term while stepping down'' a
        in if \<not> ok then fail_storage ''persisting higher term while stepping down'' a
           else fail_pending (reset_election_deadline env a))"

definition become_follower_of :: "raft_env \<Rightarrow> string \<Rightarrow> shard \<Rightarrow> shard" where
  "become_follower_of env leader a =
     (let a = record_leader_transfer (ra_role a) Follower a;
          a = a\<lparr>ra_role := Follower, ra_leader_id := Some leader, ra_leader := None, ra_votes := {||},
            ra_last_leader_contact := rv_now env\<rparr>
      in fail_pending (reset_election_deadline env a))"

subsection \<open>Granting votes\<close>

definition log_ok :: "vote_req \<Rightarrow> shard \<Rightarrow> bool" where
  "log_ok req a \<longleftrightarrow> vq_last_log_term req > last_log_term a \<or>
     vq_last_log_term req = last_log_term a \<and> vq_last_log_index req \<ge> last_log_index a"

definition handle_pre_vote :: "raft_env \<Rightarrow> vote_req \<Rightarrow> shard \<Rightarrow> vote_resp" where
  "handle_pre_vote env req a =
     (let leader_alive = (ra_leader_id a \<noteq> None \<and>
            rv_now env - ra_last_leader_contact a < from_millis (tm_election_min_ms (ra_timing a)))
      in \<lparr>vr_term = ra_current_term a,
          vr_granted = (vq_term req \<ge> ra_current_term a \<and> log_ok req a \<and> \<not> leader_alive)\<rparr>)"

definition vote_answer :: "bool \<Rightarrow> shard \<Rightarrow> vote_resp \<times> shard" where
  "vote_answer granted a = (\<lparr>vr_term = ra_current_term a, vr_granted = granted\<rparr>, a)"

definition handle_request_vote :: "raft_env \<Rightarrow> vote_req \<Rightarrow> shard \<Rightarrow> vote_resp \<times> shard" where
  "handle_request_vote env req a =
     (if ra_storage_fault a \<noteq> None then vote_answer False a
      else if vq_last_log_term req > vq_term req then vote_answer False a
      else if vq_pre_vote req then (handle_pre_vote env req a, a)
      else if vq_term req < ra_current_term a then vote_answer False a
      else
        let a = (if vq_term req > ra_current_term a then step_down env (vq_term req) None a else a)
        in if ra_storage_fault a \<noteq> None then vote_answer False a
           else if (case ra_voted_for a of None \<Rightarrow> True | Some v \<Rightarrow> v = vq_candidate_id req) \<and> log_ok req a
           then
             let a = reset_election_deadline env (a\<lparr>ra_voted_for := Some (vq_candidate_id req)\<rparr>);
                 (ok, a) = persist_hard_state env ''persisting granted vote'' a
             in if \<not> ok then vote_answer False (fail_storage ''persisting granted vote'' a) else vote_answer True a
           else vote_answer False a)"

subsection \<open>Applying committed entries and compaction\<close>

definition kv_event :: "string \<Rightarrow> string \<Rightarrow> u64 \<Rightarrow> change_event" where
  "kv_event knd key revision = \<lparr>ce_scope = ''kv'', ce_kind = knd, ce_key = key, ce_revision = revision, ce_detail = None\<rparr>"

definition election_event :: "string \<Rightarrow> string \<Rightarrow> u64 \<Rightarrow> leadership option \<Rightarrow> change_event" where
  "election_event knd name revision l = \<lparr>ce_scope = ''election'', ce_kind = knd, ce_key = name,
     ce_revision = revision, ce_detail = map_option Inl l\<rparr>"

definition service_event :: "string \<Rightarrow> string \<Rightarrow> u64 \<Rightarrow> service_instance option \<Rightarrow> change_event" where
  "service_event knd service revision i = \<lparr>ce_scope = ''service'', ce_kind = knd, ce_key = service,
     ce_revision = revision, ce_detail = map_option Inr i\<rparr>"

definition change_of :: "command \<Rightarrow> command_output \<Rightarrow> u64 \<Rightarrow> change_event option" where
  "change_of c result revision = (case c of
       KvC (KvPut key _ _ _) \<Rightarrow> (case result of KvO (KvPutOk _ _ _) \<Rightarrow> Some (kv_event ''put'' key revision) | _ \<Rightarrow> None)
     | KvC (KvDelete key) \<Rightarrow> Some (kv_event ''delete'' key revision)
     | ElectionC (ElectionCampaign name _ _ _) \<Rightarrow>
         (case result of ElectionO (ElectionWon _ l _) \<Rightarrow> Some (election_event ''elected'' name revision (Some l)) | _ \<Rightarrow> None)
     | ElectionC (ElectionRenew name _ _ _) \<Rightarrow>
         (case result of ElectionO (ElectionRenewed _ l) \<Rightarrow> Some (election_event ''renewed'' name revision (Some l)) | _ \<Rightarrow> None)
     | ElectionC (ElectionResign name _ _) \<Rightarrow>
         (case result of ElectionO (ElectionResigned ok _) \<Rightarrow>
            if ok then Some (election_event ''resigned'' name revision None) else None | _ \<Rightarrow> None)
     | ServiceC (ServiceRegister service _ _ _ _) \<Rightarrow>
         (case result of ServiceO (Registered _ i) \<Rightarrow> Some (service_event ''register'' service revision (Some i)) | _ \<Rightarrow> None)
     | ServiceC (ServiceHeartbeat service _ _) \<Rightarrow>
         (case result of ServiceO (Heartbeat _ i) \<Rightarrow> Some (service_event ''heartbeat'' service revision (Some i)) | _ \<Rightarrow> None)
     | ServiceC (ServiceDeregister service _) \<Rightarrow>
         (case result of ServiceO (Deregistered removed _ _) \<Rightarrow>
            if removed then Some (service_event ''deregister'' service revision None) else None | _ \<Rightarrow> None)
     | _ \<Rightarrow> None)"

definition publish_change :: "command \<Rightarrow> command_output \<Rightarrow> u64 \<Rightarrow> shard \<Rightarrow> shard" where
  "publish_change c result revision a =
     (case change_of c result revision of None \<Rightarrow> a | Some event \<Rightarrow> send [Publish event] a)"

definition maybe_compact :: "raft_env \<Rightarrow> shard \<Rightarrow> shard" where
  "maybe_compact env a =
     (let threshold = tm_snapshot_threshold (ra_timing a)
      in if threshold = 0 \<or> sat_sub (ra_last_applied a) (ra_snapshot_index a) < threshold then a
         else (case snapshot (rv_to_vec env) (ra_state a) of
             Inl _ \<Rightarrow> a
           | Inr state \<Rightarrow>
               let last_included_index = ra_last_applied a;
                   last_included_term = term_at last_included_index a;
                   remaining = drop (unat (sat_sub last_included_index (ra_snapshot_index a))) (ra_log a);
                   (ok, a) = persist_snapshot env ''persisting compacted snapshot''
                     \<lparr>ps_last_included_index = last_included_index, ps_last_included_term = last_included_term,
                      ps_state = state\<rparr> remaining a
               in if \<not> ok then fail_storage ''persisting compacted snapshot'' a
                  else a\<lparr>ra_log := remaining, ra_snapshot_index := last_included_index,
                    ra_snapshot_term := last_included_term, ra_snapshot_state := state\<rparr>))"

lemma unat_plus_one_less: "(x :: u64) < y \<Longrightarrow> unat (x + 1) = unat x + 1"
  by (rule unat_plus_one) (use word_order.extremum [of y] in auto)

lemma send_simps [simp]: "ra_last_applied (send m a) = ra_last_applied a" "ra_commit_index (send m a) = ra_commit_index a"
  by (simp_all add: send_def)

lemma publish_change_frame [simp]:
  "ra_last_applied (publish_change c r n a) = ra_last_applied a" "ra_commit_index (publish_change c r n a) = ra_commit_index a"
  by (simp_all add: publish_change_def split: option.split)

text \<open>The loop of \<open>apply_committed\<close>: the waiters whose entries were applied, with their results. \<open>False\<close> is the early
  return on a missing entry.\<close>

type_synonym completed = "(u64 \<times> nat \<times> u64 \<times> command_output) list"

function apply_loop :: "raft_env \<Rightarrow> shard \<Rightarrow> completed \<times> bool \<times> shard" where
  "apply_loop env a =
     (if \<not> ra_last_applied a < ra_commit_index a then ([], True, a)
      else
        let i = ra_last_applied a + 1; offset = unat i - unat (ra_snapshot_index a) - 1
        in if unat i \<le> unat (ra_snapshot_index a) \<or> length (ra_log a) \<le> offset
           then ([], False, fail_storage ''applying committed log'' a)
           else
             let e = ra_log a ! offset; a = a\<lparr>ra_last_applied := i\<rparr>
             in case rg_command e of
                  None \<Rightarrow> apply_loop env a
                | Some c \<Rightarrow>
                    let (r, s) = apply_at (rv_sha256 env) (rv_delim env)
                          \<lparr>en_command = c, en_proposed_at_ms = rg_proposed_at_ms e, en_order = rv_order env (ra_state a)\<rparr>
                          (ra_state a);
                        a = publish_change c (ar_output r) (ar_revision r) (a\<lparr>ra_state := s\<rparr>);
                        finished = (case fmlookup (ra_pending a) i of None \<Rightarrow> []
                          | Some started_at \<Rightarrow> [(i, started_at, ar_revision r, ar_output r)]);
                        (rest, ok, a) = apply_loop env (a\<lparr>ra_pending := fmdrop i (ra_pending a)\<rparr>)
                    in (finished @ rest, ok, a))"
  by pat_completeness auto

termination apply_loop
proof (relation "measure (\<lambda>(env, a). unat (ra_commit_index a) - unat (ra_last_applied a))", goal_cases)
  case (2 env a)
  then show ?case by (auto simp: word_less_nat_alt unat_plus_one_less)
next
  case (3 env a)
  then show ?case by (auto simp: word_less_nat_alt unat_plus_one_less)
qed simp

declare apply_loop.simps [simp del]

definition fail_completed :: "completed \<Rightarrow> shard \<Rightarrow> shard" where
  "fail_completed finished a = send (map (\<lambda>(i, _). Resolve i (Inl (Unavailable (ra_shard_id a)))) finished) a"

definition finish_completed :: "raft_env \<Rightarrow> completed \<Rightarrow> shard \<Rightarrow> shard" where
  "finish_completed env finished a = fold (\<lambda>(i, started_at, revision, result) a.
       send [Resolve i (Inr \<lparr>po_shard = ra_shard_id a, po_log_index = i, po_revision = revision, po_output = result\<rparr>)]
         (a\<lparr>ra_metrics := (ra_metrics a)\<lparr>mt_quorum_rtt_ms_last := Some (duration_millis (rv_now env - started_at))\<rparr>\<rparr>)) finished a"

definition apply_committed :: "raft_env \<Rightarrow> shard \<Rightarrow> shard" where
  "apply_committed env a =
     (let (finished, ok, a) = apply_loop env a
      in if \<not> ok then fail_completed finished a
         else
           let a = maybe_compact env a
           in if ra_storage_fault a \<noteq> None then fail_completed finished a else finish_completed env finished a)"

subsection \<open>Sending to peers\<close>

definition lookup_or :: "'v \<Rightarrow> ('k, 'v) fmap \<Rightarrow> 'k \<Rightarrow> 'v" where
  "lookup_or d m k = (case fmlookup m k of None \<Rightarrow> d | Some v \<Rightarrow> v)"

definition appendable_protocol_prefix :: "raft_entry list \<Rightarrow> u16 \<Rightarrow> u16 \<Rightarrow> raft_entry list" where
  "appendable_protocol_prefix suffix peer_protocol active_protocol =
     takeWhile (\<lambda>e. case rg_command e of None \<Rightarrow> True
       | Some c \<Rightarrow> required_protocol c \<le> peer_protocol \<or> required_protocol c \<le> active_protocol) suffix"

text \<open>The batch loop: an entry that makes the body too large is taken back unless it is the only one.\<close>

fun batch_loop :: "(append_req \<Rightarrow> nat option) \<Rightarrow> nat \<Rightarrow> raft_entry list \<Rightarrow> append_req \<Rightarrow> append_req" where
  "batch_loop body_len max_bytes [] req = req"
| "batch_loop body_len max_bytes (e # es) req =
     (let longer = req\<lparr>aq_entries := aq_entries req @ [e]\<rparr>;
          body_bytes = (case body_len longer of None \<Rightarrow> 2 ^ 64 - 1 | Some n \<Rightarrow> n)
      in if body_bytes > max max_bytes 1
         then (if length (aq_entries longer) > 1 then req else longer)
         else batch_loop body_len max_bytes es longer)"

definition bounded_append_request ::
  "(append_req \<Rightarrow> nat option) \<Rightarrow> append_req \<Rightarrow> raft_entry list \<Rightarrow> nat \<Rightarrow> nat \<Rightarrow> append_req" where
  "bounded_append_request body_len request suffix max_entries max_bytes =
     batch_loop body_len max_bytes (take (max max_entries 1) suffix) (request\<lparr>aq_entries := []\<rparr>)"

definition send_append_to :: "raft_env \<Rightarrow> string \<Rightarrow> shard \<Rightarrow> shard" where
  "send_append_to env peer a =
     (if \<not> list_ex (\<lambda>member. member = peer) (ra_peers a) then a
      else (case ra_leader a of
          None \<Rightarrow> a
        | Some ls \<Rightarrow>
            if lookup_or False (ld_in_flight ls) peer then a
            else (case checked_add (ld_request_sequence ls) 1 of
                None \<Rightarrow> step_down env (ra_current_term a) None a
              | Some sequence \<Rightarrow>
                  let request = \<lparr>rq_term = ra_current_term a, rq_sequence = sequence, rq_sent_at = rv_now env\<rparr>;
                      nxt = lookup_or 1 (ld_next_index ls) peer;
                      peer_command_protocol = lookup_or LEGACY_COMMAND_PROTOCOL (ld_peer_command_protocol ls) peer;
                      a = a\<lparr>ra_leader := Some (ls\<lparr>ld_request_sequence := sequence,
                        ld_pending_requests := fmupd peer request (ld_pending_requests ls),
                        ld_in_flight := fmupd peer True (ld_in_flight ls)\<rparr>)\<rparr>
                  in if nxt \<le> ra_snapshot_index a
                     then send [SendSnapshot peer request (ra_snapshot_index a)
                       \<lparr>iq_term = ra_current_term a, iq_leader_id = ra_node_id a,
                        iq_last_included_index = ra_snapshot_index a, iq_last_included_term = ra_snapshot_term a,
                        iq_state = ra_snapshot_state a\<rparr>] a
                     else
                       let prev_log_index = nxt - 1;
                           suffix = appendable_protocol_prefix
                             (drop (unat (sat_sub prev_log_index (ra_snapshot_index a))) (ra_log a))
                             peer_command_protocol (st_command_protocol (ra_state a));
                           req = bounded_append_request (rv_body_len env)
                             \<lparr>aq_term = ra_current_term a, aq_leader_id = ra_node_id a, aq_prev_log_index = prev_log_index,
                              aq_prev_log_term = term_at prev_log_index a, aq_entries = [],
                              aq_leader_commit = ra_commit_index a, aq_command_protocol = CURRENT_COMMAND_PROTOCOL\<rparr>
                             suffix (rv_append_max_entries env) (rv_append_max_bytes env)
                       in send [SendAppend peer request (sat_add prev_log_index (word_of_nat (length (aq_entries req)))) req] a)))"

definition broadcast_append_entries :: "raft_env \<Rightarrow> shard \<Rightarrow> shard" where
  "broadcast_append_entries env a = (if ra_role a \<noteq> Leader then a else fold (send_append_to env) (ra_peers a) a)"

subsection \<open>Commit and the command protocol\<close>

definition all_peers_support_current_command_protocol :: "shard \<Rightarrow> bool" where
  "all_peers_support_current_command_protocol a \<longleftrightarrow> members a = 1 \<or> (case ra_leader a of None \<Rightarrow> False
     | Some ls \<Rightarrow> list_all (\<lambda>peer. lookup_or LEGACY_COMMAND_PROTOCOL (ld_peer_command_protocol ls) peer \<ge> CURRENT_COMMAND_PROTOCOL)
         (ra_peers a))"

definition quorum_index :: "shard \<Rightarrow> u64" where
  "quorum_index a =
     (let known = (case ra_leader a of None \<Rightarrow> [] | Some ls \<Rightarrow> map (lookup_or 0 (ld_match_index ls)) (ra_peers a))
      in rev (sort (last_log_index a # known)) ! (majority a - 1))"

definition first_newer :: "shard \<Rightarrow> raft_entry option" where
  "first_newer a = find (\<lambda>e. rg_index e > ra_commit_index a \<and>
     (case rg_command e of None \<Rightarrow> False | Some c \<Rightarrow> required_protocol c > st_command_protocol (ra_state a))) (ra_log a)"

definition maybe_advance_commit :: "raft_env \<Rightarrow> shard \<Rightarrow> shard" where
  "maybe_advance_commit env a =
     (if ra_role a \<noteq> Leader \<or> ra_storage_fault a \<noteq> None then a
      else
        let n = quorum_index a;
            n = (if st_command_protocol (ra_state a) < CURRENT_COMMAND_PROTOCOL \<and>
                  \<not> all_peers_support_current_command_protocol a
              then (case first_newer a of None \<Rightarrow> n | Some e \<Rightarrow> min n (sat_sub (rg_index e) 1)) else n)
        in if n > ra_commit_index a \<and> term_at n a = ra_current_term a
           then
             let (ok, a) = persist_hard_state_at env ''persisting leader commit index'' n a
             in if \<not> ok then fail_storage ''persisting leader commit index'' a
                else apply_committed env (a\<lparr>ra_commit_index := n\<rparr>)
           else a)"

text \<open>\<open>commit_alone\<close>: the one-member path of \<open>maybe_activate_command_protocol\<close> and \<open>on_propose\<close>.\<close>

definition commit_alone :: "raft_env \<Rightarrow> string \<Rightarrow> u64 \<Rightarrow> shard \<Rightarrow> shard" where
  "commit_alone env operation index a =
     (let (ok, a) = persist_hard_state_at env operation index a
      in if \<not> ok then fail_storage operation a else apply_committed env (a\<lparr>ra_commit_index := index\<rparr>))"

definition append_own :: "raft_env \<Rightarrow> u64 \<Rightarrow> command option \<Rightarrow> shard \<Rightarrow> shard" where
  "append_own env index c a = a\<lparr>ra_log := ra_log a @ [\<lparr>rg_term = ra_current_term a, rg_index = index,
     rg_proposed_at_ms = rv_now_ms env, rg_command = c\<rparr>]\<rparr>"

definition maybe_activate_command_protocol :: "raft_env \<Rightarrow> shard \<Rightarrow> shard" where
  "maybe_activate_command_protocol env a =
     (if ra_storage_fault a \<noteq> None \<or> ra_role a \<noteq> Leader \<or> st_command_protocol (ra_state a) \<ge> CURRENT_COMMAND_PROTOCOL then a
      else if \<not> all_peers_support_current_command_protocol a then a
      else if list_ex (\<lambda>e. rg_command e = Some (ActivateCommandProtocol CURRENT_COMMAND_PROTOCOL)) (ra_log a)
      then (if members a = 1 then maybe_advance_commit env a else a)
      else (case checked_add (last_log_index a) 1 of
          None \<Rightarrow> fail_storage ''allocating command-protocol activation index'' a
        | Some index \<Rightarrow>
            let a = append_own env index (Some (ActivateCommandProtocol CURRENT_COMMAND_PROTOCOL)) a;
                (ok, a) = persist_log_append env ''persisting command-protocol activation'' a
            in if \<not> ok then fail_storage ''persisting command-protocol activation'' a
               else if members a = 1 then commit_alone env ''persisting command-protocol activation commit'' index a
               else broadcast_append_entries env a))"

subsection \<open>Elections\<close>

definition solicit_votes :: "u64 \<Rightarrow> bool \<Rightarrow> shard \<Rightarrow> shard" where
  "solicit_votes trm pre_vote a = send (map (\<lambda>peer. SendVote peer \<lparr>vq_term = trm, vq_candidate_id = ra_node_id a,
     vq_last_log_index = last_log_index a, vq_last_log_term = last_log_term a, vq_pre_vote = pre_vote\<rparr>) (ra_peers a)) a"

definition fresh_leader_state :: "u64 \<Rightarrow> string fset \<Rightarrow> nat \<Rightarrow> string list \<Rightarrow> leader_state" where
  "fresh_leader_state nxt voters contact peers = leader_state_default\<lparr>
     ld_next_index := fmap_of_list (map (\<lambda>peer. (peer, nxt)) peers),
     ld_match_index := fmap_of_list (map (\<lambda>peer. (peer, 0)) peers),
     ld_in_flight := fmap_of_list (map (\<lambda>peer. (peer, False)) peers),
     ld_peer_command_protocol := fmap_of_list (map (\<lambda>peer. (peer, LEGACY_COMMAND_PROTOCOL)) peers),
     ld_last_contact := fmap_of_list (map (\<lambda>peer. (peer, contact)) (filter (\<lambda>peer. peer |\<in>| voters) peers))\<rparr>"

definition become_leader :: "raft_env \<Rightarrow> shard \<Rightarrow> shard" where
  "become_leader env a =
     (if ra_storage_fault a \<noteq> None then a
      else
        let a = record_leader_transfer (ra_role a) Leader a;
            a = a\<lparr>ra_role := Leader, ra_leader_id := Some (ra_node_id a), ra_votes := {||},
              ra_leader := Some (fresh_leader_state (last_log_index a + 1) (ra_votes a) (ra_campaign_started_at a) (ra_peers a))\<rparr>;
            a = append_own env (last_log_index a + 1) None a;
            (ok, a) = persist_log_append env ''persisting leader no-op'' a
        in if \<not> ok then fail_storage ''persisting leader no-op'' a
           else
             let a = a\<lparr>ra_heartbeat_deadline := rv_now env + tm_heartbeat (ra_timing a)\<rparr>
             in broadcast_append_entries env (maybe_advance_commit env a))"

definition start_election :: "raft_env \<Rightarrow> shard \<Rightarrow> shard" where
  "start_election env a =
     (if ra_storage_fault a \<noteq> None then a
      else
        let a = a\<lparr>ra_current_term := ra_current_term a + 1, ra_campaign_started_at := rv_now env, ra_role := Candidate,
              ra_voted_for := Some (ra_node_id a), ra_leader_id := None, ra_votes := {|ra_node_id a|}\<rparr>;
            a = reset_election_deadline env a;
            (ok, a) = persist_hard_state env ''persisting election term and self-vote'' a
        in if \<not> ok then fail_storage ''persisting election term and self-vote'' a
           else if fcard (ra_votes a) \<ge> majority a then become_leader env a
           else solicit_votes (ra_current_term a) False a)"

definition start_pre_election :: "raft_env \<Rightarrow> shard \<Rightarrow> shard" where
  "start_pre_election env a =
     (if ra_storage_fault a \<noteq> None then a
      else
        let a = reset_election_deadline env (a\<lparr>ra_role := Follower, ra_votes := {||}\<rparr>);
            would_be_term = ra_current_term a + 1;
            a = a\<lparr>ra_pre_vote_term := would_be_term, ra_pre_votes := {|ra_node_id a|}\<rparr>
        in if fcard (ra_pre_votes a) \<ge> majority a then start_election env a else solicit_votes would_be_term True a)"

definition handle_vote_reply :: "raft_env \<Rightarrow> string \<Rightarrow> bool \<Rightarrow> vote_resp \<Rightarrow> shard \<Rightarrow> shard" where
  "handle_vote_reply env sender pre_vote resp a =
     (if ra_storage_fault a \<noteq> None then a
      else if vr_term resp > ra_current_term a then step_down env (vr_term resp) None a
      else if pre_vote then
        (if ra_pre_vote_term a \<noteq> ra_current_term a + 1 then a
         else if vr_granted resp then
           let a = a\<lparr>ra_pre_votes := finsert sender (ra_pre_votes a)\<rparr>
           in if fcard (ra_pre_votes a) \<ge> majority a then start_election env a else a
         else a)
      else if ra_role a \<noteq> Candidate \<or> vr_term resp \<noteq> ra_current_term a then a
      else if vr_granted resp then
        let a = a\<lparr>ra_votes := finsert sender (ra_votes a)\<rparr>
        in if fcard (ra_votes a) \<ge> majority a then become_leader env a else a
      else a)"

subsection \<open>The leader lease\<close>

definition contact_is_fresh :: "nat option \<Rightarrow> nat \<Rightarrow> bool" where
  "contact_is_fresh age window = (case age of None \<Rightarrow> False | Some age \<Rightarrow> age < window)"

definition advance_contact :: "nat option \<Rightarrow> nat \<Rightarrow> nat" where
  "advance_contact previous sent_at = (case previous of None \<Rightarrow> sent_at | Some p \<Rightarrow> max p sent_at)"

definition leader_lease_held :: "raft_env \<Rightarrow> shard \<Rightarrow> bool" where
  "leader_lease_held env a =
     (if \<not> tm_check_quorum (ra_timing a) \<or> members a = 1 then True
      else (case ra_leader a of
          None \<Rightarrow> False
        | Some ls \<Rightarrow>
            let fresh_peers = length (filter (\<lambda>peer. contact_is_fresh
                  (case fmlookup (ld_last_contact ls) peer of None \<Rightarrow> None
                   | Some sent \<Rightarrow> if sent \<le> rv_now env then Some (rv_now env - sent) else None)
                  (from_millis (tm_election_min_ms (ra_timing a)))) (ra_peers a))
            in 1 + fresh_peers \<ge> majority a))"

definition relinquish_no_quorum :: "raft_env \<Rightarrow> shard \<Rightarrow> shard" where
  "relinquish_no_quorum env a = step_down env (ra_current_term a) None a"

definition on_tick :: "raft_env \<Rightarrow> shard \<Rightarrow> shard" where
  "on_tick env a =
     (if ra_storage_fault a \<noteq> None then a
      else if ra_role a = Leader then
        let a = maybe_activate_command_protocol env a
        in if ra_storage_fault a \<noteq> None then a
           else
             let a = (if rv_now env \<ge> ra_heartbeat_deadline a
                   then broadcast_append_entries env (a\<lparr>ra_heartbeat_deadline := rv_now env + tm_heartbeat (ra_timing a)\<rparr>)
                   else a)
             in if tm_check_quorum (ra_timing a) \<and> members a > 1 \<and> \<not> leader_lease_held env a
                then relinquish_no_quorum env a else a
      else if rv_now env \<ge> ra_election_deadline a then
        (if tm_pre_vote (ra_timing a) \<and> members a > 1 then start_pre_election env a else start_election env a)
      else a)"

subsection \<open>Replies to the leader\<close>

datatype callback_admission = HigherTerm u64 | Current | Ignored

definition classify_callback ::
  "u64 \<Rightarrow> request_stamp option \<Rightarrow> request_stamp \<Rightarrow> u64 option \<Rightarrow> nat \<Rightarrow> callback_admission" where
  "classify_callback current_term active request response_term now =
     (if (case response_term of None \<Rightarrow> False | Some t \<Rightarrow> t > current_term) then HigherTerm (the response_term)
      else if active \<noteq> Some request \<or> rq_term request \<noteq> current_term \<or> rq_sent_at request > now then Ignored
      else Current)"

definition acknowledged_prefix :: "u64 \<Rightarrow> u64 \<Rightarrow> u64 \<Rightarrow> (u64 \<times> u64) option" where
  "acknowledged_prefix known requested reported =
     (if reported < requested then None
      else (let matched = max known requested in Some (matched, sat_add matched 1)))"

datatype reply_admission = IgnoreReply | ObserveHigherTerm | Deliver

definition admit_replication_reply :: "u64 \<Rightarrow> u64 \<Rightarrow> u64 \<Rightarrow> bool \<Rightarrow> u64 \<Rightarrow> reply_admission" where
  "admit_replication_reply request_term requested_index response_term success reported_index =
     (if response_term < request_term then IgnoreReply
      else if response_term > request_term then ObserveHigherTerm
      else if success \<and> reported_index < requested_index then IgnoreReply
      else Deliver)"

text \<open>What the transport hands to the actor of a peer's answer; \<open>None\<close> is no answer.\<close>

definition admit_append_reply :: "append_req \<Rightarrow> append_resp \<Rightarrow> append_resp option" where
  "admit_append_reply req resp = (case checked_add (aq_prev_log_index req) (word_of_nat (length (aq_entries req))) of
       None \<Rightarrow> None
     | Some requested_index \<Rightarrow>
         (case admit_replication_reply (aq_term req) requested_index (as_term resp) (as_success resp) (as_match_index resp) of
            IgnoreReply \<Rightarrow> None
          | ObserveHigherTerm \<Rightarrow> Some (resp\<lparr>as_success := False, as_command_protocol := LEGACY_COMMAND_PROTOCOL\<rparr>)
          | Deliver \<Rightarrow> Some resp))"

definition admit_snapshot_reply :: "install_req \<Rightarrow> install_resp \<Rightarrow> install_resp option" where
  "admit_snapshot_reply req resp =
     (case admit_replication_reply (iq_term req) (iq_last_included_index req) (is_term resp) (is_success resp)
        (is_match_index resp) of
        IgnoreReply \<Rightarrow> None
      | ObserveHigherTerm \<Rightarrow> Some (resp\<lparr>is_success := False\<rparr>)
      | Deliver \<Rightarrow> Some resp)"

definition accept_replication_callback ::
  "raft_env \<Rightarrow> string \<Rightarrow> request_stamp \<Rightarrow> u64 option \<Rightarrow> shard \<Rightarrow> bool \<times> shard" where
  "accept_replication_callback env sender request response_term a =
     (if ra_storage_fault a \<noteq> None \<or> \<not> list_ex (\<lambda>peer. peer = sender) (ra_peers a) then (False, a)
      else
        let active = (if ra_role a = Leader
              then (case ra_leader a of None \<Rightarrow> None | Some ls \<Rightarrow> fmlookup (ld_pending_requests ls) sender) else None)
        in case classify_callback (ra_current_term a) active request response_term (rv_now env) of
             HigherTerm trm \<Rightarrow> (False, step_down env trm None a)
           | Ignored \<Rightarrow> (False, a)
           | Current \<Rightarrow> (True, a\<lparr>ra_leader := map_option (\<lambda>ls.
               ls\<lparr>ld_pending_requests := fmdrop sender (ld_pending_requests ls)\<rparr>) (ra_leader a)\<rparr>))"

definition refresh_follower_lag_metric :: "shard \<Rightarrow> shard" where
  "refresh_follower_lag_metric a = a\<lparr>ra_metrics := (ra_metrics a)\<lparr>mt_follower_lag_max := (case ra_leader a of
       None \<Rightarrow> 0
     | Some ls \<Rightarrow> fold max (map (\<lambda>peer. sat_sub (last_log_index a) (lookup_or 0 (ld_match_index ls) peer)) (ra_peers a)) 0)\<rparr>\<rparr>"

text \<open>The bookkeeping of one append reply in the leader's term: whether it acknowledged the batch, whether there is
  more to send, and the new state.\<close>

definition note_append_reply ::
  "u64 \<Rightarrow> nat \<Rightarrow> string \<Rightarrow> u64 \<Rightarrow> append_resp \<Rightarrow> leader_state \<Rightarrow> bool \<times> leader_state" where
  "note_append_reply leader_last_log_index sent_at sender up_to resp ls =
     (let ls = ls\<lparr>ld_last_contact := fmupd sender (advance_contact (fmlookup (ld_last_contact ls) sender) sent_at)
            (ld_last_contact ls)\<rparr>
      in if as_success resp \<and> as_match_index resp \<ge> up_to
         then
           let matched = max (lookup_or 0 (ld_match_index ls) sender) up_to
           in (matched < leader_last_log_index,
               ls\<lparr>ld_match_index := fmupd sender matched (ld_match_index ls),
                 ld_next_index := fmupd sender (sat_add matched 1) (ld_next_index ls)\<rparr>)
         else
           let cur = lookup_or 1 (ld_next_index ls) sender;
               backoff = min (sat_add (as_match_index resp) 1) (sat_sub cur 1);
               acknowledged_next = sat_add (lookup_or 0 (ld_match_index ls) sender) 1
           in (False, ls\<lparr>ld_next_index := fmupd sender (max backoff acknowledged_next) (ld_next_index ls)\<rparr>))"

definition handle_append_reply ::
  "raft_env \<Rightarrow> nat \<Rightarrow> string \<Rightarrow> u64 \<Rightarrow> u64 option \<Rightarrow> append_resp option \<Rightarrow> shard \<Rightarrow> shard" where
  "handle_append_reply env sent_at sender up_to rtt_ms resp a =
     (if ra_storage_fault a \<noteq> None then a
      else
        let a = a\<lparr>ra_leader := map_option (\<lambda>ls. ls\<lparr>ld_in_flight := fmupd sender False (ld_in_flight ls)\<rparr>) (ra_leader a)\<rparr>;
            a = (if rtt_ms \<noteq> None then a\<lparr>ra_metrics := (ra_metrics a)\<lparr>mt_append_rtt_ms_last := rtt_ms\<rparr>\<rparr> else a)
        in case resp of
             None \<Rightarrow> a
           | Some resp \<Rightarrow>
               if as_term resp > ra_current_term a then step_down env (as_term resp) None a
               else if ra_role a \<noteq> Leader \<or> as_term resp \<noteq> ra_current_term a then a
               else
                 let a = a\<lparr>ra_leader := map_option (\<lambda>ls. ls\<lparr>ld_peer_command_protocol :=
                       fmupd sender (as_command_protocol resp) (ld_peer_command_protocol ls)\<rparr>) (ra_leader a)\<rparr>;
                     successful = (as_success resp \<and> as_match_index resp \<ge> up_to);
                     (again, a) = (case ra_leader a of None \<Rightarrow> (False, a)
                       | Some ls \<Rightarrow> (case note_append_reply (last_log_index a) sent_at sender up_to resp ls of
                             (again, ls) \<Rightarrow> (again, a\<lparr>ra_leader := Some ls\<rparr>)));
                     a = (if successful then maybe_advance_commit env a else a);
                     a = maybe_activate_command_protocol env a;
                     a = refresh_follower_lag_metric a
                 in if again then send_append_to env sender a else a)"

definition handle_snapshot_reply ::
  "raft_env \<Rightarrow> nat \<Rightarrow> string \<Rightarrow> u64 \<Rightarrow> install_resp option \<Rightarrow> shard \<Rightarrow> shard" where
  "handle_snapshot_reply env sent_at sender up_to resp a =
     (if ra_storage_fault a \<noteq> None then a
      else
        let a = a\<lparr>ra_leader := map_option (\<lambda>ls. ls\<lparr>ld_in_flight := fmupd sender False (ld_in_flight ls)\<rparr>) (ra_leader a)\<rparr>
        in case resp of
             None \<Rightarrow> a
           | Some resp \<Rightarrow>
               if is_term resp > ra_current_term a then step_down env (is_term resp) None a
               else if ra_role a \<noteq> Leader \<or> is_term resp \<noteq> ra_current_term a then a
               else if \<not> is_success resp then a
               else (case ra_leader a of
                   None \<Rightarrow> send_append_to env sender a
                 | Some ls \<Rightarrow>
                     (case acknowledged_prefix (lookup_or 0 (ld_match_index ls) sender) up_to (is_match_index resp) of
                        None \<Rightarrow> a
                      | Some (matched, nxt) \<Rightarrow> send_append_to env sender (a\<lparr>ra_leader := Some (ls\<lparr>
                          ld_match_index := fmupd sender matched (ld_match_index ls),
                          ld_next_index := fmupd sender nxt (ld_next_index ls),
                          ld_last_contact := fmupd sender (advance_contact (fmlookup (ld_last_contact ls) sender) sent_at)
                            (ld_last_contact ls)\<rparr>)\<rparr>))))"

subsection \<open>Log replication, follower side\<close>

definition append_answer :: "bool \<Rightarrow> u64 \<Rightarrow> shard \<Rightarrow> append_resp \<times> shard" where
  "append_answer success match_index a = (\<lparr>as_term = ra_current_term a, as_success = success,
     as_match_index = match_index, as_command_protocol = CURRENT_COMMAND_PROTOCOL\<rparr>, a)"

text \<open>The payload check: consecutive indexes after \<open>prev_log_index\<close>, terms between 1 and the leader's.\<close>

fun well_formed :: "u64 \<Rightarrow> u64 \<Rightarrow> raft_entry list \<Rightarrow> bool" where
  "well_formed trm expected [] = True"
| "well_formed trm expected (e # es) =
     (case checked_add expected 1 of None \<Rightarrow> False
      | Some nxt \<Rightarrow> rg_index e = nxt \<and> rg_term e \<noteq> 0 \<and> rg_term e \<le> trm \<and> well_formed trm nxt es)"

datatype log_change = Unchanged | Grew | Truncated

text \<open>The append loop on the log. \<open>None\<close> as the first component is the early return on a conflict with a committed
  entry; the entries appended before it stay in memory.\<close>

fun append_loop :: "u64 \<Rightarrow> u64 \<Rightarrow> u64 \<Rightarrow> raft_entry list \<Rightarrow> log_change \<Rightarrow> raft_entry list \<Rightarrow> log_change option \<times> raft_entry list" where
  "append_loop snapshot_index commit_index idx [] ch lg = (Some ch, lg)"
| "append_loop snapshot_index commit_index idx (e # es) ch lg =
     (let idx = idx + 1
      in if idx \<le> snapshot_index then append_loop snapshot_index commit_index idx es ch lg
         else
           let offset = unat (idx - snapshot_index - 1)
           in if offset < length lg
              then (if rg_term (lg ! offset) = rg_term e then append_loop snapshot_index commit_index idx es ch lg
                else if idx \<le> commit_index then (None, lg)
                else append_loop snapshot_index commit_index idx es Truncated (take offset lg @ [e]))
              else append_loop snapshot_index commit_index idx es (if ch = Truncated then Truncated else Grew) (lg @ [e]))"

definition persist_change :: "raft_env \<Rightarrow> log_change \<Rightarrow> shard \<Rightarrow> bool \<times> shard" where
  "persist_change env ch a = (case ch of Unchanged \<Rightarrow> (True, a)
     | Grew \<Rightarrow> persist_log_append env ''persisting follower log update'' a
     | Truncated \<Rightarrow> persist_log_rewrite env ''persisting follower log update'' a)"

text \<open>\<open>follow_commit\<close>: the end of \<open>handle_append_entries\<close>, once the log is durable.\<close>

definition follow_commit :: "raft_env \<Rightarrow> u64 \<Rightarrow> shard \<Rightarrow> append_resp \<times> shard" where
  "follow_commit env leader_commit a =
     (let n = min leader_commit (last_log_index a)
      in if leader_commit > ra_commit_index a \<and> n > ra_commit_index a
         then
           let (ok, a) = persist_hard_state_at env ''persisting follower commit index'' n a
           in if \<not> ok
              then (let a = fail_storage ''persisting follower commit index'' a
                    in append_answer False (ra_commit_index a) a)
              else
                let a = apply_committed env (a\<lparr>ra_commit_index := n\<rparr>)
                in if ra_storage_fault a \<noteq> None then append_answer False (ra_commit_index a) a
                   else append_answer True (last_log_index a) a
         else append_answer True (last_log_index a) a)"

definition store_entries :: "raft_env \<Rightarrow> append_req \<Rightarrow> shard \<Rightarrow> append_resp \<times> shard" where
  "store_entries env req a =
     (case append_loop (ra_snapshot_index a) (ra_commit_index a) (aq_prev_log_index req) (aq_entries req) Unchanged (ra_log a) of
        (None, lg) \<Rightarrow> append_answer False (ra_commit_index a) (a\<lparr>ra_log := lg\<rparr>)
      | (Some ch, lg) \<Rightarrow>
          let (ok, a) = persist_change env ch (a\<lparr>ra_log := lg\<rparr>)
          in if \<not> ok
             then (let a = fail_storage ''persisting follower log update'' a
                   in append_answer False (ra_commit_index a) a)
             else follow_commit env (aq_leader_commit req) a)"

definition handle_append_entries :: "raft_env \<Rightarrow> append_req \<Rightarrow> shard \<Rightarrow> append_resp \<times> shard" where
  "handle_append_entries env req a =
     (if ra_storage_fault a \<noteq> None then append_answer False (ra_commit_index a) a
      else if aq_term req < ra_current_term a then append_answer False (last_log_index a) a
      else
        let a = (if aq_term req > ra_current_term a then step_down env (aq_term req) None a else a)
        in if ra_storage_fault a \<noteq> None then append_answer False (ra_commit_index a) a
           else if aq_prev_log_term req > aq_term req then append_answer False (last_log_index a) a
           else if \<not> well_formed (aq_term req) (aq_prev_log_index req) (aq_entries req)
           then append_answer False (last_log_index a) a
           else
             let a = become_follower_of env (aq_leader_id req) a
             in if aq_prev_log_index req > 0 \<and> term_at (aq_prev_log_index req) a \<noteq> aq_prev_log_term req
                then append_answer False (min (last_log_index a) (sat_sub (aq_prev_log_index req) 1)) a
                else store_entries env req a)"

definition install_answer :: "bool \<Rightarrow> u64 \<Rightarrow> shard \<Rightarrow> install_resp \<times> shard" where
  "install_answer success match_index a =
     (\<lparr>is_term = ra_current_term a, is_success = success, is_match_index = match_index\<rparr>, a)"

text \<open>\<open>install_state\<close>: the end of \<open>handle_install_snapshot\<close>, once the snapshot is accepted.\<close>

definition install_state :: "raft_env \<Rightarrow> install_req \<Rightarrow> store \<Rightarrow> shard \<Rightarrow> install_resp \<times> shard" where
  "install_state env req restored a =
     (let remaining = (if term_at (iq_last_included_index req) a = iq_last_included_term req
            then filter (\<lambda>e. rg_index e > iq_last_included_index req) (ra_log a) else []);
          (ok, a) = persist_snapshot env ''persisting installed snapshot''
            \<lparr>ps_last_included_index = iq_last_included_index req, ps_last_included_term = iq_last_included_term req,
             ps_state = iq_state req\<rparr> remaining a
      in if \<not> ok
         then (let a = fail_storage ''persisting installed snapshot'' a in install_answer False (ra_commit_index a) a)
         else
           let n = max (ra_commit_index a) (iq_last_included_index req);
               (ok, a) = persist_hard_state_at env ''persisting installed snapshot commit index'' n a
           in if \<not> ok
              then (let a = fail_storage ''persisting installed snapshot commit index'' a
                    in install_answer False (ra_commit_index a) a)
              else install_answer True (iq_last_included_index req)
                (a\<lparr>ra_state := restored, ra_snapshot_index := iq_last_included_index req,
                   ra_snapshot_term := iq_last_included_term req, ra_snapshot_state := iq_state req,
                   ra_log := remaining, ra_commit_index := n, ra_last_applied := iq_last_included_index req\<rparr>))"

definition handle_install_snapshot :: "raft_env \<Rightarrow> install_req \<Rightarrow> shard \<Rightarrow> install_resp \<times> shard" where
  "handle_install_snapshot env req a =
     (if ra_storage_fault a \<noteq> None then install_answer False (ra_commit_index a) a
      else if iq_term req < ra_current_term a then install_answer False (last_log_index a) a
      else
        let a = (if iq_term req > ra_current_term a then step_down env (iq_term req) None a else a)
        in if ra_storage_fault a \<noteq> None then install_answer False (ra_commit_index a) a
           else if (iq_last_included_index req = 0) \<noteq> (iq_last_included_term req = 0) \<or>
             iq_last_included_term req > iq_term req then install_answer False (last_log_index a) a
           else
             let a = become_follower_of env (iq_leader_id req) a
             in if iq_last_included_index req \<le> ra_snapshot_index a then install_answer True (ra_snapshot_index a) a
                else if iq_last_included_index req \<le> ra_commit_index a then install_answer True (last_log_index a) a
                else (case restore (rv_delim env) (rv_from_slice env) (iq_state req) of
                    Inl _ \<Rightarrow> install_answer False (last_log_index a) a
                  | Inr restored \<Rightarrow> install_state env req restored a))"

subsection \<open>Client proposals\<close>

text \<open>The first component is the answer the client gets at once; \<open>None\<close> leaves it waiting for the entry to commit.\<close>

definition on_propose :: "raft_env \<Rightarrow> command \<Rightarrow> shard \<Rightarrow> propose_error option \<times> shard" where
  "on_propose env c a =
     (if ra_storage_fault a \<noteq> None then (Some (Unavailable (ra_shard_id a)), a)
      else if ra_role a \<noteq> Leader then (Some (NotLeader (ra_shard_id a) (ra_leader_id a)), a)
      else if is_activation c then (Some (Unavailable (ra_shard_id a)), a)
      else
        let a = maybe_activate_command_protocol env a
        in if ra_storage_fault a \<noteq> None then (Some (Unavailable (ra_shard_id a)), a)
           else (case for_active_protocol c (st_command_protocol (ra_state a)) of
               Inl _ \<Rightarrow> (Some (Unavailable (ra_shard_id a)), a)
             | Inr c \<Rightarrow> (case checked_add (last_log_index a) 1 of
                   None \<Rightarrow> (Some (Unavailable (ra_shard_id a)), a)
                 | Some index \<Rightarrow>
                     let a = append_own env index (Some c) a;
                         (ok, a) = persist_log_append env ''persisting proposed log entry'' a
                     in if \<not> ok
                        then (let a = fail_storage ''persisting proposed log entry'' a
                              in (Some (Unavailable (ra_shard_id a)), a))
                        else
                          let a = a\<lparr>ra_pending := fmupd index (rv_now env) (ra_pending a)\<rparr>
                          in (None, if members a = 1 then commit_alone env ''persisting single-member commit index'' index a
                                    else broadcast_append_entries env a))))"

subsection \<open>Starting an actor and dispatching messages\<close>

datatype boot_error = LogIndexOverflow | LogIndexMismatch u64 u64 | CommitBeyondTail u64 u64 | SnapshotRejected restore_failure

fun boot_log_error :: "u64 \<Rightarrow> nat \<Rightarrow> raft_entry list \<Rightarrow> boot_error option" where
  "boot_log_error snapshot_index offset [] = None"
| "boot_log_error snapshot_index offset (e # es) =
     (case checked_add snapshot_index (word_of_nat offset) of
        None \<Rightarrow> Some LogIndexOverflow
      | Some index \<Rightarrow> (case checked_add index 1 of
            None \<Rightarrow> Some LogIndexOverflow
          | Some expected \<Rightarrow> if rg_index e \<noteq> expected then Some (LogIndexMismatch expected (rg_index e))
              else boot_log_error snapshot_index (offset + 1) es))"

text \<open>\<open>ShardActor::new\<close>. \<open>now_nanos\<close> seeds the jitter.\<close>

definition actor_new ::
  "raft_env \<Rightarrow> u64 \<Rightarrow> u32 \<Rightarrow> string \<Rightarrow> string list \<Rightarrow> raft_timing \<Rightarrow> durable option \<Rightarrow> recovered \<Rightarrow> boot_error + shard" where
  "actor_new env now_nanos shard_id node_id peers timing disk r =
     (let single = (length peers + 1 = 1);
          snapshot_index = snapshot_index_of (rc_snapshot r);
          tail = durable_tail (rc_snapshot r) (rc_log r)
      in case boot_log_error snapshot_index 0 (rc_log r) of
           Some err \<Rightarrow> Inl err
         | None \<Rightarrow>
             if rc_commit_index r > tail then Inl (CommitBeyondTail (rc_commit_index r) tail)
             else (case (case rc_snapshot r of None \<Rightarrow> Inr store_default
                  | Some snap \<Rightarrow> restore (rv_delim env) (rv_from_slice env) (ps_state snap)) of
                 Inl err \<Rightarrow> Inl (SnapshotRejected err)
               | Inr state \<Rightarrow>
                   let a = \<lparr>ra_shard_id = shard_id, ra_node_id = node_id, ra_peers = peers,
                         ra_role = (if single then Leader else Follower), ra_current_term = max (rc_current_term r) 1,
                         ra_voted_for = rc_voted_for r, ra_leader_id = (if single then Some node_id else None),
                         ra_snapshot_index = snapshot_index, ra_snapshot_term = snapshot_term_of (rc_snapshot r),
                         ra_snapshot_state = (case rc_snapshot r of None \<Rightarrow> [] | Some snap \<Rightarrow> ps_state snap),
                         ra_log = rc_log r, ra_commit_index = max (rc_commit_index r) snapshot_index,
                         ra_last_applied = snapshot_index, ra_disk = disk, ra_storage_fault = None, ra_votes = {||},
                         ra_campaign_started_at = rv_now env, ra_pre_votes = {||}, ra_pre_vote_term = 0,
                         ra_leader = (if single then Some leader_state_default else None), ra_timing = timing,
                         ra_election_deadline = rv_now env, ra_heartbeat_deadline = rv_now env,
                         ra_last_leader_contact = rv_now env, ra_rng = rng_seeded now_nanos node_id shard_id,
                         ra_pending = fmempty, ra_state = state, ra_metrics = shard_metrics_default, ra_outbox = []\<rparr>;
                       a = reset_election_deadline env a
                   in Inr (if ra_commit_index a > 0 then apply_committed env a else a)))"

definition quarantined ::
  "raft_env \<Rightarrow> u64 \<Rightarrow> u32 \<Rightarrow> string \<Rightarrow> string list \<Rightarrow> raft_timing \<Rightarrow> string \<Rightarrow> shard" where
  "quarantined env now_nanos shard_id node_id peers timing reason =
     reset_election_deadline env \<lparr>ra_shard_id = shard_id, ra_node_id = node_id, ra_peers = peers, ra_role = Follower,
       ra_current_term = 1, ra_voted_for = None, ra_leader_id = None, ra_snapshot_index = 0, ra_snapshot_term = 0,
       ra_snapshot_state = [], ra_log = [], ra_commit_index = 0, ra_last_applied = 0, ra_disk = None,
       ra_storage_fault = Some reason, ra_votes = {||}, ra_campaign_started_at = rv_now env, ra_pre_votes = {||},
       ra_pre_vote_term = 0, ra_leader = None, ra_timing = timing, ra_election_deadline = rv_now env,
       ra_heartbeat_deadline = rv_now env, ra_last_leader_contact = rv_now env,
       ra_rng = rng_seeded now_nanos node_id shard_id, ra_pending = fmempty, ra_state = store_default,
       ra_metrics = shard_metrics_default, ra_outbox = []\<rparr>"

text \<open>The messages that change an actor, and the clock tick. \<open>Query\<close>, \<open>QueryLocal\<close>, \<open>Subscribe\<close> and \<open>Status\<close> only read.\<close>

datatype shard_msg =
    Propose command
  | AppendEntries append_req
  | InstallSnapshot install_req
  | RequestVote vote_req
  | VoteReply string bool vote_resp
  | AppendReply string request_stamp u64 "u64 option" "append_resp option"
  | SnapshotReply string request_stamp u64 "install_resp option"
  | Tick

datatype shard_answer =
    Proposed "propose_error option" | Appended append_resp | Installed install_resp | Voted vote_resp | NoAnswer

fun handle :: "raft_env \<Rightarrow> shard_msg \<Rightarrow> shard \<Rightarrow> shard_answer \<times> shard" where
  "handle env (Propose c) a = map_prod Proposed id (on_propose env c a)"
| "handle env (AppendEntries req) a = map_prod Appended id (handle_append_entries env req a)"
| "handle env (InstallSnapshot req) a = map_prod Installed id (handle_install_snapshot env req a)"
| "handle env (RequestVote req) a = map_prod Voted id (handle_request_vote env req a)"
| "handle env (VoteReply sender pre_vote resp) a = (NoAnswer, handle_vote_reply env sender pre_vote resp a)"
| "handle env (AppendReply sender request up_to rtt_ms resp) a =
     (case accept_replication_callback env sender request (map_option as_term resp) a of
        (ok, a) \<Rightarrow> (NoAnswer, if ok then handle_append_reply env (rq_sent_at request) sender up_to rtt_ms resp a else a))"
| "handle env (SnapshotReply sender request up_to resp) a =
     (case accept_replication_callback env sender request (map_option is_term resp) a of
        (ok, a) \<Rightarrow> (NoAnswer, if ok then handle_snapshot_reply env (rq_sent_at request) sender up_to resp a else a))"
| "handle env Tick a = (NoAnswer, on_tick env a)"

end
