(* ===== verification/Raft_Core.thy ===== *)
theory Raft_Core
  imports Raft
begin

section \<open>The election core of an actor\<close>

text \<open>
  What an election depends on is the core of an actor: its members, its hard state in memory and on disk, its role and
  the votes it has counted. Every handler is \<open>steady\<close> on the core: the hard state on disk never goes back in term and
  never changes a vote within a term, and the node stays in its role or becomes a follower. The handlers that start or
  win an election are the exception and are described apart.
\<close>

record core =
  co_id :: string
  co_peers :: "string list"
  co_meta :: "meta option"
  co_term :: u64
  co_vote :: "string option"
  co_role :: role
  co_votes :: "string fset"

definition core_of :: "shard \<Rightarrow> core" where
  "core_of a = \<lparr>co_id = ra_node_id a, co_peers = ra_peers a, co_meta = map_option du_meta (ra_disk a),
     co_term = ra_current_term a, co_vote = ra_voted_for a, co_role = ra_role a, co_votes = ra_votes a\<rparr>"

definition ahead :: "core \<Rightarrow> bool" where
  "ahead c \<longleftrightarrow> (case co_meta c of None \<Rightarrow> False | Some m \<Rightarrow> me_current_term m \<le> co_term c \<and>
     (me_current_term m = co_term c \<longrightarrow> (\<forall>v. me_voted_for m = Some v \<longrightarrow> co_vote c = Some v)))"

definition keeps_votes :: "meta \<Rightarrow> meta \<Rightarrow> bool" where
  "keeps_votes m m' \<longleftrightarrow> me_current_term m \<le> me_current_term m' \<and>
     (me_current_term m' = me_current_term m \<longrightarrow> (\<forall>v. me_voted_for m = Some v \<longrightarrow> me_voted_for m' = Some v))"

definition sound :: "core \<Rightarrow> core \<Rightarrow> bool" where
  "sound c c' \<longleftrightarrow> co_id c' = co_id c \<and> co_peers c' = co_peers c \<and>
     (ahead c \<longrightarrow> ahead c' \<and> keeps_votes (the (co_meta c)) (the (co_meta c')))"

definition steady :: "core \<Rightarrow> core \<Rightarrow> bool" where
  "steady c c' \<longleftrightarrow> sound c c' \<and> (co_role c' = Follower \<or>
     co_role c' = co_role c \<and> co_term c' = co_term c \<and> co_votes c' = co_votes c)"

definition unseat :: "core \<Rightarrow> core" where
  "unseat c = c\<lparr>co_role := Follower, co_votes := {||}\<rparr>"

lemma keeps_votes_refl [simp]: "keeps_votes m m"
  by (simp add: keeps_votes_def)

lemma keeps_votes_trans: "keeps_votes m m1 \<Longrightarrow> keeps_votes m1 m2 \<Longrightarrow> keeps_votes m m2"
  by (auto simp: keeps_votes_def)

lemma sound_refl [simp]: "sound c c"
  by (simp add: sound_def)

lemma sound_trans: "sound c d \<Longrightarrow> sound d e \<Longrightarrow> sound c e"
  unfolding sound_def by (metis keeps_votes_trans)

lemma steady_refl [simp]: "steady c c"
  by (simp add: steady_def)

lemma steady_trans [trans]: "steady c d \<Longrightarrow> steady d e \<Longrightarrow> steady c e"
  unfolding steady_def by (metis sound_trans)

lemma unseat_simps [simp]: "co_role (unseat c) = Follower" "co_id (unseat c) = co_id c" "co_peers (unseat c) = co_peers c"
  "co_meta (unseat c) = co_meta c" "co_term (unseat c) = co_term c" "co_vote (unseat c) = co_vote c"
  by (simp_all add: unseat_def)

lemma steady_unseat [simp]: "steady c (unseat c)"
  by (simp add: steady_def sound_def ahead_def split: option.split)

lemma steady_then_unseat: "steady c d \<Longrightarrow> steady c (unseat d)"
  by (erule steady_trans) simp

subsection \<open>The core after each helper\<close>

named_theorems cores \<open>the core of an actor after a helper\<close>

lemma core_sel [simp]: "co_id (core_of a) = ra_node_id a" "co_peers (core_of a) = ra_peers a"
  "co_meta (core_of a) = map_option du_meta (ra_disk a)" "co_term (core_of a) = ra_current_term a"
  "co_vote (core_of a) = ra_voted_for a" "co_role (core_of a) = ra_role a" "co_votes (core_of a) = ra_votes a"
  by (simp_all add: core_of_def)

lemma core_frame [simp]:
  "core_of (a\<lparr>ra_shard_id := x1\<rparr>) = core_of a" "core_of (a\<lparr>ra_leader_id := x2\<rparr>) = core_of a"
  "core_of (a\<lparr>ra_snapshot_index := x3\<rparr>) = core_of a" "core_of (a\<lparr>ra_snapshot_term := x4\<rparr>) = core_of a"
  "core_of (a\<lparr>ra_snapshot_state := x5\<rparr>) = core_of a" "core_of (a\<lparr>ra_log := x6\<rparr>) = core_of a"
  "core_of (a\<lparr>ra_commit_index := x7\<rparr>) = core_of a" "core_of (a\<lparr>ra_last_applied := x8\<rparr>) = core_of a"
  "core_of (a\<lparr>ra_storage_fault := x9\<rparr>) = core_of a" "core_of (a\<lparr>ra_campaign_started_at := x10\<rparr>) = core_of a"
  "core_of (a\<lparr>ra_pre_votes := x11\<rparr>) = core_of a" "core_of (a\<lparr>ra_pre_vote_term := x12\<rparr>) = core_of a"
  "core_of (a\<lparr>ra_leader := x13\<rparr>) = core_of a" "core_of (a\<lparr>ra_timing := x14\<rparr>) = core_of a"
  "core_of (a\<lparr>ra_election_deadline := x15\<rparr>) = core_of a" "core_of (a\<lparr>ra_heartbeat_deadline := x16\<rparr>) = core_of a"
  "core_of (a\<lparr>ra_last_leader_contact := x17\<rparr>) = core_of a" "core_of (a\<lparr>ra_rng := x18\<rparr>) = core_of a"
  "core_of (a\<lparr>ra_pending := x19\<rparr>) = core_of a" "core_of (a\<lparr>ra_state := x20\<rparr>) = core_of a"
  "core_of (a\<lparr>ra_metrics := x21\<rparr>) = core_of a" "core_of (a\<lparr>ra_outbox := x22\<rparr>) = core_of a"
  by (simp_all add: core_of_def)

lemma core_send [cores, simp]: "core_of (send m a) = core_of a"
  by (simp add: core_of_def send_def)

lemma core_transfer [cores, simp]: "core_of (record_leader_transfer r r' a) = core_of a"
  by (simp add: core_of_def record_leader_transfer_def)

lemma core_fail_pending [cores, simp]: "core_of (fail_pending a) = core_of a"
  "core_of (fail_pending_unavailable a) = core_of a"
  by (simp_all add: core_of_def fail_pending_def fail_pending_unavailable_def send_def)

lemma core_deadline [cores, simp]: "core_of (reset_election_deadline env a) = core_of a"
  by (simp add: core_of_def reset_election_deadline_def split: prod.split)

lemma core_fail_storage [cores, simp]: "core_of (fail_storage operation a) = unseat (core_of a)"
  by (simp add: fail_storage_def Let_def) (simp add: core_of_def unseat_def record_leader_transfer_def)

lemma core_publish [cores, simp]: "core_of (publish_change c r n a) = core_of a"
  by (simp add: publish_change_def split: option.split)

lemma core_fail_completed [cores, simp]: "core_of (fail_completed f a) = core_of a"
  by (simp add: fail_completed_def)

lemma core_fold: "(\<And>x a. core_of (g x a) = core_of a) \<Longrightarrow> core_of (fold g xs a) = core_of a"
  by (induction xs arbitrary: a) simp_all

lemma core_finish_completed [cores, simp]: "core_of (finish_completed env f a) = core_of a"
  unfolding finish_completed_def by (rule core_fold) (simp split: prod.split)

lemma core_log_append [cores, simp]: "core_of (snd (persist_log_append env operation a)) = core_of a"
  by (simp add: core_of_def persist_log_append_def Let_def split: option.split write_result.split)

lemma meta_rewrite [simp]: "du_meta (snd (disk_rewrite w lg d)) = du_meta d"
  by (simp add: disk_rewrite_def split: write_result.split)

lemma core_log_rewrite [cores, simp]: "core_of (snd (persist_log_rewrite env operation a)) = core_of a"
  by (simp add: core_of_def persist_log_rewrite_def case_prod_unfold split: option.split)

lemma core_snapshot [cores, simp]: "core_of (snd (persist_snapshot env operation p lg a)) = core_of a"
  by (simp add: core_of_def persist_snapshot_def case_prod_unfold Let_def split: option.split write_result.split)

lemma core_append_own [cores, simp]: "core_of (append_own env i c a) = core_of a"
  by (simp add: core_of_def append_own_def)

subsection \<open>Steady handlers\<close>

named_theorems steadys \<open>handlers that keep the core steady\<close>

lemma persist_at_cases:
  assumes "persist_hard_state_at env operation n a = (ok, b)"
  obtains "core_of b = core_of a" "ok \<longrightarrow> ra_disk a = None" "ra_storage_fault b = ra_storage_fault a"
  | d where "ra_disk a = Some d" "ra_storage_fault b = ra_storage_fault a"
      "core_of b = (core_of a)\<lparr>co_meta := Some \<lparr>me_current_term = ra_current_term a, me_voted_for = ra_voted_for a, me_commit_index = n\<rparr>\<rparr>"
  using assms by (cases "ra_disk a") (auto simp: persist_hard_state_at_def core_of_def Let_def split: write_result.splits)

lemma steady_saved:
  "steady c (c\<lparr>co_meta := Some \<lparr>me_current_term = co_term c, me_voted_for = co_vote c, me_commit_index = n\<rparr>\<rparr>)"
  by (auto simp: steady_def sound_def ahead_def keeps_votes_def split: option.splits)

lemma steady_persist_at [steadys]:
  assumes "steady c (core_of a)"
  shows "steady c (core_of (snd (persist_hard_state_at env operation n a)))"
proof -
  obtain ok b where b: "persist_hard_state_at env operation n a = (ok, b)" by fastforce
  have "steady (core_of a) (core_of b)"
    using b by (cases rule: persist_at_cases) (use steady_saved [of "core_of a" n] in simp_all)
  then show ?thesis using assms b by (auto intro: steady_trans)
qed

lemma steady_persist [steadys]:
  "steady c (core_of a) \<Longrightarrow> steady c (core_of (snd (persist_hard_state env operation a)))"
  unfolding persist_hard_state_def by (rule steady_persist_at)

lemma steady_adopt_term:
  assumes "steady c (core_of a)" "ra_current_term a < t"
  shows "steady c (core_of (a\<lparr>ra_current_term := t, ra_voted_for := None, ra_role := Follower, ra_votes := {||}\<rparr>))"
proof -
  have "steady (core_of a) (core_of (a\<lparr>ra_current_term := t, ra_voted_for := None, ra_role := Follower, ra_votes := {||}\<rparr>))"
    using assms(2) by (auto simp: steady_def sound_def ahead_def core_of_def split: option.splits)
  then show ?thesis using assms(1) by (rule steady_trans [rotated])
qed

lemma steady_demote:
  "steady c (core_of a) \<Longrightarrow> steady c (core_of (a\<lparr>ra_role := Follower, ra_votes := {||}\<rparr>))"
  using steady_then_unseat [of c "core_of a"] by (simp add: core_of_def unseat_def)

lemma core_skip_leader [simp]:
  "core_of (a\<lparr>ra_current_term := t, ra_voted_for := v, ra_role := r, ra_leader := l, ra_votes := vs\<rparr>) =
   core_of (a\<lparr>ra_current_term := t, ra_voted_for := v, ra_role := r, ra_votes := vs\<rparr>)"
  "core_of (a\<lparr>ra_role := r, ra_leader := l, ra_votes := vs\<rparr>) = core_of (a\<lparr>ra_role := r, ra_votes := vs\<rparr>)"
  by (simp_all add: core_of_def)

lemma steady_step_down [steadys]:
  assumes "steady c (core_of a)"
  shows "steady c (core_of (step_down env t leader a))"
proof (cases "t < ra_current_term a")
  case True
  then show ?thesis using assms by (simp add: step_down_def)
next
  case False
  define a1 where "a1 = record_leader_transfer (ra_role a) Follower a"
  define a2 where "a2 = (if t > ra_current_term a1 then a1\<lparr>ra_current_term := t, ra_voted_for := None\<rparr> else a1)
    \<lparr>ra_role := Follower, ra_leader := None, ra_votes := {||}, ra_leader_id := leader\<rparr>"
  have a1: "steady c (core_of a1)" using assms by (simp add: a1_def)
  have "steady c (core_of a2)"
    using steady_adopt_term [OF a1, of t] steady_demote [OF a1] by (cases "t > ra_current_term a1") (simp_all add: a2_def)
  then have "steady c (core_of (snd (persist_hard_state env ''persisting higher term while stepping down'' a2)))"
    by (rule steady_persist)
  then show ?thesis
    using False by (auto simp: step_down_def Let_def case_prod_unfold steady_then_unseat simp flip: a1_def a2_def)
qed

lemma steady_follow [steadys]: "steady c (core_of a) \<Longrightarrow> steady c (core_of (become_follower_of env leader a))"
  using steady_demote [of c "record_leader_transfer (ra_role a) Follower a"]
  by (simp add: become_follower_of_def Let_def) (simp add: core_of_def)

lemma steady_compact [steadys]: "steady c (core_of a) \<Longrightarrow> steady c (core_of (maybe_compact env a))"
  by (auto simp: maybe_compact_def Let_def case_prod_unfold steady_then_unseat split: sum.split)

lemma steady_apply_loop: "steady (core_of a) (core_of (snd (snd (apply_loop env a))))"
proof (induction env a rule: apply_loop.induct)
  case (1 env a)
  show ?case
    using 1 by (subst apply_loop.simps)
      (auto simp: Let_def case_prod_unfold split: option.split)
qed

lemma steady_apply [steadys]:
  assumes "steady c (core_of a)"
  shows "steady c (core_of (apply_committed env a))"
proof -
  have "steady c (core_of (snd (snd (apply_loop env a))))"
    using assms steady_apply_loop by (rule steady_trans)
  then show ?thesis by (auto simp: apply_committed_def Let_def case_prod_unfold intro: steadys)
qed

lemma steady_send_append [steadys]: "steady c (core_of a) \<Longrightarrow> steady c (core_of (send_append_to env peer a))"
  by (auto simp: send_append_to_def Let_def intro: steadys split: option.split)

lemma steady_fold:
  "(\<And>x a. steady c (core_of a) \<Longrightarrow> steady c (core_of (g x a))) \<Longrightarrow> steady c (core_of a) \<Longrightarrow> steady c (core_of (fold g xs a))"
  by (induction xs arbitrary: a) auto

lemma steady_broadcast [steadys]: "steady c (core_of a) \<Longrightarrow> steady c (core_of (broadcast_append_entries env a))"
  by (auto simp: broadcast_append_entries_def intro!: steady_fold steadys)

lemma steady_advance_commit [steadys]: "steady c (core_of a) \<Longrightarrow> steady c (core_of (maybe_advance_commit env a))"
  by (auto simp: maybe_advance_commit_def Let_def case_prod_unfold intro!: steadys steady_then_unseat split: option.split)

lemma steady_commit_alone [steadys]: "steady c (core_of a) \<Longrightarrow> steady c (core_of (commit_alone env operation i a))"
  by (auto simp: commit_alone_def Let_def case_prod_unfold intro!: steadys steady_then_unseat)

lemma steady_activate [steadys]: "steady c (core_of a) \<Longrightarrow> steady c (core_of (maybe_activate_command_protocol env a))"
  by (auto simp: maybe_activate_command_protocol_def Let_def case_prod_unfold intro!: steadys steady_then_unseat split: option.split)

lemma steady_relinquish [steadys]: "steady c (core_of a) \<Longrightarrow> steady c (core_of (relinquish_no_quorum env a))"
  by (simp add: relinquish_no_quorum_def steadys)

lemma steady_callback [steadys]:
  "steady c (core_of a) \<Longrightarrow> steady c (core_of (snd (accept_replication_callback env sender request t a)))"
  by (auto simp: accept_replication_callback_def Let_def intro: steadys split: callback_admission.split)

lemma core_lag [cores, simp]: "core_of (refresh_follower_lag_metric a) = core_of a"
  by (simp add: refresh_follower_lag_metric_def)

lemma steady_append_reply [steadys]:
  "steady c (core_of a) \<Longrightarrow> steady c (core_of (handle_append_reply env sent_at sender up_to rtt_ms resp a))"
  by (auto simp: handle_append_reply_def Let_def intro!: steadys split: option.split prod.split)

lemma steady_snapshot_reply [steadys]:
  "steady c (core_of a) \<Longrightarrow> steady c (core_of (handle_snapshot_reply env sent_at sender up_to resp a))"
  by (auto simp: handle_snapshot_reply_def Let_def intro!: steadys split: option.split prod.split)

lemma snd_answers [simp]: "snd (append_answer ok i a) = a" "snd (install_answer ok i a) = a" "snd (vote_answer ok a) = a"
  by (simp_all add: append_answer_def install_answer_def vote_answer_def)

lemma core_persist_change [cores, simp]: "core_of (snd (persist_change env ch a)) = core_of a"
  by (simp add: persist_change_def split: log_change.split)

lemma steady_follow_commit [steadys]:
  "steady c (core_of a) \<Longrightarrow> steady c (core_of (snd (follow_commit env n a)))"
  by (auto simp: follow_commit_def Let_def case_prod_unfold intro!: steadys steady_then_unseat)

lemma steady_store_entries [steadys]:
  "steady c (core_of a) \<Longrightarrow> steady c (core_of (snd (store_entries env req a)))"
  by (auto simp: store_entries_def Let_def case_prod_unfold intro!: steadys steady_then_unseat split: option.split prod.split)

lemma steady_append_entries [steadys]:
  "steady c (core_of a) \<Longrightarrow> steady c (core_of (snd (handle_append_entries env req a)))"
  by (auto simp: handle_append_entries_def Let_def intro!: steadys)

lemma steady_install_state [steadys]:
  "steady c (core_of a) \<Longrightarrow> steady c (core_of (snd (install_state env req restored a)))"
  by (auto simp: install_state_def Let_def case_prod_unfold intro!: steadys steady_then_unseat)

lemma steady_install_snapshot [steadys]:
  "steady c (core_of a) \<Longrightarrow> steady c (core_of (snd (handle_install_snapshot env req a)))"
  by (auto simp: handle_install_snapshot_def Let_def intro!: steadys split: sum.split)

lemma steady_propose [steadys]: "steady c (core_of a) \<Longrightarrow> steady c (core_of (snd (on_propose env cmd a)))"
  by (auto simp: on_propose_def Let_def case_prod_unfold intro!: steadys steady_then_unseat split: option.split sum.split)

text \<open>A vote keeps the core steady, and a granted vote is on disk.\<close>

lemma steady_record_vote:
  assumes "steady c (core_of a)" "ra_voted_for a = None \<or> ra_voted_for a = Some v"
  shows "steady c (core_of (a\<lparr>ra_voted_for := Some v\<rparr>))"
proof -
  have "steady (core_of a) (core_of (a\<lparr>ra_voted_for := Some v\<rparr>))"
    using assms(2) by (auto simp: steady_def sound_def ahead_def core_of_def split: option.splits)
  then show ?thesis using assms(1) by (rule steady_trans [rotated])
qed

lemma steady_request_vote [steadys]:
  "steady c (core_of a) \<Longrightarrow> steady c (core_of (snd (handle_request_vote env req a)))"
  by (auto simp: handle_request_vote_def Let_def case_prod_unfold intro!: steadys steady_then_unseat steady_record_vote
      split: option.split)

lemma persist_reported:
  "fst (persist_hard_state env operation a) \<Longrightarrow> ra_disk a \<noteq> None \<Longrightarrow>
     (\<exists>n. map_option du_meta (ra_disk (snd (persist_hard_state env operation a))) =
       Some \<lparr>me_current_term = ra_current_term a, me_voted_for = ra_voted_for a, me_commit_index = n\<rparr>) \<and>
     ra_current_term (snd (persist_hard_state env operation a)) = ra_current_term a"
  by (auto simp: persist_hard_state_def persist_hard_state_at_def Let_def split: option.splits write_result.splits)

lemma disk_send [simp]: "ra_disk (send m a) = ra_disk a" "ra_disk (record_leader_transfer r r' a) = ra_disk a"
  "ra_disk (fail_pending a) = ra_disk a" "ra_disk (fail_pending_unavailable a) = ra_disk a"
  "ra_disk (reset_election_deadline env a) = ra_disk a" "ra_disk (fail_storage operation a) = ra_disk a"
  by (simp_all add: send_def record_leader_transfer_def fail_pending_def fail_pending_unavailable_def
      reset_election_deadline_def fail_storage_def Let_def split: prod.split)

lemma disk_step_down: "ra_disk (step_down env t leader a) = None \<longleftrightarrow> ra_disk a = None"
  by (auto simp: step_down_def persist_hard_state_def persist_hard_state_at_def Let_def split: option.splits write_result.splits)

lemma granted_vote_is_durable:
  assumes "handle_request_vote env req a = (resp, b)" "vr_granted resp" "\<not> vq_pre_vote req" "ra_disk a \<noteq> None"
  shows "\<exists>n. map_option du_meta (ra_disk b) =
    Some \<lparr>me_current_term = vr_term resp, me_voted_for = Some (vq_candidate_id req), me_commit_index = n\<rparr>"
proof -
  define a1 where "a1 = (if vq_term req > ra_current_term a then step_down env (vq_term req) None a else a)"
  define a2 where "a2 = reset_election_deadline env (a1\<lparr>ra_voted_for := Some (vq_candidate_id req)\<rparr>)"
  have d: "ra_disk a1 \<noteq> None" using assms(4) disk_step_down [of env "vq_term req" None a] by (auto simp: a1_def)
  have a2: "ra_disk a2 \<noteq> None" "ra_voted_for a2 = Some (vq_candidate_id req)"
    using d by (simp_all add: a2_def) (simp add: reset_election_deadline_def split: prod.split)
  have "fst (persist_hard_state env ''persisting granted vote'' a2)"
    "b = snd (persist_hard_state env ''persisting granted vote'' a2)" "vr_term resp = ra_current_term b"
    using assms(1-3)
    by (auto simp: handle_request_vote_def vote_answer_def Let_def case_prod_unfold simp flip: a1_def a2_def split: if_splits)
  then show ?thesis using persist_reported [OF _ a2(1), of env "''persisting granted vote''"] a2(2) by auto
qed

subsection \<open>Campaigns and wins\<close>

definition campaigns :: "core \<Rightarrow> core \<Rightarrow> bool" where
  "campaigns c c' \<longleftrightarrow> sound c c' \<and> (co_role c' = Follower \<or> co_role c' = Candidate \<and> co_votes c' = {|co_id c|} \<and>
     (\<exists>n. co_meta c' = Some \<lparr>me_current_term = co_term c', me_voted_for = Some (co_id c), me_commit_index = n\<rparr>))"

lemma less_next_word: "(x :: u64) \<noteq> - 1 \<Longrightarrow> x < x + 1"
  using unat_plus_one_less [of x "- 1"] by (simp add: word_less_nat_alt word_order.not_eq_extremum)

lemma fcard_one: "fcard {|x|} = 1"
  by (simp add: fcard.rep_eq)

lemma persist_core_ok:
  "fst (persist_hard_state env operation a) \<Longrightarrow> ra_disk a \<noteq> None \<Longrightarrow>
     \<exists>n. core_of (snd (persist_hard_state env operation a)) = (core_of a)\<lparr>co_meta :=
       Some \<lparr>me_current_term = ra_current_term a, me_voted_for = ra_voted_for a, me_commit_index = n\<rparr>\<rparr>"
  by (auto simp: persist_hard_state_def persist_hard_state_at_def core_of_def Let_def split: option.splits write_result.splits)

lemma start_election_core:
  assumes "ra_current_term a \<noteq> - 1" "ra_peers a \<noteq> []" "ra_disk a \<noteq> None"
  shows "steady (core_of a) (core_of (start_election env a)) \<or> campaigns (core_of a) (core_of (start_election env a))"
proof (cases "ra_storage_fault a = None")
  case False
  then show ?thesis by (simp add: start_election_def)
next
  case True
  define a1 where "a1 = reset_election_deadline env (a\<lparr>ra_current_term := ra_current_term a + 1, ra_campaign_started_at := rv_now env,
     ra_role := Candidate, ra_voted_for := Some (ra_node_id a), ra_leader_id := None, ra_votes := {|ra_node_id a|}\<rparr>)"
  have c1: "core_of a1 = (core_of a)\<lparr>co_term := ra_current_term a + 1, co_role := Candidate,
      co_vote := Some (ra_node_id a), co_votes := {|ra_node_id a|}\<rparr>"
    unfolding a1_def core_deadline by (simp add: core_of_def)
  have lt: "ra_current_term a < ra_current_term a + 1" using less_next_word assms(1) by blast
  then have s1: "sound (core_of a) (core_of a1)"
    unfolding c1 by (auto simp: sound_def ahead_def split: option.splits)
  define op where "op = ''persisting election term and self-vote''"
  have d1: "ra_disk a1 \<noteq> None" using assms(3) by (simp add: a1_def)
  have st: "steady (core_of a1) (core_of (snd (persist_hard_state env op a1)))" by (rule steady_persist) simp
  then have s2: "sound (core_of a) (core_of (snd (persist_hard_state env op a1)))"
    using s1 by (auto simp: steady_def intro: sound_trans)
  define b where "b = snd (persist_hard_state env op a1)"
  have b: "start_election env a = (if \<not> fst (persist_hard_state env op a1) then fail_storage op b
      else if fcard (ra_votes b) \<ge> majority b then become_leader env b else solicit_votes (ra_current_term b) False b)"
    using True by (simp add: start_election_def b_def op_def a1_def Let_def case_prod_unfold)
  show ?thesis
  proof (cases "fst (persist_hard_state env op a1)")
    case False
    then show ?thesis using s2 b by (auto simp: campaigns_def sound_def ahead_def simp flip: b_def split: option.splits)
  next
    case ok: True
    obtain n where n: "core_of b = (core_of a1)\<lparr>co_meta :=
        Some \<lparr>me_current_term = ra_current_term a1, me_voted_for = ra_voted_for a1, me_commit_index = n\<rparr>\<rparr>"
      using persist_core_ok [OF ok d1] by (auto simp: b_def)
    have f: "co_votes (core_of b) = {|ra_node_id a|}" "co_role (core_of b) = Candidate" "co_peers (core_of b) = ra_peers a"
      "co_meta (core_of b) = Some \<lparr>me_current_term = co_term (core_of b), me_voted_for = Some (ra_node_id a), me_commit_index = n\<rparr>"
      unfolding n using c1 by (simp_all del: core_sel) (simp add: core_of_def)+
    have "majority b > 1" using assms(2) f(3) by (cases "ra_peers a") (auto simp: majority_def members_def)
    then have "start_election env a = solicit_votes (ra_current_term b) False b" using b ok f(1) by (simp add: fcard_one)
    then have "core_of (start_election env a) = core_of b" by (simp add: solicit_votes_def)
    then show ?thesis using f s2 by (auto simp: campaigns_def b_def)
  qed
qed

lemma become_leader_core:
  assumes "ra_storage_fault a = None"
  shows "steady ((core_of a)\<lparr>co_role := Leader, co_votes := {||}\<rparr>) (core_of (become_leader env a))"
proof -
  define a1 where "a1 = record_leader_transfer (ra_role a) Leader a"
  define a2 where "a2 = a1\<lparr>ra_role := Leader, ra_leader_id := Some (ra_node_id a1), ra_votes := {||},
    ra_leader := Some (fresh_leader_state (last_log_index a1 + 1) (ra_votes a1) (ra_campaign_started_at a1) (ra_peers a1))\<rparr>"
  have "core_of a2 = (core_of a1)\<lparr>co_role := Leader, co_votes := {||}\<rparr>" by (simp add: a2_def core_of_def)
  then have "core_of a2 = (core_of a)\<lparr>co_role := Leader, co_votes := {||}\<rparr>" by (simp add: a1_def)
  moreover have "steady (core_of a2) (core_of (become_leader env a))"
    using assms by (auto simp: become_leader_def Let_def case_prod_unfold simp flip: a1_def a2_def intro!: steadys)
  ultimately show ?thesis by simp
qed

text \<open>What a message can do to the core.\<close>

definition wins :: "string \<Rightarrow> vote_resp \<Rightarrow> shard \<Rightarrow> core \<Rightarrow> bool" where
  "wins sender resp a c' \<longleftrightarrow> ra_role a = Candidate \<and> vr_term resp = ra_current_term a \<and>
     (c' = (core_of a)\<lparr>co_votes := finsert sender (ra_votes a)\<rparr> \<or>
      majority a \<le> fcard (finsert sender (ra_votes a)) \<and> steady ((core_of a)\<lparr>co_role := Leader, co_votes := {||}\<rparr>) c')"

lemma vote_reply_core:
  assumes "ra_current_term a \<noteq> - 1" "ra_peers a \<noteq> []" "ra_disk a \<noteq> None"
  shows "steady (core_of a) (core_of (handle_vote_reply env sender pre_vote resp a)) \<or>
    campaigns (core_of a) (core_of (handle_vote_reply env sender pre_vote resp a)) \<or>
    \<not> pre_vote \<and> vr_granted resp \<and> wins sender resp a (core_of (handle_vote_reply env sender pre_vote resp a))"
proof (cases "ra_storage_fault a = None \<and> vr_term resp \<le> ra_current_term a")
  case False
  then show ?thesis by (auto simp: handle_vote_reply_def not_le intro: steadys)
next
  case ok: True
  show ?thesis
  proof (cases pre_vote)
    case True
    have "core_of (a\<lparr>ra_pre_votes := finsert sender (ra_pre_votes a)\<rparr>) = core_of a" by simp
    moreover note start_election_core [of "a\<lparr>ra_pre_votes := finsert sender (ra_pre_votes a)\<rparr>" env]
    ultimately show ?thesis
      using True ok assms by (auto simp: handle_vote_reply_def Let_def not_less)
  next
    case False
    define b where "b = a\<lparr>ra_votes := finsert sender (ra_votes a)\<rparr>"
    have b: "core_of b = (core_of a)\<lparr>co_votes := finsert sender (ra_votes a)\<rparr>" "majority b = majority a"
      "ra_storage_fault b = None" "ra_votes b = finsert sender (ra_votes a)"
      using ok by (simp_all add: b_def core_of_def majority_def members_def)
    have "steady ((core_of a)\<lparr>co_role := Leader, co_votes := {||}\<rparr>) (core_of (become_leader env b))"
      using become_leader_core [OF b(3), of env] by (simp add: b(1))
    moreover have "\<not> ra_current_term a < vr_term resp" using ok by auto
    then have "handle_vote_reply env sender pre_vote resp a =
        (if ra_role a \<noteq> Candidate \<or> vr_term resp \<noteq> ra_current_term a then a
         else if vr_granted resp then (if fcard (ra_votes b) \<ge> majority b then become_leader env b else b) else a)"
      using False ok by (simp add: handle_vote_reply_def b_def)
    ultimately show ?thesis using False b by (auto simp: wins_def)
  qed
qed

lemma pre_election_core:
  assumes "ra_current_term a \<noteq> - 1" "ra_peers a \<noteq> []" "ra_disk a \<noteq> None"
  shows "steady (core_of a) (core_of (start_pre_election env a))"
proof (cases "ra_storage_fault a = None")
  case True
  define b where "b = (reset_election_deadline env (a\<lparr>ra_role := Follower, ra_votes := {||}\<rparr>))
    \<lparr>ra_pre_vote_term := ra_current_term (reset_election_deadline env (a\<lparr>ra_role := Follower, ra_votes := {||}\<rparr>)) + 1,
      ra_pre_votes := {|ra_node_id (reset_election_deadline env (a\<lparr>ra_role := Follower, ra_votes := {||}\<rparr>))|}\<rparr>"
  have c: "core_of b = unseat (core_of a)" by (simp add: b_def) (simp add: core_of_def unseat_def)
  then have "ra_peers b = ra_peers a" by (metis core_sel(2) unseat_simps(3))
  then have "majority b > 1" using assms(2) by (cases "ra_peers a") (auto simp: majority_def members_def)
  moreover have "fcard (ra_pre_votes b) = 1" by (simp add: b_def fcard_one)
  ultimately have "start_pre_election env a = solicit_votes (ra_pre_vote_term b) True b"
    using True by (simp add: start_pre_election_def Let_def b_def)
  then show ?thesis using c by (simp add: solicit_votes_def)
qed (simp add: start_pre_election_def)

lemma tick_core:
  assumes "ra_current_term a \<noteq> - 1" "ra_peers a \<noteq> []" "ra_disk a \<noteq> None"
  shows "steady (core_of a) (core_of (on_tick env a)) \<or> campaigns (core_of a) (core_of (on_tick env a))"
  using pre_election_core [OF assms] start_election_core [OF assms]
  by (auto simp: on_tick_def Let_def intro!: steadys)

lemma handle_core:
  assumes "ra_current_term a \<noteq> - 1" "ra_peers a \<noteq> []" "ra_disk a \<noteq> None"
  shows "steady (core_of a) (core_of (snd (handle env msg a))) \<or> campaigns (core_of a) (core_of (snd (handle env msg a))) \<or>
    (\<exists>sender resp. msg = VoteReply sender False resp \<and> vr_granted resp \<and> wins sender resp a (core_of (snd (handle env msg a))))"
proof (cases msg)
  case (VoteReply sender pre_vote resp)
  then show ?thesis using vote_reply_core [OF assms, of env sender pre_vote resp] by auto
next
  case Tick
  then show ?thesis using tick_core [OF assms] by simp
qed (auto simp: case_prod_unfold intro!: steadys)

end
