(* ===== verification/Raft_Place.thy ===== *)
theory Raft_Place
  imports Raft_Core
begin

section \<open>The log, the commit index and the disk\<close>

text \<open>
  The place of an actor is its term, snapshot, log, commit and apply positions, and its disk. Every message moves a
  well-placed actor to a well-placed one: log positions agree with indexes, the commit index only grows, no committed
  entry changes, everything committed is applied, and the disk holds what memory holds. A write that fails leaves a
  faulted actor whose disk still holds every committed entry.
\<close>

record place =
  pl_term :: u64
  pl_index :: u64
  pl_sterm :: u64
  pl_state :: string
  pl_log :: "raft_entry list"
  pl_commit :: u64
  pl_applied :: u64
  pl_fault :: bool
  pl_disk :: "durable option"

definition place_of :: "shard \<Rightarrow> place" where
  "place_of a = \<lparr>pl_term = ra_current_term a, pl_index = ra_snapshot_index a, pl_sterm = ra_snapshot_term a,
     pl_state = ra_snapshot_state a, pl_log = ra_log a, pl_commit = ra_commit_index a, pl_applied = ra_last_applied a,
     pl_fault = (ra_storage_fault a \<noteq> None), pl_disk = ra_disk a\<rparr>"

definition log_at :: "nat \<Rightarrow> place \<Rightarrow> raft_entry option" where
  "log_at i p = (if unat (pl_index p) < i \<and> i \<le> unat (pl_index p) + length (pl_log p)
     then Some (pl_log p ! (i - unat (pl_index p) - 1)) else None)"

definition indexed :: "place \<Rightarrow> bool" where
  "indexed p \<longleftrightarrow> log_from (unat (pl_index p)) (pl_log p) \<and> unat (pl_index p) + length (pl_log p) < 2 ^ 64"

definition bounded :: "place \<Rightarrow> bool" where
  "bounded p \<longleftrightarrow> pl_index p \<le> pl_applied p \<and> pl_applied p \<le> pl_commit p \<and>
     unat (pl_commit p) \<le> unat (pl_index p) + length (pl_log p)"

definition synced :: "place \<Rightarrow> durable \<Rightarrow> bool" where
  "synced p d \<longleftrightarrow> du_log d = pl_log p \<and> du_len d = length (pl_log p) \<and>
     (case du_snapshot d of None \<Rightarrow> pl_index p = 0
      | Some s \<Rightarrow> ps_last_included_index s = pl_index p \<and> ps_last_included_term s = pl_sterm p \<and> ps_state s = pl_state p) \<and>
     max (me_commit_index (du_meta d)) (pl_index p) = pl_commit p"

definition holds_committed :: "place \<Rightarrow> durable \<Rightarrow> bool" where
  "holds_committed p d \<longleftrightarrow> pl_commit p \<le> max (me_commit_index (du_meta d)) (snapshot_index_of (du_snapshot d)) \<and>
     (\<forall>i. unat (snapshot_index_of (du_snapshot d)) < i \<longrightarrow> i \<le> unat (pl_commit p) \<longrightarrow>
       (\<exists>e. log_at i p = Some e \<and> e \<in> set (du_log d)))"

definition placed :: "place \<Rightarrow> bool" where
  "placed p \<longleftrightarrow> indexed p \<and> bounded p \<and> pl_term p \<noteq> 0 \<and> (\<not> pl_fault p \<longrightarrow> pl_applied p = pl_commit p) \<and>
     (\<forall>d. pl_disk p = Some d \<longrightarrow> holds_committed p d \<and> (\<not> pl_fault p \<longrightarrow> synced p d))"

definition keeps :: "place \<Rightarrow> place \<Rightarrow> bool" where
  "keeps p q \<longleftrightarrow> pl_term p \<le> pl_term q \<and> pl_index p \<le> pl_index q \<and> pl_commit p \<le> pl_commit q \<and>
     (pl_fault p \<longrightarrow> pl_fault q) \<and>
     (\<forall>i. unat (pl_index q) < i \<longrightarrow> i \<le> unat (pl_commit p) \<longrightarrow> log_at i q = log_at i p)"

definition moves :: "place \<Rightarrow> place \<Rightarrow> bool" where
  "moves p q \<longleftrightarrow> (placed p \<longrightarrow> placed q \<and> keeps p q)"

lemma keeps_refl [simp]: "keeps p p"
  by (simp add: keeps_def)

lemma keeps_trans: "keeps p q \<Longrightarrow> keeps q r \<Longrightarrow> keeps p r"
  unfolding keeps_def by (auto simp: word_le_nat_alt)

lemma moves_refl [simp]: "moves p p"
  by (simp add: moves_def)

lemma moves_trans [trans]: "moves p q \<Longrightarrow> moves q r \<Longrightarrow> moves p r"
  unfolding moves_def by (metis keeps_trans)

lemma movesI: "(placed p \<Longrightarrow> placed q \<and> keeps p q) \<Longrightarrow> moves p q"
  by (simp add: moves_def)

subsection \<open>Consecutive logs\<close>

lemma log_from_drop: "log_from b xs \<Longrightarrow> k \<le> length xs \<Longrightarrow> log_from (b + k) (drop k xs)"
  using log_from_append [of b "take k xs" "drop k xs"] by simp

lemma log_from_take: "log_from b xs \<Longrightarrow> log_from b (take k xs)"
  using log_from_append [of b "take k xs" "drop k xs"] by simp

lemma well_formed_log: "well_formed trm i es \<Longrightarrow> log_from (unat i) es \<and> unat i + length es < 2 ^ 64"
proof (induction es arbitrary: i)
  case Nil
  show ?case using unat_lt_2p [of i] by simp
next
  case (Cons e es)
  then obtain j where j: "checked_add i 1 = Some j" "rg_index e = j" "well_formed trm j es" by (auto split: option.splits)
  then have "j = i + 1" "unat i + 1 < 2 ^ 64" by (simp_all add: checked_add_def split: if_splits)
  then have "unat j = Suc (unat i)" by (simp add: unat_word_ariths)
  then show ?case using Cons.IH [OF j(3)] j(2) by simp
qed

text \<open>The append loop: nothing changes, the log grows, or its end after a committed position is replaced.\<close>

lemma append_loop_tail:
  "unat idx = unat si + length lg \<Longrightarrow> unat idx + length es < 2 ^ 64 \<Longrightarrow>
     append_loop si c idx es ch lg = (Some (if es = [] then ch else if ch = Truncated then Truncated else Grew), lg @ es)"
proof (induction es arbitrary: idx ch lg)
  case (Cons e es)
  have i: "unat (idx + 1) = unat idx + 1" using Cons.prems by (simp add: unat_word_ariths)
  then have "\<not> idx + 1 \<le> si" "unat (idx + 1 - si - 1) = length lg"
    using Cons.prems by (simp_all add: word_le_nat_alt unat_sub)
  then show ?case using Cons.prems i by (simp add: Let_def Cons.IH)
qed simp

lemma append_loop_cases:
  assumes "append_loop si c idx es Unchanged lg = (r, lg')" "log_from (unat si) lg" "log_from (unat idx) es"
    "unat idx \<le> unat si + length lg" "unat idx + length es < 2 ^ 64" "unat si + length lg < 2 ^ 64"
  obtains "lg' = lg" "r = None \<or> r = Some Unchanged"
  | ys where "lg' = lg @ ys" "r = Some Grew" "log_from (unat si) lg'" "unat si + length lg' < 2 ^ 64"
  | k ys where "lg' = take k lg @ ys" "r = Some Truncated" "log_from (unat si) lg'" "unat si + length lg' < 2 ^ 64"
      "k \<le> length lg" "unat c \<le> unat si + k"
  using assms
proof (induction es arbitrary: idx thesis)
  case (Cons e es)
  note start = Cons.prems(4) and fromes = Cons.prems(6)
  have i: "unat (idx + 1) = unat idx + 1" using Cons.prems by (simp add: unat_word_ariths)
  have es: "log_from (unat (idx + 1)) es" using Cons.prems i by simp
  have off: "unat (idx + 1 - si - 1) = unat idx - unat si" if "\<not> idx + 1 \<le> si"
    using that i by (simp add: word_le_nat_alt unat_sub)
  consider "idx + 1 \<le> si" | "\<not> idx + 1 \<le> si" "unat idx - unat si < length lg"
      "rg_term (lg ! (unat idx - unat si)) = rg_term e"
    | "\<not> idx + 1 \<le> si" "unat idx - unat si < length lg"
      "rg_term (lg ! (unat idx - unat si)) \<noteq> rg_term e" "idx + 1 \<le> c"
    | "\<not> idx + 1 \<le> si" "unat idx - unat si < length lg"
      "rg_term (lg ! (unat idx - unat si)) \<noteq> rg_term e" "\<not> idx + 1 \<le> c"
    | "\<not> idx + 1 \<le> si" "\<not> unat idx - unat si < length lg" by blast
  then show ?case
  proof cases
    case 1
    then show ?thesis using Cons.IH [OF Cons.prems(1-3) _ _ es] Cons.prems i by (auto simp: Let_def word_le_nat_alt)
  next
    case 2
    then show ?thesis using Cons.IH [OF Cons.prems(1-3) _ _ es] Cons.prems i off by (auto simp: Let_def word_le_nat_alt)
  next
    case 3
    then show ?thesis using Cons.prems(1) Cons.prems(4) off by (simp add: Let_def)
  next
    case 4
    let ?k = "unat idx - unat si"
    have k: "unat si + ?k = unat idx" using 4(1) i by (simp add: word_le_nat_alt)
    then have tail: "append_loop si c (idx + 1) es Truncated (take ?k lg @ [e]) = (Some Truncated, (take ?k lg @ [e]) @ es)"
      using 4(2) i Cons.prems(8) by (subst append_loop_tail) simp_all
    have lg': "lg' = take ?k lg @ e # es" "r = Some Truncated" using start 4 off tail by (simp_all add: Let_def)
    then show ?thesis
      using 4 k Cons.prems(5,6,8) i
      by (intro Cons.prems(3) [of ?k "e # es"]) (auto simp: log_from_append log_from_take word_le_nat_alt)
  next
    case 5
    have k: "unat idx = unat si + length lg" using 5 i Cons.prems(7) by (simp add: word_le_nat_alt)
    then have tail: "append_loop si c (idx + 1) es Grew (lg @ [e]) = (Some Grew, (lg @ [e]) @ es)"
      using i Cons.prems(8) by (subst append_loop_tail) simp_all
    have lg': "lg' = lg @ e # es" "r = Some Grew" using start 5 off tail by (simp_all add: Let_def)
    then show ?thesis
      using k Cons.prems(5,6,8) by (intro Cons.prems(2) [of "e # es"]) (auto simp: log_from_append)
  qed
qed simp

subsection \<open>What leaves the place alone\<close>

lemma place_sel [simp]: "pl_term (place_of a) = ra_current_term a" "pl_index (place_of a) = ra_snapshot_index a"
  "pl_sterm (place_of a) = ra_snapshot_term a" "pl_state (place_of a) = ra_snapshot_state a" "pl_log (place_of a) = ra_log a"
  "pl_commit (place_of a) = ra_commit_index a" "pl_applied (place_of a) = ra_last_applied a"
  "pl_fault (place_of a) = (ra_storage_fault a \<noteq> None)" "pl_disk (place_of a) = ra_disk a"
  by (simp_all add: place_of_def)

lemma place_frame [simp]:
  "place_of (a\<lparr>ra_shard_id := x1\<rparr>) = place_of a" "place_of (a\<lparr>ra_leader_id := x2\<rparr>) = place_of a"
  "place_of (a\<lparr>ra_role := x3\<rparr>) = place_of a" "place_of (a\<lparr>ra_voted_for := x4\<rparr>) = place_of a"
  "place_of (a\<lparr>ra_votes := x5\<rparr>) = place_of a" "place_of (a\<lparr>ra_campaign_started_at := x10\<rparr>) = place_of a"
  "place_of (a\<lparr>ra_pre_votes := x11\<rparr>) = place_of a" "place_of (a\<lparr>ra_pre_vote_term := x12\<rparr>) = place_of a"
  "place_of (a\<lparr>ra_leader := x13\<rparr>) = place_of a" "place_of (a\<lparr>ra_timing := x14\<rparr>) = place_of a"
  "place_of (a\<lparr>ra_election_deadline := x15\<rparr>) = place_of a" "place_of (a\<lparr>ra_heartbeat_deadline := x16\<rparr>) = place_of a"
  "place_of (a\<lparr>ra_last_leader_contact := x17\<rparr>) = place_of a" "place_of (a\<lparr>ra_rng := x18\<rparr>) = place_of a"
  "place_of (a\<lparr>ra_pending := x19\<rparr>) = place_of a" "place_of (a\<lparr>ra_state := x20\<rparr>) = place_of a"
  "place_of (a\<lparr>ra_metrics := x21\<rparr>) = place_of a" "place_of (a\<lparr>ra_outbox := x22\<rparr>) = place_of a"
  by (simp_all add: place_of_def)

lemma place_send [simp]: "place_of (send m a) = place_of a"
  by (simp add: place_of_def send_def)

lemma place_transfer [simp]: "place_of (record_leader_transfer r r' a) = place_of a"
  by (simp add: place_of_def record_leader_transfer_def)

lemma place_fail_pending [simp]: "place_of (fail_pending a) = place_of a" "place_of (fail_pending_unavailable a) = place_of a"
  by (simp_all add: place_of_def fail_pending_def fail_pending_unavailable_def send_def)

lemma place_deadline [simp]: "place_of (reset_election_deadline env a) = place_of a"
  by (simp add: place_of_def reset_election_deadline_def split: prod.split)

lemma place_follow [simp]: "place_of (become_follower_of env l a) = place_of a"
  by (simp add: become_follower_of_def Let_def)

lemma place_publish [simp]: "place_of (publish_change c r n a) = place_of a"
  by (simp add: publish_change_def split: option.split)

lemma place_fail_completed [simp]: "place_of (fail_completed f a) = place_of a"
  by (simp add: fail_completed_def)

lemma place_finish_completed [simp]: "place_of (finish_completed env f a) = place_of a"
proof -
  have "place_of (fold g f a) = place_of a" if "\<And>x a. place_of (g x a) = place_of a" for g a
    using that by (induction f arbitrary: a) simp_all
  then show ?thesis unfolding finish_completed_def by (simp split: prod.split)
qed

lemma place_solicit [simp]: "place_of (solicit_votes t pre a) = place_of a"
  by (simp add: solicit_votes_def)

lemma place_lag [simp]: "place_of (refresh_follower_lag_metric a) = place_of a"
  by (simp add: refresh_follower_lag_metric_def)

lemma place_fail_storage [simp]: "place_of (fail_storage operation a) = (place_of a)\<lparr>pl_fault := True\<rparr>"
  by (auto simp: fail_storage_def Let_def place_of_def record_leader_transfer_def fail_pending_unavailable_def send_def)

lemma place_log [simp]: "place_of (a\<lparr>ra_log := lg\<rparr>) = (place_of a)\<lparr>pl_log := lg\<rparr>"
  by (simp add: place_of_def)

lemma place_commit [simp]: "place_of (a\<lparr>ra_commit_index := n\<rparr>) = (place_of a)\<lparr>pl_commit := n\<rparr>"
  by (simp add: place_of_def)

lemma place_applied [simp]: "place_of (a\<lparr>ra_last_applied := n\<rparr>) = (place_of a)\<lparr>pl_applied := n\<rparr>"
  by (simp add: place_of_def)

lemma place_disk [simp]: "place_of (a\<lparr>ra_disk := d\<rparr>) = (place_of a)\<lparr>pl_disk := d\<rparr>"
  by (simp add: place_of_def)

lemma place_term: "place_of (a\<lparr>ra_current_term := t\<rparr>) = (place_of a)\<lparr>pl_term := t\<rparr>"
  by (simp add: place_of_def)

subsection \<open>Writes\<close>

lemma log_at_frame [simp]: "log_at i (p\<lparr>pl_fault := f\<rparr>) = log_at i p" "log_at i (p\<lparr>pl_disk := d\<rparr>) = log_at i p"
  "log_at i (p\<lparr>pl_term := t\<rparr>) = log_at i p" "log_at i (p\<lparr>pl_commit := n\<rparr>) = log_at i p"
  "log_at i (p\<lparr>pl_applied := n\<rparr>) = log_at i p"
  by (simp_all add: log_at_def)

lemma indexed_frame [simp]: "indexed (p\<lparr>pl_fault := f\<rparr>) = indexed p" "indexed (p\<lparr>pl_disk := d\<rparr>) = indexed p"
  "indexed (p\<lparr>pl_term := t\<rparr>) = indexed p" "indexed (p\<lparr>pl_commit := n\<rparr>) = indexed p" "indexed (p\<lparr>pl_applied := n\<rparr>) = indexed p"
  by (simp_all add: indexed_def)

lemma bounded_frame [simp]: "bounded (p\<lparr>pl_fault := f\<rparr>) = bounded p" "bounded (p\<lparr>pl_disk := d\<rparr>) = bounded p"
  by (simp_all add: bounded_def)

lemma synced_frame [simp]: "synced (p\<lparr>pl_fault := f\<rparr>) = synced p" "synced (p\<lparr>pl_disk := x\<rparr>) = synced p"
  "synced (p\<lparr>pl_term := t\<rparr>) = synced p" "synced (p\<lparr>pl_applied := n\<rparr>) = synced p"
  by (simp_all add: synced_def fun_eq_iff split: option.split)

lemma holds_frame [simp]: "holds_committed (p\<lparr>pl_fault := f\<rparr>) = holds_committed p"
  "holds_committed (p\<lparr>pl_disk := x\<rparr>) = holds_committed p" "holds_committed (p\<lparr>pl_term := t\<rparr>) = holds_committed p"
  "holds_committed (p\<lparr>pl_applied := n\<rparr>) = holds_committed p"
  by (simp_all add: holds_committed_def fun_eq_iff)

text \<open>A disk in step with memory holds every committed entry.\<close>

lemma synced_snapshot: "synced p d \<Longrightarrow> snapshot_index_of (du_snapshot d) = pl_index p"
  by (auto simp: synced_def snapshot_index_of_def split: option.splits)

lemma synced_holds: "synced p d \<Longrightarrow> bounded p \<Longrightarrow> holds_committed p d"
  using synced_snapshot [of p d]
  by (auto simp: holds_committed_def synced_def bounded_def log_at_def)

text \<open>A failed write: memory is as before, and the disk still holds what is committed.\<close>

lemma moves_faulted:
  assumes "placed p" "case disk of None \<Rightarrow> True | Some d \<Rightarrow> holds_committed p d"
  shows "placed (p\<lparr>pl_disk := disk, pl_fault := True\<rparr>) \<and> keeps p (p\<lparr>pl_disk := disk, pl_fault := True\<rparr>)"
  using assms by (auto simp: placed_def keeps_def)

lemma placed_fault: "placed p \<Longrightarrow> placed (p\<lparr>pl_fault := True\<rparr>) \<and> keeps p (p\<lparr>pl_fault := True\<rparr>)"
  by (auto simp: placed_def keeps_def)

lemma faulted_moves: "moves p q \<Longrightarrow> moves p (q\<lparr>pl_fault := True\<rparr>)"
  unfolding moves_def using placed_fault keeps_trans by blast

text \<open>The hard state.\<close>

lemma persist_at_place:
  assumes "persist_hard_state_at env operation n a = (ok, b)"
  obtains "place_of b = place_of a" "ok \<longrightarrow> ra_disk a = None"
  | d d' where "ra_disk a = Some d" "place_of b = (place_of a)\<lparr>pl_disk := Some d'\<rparr>" "me_commit_index (du_meta d') = n"
      "du_log d' = du_log d" "du_len d' = du_len d" "du_snapshot d' = du_snapshot d"
  using assms by (cases "ra_disk a") (auto simp: persist_hard_state_at_def Let_def split: write_result.splits)

lemma moves_persist:
  assumes "moves p (place_of a)"
  shows "moves p (place_of (snd (persist_hard_state env operation a)))"
proof -
  obtain ok b where b: "persist_hard_state_at env operation (ra_commit_index a) a = (ok, b)" by fastforce
  have "moves (place_of a) (place_of b)"
    using b
  proof (cases rule: persist_at_place)
    case (2 d d')
    show ?thesis
    proof (rule movesI)
      assume pl: "placed (place_of a)"
      have "bounded (place_of a)" using pl by (simp add: placed_def)
      then have "max (ra_commit_index a) (ra_snapshot_index a) = ra_commit_index a" by (auto simp: bounded_def max_def)
      moreover have "holds_committed (place_of a) d" "\<not> pl_fault (place_of a) \<longrightarrow> synced (place_of a) d"
        using pl 2(1) by (auto simp: placed_def)
      ultimately have "holds_committed (place_of a) d'" "\<not> pl_fault (place_of a) \<longrightarrow> synced (place_of a) d'"
        using 2 by (auto simp: holds_committed_def synced_def max.coboundedI1)
      then show "placed (place_of b) \<and> keeps (place_of a) (place_of b)"
        using pl 2 by (auto simp: placed_def keeps_def)
    qed
  qed simp
  then show ?thesis using assms b by (auto simp: persist_hard_state_def intro: moves_trans)
qed

lemma moves_later_term: "moves p q \<Longrightarrow> pl_term q \<le> t \<Longrightarrow> moves p (q\<lparr>pl_term := t\<rparr>)"
proof (rule movesI)
  assume "moves p q" "pl_term q \<le> t" "placed p"
  then have "placed q" "keeps p q" by (simp_all add: moves_def)
  moreover have "t \<noteq> 0" using \<open>placed q\<close> \<open>pl_term q \<le> t\<close> by (auto simp: placed_def bounded_def)
  ultimately show "placed (q\<lparr>pl_term := t\<rparr>) \<and> keeps p (q\<lparr>pl_term := t\<rparr>)"
    using \<open>pl_term q \<le> t\<close> by (auto simp: placed_def keeps_def bounded_def)
qed

named_theorems movers \<open>handlers that move a place\<close>

lemma moves_step_down [movers]:
  assumes "moves p (place_of a)"
  shows "moves p (place_of (step_down env t leader a))"
proof (cases "t < ra_current_term a")
  case True
  then show ?thesis using assms by (simp add: step_down_def)
next
  case False
  define a1 where "a1 = record_leader_transfer (ra_role a) Follower a"
  define a2 where "a2 = (if t > ra_current_term a1 then a1\<lparr>ra_current_term := t, ra_voted_for := None\<rparr> else a1)
    \<lparr>ra_role := Follower, ra_leader := None, ra_votes := {||}, ra_leader_id := leader\<rparr>"
  have a1: "moves p (place_of a1)" using assms by (simp add: a1_def)
  have "moves p (place_of a2)"
    using a1 moves_later_term [OF a1, of t] by (auto simp: a2_def place_of_def)
  then have "moves p (place_of (snd (persist_hard_state env ''persisting higher term while stepping down'' a2)))"
    by (rule moves_persist)
  then show ?thesis
    using False by (auto simp: step_down_def Let_def case_prod_unfold faulted_moves simp flip: a1_def a2_def)
qed

lemma moves_send_append [movers]: "moves p (place_of a) \<Longrightarrow> moves p (place_of (send_append_to env peer a))"
  by (auto simp: send_append_to_def Let_def intro: movers split: option.split)

lemma moves_fold:
  "(\<And>x a. moves p (place_of a) \<Longrightarrow> moves p (place_of (g x a))) \<Longrightarrow> moves p (place_of a) \<Longrightarrow> moves p (place_of (fold g xs a))"
  by (induction xs arbitrary: a) auto

lemma moves_broadcast [movers]: "moves p (place_of a) \<Longrightarrow> moves p (place_of (broadcast_append_entries env a))"
  by (auto simp: broadcast_append_entries_def intro!: moves_fold movers)

lemma moves_relinquish [movers]: "moves p (place_of a) \<Longrightarrow> moves p (place_of (relinquish_no_quorum env a))"
  by (simp add: relinquish_no_quorum_def movers)

lemma moves_callback [movers]:
  "moves p (place_of a) \<Longrightarrow> moves p (place_of (snd (accept_replication_callback env sender request t a)))"
  by (auto simp: accept_replication_callback_def Let_def intro: movers split: callback_admission.split)

subsection \<open>Applying and compacting\<close>

text \<open>One round of the apply loop: the waiter it completes, and the actor after it.\<close>

definition apply_entry :: "raft_env \<Rightarrow> u64 \<Rightarrow> raft_entry \<Rightarrow> shard \<Rightarrow> completed \<times> shard" where
  "apply_entry env i e a = (case rg_command e of
     None \<Rightarrow> ([], a\<lparr>ra_last_applied := i\<rparr>)
   | Some c \<Rightarrow>
       (case apply_at (rv_sha256 env) (rv_delim env)
          \<lparr>en_command = c, en_proposed_at_ms = rg_proposed_at_ms e, en_order = rv_order env (ra_state a)\<rparr> (ra_state a) of
        (r, s) \<Rightarrow>
          let a = publish_change c (ar_output r) (ar_revision r) (a\<lparr>ra_last_applied := i, ra_state := s\<rparr>)
          in ((case fmlookup (ra_pending a) i of None \<Rightarrow> [] | Some started_at \<Rightarrow> [(i, started_at, ar_revision r, ar_output r)]),
              a\<lparr>ra_pending := fmdrop i (ra_pending a)\<rparr>)))"

lemma apply_loop_done: "\<not> ra_last_applied a < ra_commit_index a \<Longrightarrow> apply_loop env a = ([], True, a)"
  by (simp add: apply_loop.simps)

lemma apply_loop_round:
  assumes "ra_last_applied a < ra_commit_index a" "ra_snapshot_index a \<le> ra_last_applied a"
    "unat (ra_commit_index a) \<le> unat (ra_snapshot_index a) + length (ra_log a)"
  shows "apply_loop env a =
    (case apply_entry env (ra_last_applied a + 1) (ra_log a ! (unat (ra_last_applied a) - unat (ra_snapshot_index a))) a of
       (finished, a) \<Rightarrow> (case apply_loop env a of (rest, ok, b) \<Rightarrow> (finished @ rest, ok, b)))"
proof -
  have i: "unat (ra_last_applied a + 1) = unat (ra_last_applied a) + 1" using assms(1) by (rule unat_plus_one_less)
  have k: "\<not> unat (ra_last_applied a + 1) \<le> unat (ra_snapshot_index a)"
    "unat (ra_last_applied a + 1) - unat (ra_snapshot_index a) - 1 = unat (ra_last_applied a) - unat (ra_snapshot_index a)"
    "\<not> length (ra_log a) \<le> unat (ra_last_applied a) - unat (ra_snapshot_index a)"
    using assms by (auto simp: i word_le_nat_alt word_less_nat_alt)
  show ?thesis
    unfolding apply_loop.simps [of env a] Let_def k(2) using assms(1) k(1,3)
    by (simp add: apply_entry_def case_prod_unfold Let_def split: option.split)
qed

lemma place_apply_entry [simp]: "place_of (snd (apply_entry env i e a)) = (place_of a)\<lparr>pl_applied := i\<rparr>"
  by (simp add: apply_entry_def case_prod_unfold Let_def split: option.split)

lemma apply_loop_place:
  assumes "bounded (place_of a)"
  shows "fst (snd (apply_loop env a))" "place_of (snd (snd (apply_loop env a))) = (place_of a)\<lparr>pl_applied := ra_commit_index a\<rparr>"
proof -
  have "bounded (place_of a) \<Longrightarrow> fst (snd (apply_loop env a)) \<and>
      place_of (snd (snd (apply_loop env a))) = (place_of a)\<lparr>pl_applied := ra_commit_index a\<rparr>" for a
  proof (induction "unat (ra_commit_index a) - unat (ra_last_applied a)" arbitrary: a)
    case 0
    then have "ra_last_applied a = ra_commit_index a" by (auto simp: bounded_def word_le_nat_alt word_unat_eq_iff)
    then show ?case by (simp add: apply_loop_done)
  next
    case (Suc n)
    define e where "e = ra_log a ! (unat (ra_last_applied a) - unat (ra_snapshot_index a))"
    define b where "b = snd (apply_entry env (ra_last_applied a + 1) e a)"
    have less: "ra_last_applied a < ra_commit_index a" using Suc.hyps(2) by (simp add: word_less_nat_alt)
    have i: "unat (ra_last_applied a + 1) = unat (ra_last_applied a) + 1" using less by (rule unat_plus_one_less)
    have pb: "place_of b = (place_of a)\<lparr>pl_applied := ra_last_applied a + 1\<rparr>" by (simp add: b_def)
    then have sel: "ra_commit_index b = ra_commit_index a" "ra_last_applied b = ra_last_applied a + 1"
      by (metis place_sel(6) place.select_convs(6) place.update_convs(7) place.surjective,
          metis place_sel(7) place.select_convs(7) place.update_convs(7) place.surjective)
    have "bounded (place_of b)"
      using Suc.prems less i by (auto simp: pb bounded_def word_le_nat_alt word_less_nat_alt)
    then have IH: "fst (snd (apply_loop env b))" "place_of (snd (snd (apply_loop env b))) = (place_of b)\<lparr>pl_applied := ra_commit_index b\<rparr>"
      using Suc.hyps(1) [of b] Suc.hyps(2) sel i by auto
    have "apply_loop env a = (case (fst (apply_entry env (ra_last_applied a + 1) e a), b) of
       (finished, a) \<Rightarrow> (case apply_loop env a of (rest, ok, b) \<Rightarrow> (finished @ rest, ok, b)))"
      using apply_loop_round [OF less, of env] Suc.prems by (simp add: bounded_def e_def b_def)
    then show ?case using IH pb sel by (simp add: case_prod_unfold)
  qed
  then show "fst (snd (apply_loop env a))" "place_of (snd (snd (apply_loop env a))) = (place_of a)\<lparr>pl_applied := ra_commit_index a\<rparr>"
    using assms by blast+
qed

lemma log_at_drop:
  assumes "unat j = unat (pl_index p) + k" "k \<le> length (pl_log p)"
  shows "unat j < i \<Longrightarrow> log_at i (p\<lparr>pl_index := j, pl_sterm := t, pl_state := s, pl_log := drop k (pl_log p)\<rparr>) = log_at i p"
  using assms by (auto simp: log_at_def add.commute intro!: arg_cong [where f = "nth (pl_log p)"])

text \<open>The snapshot writer: what it leaves on the disk when it fails, and when it succeeds.\<close>

lemma persist_snapshot_place:
  assumes "persist_snapshot env operation snap lg a = (ok, b)"
  obtains "place_of b = place_of a" "ok \<longrightarrow> ra_disk a = None"
  | d d' where "ra_disk a = Some d" "place_of b = (place_of a)\<lparr>pl_disk := Some d'\<rparr>" "du_snapshot d' = Some snap"
      "du_meta d' = du_meta d" "ok \<longrightarrow> du_log d' = lg \<and> du_len d' = length lg"
proof -
  have "place_of b = place_of a \<and> (ok \<longrightarrow> ra_disk a = None) \<or> (\<exists>d d'. ra_disk a = Some d \<and>
      place_of b = (place_of a)\<lparr>pl_disk := Some d'\<rparr> \<and> du_snapshot d' = Some snap \<and> du_meta d' = du_meta d \<and>
      (ok \<longrightarrow> du_log d' = lg \<and> du_len d' = length lg))"
  proof (cases "ra_disk a")
    case (Some d)
    then obtain d' where "(ok, b) = (False, a) \<or> b = a\<lparr>ra_disk := Some d'\<rparr> \<and> du_snapshot d' = Some snap \<and>
        du_meta d' = du_meta d \<and> (ok \<longrightarrow> du_log d' = lg \<and> du_len d' = length lg)"
      using assms by (fastforce simp: persist_snapshot_def disk_rewrite_def Let_def split: write_result.splits)
    then show ?thesis using Some by auto
  qed (use assms in \<open>simp add: persist_snapshot_def\<close>)
  then show thesis using that by blast
qed

lemma compacted:
  assumes pl: "placed (place_of a)" and free: "ra_storage_fault a = None"
    and b: "persist_snapshot env operation snap lg a = (ok, b)"
    and k: "unat (ra_last_applied a) = unat (ra_snapshot_index a) + k" "lg = drop k (ra_log a)"
    and snap: "snap = \<lparr>ps_last_included_index = ra_last_applied a, ps_last_included_term = t, ps_state = st\<rparr>"
  shows "\<not> ok \<Longrightarrow> placed (place_of (fail_storage operation b)) \<and> keeps (place_of a) (place_of (fail_storage operation b))"
    "ok \<Longrightarrow> c = b\<lparr>ra_log := lg, ra_snapshot_index := ra_last_applied a, ra_snapshot_term := t, ra_snapshot_state := st\<rparr> \<Longrightarrow>
      placed (place_of c) \<and> keeps (place_of a) (place_of c)"
proof -
  let ?q = "place_of a"
  have bnd: "ra_snapshot_index a \<le> ra_last_applied a" "ra_last_applied a = ra_commit_index a"
    "unat (ra_commit_index a) \<le> unat (ra_snapshot_index a) + length (ra_log a)" "ra_current_term a \<noteq> 0"
    "log_from (unat (ra_snapshot_index a)) (ra_log a)" "unat (ra_snapshot_index a) + length (ra_log a) < 2 ^ 64"
    using pl free by (auto simp: placed_def bounded_def indexed_def)
  have snapd: "holds_committed ?q d'" if "du_snapshot d' = Some snap" for d'
    using that bnd(2) snap by (simp add: holds_committed_def snapshot_index_of_def)
  show "placed (place_of (fail_storage operation b)) \<and> keeps ?q (place_of (fail_storage operation b))" if "\<not> ok"
    using b
  proof (cases rule: persist_snapshot_place)
    case 1
    then show ?thesis using placed_fault [OF pl] by simp
  next
    case (2 d d')
    then show ?thesis using moves_faulted [OF pl, of "Some d'"] snapd by simp
  qed
  show "placed (place_of c) \<and> keeps ?q (place_of c)"
    if "ok" "c = b\<lparr>ra_log := lg, ra_snapshot_index := ra_last_applied a, ra_snapshot_term := t, ra_snapshot_state := st\<rparr>"
  proof -
    let ?r = "?q\<lparr>pl_index := ra_last_applied a, pl_sterm := t, pl_state := st, pl_log := lg\<rparr>"
    have kl: "k \<le> length (ra_log a)" using k(1) bnd(2,3) by simp
    have at: "log_at i ?r = log_at i ?q" if "unat (ra_last_applied a) < i" for i
      using log_at_drop [of "ra_last_applied a" ?q k i st t] that k kl by simp
    have ix: "indexed ?r" "bounded ?r"
      using bnd k kl log_from_drop [OF bnd(5) kl] by (auto simp: indexed_def bounded_def word_le_nat_alt)
    have kp: "keeps ?q ?r" using at bnd by (simp add: keeps_def)
    have disk: "placed (?r\<lparr>pl_disk := dd\<rparr>) \<and> keeps ?q (?r\<lparr>pl_disk := dd\<rparr>)" if "\<And>d. dd = Some d \<Longrightarrow> synced ?r d" for dd
      using that ix kp synced_holds [OF _ ix(2)] free bnd by (auto simp: placed_def keeps_def)
    show ?thesis
      using b
    proof (cases rule: persist_snapshot_place)
      case 1
      have "place_of c = ?r\<lparr>pl_disk := None\<rparr>" using 1 that by (simp add: place_of_def)
      then show ?thesis using disk [of None] by simp
    next
      case (2 d d')
      have "place_of c = ?r\<lparr>pl_disk := Some d'\<rparr>" using 2 that by (simp add: place_of_def)
      moreover have "synced ?q d" using pl free 2(1) by (simp add: placed_def)
      then have "synced ?r d'" using 2 that(1) snap bnd by (auto simp: synced_def max_def split: if_splits)
      ultimately show ?thesis using disk [of "Some d'"] by simp
    qed
  qed
qed

lemma moves_compact:
  assumes "placed (place_of a)" "ra_storage_fault a = None"
  shows "placed (place_of (maybe_compact env a)) \<and> keeps (place_of a) (place_of (maybe_compact env a))"
proof (cases "tm_snapshot_threshold (ra_timing a) = 0 \<or>
    sat_sub (ra_last_applied a) (ra_snapshot_index a) < tm_snapshot_threshold (ra_timing a) \<or> isl (snapshot (rv_to_vec env) (ra_state a))")
  case True
  then have "maybe_compact env a = a" by (auto simp: maybe_compact_def Let_def split: sum.splits)
  then show ?thesis using assms by simp
next
  case False
  then obtain st where st: "snapshot (rv_to_vec env) (ra_state a) = Inr st" by (cases "snapshot (rv_to_vec env) (ra_state a)") auto
  define k where "k = unat (sat_sub (ra_last_applied a) (ra_snapshot_index a))"
  define snap where "snap = \<lparr>ps_last_included_index = ra_last_applied a,
    ps_last_included_term = term_at (ra_last_applied a) a, ps_state = st\<rparr>"
  obtain ok b where b: "persist_snapshot env ''persisting compacted snapshot'' snap (drop k (ra_log a)) a = (ok, b)" by fastforce
  have "ra_snapshot_index a \<le> ra_last_applied a" using assms(1) by (simp add: placed_def bounded_def)
  then have k: "unat (ra_last_applied a) = unat (ra_snapshot_index a) + k"
    by (auto simp: k_def sat_sub_def unat_sub word_le_nat_alt word_less_nat_alt)
  show ?thesis
    using compacted [OF assms b k refl snap_def] False st b
    unfolding maybe_compact_def by (simp add: Let_def case_prod_unfold snap_def flip: k_def)
qed

text \<open>\<open>apply_committed\<close> on an actor that has just raised its commit index.\<close>

lemma applied_place:
  assumes "indexed (place_of a)" "bounded (place_of a)" "ra_storage_fault a = None" "\<And>d. ra_disk a = Some d \<Longrightarrow> synced (place_of a) d"
    "ra_current_term a \<noteq> 0"
  shows "placed (place_of (apply_committed env a)) \<and> keeps (place_of a) (place_of (apply_committed env a))"
proof -
  define b where "b = snd (snd (apply_loop env a))"
  have pb: "place_of b = (place_of a)\<lparr>pl_applied := ra_commit_index a\<rparr>" and ok: "fst (snd (apply_loop env a))"
    using apply_loop_place [OF assms(2), of env] by (simp_all add: b_def)
  have free: "ra_storage_fault b = None" using arg_cong [OF pb, of pl_fault] assms(3) by simp
  have "placed (place_of b)"
    using assms synced_holds [OF _ assms(2)] unfolding pb by (auto simp: placed_def bounded_def)
  then have mc: "placed (place_of (maybe_compact env b)) \<and> keeps (place_of b) (place_of (maybe_compact env b))"
    using free by (rule moves_compact)
  have "keeps (place_of a) (place_of b)" unfolding pb by (simp add: keeps_def)
  moreover have "place_of (apply_committed env a) = place_of (maybe_compact env b)"
    using ok by (simp add: apply_committed_def Let_def case_prod_unfold b_def)
  ultimately show ?thesis using mc keeps_trans by metis
qed

subsection \<open>Committing\<close>

lemma committed:
  assumes pl: "placed (place_of a)" and free: "ra_storage_fault a = None"
    and n: "ra_commit_index a \<le> n" "unat n \<le> unat (ra_snapshot_index a) + length (ra_log a)"
    and b: "persist_hard_state_at env operation n a = (ok, b)"
  shows "\<not> ok \<Longrightarrow> moves (place_of a) (place_of (fail_storage operation' b))"
    "ok \<Longrightarrow> moves (place_of a) (place_of (apply_committed env (b\<lparr>ra_commit_index := n\<rparr>)))"
proof -
  let ?q = "place_of a"
  show "moves ?q (place_of (fail_storage operation' b))"
    using b
  proof (cases rule: persist_at_place)
    case 1
    then show ?thesis using faulted_moves [of ?q ?q] by simp
  next
    case (2 d d')
    have "holds_committed ?q d" using pl 2(1) by (simp add: placed_def)
    then have "holds_committed ?q d'" using 2 n(1) by (auto simp: holds_committed_def le_max_iff_disj)
    then show ?thesis using moves_faulted [OF pl, of "Some d'"] 2 by (simp add: moves_def)
  qed
  show "moves ?q (place_of (apply_committed env (b\<lparr>ra_commit_index := n\<rparr>)))" if "ok"
  proof (rule movesI)
    let ?b = "b\<lparr>ra_commit_index := n\<rparr>"
    obtain disk where pb: "place_of b = ?q\<lparr>pl_disk := disk\<rparr>"
      and sy: "\<And>d. disk = Some d \<Longrightarrow> synced (?q\<lparr>pl_disk := disk, pl_commit := n\<rparr>) d"
      using b
    proof (cases rule: persist_at_place)
      case 1
      then show ?thesis using that [of None] \<open>ok\<close> by (simp add: place_of_def)
    next
      case (2 d d')
      have "synced ?q d" "ra_snapshot_index a \<le> n" using pl free n(1) 2(1) by (auto simp: placed_def bounded_def)
      then have "synced (?q\<lparr>pl_disk := Some d', pl_commit := n\<rparr>) d'" using 2 by (auto simp: synced_def max_def split: option.splits)
      then show ?thesis using that [of "Some d'"] 2 by simp
    qed
    have fb: "ra_storage_fault b = None" "ra_disk b = disk" "ra_current_term b \<noteq> 0"
      using arg_cong [OF pb, of pl_fault] arg_cong [OF pb, of pl_disk] arg_cong [OF pb, of pl_term] free pl
      by (simp_all add: placed_def)
    have "bounded (?q\<lparr>pl_commit := n\<rparr>)" "indexed ?q" using pl n by (auto simp: placed_def bounded_def)
    moreover have "place_of ?b = ?q\<lparr>pl_commit := n, pl_disk := disk\<rparr>" using pb by simp
    ultimately have "placed (place_of (apply_committed env ?b)) \<and> keeps (place_of ?b) (place_of (apply_committed env ?b))"
      by (intro applied_place) (use fb sy pb in \<open>simp_all add: bounded_def\<close>)
    moreover have "keeps ?q (place_of ?b)" using pb n(1) by (simp add: keeps_def)
    ultimately show "placed (place_of (apply_committed env ?b)) \<and> keeps ?q (place_of (apply_committed env ?b))"
      using keeps_trans by blast
  qed
qed

lemma moves_apply:
  assumes "placed p \<Longrightarrow> moves p q"
  shows "moves p q"
  using assms by (auto simp: moves_def)

lemma last_index:
  assumes "indexed (place_of a)"
  shows "unat (last_log_index a) = unat (ra_snapshot_index a) + length (ra_log a)"
proof -
  have "unat (word_of_nat (length (ra_log a)) :: u64) = length (ra_log a)"
    using assms by (intro unat_of_nat_small) (simp add: indexed_def)
  then show ?thesis
    using assms by (auto simp: last_log_index_def sat_add_def indexed_def unat_word_ariths)
qed

lemma term_at_bound:
  assumes "indexed (place_of a)" "term_at n a \<noteq> 0" "ra_snapshot_index a < n"
  shows "unat n \<le> unat (ra_snapshot_index a) + length (ra_log a)"
  using assms by (auto simp: term_at_def Let_def unat_sub word_less_nat_alt word_le_nat_alt split: if_splits)

subsection \<open>Writing the log\<close>

text \<open>A log that agrees with the old one on the committed entries.\<close>

definition relogs :: "place \<Rightarrow> raft_entry list \<Rightarrow> bool" where
  "relogs p lg \<longleftrightarrow> log_from (unat (pl_index p)) lg \<and> unat (pl_index p) + length lg < 2 ^ 64 \<and>
     unat (pl_commit p) \<le> unat (pl_index p) + length lg \<and>
     (\<forall>i\<le>unat (pl_commit p). log_at i (p\<lparr>pl_log := lg\<rparr>) = log_at i p)"

lemma relogs_append:
  "placed p \<Longrightarrow> log_from (unat (pl_index p)) (pl_log p @ ys) \<Longrightarrow> unat (pl_index p) + length (pl_log p @ ys) < 2 ^ 64 \<Longrightarrow>
     relogs p (pl_log p @ ys)"
  by (auto simp: relogs_def placed_def bounded_def log_at_def nth_append)

lemma relogs_take:
  "placed p \<Longrightarrow> log_from (unat (pl_index p)) (take k (pl_log p) @ ys) \<Longrightarrow>
     unat (pl_index p) + length (take k (pl_log p) @ ys) < 2 ^ 64 \<Longrightarrow> k \<le> length (pl_log p) \<Longrightarrow>
     unat (pl_commit p) \<le> unat (pl_index p) + k \<Longrightarrow> relogs p (take k (pl_log p) @ ys)"
  by (auto simp: relogs_def placed_def bounded_def log_at_def nth_append)

lemma relogged:
  assumes pl: "placed p" and re: "relogs p lg" and disk: "\<And>d. disk = Some d \<Longrightarrow> synced (p\<lparr>pl_log := lg\<rparr>) d"
  shows "placed (p\<lparr>pl_log := lg, pl_disk := disk\<rparr>) \<and> keeps p (p\<lparr>pl_log := lg, pl_disk := disk\<rparr>)"
proof -
  have "indexed (p\<lparr>pl_log := lg\<rparr>)" "bounded (p\<lparr>pl_log := lg\<rparr>)"
    using pl re by (auto simp: relogs_def placed_def indexed_def bounded_def)
  then show ?thesis
    using pl re disk synced_holds [of "p\<lparr>pl_log := lg\<rparr>"] by (auto simp: placed_def keeps_def relogs_def)
qed

text \<open>A failed log write: the old entries up to the commit index are still in the file.\<close>

lemma relog_failed:
  assumes pl: "placed p" and re: "relogs p lg"
    and disk: "\<And>d. disk = Some d \<Longrightarrow> \<exists>d0. pl_disk p = Some d0 \<and> du_meta d = du_meta d0 \<and> du_snapshot d = du_snapshot d0 \<and>
      (set (du_log d0) \<subseteq> set (du_log d) \<or> \<not> pl_fault p \<and> du_log d = lg)"
  shows "placed (p\<lparr>pl_log := lg, pl_disk := disk, pl_fault := True\<rparr>) \<and> keeps p (p\<lparr>pl_log := lg, pl_disk := disk, pl_fault := True\<rparr>)"
proof -
  let ?q = "p\<lparr>pl_log := lg\<rparr>"
  have q: "indexed ?q" "bounded ?q" "keeps p ?q"
    using pl re by (auto simp: relogs_def placed_def indexed_def bounded_def keeps_def)
  have at: "log_at i ?q = log_at i p" if "i \<le> unat (pl_commit p)" for i using re that by (simp add: relogs_def)
  have "holds_committed ?q d" if d: "disk = Some d" for d
  proof -
    obtain d0 where d0: "pl_disk p = Some d0" "du_meta d = du_meta d0" "du_snapshot d = du_snapshot d0"
      "set (du_log d0) \<subseteq> set (du_log d) \<or> \<not> pl_fault p \<and> du_log d = lg" using disk [OF d] by blast
    have h: "holds_committed p d0" using pl d0(1) by (simp add: placed_def)
    show ?thesis
    proof (cases "set (du_log d0) \<subseteq> set (du_log d)")
      case True
      then show ?thesis using h d0(2,3) at by (fastforce simp: holds_committed_def)
    next
      case False
      then have lg: "\<not> pl_fault p" "du_log d = lg" using d0(4) by auto
      then have "synced p d0" using pl d0(1) by (simp add: placed_def)
      then have "snapshot_index_of (du_snapshot d) = pl_index p" using synced_snapshot d0(3) by simp
      then show ?thesis
        using h d0(2,3) lg(2) re by (auto simp: holds_committed_def relogs_def log_at_def)
    qed
  qed
  then show ?thesis using q pl by (auto simp: placed_def keeps_def)
qed

lemma log_append_place:
  assumes pl: "placed (place_of a)" and free: "ra_storage_fault a = None"
    and re: "log_from (unat (ra_snapshot_index a)) (ra_log a @ ys)" "unat (ra_snapshot_index a) + length (ra_log a @ ys) < 2 ^ 64"
    and b: "persist_log_append env operation (a\<lparr>ra_log := ra_log a @ ys\<rparr>) = (ok, b)"
  shows "ok \<Longrightarrow> placed (place_of b) \<and> keeps (place_of a) (place_of b) \<and> ra_storage_fault b = None \<and>
      ra_log b = ra_log a @ ys \<and> ra_snapshot_index b = ra_snapshot_index a \<and> ra_commit_index b = ra_commit_index a"
    "\<not> ok \<Longrightarrow> placed (place_of (fail_storage operation' b)) \<and> keeps (place_of a) (place_of (fail_storage operation' b))"
proof -
  let ?q = "place_of a" and ?lg = "ra_log a @ ys"
  have rl: "relogs ?q ?lg" using relogs_append [OF pl, of ys] re by simp
  have sy: "synced ?q d" if "ra_disk a = Some d" for d using pl free that by (simp add: placed_def)
  obtain disk where pb: "place_of b = ?q\<lparr>pl_log := ?lg, pl_disk := disk\<rparr>"
    and good: "ok \<Longrightarrow> \<forall>d. disk = Some d \<longrightarrow> synced (?q\<lparr>pl_log := ?lg\<rparr>) d"
    and bad: "\<forall>d. disk = Some d \<longrightarrow> (\<exists>d0. ra_disk a = Some d0 \<and> du_meta d = du_meta d0 \<and> du_snapshot d = du_snapshot d0 \<and>
      set (du_log d0) \<subseteq> set (du_log d))"
  proof (cases "ra_disk a")
    case None
    then show thesis using that [of None] b by (auto simp: persist_log_append_def place_of_def)
  next
    case (Some d)
    have s: "du_len d = length (ra_log a)" "du_log d = ra_log a" using sy [OF Some] by (simp_all add: synced_def)
    have sy': "synced (?q\<lparr>pl_log := ?lg\<rparr>) (d\<lparr>du_log := ?lg, du_len := length ?lg\<rparr>)"
      using sy [OF Some] by (auto simp: synced_def split: option.splits)
    show thesis
      using b Some s sy' sy [OF Some]
        that [of "Some d"] that [of "Some (d\<lparr>du_log := ?lg, du_len := length ?lg\<rparr>)"]
        that [of "Some (d\<lparr>du_log := ra_log a @ take (rv_torn env) ys\<rparr>)"]
      by (auto simp: persist_log_append_def Let_def place_of_def split: write_result.splits if_splits)
  qed
  have sel: "ra_storage_fault b = None" "ra_log b = ?lg" "ra_snapshot_index b = ra_snapshot_index a" "ra_commit_index b = ra_commit_index a"
    using arg_cong [OF pb, of pl_fault] arg_cong [OF pb, of pl_log] arg_cong [OF pb, of pl_index] arg_cong [OF pb, of pl_commit] free
    by simp_all
  show "placed (place_of b) \<and> keeps ?q (place_of b) \<and> ra_storage_fault b = None \<and>
      ra_log b = ?lg \<and> ra_snapshot_index b = ra_snapshot_index a \<and> ra_commit_index b = ra_commit_index a" if "ok"
    using relogged [OF pl rl, of disk] good [OF that] pb sel by simp
  show "placed (place_of (fail_storage operation' b)) \<and> keeps ?q (place_of (fail_storage operation' b))"
  proof -
    have "placed (?q\<lparr>pl_log := ?lg, pl_disk := disk, pl_fault := True\<rparr>) \<and> keeps ?q (?q\<lparr>pl_log := ?lg, pl_disk := disk, pl_fault := True\<rparr>)"
      by (rule relog_failed [OF pl rl]) (use bad in auto)
    then show ?thesis using pb by simp
  qed
qed

lemma log_rewrite_place:
  assumes pl: "placed (place_of a)" and free: "ra_storage_fault a = None" and re: "relogs (place_of a) lg"
    and b: "persist_log_rewrite env operation (a\<lparr>ra_log := lg\<rparr>) = (ok, b)"
  shows "ok \<Longrightarrow> placed (place_of b) \<and> keeps (place_of a) (place_of b) \<and> ra_storage_fault b = None \<and>
      ra_log b = lg \<and> ra_snapshot_index b = ra_snapshot_index a \<and> ra_commit_index b = ra_commit_index a"
    "\<not> ok \<Longrightarrow> placed (place_of (fail_storage operation' b)) \<and> keeps (place_of a) (place_of (fail_storage operation' b))"
proof -
  let ?q = "place_of a"
  have sy: "synced ?q d" if "ra_disk a = Some d" for d using pl free that by (simp add: placed_def)
  obtain disk where pb: "place_of b = ?q\<lparr>pl_log := lg, pl_disk := disk\<rparr>"
    and good: "ok \<Longrightarrow> \<forall>d. disk = Some d \<longrightarrow> synced (?q\<lparr>pl_log := lg\<rparr>) d"
    and bad: "\<forall>d. disk = Some d \<longrightarrow> (\<exists>d0. ra_disk a = Some d0 \<and> du_meta d = du_meta d0 \<and> du_snapshot d = du_snapshot d0 \<and>
      (du_log d = du_log d0 \<or> du_log d = lg))"
  proof (cases "ra_disk a")
    case None
    then show thesis using that [of None] b by (auto simp: persist_log_rewrite_def place_of_def)
  next
    case (Some d)
    have sy': "synced (?q\<lparr>pl_log := lg\<rparr>) (d\<lparr>du_log := lg, du_len := length lg\<rparr>)"
      using sy [OF Some] by (auto simp: synced_def split: option.splits)
    show thesis
      using b Some sy' that [of "Some d"] that [of "Some (d\<lparr>du_log := lg, du_len := length lg\<rparr>)"]
        that [of "Some (d\<lparr>du_log := lg\<rparr>)"]
      by (auto simp: persist_log_rewrite_def disk_rewrite_def place_of_def split: write_result.splits)
  qed
  have sel: "ra_storage_fault b = None" "ra_log b = lg" "ra_snapshot_index b = ra_snapshot_index a" "ra_commit_index b = ra_commit_index a"
    using arg_cong [OF pb, of pl_fault] arg_cong [OF pb, of pl_log] arg_cong [OF pb, of pl_index] arg_cong [OF pb, of pl_commit] free
    by simp_all
  show "placed (place_of b) \<and> keeps ?q (place_of b) \<and> ra_storage_fault b = None \<and>
      ra_log b = lg \<and> ra_snapshot_index b = ra_snapshot_index a \<and> ra_commit_index b = ra_commit_index a" if "ok"
    using relogged [OF pl re, of disk] good [OF that] pb sel by simp
  show "placed (place_of (fail_storage operation' b)) \<and> keeps ?q (place_of (fail_storage operation' b))"
  proof -
    have "placed (?q\<lparr>pl_log := lg, pl_disk := disk, pl_fault := True\<rparr>) \<and> keeps ?q (?q\<lparr>pl_log := lg, pl_disk := disk, pl_fault := True\<rparr>)"
      by (rule relog_failed [OF pl re]) (use bad free in auto)
    then show ?thesis using pb by simp
  qed
qed

end
