(* ===== verification/Raft_Election.thy ===== *)
theory Raft_Election
  imports Raft_Core
begin

section \<open>One leader per term\<close>

text \<open>
  A cluster is the actors of one shard, the answers to vote requests, and two histories: the votes that were ever on a
  disk and the leaders that ever were. Any message may arrive at any time, any number of times, with any content except
  that a granted vote is one its voter gave; every write may fail; every node may restart from its disk. Terms stay
  below the largest word, where the next election would wrap.
\<close>

subsection \<open>Clusters\<close>

text \<open>A start from a disk: \<open>ShardStore::open\<close> followed by \<open>ShardActor::new\<close>.\<close>

definition reopen :: "durable \<Rightarrow> durable" where
  "reopen d = d\<lparr>du_log := suffix_after (du_snapshot d) (du_log d), du_len := length (suffix_after (du_snapshot d) (du_log d))\<rparr>"

definition boots :: "u32 \<Rightarrow> string \<Rightarrow> string list \<Rightarrow> raft_timing \<Rightarrow> durable \<Rightarrow> shard \<Rightarrow> bool" where
  "boots shard_id i peers timing d a \<longleftrightarrow> disk_ok (du_meta d) (du_snapshot d) (du_log d) \<and>
     (\<exists>env now_nanos. actor_new env now_nanos shard_id i peers timing (Some (reopen d))
       (recovered_of (du_meta d) (du_snapshot d) (du_log d)) = Inr a)"

record cluster =
  cl_nodes :: "string \<Rightarrow> shard"
  cl_answers :: "(string \<times> string \<times> vote_resp) set"
  cl_votes :: "(string \<times> u64 \<times> string) set"
  cl_leaders :: "(u64 \<times> string) set"

definition durable_votes :: "string \<Rightarrow> shard \<Rightarrow> (string \<times> u64 \<times> string) set" where
  "durable_votes i a = {(i, me_current_term m, v) |m v. co_meta (core_of a) = Some m \<and> me_voted_for m = Some v}"

definition leads :: "string \<Rightarrow> shard \<Rightarrow> (u64 \<times> string) set" where
  "leads i a = (if ra_role a = Leader then {(ra_current_term a, i)} else {})"

definition observe :: "string \<Rightarrow> shard \<Rightarrow> (string \<times> string \<times> vote_resp) set \<Rightarrow> cluster \<Rightarrow> cluster" where
  "observe i a given s = s\<lparr>cl_nodes := (cl_nodes s)(i := a), cl_answers := cl_answers s \<union> given,
     cl_votes := cl_votes s \<union> durable_votes i a, cl_leaders := cl_leaders s \<union> leads i a\<rparr>"

fun answers_of :: "string \<Rightarrow> shard_msg \<Rightarrow> shard_answer \<Rightarrow> (string \<times> string \<times> vote_resp) set" where
  "answers_of i (RequestVote req) (Voted resp) = (if vq_pre_vote req then {} else {(i, vq_candidate_id req, resp)})"
| "answers_of i _ _ = {}"

fun genuine :: "cluster \<Rightarrow> string \<Rightarrow> shard_msg \<Rightarrow> bool" where
  "genuine s i (VoteReply sender pre_vote resp) = (vr_granted resp \<and> \<not> pre_vote \<longrightarrow> (sender, i, resp) \<in> cl_answers s)"
| "genuine s i _ = True"

definition member_of :: "string set \<Rightarrow> string \<Rightarrow> shard \<Rightarrow> bool" where
  "member_of M i a \<longleftrightarrow> ra_node_id a = i \<and> distinct (ra_peers a) \<and> set (ra_peers a) = M - {i}"

definition cluster_start :: "string set \<Rightarrow> cluster \<Rightarrow> bool" where
  "cluster_start M s \<longleftrightarrow> finite M \<and> 2 \<le> card M \<and> cl_answers s = {} \<and> cl_leaders s = {} \<and>
     cl_votes s = (\<Union>i\<in>M. durable_votes i (cl_nodes s i)) \<and>
     (\<forall>i\<in>M. member_of M i (cl_nodes s i) \<and> (\<exists>shard_id timing d. boots shard_id i (ra_peers (cl_nodes s i)) timing d (cl_nodes s i)))"

inductive cluster_step :: "string set \<Rightarrow> cluster \<Rightarrow> cluster \<Rightarrow> bool" for M where
  Deliver: "i \<in> M \<Longrightarrow> ra_current_term (cl_nodes s i) \<noteq> - 1 \<Longrightarrow> genuine s i msg \<Longrightarrow>
     handle env msg (cl_nodes s i) = (ans, a) \<Longrightarrow> cluster_step M s (observe i a (answers_of i msg ans) s)"
| Restart: "i \<in> M \<Longrightarrow> ra_disk (cl_nodes s i) = Some d \<Longrightarrow>
     boots (ra_shard_id (cl_nodes s i)) i (ra_peers (cl_nodes s i)) timing d a \<Longrightarrow> cluster_step M s (observe i a {} s)"

definition cluster_reach :: "string set \<Rightarrow> cluster \<Rightarrow> bool" where
  "cluster_reach M s \<longleftrightarrow> (\<exists>s0. cluster_start M s0 \<and> (cluster_step M)\<^sup>*\<^sup>* s0 s)"

text \<open>A restarted actor is steady with respect to the disk it starts from.\<close>

lemma boots_core:
  assumes "boots shard_id i peers timing d b" "peers \<noteq> []"
  shows "steady \<lparr>co_id = i, co_peers = peers, co_meta = Some (du_meta d), co_term = max (me_current_term (du_meta d)) 1,
      co_vote = me_voted_for (du_meta d), co_role = Follower, co_votes = {||}\<rparr> (core_of b)"
  using assms
  by (auto simp: boots_def actor_new_def recovered_of_def reopen_def Let_def split: option.splits sum.splits if_splits
      intro!: steadys) (simp_all add: core_of_def)

lemma steady_follower: "steady c c' \<Longrightarrow> co_role c = Follower \<Longrightarrow> co_role c' = Follower"
  by (auto simp: steady_def)

lemma boots_steady:
  assumes "boots shard_id (ra_node_id a) (ra_peers a) timing d b" "ra_disk a = Some d" "ra_peers a \<noteq> []"
  shows "steady (core_of a) (core_of b)" "ra_role b = Follower"
proof -
  let ?c = "\<lparr>co_id = ra_node_id a, co_peers = ra_peers a, co_meta = Some (du_meta d), co_term = max (me_current_term (du_meta d)) 1,
      co_vote = me_voted_for (du_meta d), co_role = Follower, co_votes = {||}\<rparr>"
  have st: "steady ?c (core_of b)" using boots_core [OF assms(1,3)] .
  have "steady (core_of a) ?c"
    using assms(2) by (auto simp: steady_def sound_def ahead_def max_def)
  then show "steady (core_of a) (core_of b)" using st by (rule steady_trans)
  show "ra_role b = Follower" using steady_follower [OF st] by simp
qed

lemma boots_ahead:
  assumes "boots shard_id i peers timing d b" "peers \<noteq> []"
  shows "ahead (core_of b)" "ra_role b = Follower" "ra_node_id b = i" "ra_peers b = peers"
  using boots_core [OF assms] by (auto simp: steady_def sound_def ahead_def max_def)

subsection \<open>The invariant\<close>

definition holds :: "meta \<Rightarrow> u64 \<Rightarrow> string \<Rightarrow> bool" where
  "holds m t v \<longleftrightarrow> t < me_current_term m \<or> t = me_current_term m \<and> me_voted_for m = Some v"

definition meta_of :: "shard \<Rightarrow> meta" where "meta_of a = the (co_meta (core_of a))"

lemma durable_votesD:
  "(j, t, v) \<in> durable_votes i a \<Longrightarrow> j = i \<and> t = me_current_term (meta_of a) \<and> me_voted_for (meta_of a) = Some v"
  unfolding durable_votes_def meta_of_def by fastforce

lemma holds_keeps: "keeps_votes m m' \<Longrightarrow> holds m t v \<Longrightarrow> holds m' t v"
  by (auto simp: keeps_votes_def holds_def)

definition nodes_ok :: "string set \<Rightarrow> cluster \<Rightarrow> bool" where
  "nodes_ok M s \<longleftrightarrow> (\<forall>i\<in>M. member_of M i (cl_nodes s i) \<and> ahead (core_of (cl_nodes s i)))"

text \<open>A vote in the history is still on its disk, or the disk has moved to a later term; no two votes of one node and term differ.\<close>

definition votes_ok :: "string set \<Rightarrow> cluster \<Rightarrow> bool" where
  "votes_ok M s \<longleftrightarrow> (\<forall>i t v. (i, t, v) \<in> cl_votes s \<longrightarrow> i \<in> M \<and> holds (meta_of (cl_nodes s i)) t v) \<and>
     (\<forall>i t v v'. (i, t, v) \<in> cl_votes s \<longrightarrow> (i, t, v') \<in> cl_votes s \<longrightarrow> v = v')"

definition answers_ok :: "cluster \<Rightarrow> bool" where
  "answers_ok s \<longleftrightarrow> (\<forall>j c resp. (j, c, resp) \<in> cl_answers s \<longrightarrow> vr_granted resp \<longrightarrow> (j, vr_term resp, c) \<in> cl_votes s)"

definition candidates_ok :: "string set \<Rightarrow> cluster \<Rightarrow> bool" where
  "candidates_ok M s \<longleftrightarrow> (\<forall>i\<in>M. ra_role (cl_nodes s i) = Candidate \<longrightarrow>
     (\<forall>v. v |\<in>| ra_votes (cl_nodes s i) \<longrightarrow> (v, ra_current_term (cl_nodes s i), i) \<in> cl_votes s))"

definition elected :: "string set \<Rightarrow> (string \<times> u64 \<times> string) set \<Rightarrow> u64 \<Rightarrow> string \<Rightarrow> bool" where
  "elected M V t i \<longleftrightarrow> (\<exists>Q. card M div 2 + 1 \<le> card Q \<and> (\<forall>q\<in>Q. (q, t, i) \<in> V))"

definition leaders_ok :: "string set \<Rightarrow> cluster \<Rightarrow> bool" where
  "leaders_ok M s \<longleftrightarrow> (\<forall>t i. (t, i) \<in> cl_leaders s \<longrightarrow> elected M (cl_votes s) t i) \<and>
     (\<forall>i\<in>M. ra_role (cl_nodes s i) = Leader \<longrightarrow> (ra_current_term (cl_nodes s i), i) \<in> cl_leaders s)"

definition cluster_ok :: "string set \<Rightarrow> cluster \<Rightarrow> bool" where
  "cluster_ok M s \<longleftrightarrow> nodes_ok M s \<and> votes_ok M s \<and> answers_ok s \<and> candidates_ok M s \<and> leaders_ok M s"

lemma elected_mono: "elected M V t i \<Longrightarrow> V \<subseteq> V' \<Longrightarrow> elected M V' t i"
  unfolding elected_def by blast

lemma members_card: "member_of M i a \<Longrightarrow> finite M \<Longrightarrow> i \<in> M \<Longrightarrow> majority a = card M div 2 + 1"
  by (auto simp: member_of_def majority_def members_def card_Diff_singleton distinct_card [symmetric] card_gt_0_iff Suc_diff_1)

lemma observe_sel [simp]:
  "cl_nodes (observe i a g s) = (cl_nodes s)(i := a)" "cl_answers (observe i a g s) = cl_answers s \<union> g"
  "cl_votes (observe i a g s) = cl_votes s \<union> durable_votes i a" "cl_leaders (observe i a g s) = cl_leaders s \<union> leads i a"
  by (simp_all add: observe_def)

text \<open>A sound move of one node keeps the invariant when its counted votes, its seat and its answers rest on votes.\<close>

lemma observe_ok:
  assumes ok: "cluster_ok M s" and i: "i \<in> M" and so: "sound (core_of (cl_nodes s i)) (core_of b)"
    and cand: "ra_role b = Candidate \<Longrightarrow> \<forall>v. v |\<in>| ra_votes b \<longrightarrow> (v, ra_current_term b, i) \<in> cl_votes s \<union> durable_votes i b"
    and lead: "ra_role b = Leader \<Longrightarrow> elected M (cl_votes s) (ra_current_term b) i"
    and given: "\<And>j c resp. (j, c, resp) \<in> g \<Longrightarrow> vr_granted resp \<Longrightarrow> (j, vr_term resp, c) \<in> durable_votes i b"
  shows "cluster_ok M (observe i b g s)"
proof -
  let ?a = "cl_nodes s i" and ?s = "observe i b g s"
  have ah: "ahead (core_of ?a)" and mem: "member_of M i ?a" using ok i by (auto simp: cluster_ok_def nodes_ok_def)
  then have b: "ahead (core_of b)" "keeps_votes (meta_of ?a) (meta_of b)"
      "ra_node_id b = ra_node_id ?a" "ra_peers b = ra_peers ?a"
    using so by (auto simp: sound_def meta_of_def simp del: core_sel(3))
  have "member_of M i b" using mem b(3,4) by (simp add: member_of_def)
  then have nodes: "nodes_ok M ?s" using ok b(1) by (auto simp: cluster_ok_def nodes_ok_def)
  have old: "j \<in> M \<and> holds (meta_of (cl_nodes ?s j)) t v" if "(j, t, v) \<in> cl_votes s" for j t v
    using ok that holds_keeps [OF b(2)] by (cases "j = i") (auto simp: cluster_ok_def votes_ok_def)
  have new: "j = i \<and> holds (meta_of b) t v" if "(j, t, v) \<in> durable_votes i b" for j t v
    using durable_votesD [OF that] by (simp add: holds_def)
  have uniq: "v = v'" if "(j, t, v) \<in> durable_votes i b" "holds (meta_of b) t v'" for j t v v'
    using durable_votesD [OF that(1)] that(2) by (simp add: holds_def)
  have all: "j \<in> M \<and> holds (meta_of (cl_nodes ?s j)) t v" if "(j, t, v) \<in> cl_votes ?s" for j t v
    using that old [of j t v] new [of j t v] i by auto
  have votes: "votes_ok M ?s"
    unfolding votes_ok_def
  proof (intro conjI allI impI)
    fix j t v assume "(j, t, v) \<in> cl_votes ?s"
    then show "j \<in> M" "holds (meta_of (cl_nodes ?s j)) t v" using all [of j t v] by auto
  next
    fix j t v v' assume v: "(j, t, v) \<in> cl_votes ?s" "(j, t, v') \<in> cl_votes ?s"
    show "v = v'"
    proof (cases "(j, t, v) \<in> cl_votes s \<and> (j, t, v') \<in> cl_votes s")
      case True
      then show ?thesis using ok unfolding cluster_ok_def votes_ok_def by blast
    next
      case False
      then have one: "(j, t, v) \<in> durable_votes i b \<or> (j, t, v') \<in> durable_votes i b" using v by auto
      then have "j = i" using new by blast
      then have "holds (meta_of b) t v" "holds (meta_of b) t v'" using all [OF v(1)] all [OF v(2)] by auto
      then show ?thesis using one uniq by blast
    qed
  qed
  have "answers_ok ?s" using ok given by (auto simp: cluster_ok_def answers_ok_def)
  moreover have "candidates_ok M ?s" using ok cand by (auto simp: cluster_ok_def candidates_ok_def)
  moreover have "leaders_ok M ?s"
    using ok lead elected_mono [of M "cl_votes s" _ _ "cl_votes ?s"]
    by (auto simp: cluster_ok_def leaders_ok_def leads_def split: if_splits)
  ultimately show ?thesis using nodes votes by (simp add: cluster_ok_def)
qed

lemma member_peers: "member_of M i a \<Longrightarrow> finite M \<Longrightarrow> 2 \<le> card M \<Longrightarrow> i \<in> M \<Longrightarrow> ra_peers a \<noteq> []"
proof
  assume a: "member_of M i a" "finite M" "2 \<le> card M" "i \<in> M" "ra_peers a = []"
  then have "M = {i}" by (auto simp: member_of_def)
  then show False using a(3) by simp
qed

lemma ahead_disk: "ahead (core_of a) \<Longrightarrow> ra_disk a \<noteq> None"
  by (auto simp: ahead_def split: option.splits)

lemma durable_votesI: "map_option du_meta (ra_disk a) = Some m \<Longrightarrow> me_voted_for m = Some v \<Longrightarrow> (i, me_current_term m, v) \<in> durable_votes i a"
  unfolding durable_votes_def by auto

lemma given_durable:
  assumes "handle env msg a = (ans, b)" "ra_disk a \<noteq> None" "(j, c, resp) \<in> answers_of i msg ans" "vr_granted resp"
  shows "(j, vr_term resp, c) \<in> durable_votes i b"
proof (cases msg)
  case (RequestVote req)
  then have h: "handle_request_vote env req a = (resp, b)" "\<not> vq_pre_vote req" "j = i" "c = vq_candidate_id req"
    using assms(1,3) by (cases "handle_request_vote env req a"; auto split: if_splits)+
  show ?thesis using granted_vote_is_durable [OF h(1) assms(4) h(2) assms(2)] durable_votesI [of b] h(3,4) by fastforce
qed (use assms(3) in auto)

text \<open>The four moves: a steady one, a campaign, a counted vote and a win.\<close>

lemma steady_ok:
  assumes ok: "cluster_ok M s" and i: "i \<in> M" and st: "steady (core_of (cl_nodes s i)) (core_of b)"
    and given: "\<And>j c resp. (j, c, resp) \<in> g \<Longrightarrow> vr_granted resp \<Longrightarrow> (j, vr_term resp, c) \<in> durable_votes i b"
  shows "cluster_ok M (observe i b g s)"
proof (rule observe_ok [OF ok i])
  show "sound (core_of (cl_nodes s i)) (core_of b)" using st by (simp add: steady_def)
  have same: "ra_role b = Follower \<or> ra_role b = ra_role (cl_nodes s i) \<and> ra_current_term b = ra_current_term (cl_nodes s i) \<and>
      ra_votes b = ra_votes (cl_nodes s i)"
    using st by (simp add: steady_def)
  show "\<forall>v. v |\<in>| ra_votes b \<longrightarrow> (v, ra_current_term b, i) \<in> cl_votes s \<union> durable_votes i b" if "ra_role b = Candidate"
    using same that ok i by (auto simp: cluster_ok_def candidates_ok_def)
  show "elected M (cl_votes s) (ra_current_term b) i" if "ra_role b = Leader"
    using same that ok i by (auto simp: cluster_ok_def leaders_ok_def)
qed (rule given)

lemma campaign_ok:
  assumes ok: "cluster_ok M s" and i: "i \<in> M" and ca: "campaigns (core_of (cl_nodes s i)) (core_of b)"
    and given: "\<And>j c resp. (j, c, resp) \<in> g \<Longrightarrow> vr_granted resp \<Longrightarrow> (j, vr_term resp, c) \<in> durable_votes i b"
  shows "cluster_ok M (observe i b g s)"
proof (rule observe_ok [OF ok i])
  have id: "ra_node_id (cl_nodes s i) = i" using ok i by (auto simp: cluster_ok_def nodes_ok_def member_of_def)
  show "sound (core_of (cl_nodes s i)) (core_of b)" using ca by (simp add: campaigns_def)
  show "\<forall>v. v |\<in>| ra_votes b \<longrightarrow> (v, ra_current_term b, i) \<in> cl_votes s \<union> durable_votes i b" if "ra_role b = Candidate"
    using ca that id durable_votesI [of b _ i i] by (fastforce simp: campaigns_def)
  show "elected M (cl_votes s) (ra_current_term b) i" if "ra_role b = Leader"
    using ca that by (auto simp: campaigns_def)
qed (rule given)

lemma ahead_seat: "ahead (c\<lparr>co_role := r, co_votes := vs\<rparr>) \<longleftrightarrow> ahead c"
  by (simp add: ahead_def split: option.split)

lemma win_ok:
  assumes ok: "cluster_ok M s" and M: "finite M" and i: "i \<in> M" and w: "wins sender resp (cl_nodes s i) (core_of b)"
    and g: "(sender, i, resp) \<in> cl_answers s" "vr_granted resp"
  shows "cluster_ok M (observe i b {} s)"
proof -
  let ?a = "cl_nodes s i" and ?vs = "finsert sender (ra_votes (cl_nodes s i))"
  have a: "ra_role ?a = Candidate" "vr_term resp = ra_current_term ?a" using w by (auto simp: wins_def)
  have "(sender, ra_current_term ?a, i) \<in> cl_votes s"
    using ok g unfolding cluster_ok_def answers_ok_def a(2) [symmetric] by blast
  then have cnt: "\<forall>v. v |\<in>| ?vs \<longrightarrow> (v, ra_current_term ?a, i) \<in> cl_votes s"
    using ok i g a by (auto simp: cluster_ok_def candidates_ok_def answers_ok_def)
  from w consider "core_of b = (core_of ?a)\<lparr>co_votes := ?vs\<rparr>"
    | "majority ?a \<le> fcard ?vs" "steady ((core_of ?a)\<lparr>co_role := Leader, co_votes := {||}\<rparr>) (core_of b)"
    by (auto simp: wins_def)
  then show ?thesis
  proof cases
    case 1
    have b: "ra_role b = Candidate" "ra_current_term b = ra_current_term ?a" "ra_votes b = ?vs" "ra_node_id b = ra_node_id ?a"
        "ra_peers b = ra_peers ?a" "map_option du_meta (ra_disk b) = map_option du_meta (ra_disk ?a)" "ra_voted_for b = ra_voted_for ?a"
      using 1 a(1) by (auto simp: core_of_def)
    have "sound (core_of ?a) (core_of b)" unfolding sound_def ahead_def core_sel b by simp
    then show ?thesis using b cnt by (intro observe_ok [OF ok i]) auto
  next
    case 2
    have "card M div 2 + 1 \<le> card (fset ?vs)"
      using 2(1) members_card [of M i ?a] ok i M by (auto simp: cluster_ok_def nodes_ok_def fcard.rep_eq)
    then have el: "elected M (cl_votes s) (ra_current_term ?a) i" unfolding elected_def using cnt by blast
    have so: "sound (core_of ?a) (core_of b)" using 2(2) by (simp add: steady_def sound_def ahead_seat del: core_sel(3))
    have "ra_role b = Follower \<or> ra_role b = Leader \<and> ra_current_term b = ra_current_term ?a"
      using 2(2) by (auto simp: steady_def)
    then show ?thesis using el so by (intro observe_ok [OF ok i]) auto
  qed
qed

lemma step_ok:
  assumes st: "cluster_step M s s'" and ok: "cluster_ok M s" and M: "finite M" "2 \<le> card M"
  shows "cluster_ok M s'"
  using st
proof cases
  case (Deliver i msg env ans a)
  let ?a = "cl_nodes s i"
  have n: "member_of M i ?a" "ahead (core_of ?a)" using ok Deliver(2) by (auto simp: cluster_ok_def nodes_ok_def)
  note d = ahead_disk [OF n(2)]
  have b: "snd (handle env msg ?a) = a" using Deliver(5) by simp
  note g = given_durable [OF Deliver(5) d]
  from handle_core [OF Deliver(3) member_peers [OF n(1) M Deliver(2)] d, of env msg]
  consider "steady (core_of ?a) (core_of a)" | "campaigns (core_of ?a) (core_of a)"
    | sender resp where "msg = VoteReply sender False resp" "vr_granted resp" "wins sender resp ?a (core_of a)"
    unfolding b by blast
  then show ?thesis
  proof cases
    case 1
    then show ?thesis unfolding Deliver(1) using g by (rule steady_ok [OF ok Deliver(2)])
  next
    case 2
    then show ?thesis unfolding Deliver(1) using g by (rule campaign_ok [OF ok Deliver(2)])
  next
    case 3
    then have "(sender, i, resp) \<in> cl_answers s" "answers_of i msg ans = {}" using Deliver(4) by auto
    then show ?thesis unfolding Deliver(1) using win_ok [OF ok M(1) Deliver(2) 3(3) _ 3(2)] by simp
  qed
next
  case (Restart i d timing a)
  have n: "member_of M i (cl_nodes s i)" using ok Restart(2) by (auto simp: cluster_ok_def nodes_ok_def)
  then have "ra_node_id (cl_nodes s i) = i" by (simp add: member_of_def)
  then have "steady (core_of (cl_nodes s i)) (core_of a)"
    using boots_steady(1) [of _ "cl_nodes s i"] Restart(3,4) member_peers [OF n M Restart(2)] by auto
  then show ?thesis unfolding Restart(1) by (rule steady_ok [OF ok Restart(2)]) simp
qed

lemma start_ok:
  assumes "cluster_start M s"
  shows "cluster_ok M s"
proof -
  have M: "finite M" "2 \<le> card M" using assms by (auto simp: cluster_start_def)
  have node: "member_of M i (cl_nodes s i)" "ahead (core_of (cl_nodes s i))" "ra_role (cl_nodes s i) = Follower" if mi: "i \<in> M" for i
  proof -
    obtain sid timing d where b: "boots sid i (ra_peers (cl_nodes s i)) timing d (cl_nodes s i)" and m: "member_of M i (cl_nodes s i)"
      using assms mi by (auto simp: cluster_start_def)
    then show "member_of M i (cl_nodes s i)" "ahead (core_of (cl_nodes s i))" "ra_role (cl_nodes s i) = Follower"
      using m boots_ahead [OF b] member_peers [OF m M mi] by auto
  qed
  have v: "i \<in> M \<and> t = me_current_term (meta_of (cl_nodes s i)) \<and> me_voted_for (meta_of (cl_nodes s i)) = Some v"
    if "(i, t, v) \<in> cl_votes s" for i t v
    using assms that durable_votesD [of i t v] by (auto simp: cluster_start_def)
  have "votes_ok M s" unfolding votes_ok_def holds_def using v by (metis option.inject)
  then show ?thesis
    using assms node by (auto simp: cluster_ok_def nodes_ok_def answers_ok_def candidates_ok_def leaders_ok_def cluster_start_def)
qed

lemma reach_ok: "cluster_reach M s \<Longrightarrow> finite M \<and> cluster_ok M s"
proof -
  assume "cluster_reach M s"
  then obtain s0 where s0: "cluster_start M s0" "(cluster_step M)\<^sup>*\<^sup>* s0 s" by (auto simp: cluster_reach_def)
  then have M: "finite M" "2 \<le> card M" by (auto simp: cluster_start_def)
  from s0(2) have "cluster_ok M s"
    by (induction rule: rtranclp_induct) (use start_ok [OF s0(1)] step_ok M in auto)
  then show ?thesis using M by simp
qed

text \<open>Two majorities of the members share a member.\<close>

lemma majorities_meet:
  assumes "finite M" "P \<subseteq> M" "Q \<subseteq> M" "card M div 2 + 1 \<le> card P" "card M div 2 + 1 \<le> card Q"
  shows "P \<inter> Q \<noteq> {}"
proof
  assume "P \<inter> Q = {}"
  then have "card P + card Q = card (P \<union> Q)"
    using assms finite_subset [of _ M] by (metis card_Un_disjoint)
  also have "\<dots> \<le> card M" using assms by (intro card_mono) auto
  finally show False using assms(4,5) by simp
qed

subsection \<open>Properties\<close>

text \<open>C36. No term has two leaders. Whatever messages arrive, in whatever order and however often, whichever writes fail
  and whenever nodes restart, two nodes that were ever leaders of a shard in the same term are the same node.\<close>

theorem one_leader_per_term:
  assumes "cluster_reach M s" "(t, i) \<in> cl_leaders s" "(t, j) \<in> cl_leaders s"
  shows "i = j"
proof -
  have ok: "finite M" "votes_ok M s" "leaders_ok M s" using reach_ok [OF assms(1)] by (auto simp: cluster_ok_def)
  have "elected M (cl_votes s) t i" "elected M (cl_votes s) t j" using assms(2,3) ok(3) by (simp_all add: leaders_ok_def)
  then obtain P Q where pq: "card M div 2 + 1 \<le> card P" "\<forall>q\<in>P. (q, t, i) \<in> cl_votes s"
      "card M div 2 + 1 \<le> card Q" "\<forall>q\<in>Q. (q, t, j) \<in> cl_votes s"
    by (auto simp: elected_def)
  have sub: "P \<subseteq> M" "Q \<subseteq> M" using pq(2,4) ok(2) unfolding votes_ok_def by blast+
  then obtain q where "q \<in> P" "q \<in> Q" using majorities_meet [OF ok(1) sub pq(1,3)] by blast
  then have "(q, t, i) \<in> cl_votes s" "(q, t, j) \<in> cl_votes s" using pq by auto
  then show ?thesis using ok(2) unfolding votes_ok_def by blast
qed

subsection \<open>Two nodes hold an election\<close>

definition sample_env :: raft_env where
  "sample_env = \<lparr>rv_disk = (\<lambda>_. Saved), rv_torn = 0, rv_now = 0, rv_now_ms = 0, rv_sha256 = (\<lambda>x. x), rv_delim = [],
     rv_order = (\<lambda>_. []), rv_to_vec = (\<lambda>_. []), rv_from_slice = (\<lambda>_. None), rv_body_len = (\<lambda>_. Some 0),
     rv_append_max_entries = 64, rv_append_max_bytes = 1000\<rparr>"

definition sample_timing :: raft_timing where
  "sample_timing = \<lparr>tm_tick = 20, tm_heartbeat = 50, tm_election_min_ms = 0, tm_election_jitter_ms = 0,
     tm_pre_vote = False, tm_check_quorum = False, tm_snapshot_threshold = 0\<rparr>"

definition empty_disk :: durable where
  "empty_disk = \<lparr>du_meta = meta_default, du_log = [], du_snapshot = None, du_len = 0\<rparr>"

definition sample_actor :: "string \<Rightarrow> string list \<Rightarrow> shard" where
  "sample_actor i peers = (case actor_new sample_env 0 0 i peers sample_timing (Some (reopen empty_disk))
     (recovered_of meta_default None []) of Inr a \<Rightarrow> a | Inl _ \<Rightarrow> undefined)"

lemmas sample_defs = sample_env_def sample_timing_def empty_disk_def reopen_def actor_new_def recovered_of_def
  meta_default_def snapshot_index_of_def snapshot_term_of_def suffix_after_def durable_tail_def
  reset_election_deadline_def rng_below_def from_millis_def

lemma sample_boots: "peers \<noteq> [] \<Longrightarrow> boots 0 i peers sample_timing empty_disk (sample_actor i peers)"
  unfolding boots_def
  by (intro conjI exI [of _ sample_env] exI [of _ "0 :: u64"])
    (simp_all add: disk_ok_def sample_actor_def sample_defs Let_def)

definition sample_candidate :: shard where
  "sample_candidate = snd (handle sample_env Tick (sample_actor ''a'' [''b'']))"
definition sample_request :: vote_req where
  "sample_request = \<lparr>vq_term = 2, vq_candidate_id = ''a'', vq_last_log_index = 0, vq_last_log_term = 0, vq_pre_vote = False\<rparr>"
definition sample_voter :: shard where
  "sample_voter = snd (handle sample_env (RequestVote sample_request) (sample_actor ''b'' [''a'']))"
definition sample_vote :: vote_resp where
  "sample_vote = fst (handle_request_vote sample_env sample_request (sample_actor ''b'' [''a'']))"
definition sample_leader :: shard where
  "sample_leader = snd (handle sample_env (VoteReply ''b'' False sample_vote) sample_candidate)"

lemmas campaign_defs = on_tick_def start_election_def handle_request_vote_def vote_answer_def step_down_def log_ok_def
  record_leader_transfer_def persist_hard_state_def persist_hard_state_at_def majority_def members_def solicit_votes_def
  send_def last_log_index_def last_log_term_def fcard.rep_eq fail_pending_def entries_def

lemma sample_candidate_term: "ra_current_term sample_candidate = 2" "ra_role sample_candidate = Candidate"
  by (simp_all add: sample_candidate_def sample_actor_def sample_defs Let_def campaign_defs)
lemma sample_vote_eq: "vr_term sample_vote = 2" "vr_granted sample_vote"
  by (simp_all add: sample_vote_def sample_request_def sample_actor_def sample_defs Let_def campaign_defs)
lemmas leading_defs = become_leader_def append_own_def persist_log_append_def fresh_leader_state_def leader_state_default_def
  maybe_advance_commit_def quorum_index_def first_newer_def all_peers_support_current_command_protocol_def
  lookup_or_def term_at_def broadcast_append_entries_def send_append_to_def checked_add_def

lemma sample_leader_role: "ra_role sample_leader = Leader" "ra_current_term sample_leader = 2"
  by (simp_all add: sample_leader_def sample_vote_eq handle_vote_reply_def)
    (simp_all add: sample_candidate_def sample_actor_def sample_defs Let_def campaign_defs leading_defs)

definition cluster_of :: "shard \<Rightarrow> shard \<Rightarrow> cluster" where
  "cluster_of x y = \<lparr>cl_nodes = (\<lambda>i. if i = ''a'' then x else y), cl_answers = {},
     cl_votes = durable_votes ''a'' x \<union> durable_votes ''b'' y, cl_leaders = {}\<rparr>"

definition sample_cluster :: cluster where
  "sample_cluster = observe ''a'' sample_leader {} (observe ''b'' sample_voter {(''b'', ''a'', sample_vote)}
     (observe ''a'' sample_candidate {} (cluster_of (sample_actor ''a'' [''b'']) (sample_actor ''b'' [''a'']))))"

lemma sample_start: "cluster_start {''a'', ''b''} (cluster_of (sample_actor ''a'' [''b'']) (sample_actor ''b'' [''a'']))"
proof -
  have "member_of {''a'', ''b''} ''a'' (sample_actor ''a'' [''b''])" "member_of {''a'', ''b''} ''b'' (sample_actor ''b'' [''a''])"
    "ra_peers (sample_actor ''a'' [''b'']) = [''b'']" "ra_peers (sample_actor ''b'' [''a'']) = [''a'']"
    by (auto simp: member_of_def sample_actor_def sample_defs Let_def)
  then show ?thesis
    using sample_boots [of "[''b'']" "''a''"] sample_boots [of "[''a'']" "''b''"]
    by (auto simp: cluster_start_def cluster_of_def)
qed

lemma sample_reached: "cluster_reach {''a'', ''b''} sample_cluster"
proof -
  let ?M = "{''a'', ''b''}"
  define s0 where "s0 = cluster_of (sample_actor ''a'' [''b'']) (sample_actor ''b'' [''a''])"
  define s1 where "s1 = observe ''a'' sample_candidate {} s0"
  define s2 where "s2 = observe ''b'' sample_voter {(''b'', ''a'', sample_vote)} s1"
  have terms: "ra_current_term (sample_actor ''a'' [''b'']) = 1" "ra_current_term (sample_actor ''b'' [''a'']) = 1"
    by (simp_all add: sample_actor_def sample_defs Let_def)
  have nodes: "cl_nodes s0 ''a'' = sample_actor ''a'' [''b'']" "cl_nodes s1 ''b'' = sample_actor ''b'' [''a'']"
    "cl_nodes s2 ''a'' = sample_candidate" "cl_answers s2 = {(''b'', ''a'', sample_vote)}"
    by (simp_all add: s0_def s1_def s2_def cluster_of_def observe_def)
  have "cluster_step ?M s0 s1"
    using cluster_step.Deliver [of "''a''" ?M s0 Tick sample_env NoAnswer sample_candidate] nodes terms
    by (simp add: s1_def sample_candidate_def)
  moreover have "cluster_step ?M s1 s2"
    using cluster_step.Deliver [of "''b''" ?M s1 "RequestVote sample_request" sample_env "Voted sample_vote" sample_voter] nodes terms
    by (simp add: s2_def sample_voter_def sample_vote_def sample_request_def map_prod_def split_def)
  moreover have "cluster_step ?M s2 sample_cluster"
    using cluster_step.Deliver [of "''a''" ?M s2 "VoteReply ''b'' False sample_vote" sample_env NoAnswer sample_leader] nodes
    by (simp add: sample_cluster_def s2_def s1_def s0_def sample_leader_def sample_candidate_term)
  ultimately have "(cluster_step ?M)\<^sup>*\<^sup>* s0 sample_cluster" by simp
  then show ?thesis using sample_start unfolding cluster_reach_def s0_def by blast
qed

theorem one_leader_per_term_witness:
  "cluster_reach {''a'', ''b''} sample_cluster \<and> (2, ''a'') \<in> cl_leaders sample_cluster \<and> (2, ''b'') \<notin> cl_leaders sample_cluster"
proof -
  have "(2, ''a'') \<in> cl_leaders sample_cluster" by (simp add: sample_cluster_def observe_def leads_def sample_leader_role)
  then show ?thesis using sample_reached one_leader_per_term [OF sample_reached, of 2 "''a''" "''b''"] by auto
qed

end
