(* ===== verification/Raft_Log.thy ===== *)
theory Raft_Log
  imports Raft_Place Raft_Election
begin

section \<open>Every message moves the log soundly\<close>

text \<open>
  For each message of the shard actor (\<open>src/consensus.rs\<close>): the actor moves from a well-placed state to a well-placed
  one. Recovery starts well placed, so every run of an actor from a recovered disk is. The messages are arbitrary, up to
  two conditions: terms and indexes stay below the largest word, and a batch of entries that does not start at the
  beginning of the log names the term of the entry before it.
\<close>

subsection \<open>The leader\<close>

lemma own_place:
  assumes pl: "placed (place_of a)" and free: "ra_storage_fault a = None" and i: "checked_add (last_log_index a) 1 = Some index"
    and b: "persist_log_append env operation (append_own env index c a) = (ok, b)"
  shows "ok \<Longrightarrow> moves (place_of a) (place_of b) \<and> placed (place_of b) \<and> ra_storage_fault b = None \<and>
      ra_commit_index b \<le> index \<and> unat index \<le> unat (ra_snapshot_index b) + length (ra_log b)"
    "\<not> ok \<Longrightarrow> moves (place_of a) (place_of (fail_storage operation' b))"
proof -
  define e where "e = \<lparr>rg_term = ra_current_term a, rg_index = index, rg_proposed_at_ms = rv_now_ms env, rg_command = c\<rparr>"
  have ix: "indexed (place_of a)" "bounded (place_of a)" using pl by (simp_all add: placed_def)
  have "index = last_log_index a + 1" "unat (last_log_index a) + 1 < 2 ^ 64"
    using i by (simp_all add: checked_add_def split: if_splits)
  then have index: "unat index = unat (ra_snapshot_index a) + length (ra_log a) + 1" "unat (ra_snapshot_index a) + length (ra_log a) + 1 < 2 ^ 64"
    using last_index [OF ix(1)] by (simp_all add: unat_word_ariths)
  have "log_from (unat (ra_snapshot_index a)) (ra_log a @ [e])" "unat (ra_snapshot_index a) + length (ra_log a @ [e]) < 2 ^ 64"
    using ix(1) index by (simp_all add: log_from_append indexed_def e_def)
  note r = log_append_place [OF pl free this, of env operation ok b]
  have b': "persist_log_append env operation (a\<lparr>ra_log := ra_log a @ [e]\<rparr>) = (ok, b)" using b by (simp add: append_own_def e_def)
  show "moves (place_of a) (place_of b) \<and> placed (place_of b) \<and> ra_storage_fault b = None \<and>
      ra_commit_index b \<le> index \<and> unat index \<le> unat (ra_snapshot_index b) + length (ra_log b)" if "ok"
    using r(1) [OF b' that] index ix(2) by (auto simp: moves_def bounded_def word_le_nat_alt)
  show "moves (place_of a) (place_of (fail_storage operation' b))" if "\<not> ok"
    using r(2) [OF b' that] by (simp add: moves_def)
qed

lemma moves_advance_commit [movers]:
  assumes "moves p (place_of a)"
  shows "moves p (place_of (maybe_advance_commit env a))"
proof -
  define n where "n = (if st_command_protocol (ra_state a) < CURRENT_COMMAND_PROTOCOL \<and> \<not> all_peers_support_current_command_protocol a
    then (case first_newer a of None \<Rightarrow> quorum_index a | Some e \<Rightarrow> min (quorum_index a) (sat_sub (rg_index e) 1)) else quorum_index a)"
  have "moves (place_of a) (place_of (maybe_advance_commit env a))"
  proof (rule moves_apply)
    assume pl: "placed (place_of a)"
    show "moves (place_of a) (place_of (maybe_advance_commit env a))"
    proof (cases "ra_role a \<noteq> Leader \<or> ra_storage_fault a \<noteq> None \<or> \<not> (n > ra_commit_index a \<and> term_at n a = ra_current_term a)")
      case True
      then have "maybe_advance_commit env a = a" unfolding maybe_advance_commit_def Let_def n_def [symmetric] by auto
      then show ?thesis by simp
    next
      case False
      have ix: "indexed (place_of a)" "bounded (place_of a)" using pl by (simp_all add: placed_def)
      have "term_at n a \<noteq> 0" "ra_snapshot_index a < n" using False ix(2) pl by (auto simp: bounded_def placed_def)
      then have n: "ra_commit_index a \<le> n" "unat n \<le> unat (ra_snapshot_index a) + length (ra_log a)"
        using False term_at_bound [OF ix(1)] by auto
      obtain ok b where b: "persist_hard_state_at env ''persisting leader commit index'' n a = (ok, b)" by fastforce
      show ?thesis
        using committed [OF pl _ n b] False b unfolding maybe_advance_commit_def Let_def n_def [symmetric] by auto
    qed
  qed
  then show ?thesis using assms by (rule moves_trans [rotated])
qed

lemma commit_alone_place:
  assumes "placed (place_of a)" "ra_storage_fault a = None" "ra_commit_index a \<le> i" "unat i \<le> unat (ra_snapshot_index a) + length (ra_log a)"
  shows "moves (place_of a) (place_of (commit_alone env operation i a))"
proof -
  obtain ok b where b: "persist_hard_state_at env operation i a = (ok, b)" by fastforce
  show ?thesis using committed [OF assms b] b by (simp add: commit_alone_def)
qed

lemma moves_activate [movers]:
  assumes "moves p (place_of a)"
  shows "moves p (place_of (maybe_activate_command_protocol env a))"
proof -
  have "moves (place_of a) (place_of (maybe_activate_command_protocol env a))"
  proof (rule moves_apply)
    assume pl: "placed (place_of a)"
    show "moves (place_of a) (place_of (maybe_activate_command_protocol env a))"
    proof (cases "ra_storage_fault a \<noteq> None \<or> ra_role a \<noteq> Leader \<or> st_command_protocol (ra_state a) \<ge> CURRENT_COMMAND_PROTOCOL \<or>
        \<not> all_peers_support_current_command_protocol a \<or>
        list_ex (\<lambda>e. rg_command e = Some (ActivateCommandProtocol CURRENT_COMMAND_PROTOCOL)) (ra_log a) \<or>
        checked_add (last_log_index a) 1 = None")
      case True
      then show ?thesis
        unfolding maybe_activate_command_protocol_def by (auto intro!: movers faulted_moves split: option.split)
    next
      case False
      then obtain index where i: "checked_add (last_log_index a) 1 = Some index" by auto
      obtain ok b where b: "persist_log_append env ''persisting command-protocol activation''
          (append_own env index (Some (ActivateCommandProtocol CURRENT_COMMAND_PROTOCOL)) a) = (ok, b)" by fastforce
      have free: "ra_storage_fault a = None" using False by simp
      note r = own_place [OF pl free i b]
      show ?thesis
      proof (cases ok)
        case True
        have "moves (place_of a) (place_of (commit_alone env ''persisting command-protocol activation commit'' index b))"
          using r(1) [OF True] commit_alone_place moves_trans by blast
        then show ?thesis
          using False i b True r(1) [OF True] by (auto simp: maybe_activate_command_protocol_def Let_def intro!: movers)
      next
        case nok: False
        then show ?thesis using False i b r(2) by (simp add: maybe_activate_command_protocol_def Let_def)
      qed
    qed
  qed
  then show ?thesis using assms by (rule moves_trans [rotated])
qed

text \<open>The largest term and the largest index are out of reach.\<close>

definition room :: "place \<Rightarrow> bool" where
  "room p \<longleftrightarrow> pl_term p \<noteq> - 1 \<and> unat (pl_index p) + length (pl_log p) + 1 < 2 ^ 64"

lemma moves_become_leader:
  assumes "moves p (place_of a)" "unat (ra_snapshot_index a) + length (ra_log a) + 1 < 2 ^ 64"
  shows "moves p (place_of (become_leader env a))"
proof (cases "ra_storage_fault a = None")
  case free: True
  define a1 where "a1 = record_leader_transfer (ra_role a) Leader a"
  define a2 where "a2 = a1\<lparr>ra_role := Leader, ra_leader_id := Some (ra_node_id a1), ra_votes := {||},
    ra_leader := Some (fresh_leader_state (last_log_index a1 + 1) (ra_votes a1) (ra_campaign_started_at a1) (ra_peers a1))\<rparr>"
  have p2: "place_of a2 = place_of a" by (simp add: a2_def a1_def)
  have free2: "ra_storage_fault a2 = None" using arg_cong [OF p2, of pl_fault] free by simp
  obtain ok b where b: "persist_log_append env ''persisting leader no-op'' (append_own env (last_log_index a2 + 1) None a2) = (ok, b)"
    by fastforce
  have "moves (place_of a2) (place_of (become_leader env a))"
  proof (rule moves_apply)
    assume pl: "placed (place_of a2)"
    have "unat (last_log_index a2) + 1 < 2 ^ 64"
      using last_index [of a2] pl assms(2) arg_cong [OF p2, of pl_index] arg_cong [OF p2, of pl_log] by (simp add: placed_def)
    then have i: "checked_add (last_log_index a2) 1 = Some (last_log_index a2 + 1)" by (simp add: checked_add_def)
    note r = own_place [OF pl free2 i b]
    show "moves (place_of a2) (place_of (become_leader env a))"
      using free b r unfolding become_leader_def Let_def a1_def [symmetric] a2_def [symmetric]
      by (cases ok) (auto intro!: movers)
  qed
  then show ?thesis using assms(1) p2 by (auto intro: moves_trans)
qed (use assms in \<open>simp add: become_leader_def\<close>)

lemma moves_start_election:
  assumes "moves p (place_of a)" "room (place_of a)"
  shows "moves p (place_of (start_election env a))"
proof (cases "ra_storage_fault a = None")
  case True
  define a1 where "a1 = reset_election_deadline env (a\<lparr>ra_current_term := ra_current_term a + 1, ra_campaign_started_at := rv_now env,
    ra_role := Candidate, ra_voted_for := Some (ra_node_id a), ra_leader_id := None, ra_votes := {|ra_node_id a|}\<rparr>)"
  obtain ok b where b: "persist_hard_state env ''persisting election term and self-vote'' a1 = (ok, b)" by fastforce
  have p1: "place_of a1 = (place_of a)\<lparr>pl_term := ra_current_term a + 1\<rparr>" by (simp add: a1_def place_term)
  have "moves p (place_of a1)"
    unfolding p1 using assms less_next_word [of "ra_current_term a"] by (intro moves_later_term) (auto simp: room_def)
  then have mb: "moves p (place_of b)" using moves_persist [of p a1 env "''persisting election term and self-vote''"] b by simp
  obtain disk where "place_of b = (place_of a1)\<lparr>pl_disk := disk\<rparr>"
    using b unfolding persist_hard_state_def by (cases rule: persist_at_place) (auto simp: place_of_def)
  then have "unat (pl_index (place_of b)) + length (pl_log (place_of b)) + 1 < 2 ^ 64" using assms(2) p1 by (simp add: room_def)
  then show ?thesis
    using True b mb moves_become_leader [OF mb] unfolding start_election_def Let_def a1_def [symmetric]
    by (auto intro!: faulted_moves)
qed (use assms in \<open>simp add: start_election_def\<close>)

lemma moves_pre_election:
  "moves p (place_of a) \<Longrightarrow> room (place_of a) \<Longrightarrow> moves p (place_of (start_pre_election env a))"
  by (auto simp: start_pre_election_def Let_def intro!: moves_start_election)

lemma moves_vote_reply:
  "moves p (place_of a) \<Longrightarrow> room (place_of a) \<Longrightarrow> moves p (place_of (handle_vote_reply env sender pre resp a))"
  by (auto simp: handle_vote_reply_def Let_def room_def intro!: movers moves_start_election moves_become_leader)

lemma moves_tick: "moves p (place_of a) \<Longrightarrow> room (place_of a) \<Longrightarrow> moves p (place_of (on_tick env a))"
  by (auto simp: on_tick_def Let_def intro!: movers moves_start_election moves_pre_election)

lemma moves_append_reply [movers]:
  "moves p (place_of a) \<Longrightarrow> moves p (place_of (handle_append_reply env sent_at sender up_to rtt_ms resp a))"
  by (auto simp: handle_append_reply_def Let_def intro!: movers split: option.split prod.split)

lemma moves_snapshot_reply [movers]:
  "moves p (place_of a) \<Longrightarrow> moves p (place_of (handle_snapshot_reply env sent_at sender up_to resp a))"
  by (auto simp: handle_snapshot_reply_def Let_def intro!: movers split: option.split prod.split)

lemma moves_request_vote [movers]:
  "moves p (place_of a) \<Longrightarrow> moves p (place_of (snd (handle_request_vote env req a)))"
  by (auto simp: handle_request_vote_def Let_def case_prod_unfold intro!: movers moves_persist faulted_moves)

lemma moves_propose [movers]:
  assumes "moves p (place_of a)"
  shows "moves p (place_of (snd (on_propose env c a)))"
proof (cases "ra_storage_fault a = None \<and> ra_role a = Leader \<and> \<not> is_activation c")
  case True
  define a1 where "a1 = maybe_activate_command_protocol env a"
  have m1: "moves p (place_of a1)" unfolding a1_def using assms by (rule movers)
  have "moves (place_of a1) (place_of (snd (on_propose env c a)))"
  proof (rule moves_apply)
    assume pl: "placed (place_of a1)"
    show "moves (place_of a1) (place_of (snd (on_propose env c a)))"
    proof (cases "ra_storage_fault a1 = None \<and> \<not> isl (for_active_protocol c (st_command_protocol (ra_state a1))) \<and>
        checked_add (last_log_index a1) 1 \<noteq> None")
      case False
      then show ?thesis
        using True unfolding on_propose_def Let_def a1_def [symmetric] by (auto split: sum.splits)
    next
      case t: True
      then obtain c' index where i: "for_active_protocol c (st_command_protocol (ra_state a1)) = Inr c'"
          "checked_add (last_log_index a1) 1 = Some index"
        by (cases "for_active_protocol c (st_command_protocol (ra_state a1))") auto
      obtain ok b where b: "persist_log_append env ''persisting proposed log entry'' (append_own env index (Some c') a1) = (ok, b)"
        by fastforce
      note r = own_place [OF pl _ i(2) b]
      define b1 where "b1 = b\<lparr>ra_pending := fmupd index (rv_now env) (ra_pending b)\<rparr>"
      have pb: "place_of b1 = place_of b" by (simp add: b1_def)
      have "moves (place_of a1) (place_of (commit_alone env ''persisting single-member commit index'' index b1))" if "ok"
        using r(1) [OF _ that] t commit_alone_place [of b1 index env "''persisting single-member commit index''"]
        by (auto simp: b1_def intro: moves_trans)
      then show ?thesis
        using True t i b r unfolding on_propose_def Let_def a1_def [symmetric]
        by (cases ok) (auto intro!: movers simp: pb simp flip: b1_def)
    qed
  qed
  then show ?thesis using m1 by (rule moves_trans [rotated])
qed (use assms in \<open>auto simp: on_propose_def\<close>)

subsection \<open>The follower\<close>

lemma moves_follow_commit:
  assumes "moves p (place_of a)" "ra_storage_fault a = None"
  shows "moves p (place_of (snd (follow_commit env n a)))"
proof -
  have "moves (place_of a) (place_of (snd (follow_commit env n a)))"
  proof (rule moves_apply)
    assume pl: "placed (place_of a)"
    define m where "m = min n (last_log_index a)"
    have "unat m \<le> unat (ra_snapshot_index a) + length (ra_log a)"
      using last_index [of a] pl by (auto simp: m_def placed_def min_def word_le_nat_alt)
    then show "moves (place_of a) (place_of (snd (follow_commit env n a)))"
      using committed [OF pl assms(2), of m env "''persisting follower commit index''"] assms(2)
      unfolding follow_commit_def Let_def m_def [symmetric]
      by (cases "persist_hard_state_at env ''persisting follower commit index'' m a") auto
  qed
  then show ?thesis using assms(1) by (rule moves_trans [rotated])
qed

text \<open>A request as a leader sends it: the entry before the batch has a term.\<close>

definition anchored :: "append_req \<Rightarrow> bool" where
  "anchored req \<longleftrightarrow> aq_prev_log_index req = 0 \<or> aq_prev_log_term req \<noteq> 0"

lemma stored_log:
  assumes pl: "placed (place_of a)" and free: "ra_storage_fault a = None"
    and wf: "well_formed t (aq_prev_log_index req) (aq_entries req)"
    and prev: "unat (aq_prev_log_index req) \<le> unat (ra_snapshot_index a) + length (ra_log a)"
    and r: "append_loop (ra_snapshot_index a) (ra_commit_index a) (aq_prev_log_index req) (aq_entries req) Unchanged (ra_log a) = (r, lg')"
  shows "r = None \<Longrightarrow> lg' = ra_log a"
    "r = Some ch \<Longrightarrow> persist_change env ch (a\<lparr>ra_log := lg'\<rparr>) = (True, b) \<Longrightarrow>
      placed (place_of b) \<and> keeps (place_of a) (place_of b) \<and> ra_storage_fault b = None \<and>
      ra_log b = lg' \<and> ra_snapshot_index b = ra_snapshot_index a"
    "r = Some ch \<Longrightarrow> persist_change env ch (a\<lparr>ra_log := lg'\<rparr>) = (False, b) \<Longrightarrow>
      placed (place_of (fail_storage operation b)) \<and> keeps (place_of a) (place_of (fail_storage operation b))"
proof -
  let ?es = "aq_entries req" and ?i = "aq_prev_log_index req"
  have es: "log_from (unat ?i) ?es" "unat ?i + length ?es < 2 ^ 64" using well_formed_log [OF wf] by simp_all
  have lg: "log_from (unat (ra_snapshot_index a)) (ra_log a)" "unat (ra_snapshot_index a) + length (ra_log a) < 2 ^ 64"
    using pl by (simp_all add: placed_def indexed_def)
  show "lg' = ra_log a" if "r = None"
    using r lg(1) es(1) prev es(2) lg(2) by (cases rule: append_loop_cases) (use that in auto)
  show "placed (place_of b) \<and> keeps (place_of a) (place_of b) \<and> ra_storage_fault b = None \<and>
      ra_log b = lg' \<and> ra_snapshot_index b = ra_snapshot_index a"
    if "r = Some ch" "persist_change env ch (a\<lparr>ra_log := lg'\<rparr>) = (True, b)"
    using r lg(1) es(1) prev es(2) lg(2)
  proof (cases rule: append_loop_cases)
    case 1
    then show ?thesis using that pl free by (auto simp: persist_change_def)
  next
    case (2 ys)
    then show ?thesis using log_append_place(1) [OF pl free, of ys env _ True b] that by (auto simp: persist_change_def)
  next
    case (3 k ys)
    then have "relogs (place_of a) lg'" using relogs_take [OF pl, of k ys] by simp
    then show ?thesis using log_rewrite_place(1) [OF pl free, of lg' env _ True b] that 3(2) by (auto simp: persist_change_def)
  qed
  show "placed (place_of (fail_storage operation b)) \<and> keeps (place_of a) (place_of (fail_storage operation b))"
    if "r = Some ch" "persist_change env ch (a\<lparr>ra_log := lg'\<rparr>) = (False, b)"
    using r lg(1) es(1) prev es(2) lg(2)
  proof (cases rule: append_loop_cases)
    case 1
    then show ?thesis using that by (auto simp: persist_change_def)
  next
    case (2 ys)
    then show ?thesis using log_append_place(2) [OF pl free, of ys env _ False b operation] that by (auto simp: persist_change_def)
  next
    case (3 k ys)
    then have "relogs (place_of a) lg'" using relogs_take [OF pl, of k ys] by simp
    then show ?thesis using log_rewrite_place(2) [OF pl free, of lg' env _ False b operation] that 3(2) by (auto simp: persist_change_def)
  qed
qed

lemma store_entries_place:
  assumes pl: "placed (place_of a)" and free: "ra_storage_fault a = None"
    and wf: "well_formed t (aq_prev_log_index req) (aq_entries req)"
    and prev: "unat (aq_prev_log_index req) \<le> unat (ra_snapshot_index a) + length (ra_log a)"
  shows "moves (place_of a) (place_of (snd (store_entries env req a)))"
proof -
  obtain r lg' where r: "append_loop (ra_snapshot_index a) (ra_commit_index a) (aq_prev_log_index req) (aq_entries req)
      Unchanged (ra_log a) = (r, lg')" by fastforce
  note w = stored_log [OF pl free wf prev r]
  show ?thesis
  proof (cases r)
    case None
    then have "a\<lparr>ra_log := lg'\<rparr> = a" using w(1) by simp
    then show ?thesis using r None by (simp add: store_entries_def)
  next
    case (Some ch)
    obtain ok b where b: "persist_change env ch (a\<lparr>ra_log := lg'\<rparr>) = (ok, b)" by fastforce
    show ?thesis
    proof (cases ok)
      case True
      then have "placed (place_of b)" "keeps (place_of a) (place_of b)" "ra_storage_fault b = None" using w(2) [OF Some, of env b] b by simp_all
      then have "moves (place_of a) (place_of (snd (follow_commit env (aq_leader_commit req) b)))"
        by (intro moves_follow_commit) (simp_all add: moves_def)
      then show ?thesis using r Some b True by (simp add: store_entries_def)
    next
      case False
      then show ?thesis using r Some b w(3) [OF Some, of env b] by (simp add: store_entries_def Let_def moves_def)
    qed
  qed
qed

lemma anchored_prev:
  assumes "placed (place_of a)" "anchored req"
    "\<not> (aq_prev_log_index req > 0 \<and> term_at (aq_prev_log_index req) a \<noteq> aq_prev_log_term req)"
  shows "unat (aq_prev_log_index req) \<le> unat (ra_snapshot_index a) + length (ra_log a)"
proof (cases "ra_snapshot_index a < aq_prev_log_index req")
  case True
  then have "aq_prev_log_index req \<noteq> 0" by auto
  then have "term_at (aq_prev_log_index req) a \<noteq> 0"
    using assms(2,3) word_gt_0 [of "aq_prev_log_index req"] by (auto simp: anchored_def)
  then show ?thesis using True assms(1) by (intro term_at_bound) (simp_all add: placed_def)
qed (simp add: word_less_nat_alt)

lemma moves_append_entries:
  assumes "moves p (place_of a)" "anchored req"
  shows "moves p (place_of (snd (handle_append_entries env req a)))"
proof -
  define a1 where "a1 = (if aq_term req > ra_current_term a then step_down env (aq_term req) None a else a)"
  define a2 where "a2 = become_follower_of env (aq_leader_id req) a1"
  have m1: "moves p (place_of a1)" using assms(1) by (auto simp: a1_def intro: movers)
  have p2: "place_of a2 = place_of a1" by (simp add: a2_def)
  have store: "moves p (place_of (snd (store_entries env req a2)))"
    if "ra_storage_fault a1 = None" "well_formed (aq_term req) (aq_prev_log_index req) (aq_entries req)"
      "\<not> (aq_prev_log_index req > 0 \<and> term_at (aq_prev_log_index req) a2 \<noteq> aq_prev_log_term req)"
  proof -
    have "moves (place_of a2) (place_of (snd (store_entries env req a2)))"
    proof (rule moves_apply)
      assume pl: "placed (place_of a2)"
      then have "unat (aq_prev_log_index req) \<le> unat (ra_snapshot_index a2) + length (ra_log a2)"
        by (rule anchored_prev [OF _ assms(2) that(3)])
      then show "moves (place_of a2) (place_of (snd (store_entries env req a2)))"
        using store_entries_place [OF pl _ that(2)] that(1) arg_cong [OF p2, of pl_fault] by simp
    qed
    then show ?thesis using m1 p2 by (auto intro: moves_trans)
  qed
  show ?thesis
    using assms(1) m1 store p2 unfolding handle_append_entries_def Let_def a1_def [symmetric] a2_def [symmetric] by auto
qed

subsection \<open>Installing a snapshot\<close>

text \<open>The snapshot a request carries, the log that is kept behind it, and the place of the actor that has both.\<close>

definition install_snap :: "install_req \<Rightarrow> persisted_snapshot" where
  "install_snap req = \<lparr>ps_last_included_index = iq_last_included_index req, ps_last_included_term = iq_last_included_term req,
     ps_state = iq_state req\<rparr>"

definition kept_log :: "install_req \<Rightarrow> shard \<Rightarrow> raft_entry list" where
  "kept_log req a = (if term_at (iq_last_included_index req) a = iq_last_included_term req
     then filter (\<lambda>e. rg_index e > iq_last_included_index req) (ra_log a) else [])"

definition installed :: "install_req \<Rightarrow> shard \<Rightarrow> place" where
  "installed req a = (place_of a)\<lparr>pl_index := iq_last_included_index req, pl_sterm := iq_last_included_term req,
     pl_state := iq_state req, pl_log := kept_log req a, pl_commit := iq_last_included_index req,
     pl_applied := iq_last_included_index req\<rparr>"

definition on_disk :: "install_req \<Rightarrow> shard \<Rightarrow> durable \<Rightarrow> bool" where
  "on_disk req a d \<longleftrightarrow> du_snapshot d = Some (install_snap req) \<and> du_log d = kept_log req a \<and> du_len d = length (kept_log req a)"

lemma installed_place:
  assumes pl: "placed (place_of a)" and free: "ra_storage_fault a = None"
    and n: "ra_commit_index a < iq_last_included_index req"
  shows "indexed (installed req a)" "bounded (installed req a)" "keeps (place_of a) (installed req a)"
    "\<not> pl_fault (installed req a)" "pl_applied (installed req a) = pl_commit (installed req a)" "pl_term (installed req a) \<noteq> 0"
proof -
  let ?n = "iq_last_included_index req"
  have bnd: "ra_current_term a \<noteq> 0" "ra_snapshot_index a \<le> ra_commit_index a" "log_from (unat (ra_snapshot_index a)) (ra_log a)"
    "unat (ra_snapshot_index a) + length (ra_log a) < 2 ^ 64"
    using pl by (auto simp: placed_def bounded_def indexed_def)
  have le: "unat (ra_snapshot_index a) \<le> unat ?n" using n bnd(2) by (simp add: word_le_nat_alt word_less_nat_alt)
  have lg: "log_from (unat ?n) (kept_log req a)" "unat ?n + length (kept_log req a) < 2 ^ 64"
    using log_from_suffix [OF bnd(3) le] log_from_filter [OF bnd(3) le] bnd(4) le unat_lt_2p [of ?n] by (auto simp: kept_log_def)
  show "indexed (installed req a)" "bounded (installed req a)" "keeps (place_of a) (installed req a)"
    "\<not> pl_fault (installed req a)" "pl_applied (installed req a) = pl_commit (installed req a)" "pl_term (installed req a) \<noteq> 0"
    using lg bnd n free by (auto simp: installed_def indexed_def bounded_def keeps_def word_le_nat_alt word_less_nat_alt)
qed

lemma snapshot_ahead:
  assumes "ra_commit_index a < iq_last_included_index req" "du_snapshot d = Some (install_snap req)"
  shows "holds_committed (place_of a) d"
proof -
  let ?n = "iq_last_included_index req"
  have "ra_commit_index a \<le> max (me_commit_index (du_meta d)) ?n" using assms(1) by (auto simp: le_max_iff_disj)
  moreover have "\<not> i \<le> unat (ra_commit_index a)" if "unat ?n < i" for i using that assms(1) by (simp add: word_less_nat_alt)
  ultimately show ?thesis using assms(2) by (auto simp: holds_committed_def install_snap_def snapshot_index_of_def)
qed

text \<open>The two writes, each of which may fail.\<close>

lemma install_first_write:
  assumes pl: "placed (place_of a)" and n: "ra_commit_index a < iq_last_included_index req"
    and b: "persist_snapshot env what (install_snap req) (kept_log req a) a = (ok, b)"
  obtains disk where "place_of b = (place_of a)\<lparr>pl_disk := disk\<rparr>"
    "\<And>d. disk = Some d \<Longrightarrow> holds_committed (place_of a) d \<and> (ok \<longrightarrow> on_disk req a d)"
  using b
proof (cases rule: persist_snapshot_place)
  case 1
  then show thesis using that [of "ra_disk a"] pl by (auto simp: placed_def place_of_def)
next
  case (2 d d')
  then show thesis using that [of "Some d'"] snapshot_ahead [OF n] by (auto simp: on_disk_def)
qed

lemma install_second_write:
  assumes n: "ra_commit_index a < iq_last_included_index req"
    and pb: "place_of b = (place_of a)\<lparr>pl_disk := disk\<rparr>" and sb: "\<And>d. disk = Some d \<Longrightarrow> on_disk req a d"
    and c: "persist_hard_state_at env what (max (ra_commit_index b) (iq_last_included_index req)) b = (ok, c)"
  obtains disk' where "place_of c = (place_of a)\<lparr>pl_disk := disk'\<rparr>"
    "\<And>d. disk' = Some d \<Longrightarrow> on_disk req a d \<and> (ok \<longrightarrow> me_commit_index (du_meta d) = iq_last_included_index req)"
proof -
  have cb: "ra_commit_index b = ra_commit_index a" "ra_disk b = disk"
    using arg_cong [OF pb, of pl_commit] arg_cong [OF pb, of pl_disk] by simp_all
  have max: "max (ra_commit_index b) (iq_last_included_index req) = iq_last_included_index req" using n cb by (auto simp: max_def)
  from c show thesis
  proof (cases rule: persist_at_place)
    case 1
    then show thesis using that [of disk] pb sb cb by auto
  next
    case (2 d d')
    then show thesis using that [of "Some d'"] pb sb [of d] cb max by (auto simp: on_disk_def)
  qed
qed

lemma install_place:
  assumes pl: "placed (place_of a)" and free: "ra_storage_fault a = None"
    and n: "ra_commit_index a < iq_last_included_index req"
  shows "moves (place_of a) (place_of (snd (install_state env req restored a)))"
proof -
  let ?q = "place_of a" and ?n = "iq_last_included_index req"
  note defs = install_state_def Let_def kept_log_def [symmetric] install_snap_def [symmetric]
  note ri = installed_place [OF pl free n]
  have failed: "placed (?q\<lparr>pl_disk := dd, pl_fault := True\<rparr>) \<and> keeps ?q (?q\<lparr>pl_disk := dd, pl_fault := True\<rparr>)"
    if "\<And>d. dd = Some d \<Longrightarrow> holds_committed ?q d" for dd
    using moves_faulted [OF pl, of dd] that by (simp split: option.split)
  obtain ok b where b: "persist_snapshot env ''persisting installed snapshot'' (install_snap req) (kept_log req a) a = (ok, b)" by fastforce
  obtain ok' c where c: "persist_hard_state_at env ''persisting installed snapshot commit index'' (max (ra_commit_index b) ?n) b = (ok', c)" by fastforce
  obtain disk where pb: "place_of b = ?q\<lparr>pl_disk := disk\<rparr>"
    and sb: "\<And>d. disk = Some d \<Longrightarrow> holds_committed ?q d \<and> (ok \<longrightarrow> on_disk req a d)"
    using install_first_write [OF pl n b] by blast
  have max: "max (ra_commit_index b) ?n = ?n" using n arg_cong [OF pb, of pl_commit] by (auto simp: max_def)
  show ?thesis
  proof (cases ok)
    case False
    then show ?thesis using b failed [of disk] sb pb unfolding defs by (simp add: moves_def)
  next
    case ok: True
    obtain disk' where pc: "place_of c = ?q\<lparr>pl_disk := disk'\<rparr>"
      and sc: "\<And>d. disk' = Some d \<Longrightarrow> on_disk req a d \<and> (ok' \<longrightarrow> me_commit_index (du_meta d) = ?n)"
      using install_second_write [OF n pb _ c] sb ok by blast
    show ?thesis
    proof (cases ok')
      case False
      have "holds_committed ?q d" if "disk' = Some d" for d using sc [OF that] snapshot_ahead [OF n] by (simp add: on_disk_def)
      then show ?thesis using b c ok False failed [of disk'] pc unfolding defs by (simp add: moves_def)
    next
      case ok': True
      let ?c = "c\<lparr>ra_state := restored, ra_snapshot_index := ?n, ra_snapshot_term := iq_last_included_term req,
        ra_snapshot_state := iq_state req, ra_log := kept_log req a, ra_commit_index := ?n, ra_last_applied := ?n\<rparr>"
      have "place_of ?c = (installed req a)\<lparr>pl_disk := disk'\<rparr>" using pc by (simp add: installed_def place_of_def)
      moreover have "synced (installed req a) d" if "disk' = Some d" for d
        using sc [OF that] ok' by (simp add: synced_def installed_def install_snap_def on_disk_def)
      then have "placed ((installed req a)\<lparr>pl_disk := disk'\<rparr>) \<and> keeps ?q ((installed req a)\<lparr>pl_disk := disk'\<rparr>)"
        using ri synced_holds [OF _ ri(2)] by (auto simp: placed_def keeps_def)
      ultimately show ?thesis using b c ok ok' max unfolding defs by (simp add: moves_def)
    qed
  qed
qed

lemma moves_install_snapshot [movers]:
  assumes "moves p (place_of a)"
  shows "moves p (place_of (snd (handle_install_snapshot env req a)))"
proof -
  define a1 where "a1 = (if iq_term req > ra_current_term a then step_down env (iq_term req) None a else a)"
  define a2 where "a2 = become_follower_of env (iq_leader_id req) a1"
  have m1: "moves p (place_of a1)" using assms by (auto simp: a1_def intro: movers)
  have p2: "place_of a2 = place_of a1" by (simp add: a2_def)
  have fault: "ra_storage_fault a2 = ra_storage_fault a1" by (simp add: a2_def become_follower_of_def Let_def
      fail_pending_def send_def reset_election_deadline_def record_leader_transfer_def split: prod.split)
  have inst: "moves p (place_of (snd (install_state env req restored a2)))"
    if "ra_storage_fault a1 = None" "\<not> iq_last_included_index req \<le> ra_commit_index a2" for restored
  proof -
    have "moves (place_of a2) (place_of (snd (install_state env req restored a2)))"
      by (rule moves_apply, rule install_place) (use that fault in auto)
    then show ?thesis using m1 moves_trans unfolding p2 by blast
  qed
  show ?thesis
    using assms m1 inst unfolding handle_install_snapshot_def Let_def a1_def [symmetric] a2_def [symmetric]
    by (simp add: p2 split: sum.split)
qed

subsection \<open>Every message\<close>

fun orderly :: "shard_msg \<Rightarrow> bool" where
  "orderly (AppendEntries req) = anchored req"
| "orderly _ = True"

lemma handle_moves:
  assumes "room (place_of a)" "orderly msg"
  shows "moves (place_of a) (place_of (snd (handle env msg a)))"
  using assms
proof (cases msg)
  case (AppendReply sender request up_to rtt_ms resp)
  then show ?thesis
    using moves_callback [of "place_of a" a env sender request "map_option as_term resp"]
    by (auto simp: case_prod_unfold intro: movers)
next
  case (SnapshotReply sender request up_to resp)
  then show ?thesis
    using moves_callback [of "place_of a" a env sender request "map_option is_term resp"]
    by (auto simp: case_prod_unfold intro: movers)
qed (auto simp: snd_map_prod intro!: movers moves_append_entries moves_vote_reply moves_tick)

text \<open>A start from a disk that opens is well placed.\<close>

lemma actor_new_place:
  assumes "actor_new env now shard_id i peers timing disk r = Inr a"
  obtains a0 where "a = (if ra_commit_index a0 > 0 then apply_committed env a0 else a0)"
    "place_of a0 = \<lparr>pl_term = max (rc_current_term r) 1, pl_index = snapshot_index_of (rc_snapshot r),
       pl_sterm = snapshot_term_of (rc_snapshot r), pl_state = (case rc_snapshot r of None \<Rightarrow> [] | Some s \<Rightarrow> ps_state s),
       pl_log = rc_log r, pl_commit = max (rc_commit_index r) (snapshot_index_of (rc_snapshot r)),
       pl_applied = snapshot_index_of (rc_snapshot r), pl_fault = False, pl_disk = disk\<rparr>"
    "rc_commit_index r \<le> durable_tail (rc_snapshot r) (rc_log r)"
proof -
  obtain state where st: "boot_log_error (snapshot_index_of (rc_snapshot r)) 0 (rc_log r) = None"
      "(case rc_snapshot r of None \<Rightarrow> Inr store_default | Some s \<Rightarrow> restore (rv_delim env) (rv_from_slice env) (ps_state s)) = Inr state"
    and le: "rc_commit_index r \<le> durable_tail (rc_snapshot r) (rc_log r)"
    using assms by (auto simp: actor_new_def Let_def not_less split: option.splits sum.splits if_splits)
  define single where "single = (length peers + 1 = 1)"
  define a0 where "a0 = reset_election_deadline env \<lparr>ra_shard_id = shard_id, ra_node_id = i, ra_peers = peers,
      ra_role = (if single then Leader else Follower), ra_current_term = max (rc_current_term r) 1,
      ra_voted_for = rc_voted_for r, ra_leader_id = (if single then Some i else None),
      ra_snapshot_index = snapshot_index_of (rc_snapshot r), ra_snapshot_term = snapshot_term_of (rc_snapshot r),
      ra_snapshot_state = (case rc_snapshot r of None \<Rightarrow> [] | Some s \<Rightarrow> ps_state s),
      ra_log = rc_log r, ra_commit_index = max (rc_commit_index r) (snapshot_index_of (rc_snapshot r)),
      ra_last_applied = snapshot_index_of (rc_snapshot r), ra_disk = disk, ra_storage_fault = None, ra_votes = {||},
      ra_campaign_started_at = rv_now env, ra_pre_votes = {||}, ra_pre_vote_term = 0,
      ra_leader = (if single then Some leader_state_default else None), ra_timing = timing,
      ra_election_deadline = rv_now env, ra_heartbeat_deadline = rv_now env,
      ra_last_leader_contact = rv_now env, ra_rng = rng_seeded now i shard_id,
      ra_pending = fmempty, ra_state = state, ra_metrics = shard_metrics_default, ra_outbox = []\<rparr>"
  have "a = (if ra_commit_index a0 > 0 then apply_committed env a0 else a0)"
  proof -
    have nl: "(durable_tail (rc_snapshot r) (rc_log r) < rc_commit_index r) = False" using le by simp
    have "actor_new env now shard_id i peers timing disk r = Inr (if ra_commit_index a0 > 0 then apply_committed env a0 else a0)"
      unfolding actor_new_def Let_def st(1) option.case nl if_False st(2) sum.case a0_def single_def ..
    then show ?thesis using assms by simp
  qed
  moreover have "place_of a0 = \<lparr>pl_term = max (rc_current_term r) 1, pl_index = snapshot_index_of (rc_snapshot r),
       pl_sterm = snapshot_term_of (rc_snapshot r), pl_state = (case rc_snapshot r of None \<Rightarrow> [] | Some s \<Rightarrow> ps_state s),
       pl_log = rc_log r, pl_commit = max (rc_commit_index r) (snapshot_index_of (rc_snapshot r)),
       pl_applied = snapshot_index_of (rc_snapshot r), pl_fault = False, pl_disk = disk\<rparr>"
    by (simp add: a0_def)
  ultimately show thesis using that le by blast
qed

lemma boots_placed:
  assumes "boots shard_id i peers timing d a"
  shows "placed (place_of a)"
proof -
  let ?r = "recovered_of (du_meta d) (du_snapshot d) (du_log d)"
  from assms obtain env now where ok: "disk_ok (du_meta d) (du_snapshot d) (du_log d)"
    and new: "actor_new env now shard_id i peers timing (Some (reopen d)) ?r = Inr a"
    by (auto simp: boots_def)
  let ?si = "snapshot_index_of (du_snapshot d)" and ?lg = "suffix_after (du_snapshot d) (du_log d)"
  obtain b where b: "b \<le> unat ?si" "log_from b (du_log d)" using ok by (auto simp: disk_ok_def)
  have lg: "log_from (unat ?si) ?lg" using log_from_suffix [OF b(2,1)] by (simp add: suffix_after_def)
  have tail: "unat (durable_tail (du_snapshot d) ?lg) = unat ?si + length ?lg"
    using log_from_last [OF lg] by (auto simp: durable_tail_def)
  have size: "unat ?si + length ?lg < 2 ^ 64" using tail unat_lt_2p [of "durable_tail (du_snapshot d) ?lg"] by simp
  from new obtain a0 where a: "a = (if ra_commit_index a0 > 0 then apply_committed env a0 else a0)"
    and p0: "place_of a0 = \<lparr>pl_term = max (rc_current_term ?r) 1, pl_index = snapshot_index_of (rc_snapshot ?r),
       pl_sterm = snapshot_term_of (rc_snapshot ?r), pl_state = (case rc_snapshot ?r of None \<Rightarrow> [] | Some s \<Rightarrow> ps_state s),
       pl_log = rc_log ?r, pl_commit = max (rc_commit_index ?r) (snapshot_index_of (rc_snapshot ?r)),
       pl_applied = snapshot_index_of (rc_snapshot ?r), pl_fault = False, pl_disk = Some (reopen d)\<rparr>"
    and le: "rc_commit_index ?r \<le> durable_tail (rc_snapshot ?r) (rc_log ?r)"
    by (rule actor_new_place)
  have i0: "indexed (place_of a0)" using lg size by (simp add: p0 indexed_def recovered_of_def)
  have b0: "bounded (place_of a0)"
    using le tail by (auto simp: p0 bounded_def recovered_of_def word_le_nat_alt max_def)
  have sy: "synced (place_of a0) (reopen d)"
    by (simp add: p0 synced_def reopen_def recovered_of_def snapshot_index_of_def snapshot_term_of_def split: option.split)
  have f0: "ra_storage_fault a0 = None" "ra_disk a0 = Some (reopen d)" "ra_current_term a0 \<noteq> 0"
    using arg_cong [OF p0, of pl_fault] arg_cong [OF p0, of pl_disk] arg_cong [OF p0, of pl_term] by (auto simp: max_def)
  show ?thesis
  proof (cases "ra_commit_index a0 > 0")
    case True
    then show ?thesis using applied_place [OF i0 b0 f0(1)] f0(2,3) sy a by simp
  next
    case False
    then have "ra_commit_index a0 = 0" by (simp add: word_gt_0)
    then have "pl_applied (place_of a0) = pl_commit (place_of a0)" using b0 by (simp add: bounded_def)
    then show ?thesis
      using i0 b0 sy f0 False a synced_holds [OF sy b0] by (simp add: placed_def)
  qed
qed

subsection \<open>Runs of an actor\<close>

definition deliver :: "raft_env \<times> shard_msg \<Rightarrow> shard \<Rightarrow> shard" where
  "deliver m a = snd (handle (fst m) (snd m) a)"

text \<open>Messages that leave room below the largest term and index, and whose batches are anchored.\<close>

fun admissible :: "(raft_env \<times> shard_msg) list \<Rightarrow> shard \<Rightarrow> bool" where
  "admissible [] a = True"
| "admissible (m # ms) a = (room (place_of a) \<and> orderly (snd m) \<and> admissible ms (deliver m a))"

definition actor_run :: "shard \<Rightarrow> bool" where
  "actor_run a \<longleftrightarrow> (\<exists>shard_id i peers timing d a0 ms. boots shard_id i peers timing d a0 \<and> admissible ms a0 \<and> a = fold deliver ms a0)"

lemma run_moves: "admissible ms a \<Longrightarrow> moves (place_of a) (place_of (fold deliver ms a))"
proof (induction ms arbitrary: a)
  case (Cons m ms)
  then have "moves (place_of a) (place_of (deliver m a))" using handle_moves by (simp add: deliver_def)
  also have "moves (place_of (deliver m a)) (place_of (fold deliver ms (deliver m a)))" using Cons by simp
  finally show ?case by simp
qed simp

lemma actor_run_placed: "actor_run a \<Longrightarrow> placed (place_of a)"
  using run_moves boots_placed by (fastforce simp: actor_run_def moves_def)

subsection \<open>The replayed state\<close>

definition replay :: "raft_env \<Rightarrow> raft_entry list \<Rightarrow> store \<Rightarrow> store" where
  "replay env es s = fold (\<lambda>e s. case rg_command e of None \<Rightarrow> s
     | Some c \<Rightarrow> snd (apply_at (rv_sha256 env) (rv_delim env)
         \<lparr>en_command = c, en_proposed_at_ms = rg_proposed_at_ms e, en_order = rv_order env s\<rparr> s)) es s"

lemma state_publish [simp]: "ra_state (publish_change c r n a) = ra_state a"
  by (simp add: publish_change_def send_def split: option.split)

lemma state_apply_entry: "ra_state (snd (apply_entry env i e a)) = replay env [e] (ra_state a)"
  by (simp add: apply_entry_def replay_def case_prod_unfold Let_def split: option.split)

text \<open>The entries after the last applied one, up to the commit index.\<close>

definition unapplied :: "shard \<Rightarrow> raft_entry list" where
  "unapplied a = take (unat (ra_commit_index a) - unat (ra_last_applied a))
     (drop (unat (ra_last_applied a) - unat (ra_snapshot_index a)) (ra_log a))"

lemma place_eq_sel:
  assumes "place_of b = (place_of a)\<lparr>pl_applied := i\<rparr>"
  shows "ra_last_applied b = i" "ra_commit_index b = ra_commit_index a" "ra_snapshot_index b = ra_snapshot_index a"
    "ra_log b = ra_log a"
  using arg_cong [OF assms, of pl_applied] arg_cong [OF assms, of pl_commit] arg_cong [OF assms, of pl_index]
    arg_cong [OF assms, of pl_log] by simp_all

lemma apply_loop_replays:
  assumes "bounded (place_of a)"
  shows "ra_state (snd (snd (apply_loop env a))) = replay env (unapplied a) (ra_state a)"
  using assms
proof (induction "unat (ra_commit_index a) - unat (ra_last_applied a)" arbitrary: a)
  case 0
  then have "\<not> ra_last_applied a < ra_commit_index a" by (simp add: word_less_nat_alt)
  then show ?case using 0 by (simp add: apply_loop_done unapplied_def replay_def)
next
  case (Suc n)
  define k where "k = unat (ra_last_applied a) - unat (ra_snapshot_index a)"
  define b where "b = snd (apply_entry env (ra_last_applied a + 1) (ra_log a ! k) a)"
  have less: "ra_last_applied a < ra_commit_index a" using Suc.hyps(2) by (simp add: word_less_nat_alt)
  have i: "unat (ra_last_applied a + 1) = unat (ra_last_applied a) + 1" using less by (rule unat_plus_one_less)
  have pb: "place_of b = (place_of a)\<lparr>pl_applied := ra_last_applied a + 1\<rparr>" by (simp add: b_def)
  note sel = place_eq_sel [OF pb]
  have bnd: "ra_snapshot_index a \<le> ra_last_applied a" "unat (ra_commit_index a) \<le> unat (ra_snapshot_index a) + length (ra_log a)"
    using Suc.prems by (simp_all add: bounded_def)
  have "bounded (place_of b)"
    using Suc.prems less i by (auto simp: pb bounded_def word_le_nat_alt word_less_nat_alt)
  then have IH: "ra_state (snd (snd (apply_loop env b))) = replay env (unapplied b) (ra_state b)"
    using Suc.hyps sel i by auto
  have "apply_loop env a = (case (fst (apply_entry env (ra_last_applied a + 1) (ra_log a ! k) a), b) of
     (finished, a) \<Rightarrow> (case apply_loop env a of (rest, ok, b) \<Rightarrow> (finished @ rest, ok, b)))"
    using apply_loop_round [OF less bnd, of env] by (simp add: k_def b_def)
  then have st: "ra_state (snd (snd (apply_loop env a))) = replay env (unapplied b) (ra_state b)"
    using IH by (simp add: case_prod_unfold)
  have k: "k < length (ra_log a)" using bnd less by (auto simp: k_def word_le_nat_alt word_less_nat_alt)
  have n: "unat (ra_commit_index a) - Suc (unat (ra_last_applied a)) = n" using Suc.hyps(2) by simp
  have "unapplied b = take n (drop (Suc k) (ra_log a))"
    using n sel i bnd(1) by (auto simp: unapplied_def k_def word_le_nat_alt Suc_diff_le)
  then have "unapplied a = ra_log a ! k # unapplied b"
    using k by (simp add: unapplied_def Suc.hyps(2) [symmetric] Cons_nth_drop_Suc [symmetric] flip: k_def)
  then show ?case using st by (simp add: state_apply_entry b_def replay_def)
qed

subsection \<open>What an acknowledged batch leaves in the log\<close>

lemma append_loop_prefix:
  "append_loop si c idx es ch lg = (Some r, lg') \<Longrightarrow> unat idx \<le> unat si + length lg \<Longrightarrow> unat idx + length es < 2 ^ 64 \<Longrightarrow>
     take (unat idx - unat si) lg' = take (unat idx - unat si) lg"
proof (induction es arbitrary: idx ch lg)
  case (Cons e es)
  define k where "k = unat idx - unat si"
  have i: "unat (idx + 1) = unat idx + 1" using Cons.prems by (simp add: unat_word_ariths)
  show ?case
  proof (cases "idx + 1 \<le> si")
    case True
    then show ?thesis using i by (simp add: word_le_nat_alt)
  next
    case False
    then have off: "unat (idx + 1 - si - 1) = k" "unat (idx + 1) - unat si = Suc k" "k \<le> length lg"
      using i Cons.prems(2) by (simp_all add: word_le_nat_alt unat_sub k_def)
    obtain ch1 lg1 where rec: "append_loop si c (idx + 1) es ch1 lg1 = (Some r, lg')"
      and lg1: "take k lg1 = take k lg" "unat (idx + 1) \<le> unat si + length lg1"
      using Cons.prems(1) False off i Cons.prems(2)
      by (fastforce simp: Let_def k_def word_le_nat_alt split: if_splits)
    have "take (Suc k) lg' = take (Suc k) lg1" using Cons.IH [OF rec lg1(2)] Cons.prems(3) i off(2) by simp
    then have "take k lg' = take k lg1" by (metis min.absorb1 le_add2 plus_1_eq_Suc take_take)
    then show ?thesis using lg1(1) by (simp add: k_def)
  qed
qed simp

lemma append_loop_covers:
  "append_loop si c idx es ch lg = (Some r, lg') \<Longrightarrow> log_from (unat idx) es \<Longrightarrow> unat idx \<le> unat si + length lg \<Longrightarrow>
     unat idx + length es < 2 ^ 64 \<Longrightarrow> e \<in> set es \<Longrightarrow> unat si < unat (rg_index e) \<Longrightarrow>
     unat (rg_index e) - unat si - 1 < length lg' \<and> rg_term (lg' ! (unat (rg_index e) - unat si - 1)) = rg_term e"
proof (induction es arbitrary: idx ch lg)
  case (Cons x es)
  define k where "k = unat idx - unat si"
  have i: "unat (idx + 1) = unat idx + 1" and x: "unat (rg_index x) = unat idx + 1"
    using Cons.prems by (simp_all add: unat_word_ariths)
  have es: "log_from (unat (idx + 1)) es" "unat (idx + 1) + length es < 2 ^ 64" using Cons.prems i by simp_all
  show ?case
  proof (cases "idx + 1 \<le> si")
    case True
    then have "e \<in> set es" using Cons.prems(5,6) x i by (auto simp: word_le_nat_alt)
    moreover have "append_loop si c (idx + 1) es ch lg = (Some r, lg')" using Cons.prems(1) True by (simp add: Let_def)
    moreover have "unat (idx + 1) \<le> unat si + length lg" using True by (simp add: word_le_nat_alt)
    ultimately show ?thesis using Cons.IH es Cons.prems(6) by blast
  next
    case False
    then have off: "unat (idx + 1 - si - 1) = k" "unat (idx + 1) - unat si = Suc k" "k \<le> length lg" "unat (rg_index x) - unat si - 1 = k"
      using i x Cons.prems(3) by (simp_all add: word_le_nat_alt unat_sub k_def)
    obtain ch1 lg1 where rec: "append_loop si c (idx + 1) es ch1 lg1 = (Some r, lg')"
      and lg1: "k < length lg1" "rg_term (lg1 ! k) = rg_term x" "unat (idx + 1) \<le> unat si + length lg1"
      using Cons.prems(1) False off i Cons.prems(3)
      by (fastforce simp: Let_def k_def word_le_nat_alt nth_append split: if_splits)
    show ?thesis
    proof (cases "e \<in> set es")
      case True
      then show ?thesis using Cons.IH [OF rec es(1) lg1(3) es(2)] Cons.prems(6) by blast
    next
      case False
      then have e: "e = x" using Cons.prems(5) by simp
      have t: "take (Suc k) lg' = take (Suc k) lg1" using append_loop_prefix [OF rec lg1(3) es(2)] off(2) by simp
      have "min (length lg') (Suc k) = Suc k" using arg_cong [OF t, of length] lg1(1) by simp
      then have len: "k < length lg'" by simp
      moreover have "lg' ! k = lg1 ! k" using arg_cong [OF t, of "\<lambda>xs. xs ! k"] by simp
      ultimately show ?thesis using e off(4) lg1(2) by simp
    qed
  qed
qed simp

lemma compact_log:
  assumes "ra_snapshot_index a \<le> ra_last_applied a"
  shows "\<exists>k. ra_log (maybe_compact env a) = drop k (ra_log a) \<and>
    unat (ra_snapshot_index (maybe_compact env a)) = unat (ra_snapshot_index a) + k"
proof -
  define k where "k = unat (sat_sub (ra_last_applied a) (ra_snapshot_index a))"
  have k: "unat (ra_last_applied a) = unat (ra_snapshot_index a) + k"
    using assms by (auto simp: k_def sat_sub_def unat_sub word_le_nat_alt word_less_nat_alt)
  have frame: "ra_log b = ra_log a \<and> ra_snapshot_index b = ra_snapshot_index a"
    if "persist_snapshot env operation snap lg a = (ok, b)" for operation snap lg ok b
    using that by (cases rule: persist_snapshot_place) (metis place_sel(2,5) place.simps(2,5) place.surjective place.update_convs(9))+
  have "ra_log (fail_storage operation b) = ra_log b \<and> ra_snapshot_index (fail_storage operation b) = ra_snapshot_index b" for operation b
    by (simp add: fail_storage_def fail_pending_unavailable_def send_def record_leader_transfer_def Let_def)
  then show ?thesis
    using k frame [of "''persisting compacted snapshot''"] unfolding maybe_compact_def Let_def k_def [symmetric]
    by (auto split: sum.split prod.split intro: exI [of _ 0] exI [of _ k])
qed

lemma apply_committed_log:
  assumes "bounded (place_of a)"
  shows "\<exists>k. ra_log (apply_committed env a) = drop k (ra_log a) \<and>
    unat (ra_snapshot_index (apply_committed env a)) = unat (ra_snapshot_index a) + k"
proof -
  define b where "b = snd (snd (apply_loop env a))"
  have pb: "place_of b = (place_of a)\<lparr>pl_applied := ra_commit_index a\<rparr>" and ok: "fst (snd (apply_loop env a))"
    using apply_loop_place [OF assms, of env] by (simp_all add: b_def)
  have p: "place_of (apply_committed env a) = place_of (maybe_compact env b)"
    using ok by (simp add: apply_committed_def Let_def case_prod_unfold b_def)
  have "ra_log (apply_committed env a) = ra_log (maybe_compact env b)"
    "ra_snapshot_index (apply_committed env a) = ra_snapshot_index (maybe_compact env b)"
    using arg_cong [OF p, of pl_log] arg_cong [OF p, of pl_index] by simp_all
  moreover have "ra_snapshot_index b \<le> ra_last_applied b" using assms place_eq_sel [OF pb] by (auto simp: bounded_def)
  ultimately show ?thesis using compact_log [of b env] place_eq_sel [OF pb] by auto
qed

lemma follow_commit_log:
  assumes pl: "placed (place_of a)" and free: "ra_storage_fault a = None"
    and f: "follow_commit env n a = (resp, b)" and s: "as_success resp"
  shows "ra_storage_fault b = None \<and> (\<exists>k. ra_log b = drop k (ra_log a) \<and> unat (ra_snapshot_index b) = unat (ra_snapshot_index a) + k)"
proof -
  define m where "m = min n (last_log_index a)"
  obtain ok c where c: "persist_hard_state_at env ''persisting follower commit index'' m a = (ok, c)" by fastforce
  show ?thesis
  proof (cases "n > ra_commit_index a \<and> m > ra_commit_index a")
    case False
    then have "b = a" using f unfolding follow_commit_def Let_def m_def [symmetric] by (auto simp: append_answer_def)
    then show ?thesis using free by (intro conjI exI [of _ 0]) simp_all
  next
    case True
    let ?c = "c\<lparr>ra_commit_index := m\<rparr>"
    have ok and b: "b = apply_committed env ?c" "ra_storage_fault b = None"
      using f s True c unfolding follow_commit_def Let_def m_def [symmetric]
      by (auto simp: append_answer_def Let_def split: if_splits)
    obtain disk where pc: "place_of c = (place_of a)\<lparr>pl_disk := disk\<rparr>"
      using c by (cases rule: persist_at_place) (auto simp: place_of_def)
    have sel: "ra_log c = ra_log a" "ra_snapshot_index c = ra_snapshot_index a"
      using arg_cong [OF pc, of pl_log] arg_cong [OF pc, of pl_index] by simp_all
    have "unat m \<le> unat (ra_snapshot_index a) + length (ra_log a)"
      using last_index [of a] pl by (auto simp: m_def placed_def min_def word_le_nat_alt)
    then have "bounded (place_of ?c)" using pl pc True by (auto simp: placed_def bounded_def)
    then show ?thesis using apply_committed_log [of ?c env] b sel by simp
  qed
qed

lemma store_entries_ack:
  assumes pl: "placed (place_of a)" and free: "ra_storage_fault a = None"
    and wf: "well_formed t (aq_prev_log_index req) (aq_entries req)"
    and prev: "unat (aq_prev_log_index req) \<le> unat (ra_snapshot_index a) + length (ra_log a)"
    and s: "store_entries env req a = (resp, b)" "as_success resp"
  shows "ra_storage_fault b = None \<and> (\<forall>e\<in>set (aq_entries req). ra_snapshot_index b < rg_index e \<longrightarrow>
    (\<exists>e'\<in>set (ra_log b). rg_index e' = rg_index e \<and> rg_term e' = rg_term e))"
proof -
  obtain r lg' where r: "append_loop (ra_snapshot_index a) (ra_commit_index a) (aq_prev_log_index req) (aq_entries req)
      Unchanged (ra_log a) = (r, lg')" by fastforce
  obtain ch c where ch: "r = Some ch" and c: "persist_change env ch (a\<lparr>ra_log := lg'\<rparr>) = (True, c)"
    and f: "follow_commit env (aq_leader_commit req) c = (resp, b)"
    using s r by (auto simp: store_entries_def append_answer_def Let_def split: option.splits prod.splits if_splits)
  have w: "placed (place_of c)" "ra_storage_fault c = None" "ra_log c = lg'" "ra_snapshot_index c = ra_snapshot_index a"
    using stored_log(2) [OF pl free wf prev r ch c] by simp_all
  obtain k where k: "ra_storage_fault b = None" "ra_log b = drop k lg'" "unat (ra_snapshot_index b) = unat (ra_snapshot_index a) + k"
    using follow_commit_log [OF w(1,2) f s(2)] w(3,4) by auto
  have lg: "log_from (unat (ra_snapshot_index a)) lg'" using w by (simp add: placed_def indexed_def)
  have "\<exists>e'\<in>set (ra_log b). rg_index e' = rg_index e \<and> rg_term e' = rg_term e"
    if e: "e \<in> set (aq_entries req)" "ra_snapshot_index b < rg_index e" for e
  proof -
    define j where "j = unat (rg_index e) - unat (ra_snapshot_index a) - 1"
    have les: "unat (ra_snapshot_index a) < unat (rg_index e)" "k \<le> j" using e(2) k(3) by (simp_all add: word_less_nat_alt j_def)
    have es: "log_from (unat (aq_prev_log_index req)) (aq_entries req)" "unat (aq_prev_log_index req) + length (aq_entries req) < 2 ^ 64"
      using well_formed_log [OF wf] by simp_all
    have at: "j < length lg'" "rg_term (lg' ! j) = rg_term e"
      using append_loop_covers [OF r [unfolded ch] es(1) prev es(2) e(1) les(1)] by (simp_all add: j_def)
    have "unat (rg_index (lg' ! j)) = unat (rg_index e)" using log_from_index [OF lg at(1)] les(1) by (simp add: j_def)
    then have "rg_index (lg' ! j) = rg_index e" by (simp add: word_unat_eq_iff)
    moreover have "lg' ! j \<in> set (ra_log b)"
      using at(1) les(2) nth_mem [of "j - k" "drop k lg'"] by (simp add: k(2) less_diff_iff)
    ultimately show ?thesis using at(2) by blast
  qed
  then show ?thesis using k(1) by blast
qed

end
