(* ===== verification/Raft_Safety.thy ===== *)
theory Raft_Safety
  imports Raft_Log
begin

section \<open>What the replicated log guarantees\<close>

text \<open>
  The guarantees of one shard actor over whole runs: committed entries never change and stay on disk, an acknowledged
  batch is durable, the apply loop reaches the commit index, a leader commits only with a majority, and a storage fault
  closes the shard. A run starts from a recovered disk (\<open>boots\<close>) and delivers any messages with any outcome of the
  writes. The last property is one the code lacks: a follower bounds its commit index by the end of its log and not by
  the end of the batch it has just compared.
\<close>

subsection \<open>Majorities\<close>

lemma quorum_counts:
  assumes "k < length xs"
  shows "Suc k \<le> length (filter (\<lambda>x. rev (sort xs) ! k \<le> x) (xs :: u64 list))"
proof -
  let ?ys = "rev (sort xs)"
  have "?ys ! k \<le> y" if "y \<in> set (take (Suc k) ?ys)" for y
  proof -
    from that obtain j where j: "j < length (take (Suc k) ?ys)" "y = take (Suc k) ?ys ! j" unfolding in_set_conv_nth by blast
    have "sorted_wrt (\<ge>) ?ys" by (simp add: sorted_wrt_rev)
    moreover have "j \<le> k" "k < length ?ys" using j(1) assms by auto
    ultimately have "?ys ! k \<le> ?ys ! j" using sorted_wrt_nth_less [of "(\<ge>)" ?ys j k] by (cases "j = k") auto
    then show ?thesis using j by simp
  qed
  then have "filter (\<lambda>x. ?ys ! k \<le> x) (take (Suc k) ?ys) = take (Suc k) ?ys" by (simp add: filter_id_conv)
  then have "Suc k = length (filter (\<lambda>x. ?ys ! k \<le> x) (take (Suc k) ?ys))" using assms by simp
  also have "\<dots> \<le> length (filter (\<lambda>x. ?ys ! k \<le> x) ?ys)"
    by (metis append_take_drop_id filter_append le_add1 length_append)
  also have "\<dots> = length (filter (\<lambda>x. ?ys ! k \<le> x) xs)"
    by (simp add: rev_filter [symmetric] filter_sort)
  finally show ?thesis .
qed

lemma commit_fail_storage [simp]: "ra_commit_index (fail_storage operation b) = ra_commit_index b"
  by (simp add: fail_storage_def fail_pending_unavailable_def send_def record_leader_transfer_def Let_def)

lemma commit_apply_loop [simp]: "ra_commit_index (snd (snd (apply_loop env a))) = ra_commit_index a"
proof (induction env a rule: apply_loop.induct)
  case (1 env a)
  show ?case
    using 1 by (subst apply_loop.simps) (auto simp: Let_def case_prod_unfold split: option.split)
qed

lemma commit_compact [simp]: "ra_commit_index (maybe_compact env a) = ra_commit_index a"
proof -
  have "ra_commit_index b = ra_commit_index a" if "persist_snapshot env operation snap lg a = (ok, b)" for operation snap lg ok b
    using that by (cases rule: persist_snapshot_place) (metis place_sel(6) place.simps(6) place.surjective place.update_convs(9))+
  then show ?thesis by (auto simp: maybe_compact_def Let_def split: sum.split prod.split)
qed

lemma commit_apply [simp]: "ra_commit_index (apply_committed env a) = ra_commit_index a"
proof -
  have "ra_commit_index (fail_completed f b) = ra_commit_index b" "ra_commit_index (finish_completed env f b) = ra_commit_index b" for f b
    by (metis place_fail_completed place_sel(6), metis place_finish_completed place_sel(6))
  then show ?thesis by (simp add: apply_committed_def Let_def case_prod_unfold)
qed

subsection \<open>Properties\<close>

text \<open>C37. Committed entries never change. Between any two states of a run of one actor, started from its recovered
  disk, the commit index does not go back, and every entry that was committed in the first state is the same entry in
  the second unless its snapshot has included it, whatever messages arrive, also from several leaders, and whichever writes
  fail. The messages leave terms and indexes below the largest word, and a batch that does not start at the
  beginning of the log names a non-zero term of the entry before it, as a leader's does.\<close>

theorem committed_entries_never_change:
  assumes "actor_run a" "admissible ms a" "b = fold deliver ms a"
  shows "ra_commit_index a \<le> ra_commit_index b \<and> (\<forall>i. unat (ra_snapshot_index b) < i \<and> i \<le> unat (ra_commit_index a) \<longrightarrow>
    (\<exists>e. log_at i (place_of a) = Some e \<and> log_at i (place_of b) = Some e))"
proof -
  have pl: "placed (place_of a)" using assms(1) by (rule actor_run_placed)
  then have k: "keeps (place_of a) (place_of b)" using run_moves [OF assms(2)] assms(3) by (simp add: moves_def)
  have "\<exists>e. log_at i (place_of a) = Some e \<and> log_at i (place_of b) = Some e"
    if "unat (ra_snapshot_index b) < i" "i \<le> unat (ra_commit_index a)" for i
  proof -
    have "log_at i (place_of b) = log_at i (place_of a)" using k that by (simp add: keeps_def)
    moreover have "ra_snapshot_index a \<le> ra_snapshot_index b" using k by (simp add: keeps_def)
    then have "log_at i (place_of a) \<noteq> None"
      using that pl by (auto simp: log_at_def placed_def bounded_def word_le_nat_alt)
    ultimately show ?thesis by auto
  qed
  then show ?thesis using k by (simp add: keeps_def)
qed

text \<open>A crash loses no committed entry. At every point of a run, also after a failed write, the disk covers the commit
  index of every earlier point, and each committed entry that the snapshot on disk does not include is in the log on disk.\<close>

theorem committed_entries_stay_on_disk:
  assumes "actor_run a" "admissible ms a" "ra_disk (fold deliver ms a) = Some d"
  shows "ra_commit_index a \<le> max (me_commit_index (du_meta d)) (snapshot_index_of (du_snapshot d)) \<and>
    (\<forall>i. unat (snapshot_index_of (du_snapshot d)) < i \<and> i \<le> unat (ra_commit_index a) \<longrightarrow>
      (\<exists>e\<in>set (du_log d). log_at i (place_of a) = Some e))"
proof -
  let ?b = "fold deliver ms a"
  have m: "placed (place_of ?b)" "keeps (place_of a) (place_of ?b)"
    using run_moves [OF assms(2)] actor_run_placed [OF assms(1)] by (simp_all add: moves_def)
  then have h: "holds_committed (place_of ?b) d" using assms(3) by (simp add: placed_def)
  have "\<exists>e\<in>set (du_log d). log_at i (place_of a) = Some e"
    if i: "unat (snapshot_index_of (du_snapshot d)) < i" "i \<le> unat (ra_commit_index a)" for i
  proof -
    have "i \<le> unat (ra_commit_index ?b)" using m(2) i(2) by (simp add: keeps_def word_le_nat_alt)
    then obtain e where e: "log_at i (place_of ?b) = Some e" "e \<in> set (du_log d)" using h i(1) by (auto simp: holds_committed_def)
    then have "unat (ra_snapshot_index ?b) < i" by (simp add: log_at_def split: if_splits)
    then show ?thesis using m(2) i(2) e by (auto simp: keeps_def)
  qed
  moreover have "ra_commit_index a \<le> ra_commit_index ?b" using m(2) by (simp add: keeps_def)
  ultimately show ?thesis using h order_trans by (auto simp: holds_committed_def)
qed

text \<open>C38. An acknowledged batch is durable. When a follower, at any point of such a run, answers with success a batch
  that names a non-zero term of the entry before it, or starts at the beginning of the log, its disk holds exactly its
  log and the index of its snapshot, and every entry of the batch is included in its snapshot or is on disk at its index with its term.\<close>

theorem acknowledged_batch_is_durable:
  assumes "actor_run a" "anchored req" "handle_append_entries env req a = (resp, b)" "as_success resp" "ra_disk b = Some d"
  shows "du_log d = ra_log b \<and> snapshot_index_of (du_snapshot d) = ra_snapshot_index b \<and>
    (\<forall>e\<in>set (aq_entries req). rg_index e \<le> ra_snapshot_index b \<or>
      (\<exists>e'\<in>set (du_log d). rg_index e' = rg_index e \<and> rg_term e' = rg_term e))"
proof -
  have pl: "placed (place_of a)" using assms(1) by (rule actor_run_placed)
  have pb: "placed (place_of b)" using moves_append_entries [OF moves_refl assms(2), of a env] assms(3) pl by (simp add: moves_def)
  define a1 where "a1 = (if aq_term req > ra_current_term a then step_down env (aq_term req) None a else a)"
  define a2 where "a2 = become_follower_of env (aq_leader_id req) a1"
  have "moves (place_of a) (place_of a1)" by (simp add: a1_def movers)
  then have p2: "placed (place_of a2)" using pl by (simp add: moves_def a2_def)
  have st: "ra_storage_fault a2 = None" "well_formed (aq_term req) (aq_prev_log_index req) (aq_entries req)"
      "\<not> (aq_prev_log_index req > 0 \<and> term_at (aq_prev_log_index req) a2 \<noteq> aq_prev_log_term req)"
      "store_entries env req a2 = (resp, b)"
    using assms(3,4) arg_cong [OF place_follow, of pl_fault env "aq_leader_id req" a1]
    unfolding handle_append_entries_def Let_def a1_def [symmetric] a2_def [symmetric]
    by (auto simp: append_answer_def split: if_splits)
  note ack = store_entries_ack [OF p2 st(1,2) anchored_prev [OF p2 assms(2) st(3)] st(4) assms(4)]
  have "synced (place_of b) d" using pb ack assms(5) by (simp add: placed_def)
  then show ?thesis using ack synced_snapshot [of "place_of b" d] by (auto simp: synced_def not_le)
qed

text \<open>Applying terminates with everything applied. From a log that holds the committed entries, the apply loop ends
  without a fault at the commit index, and the state machine has run over exactly the entries between the last applied
  one and the commit index, in order.\<close>

theorem apply_loop_reaches_the_commit_index:
  assumes "ra_snapshot_index a \<le> ra_last_applied a" "ra_last_applied a \<le> ra_commit_index a"
    "unat (ra_commit_index a) \<le> unat (ra_snapshot_index a) + length (ra_log a)"
  shows "\<exists>finished b. apply_loop env a = (finished, True, b) \<and> ra_last_applied b = ra_commit_index a \<and>
    ra_log b = ra_log a \<and> ra_state b = replay env (unapplied a) (ra_state a) \<and>
    length (unapplied a) = unat (ra_commit_index a) - unat (ra_last_applied a)"
proof -
  have bnd: "bounded (place_of a)" using assms by (simp add: bounded_def)
  obtain finished ok b where b: "apply_loop env a = (finished, ok, b)" by (cases "apply_loop env a") auto
  have ok and p: "place_of b = (place_of a)\<lparr>pl_applied := ra_commit_index a\<rparr>" using apply_loop_place [OF bnd, of env] b by simp_all
  moreover have "ra_state b = replay env (unapplied a) (ra_state a)" using apply_loop_replays [OF bnd, of env] b by simp
  moreover have "length (unapplied a) = unat (ra_commit_index a) - unat (ra_last_applied a)"
    using assms by (auto simp: unapplied_def word_le_nat_alt)
  ultimately show ?thesis using b place_eq_sel [OF p] by auto
qed

fun refuses :: "shard_answer \<Rightarrow> bool" where
  "refuses (Proposed p) = (case p of Some (Unavailable _) \<Rightarrow> True | _ \<Rightarrow> False)"
| "refuses (Appended resp) = (\<not> as_success resp)"
| "refuses (Installed resp) = (\<not> is_success resp)"
| "refuses (Voted resp) = (\<not> vr_granted resp)"
| "refuses NoAnswer = True"

text \<open>A shard with a storage fault fails closed: no message changes it, and it grants no vote, acknowledges no batch
  and no snapshot, and answers every proposal as unavailable.\<close>

theorem faulted_shard_fails_closed:
  assumes "ra_storage_fault a \<noteq> None"
  shows "snd (handle env msg a) = a \<and> refuses (fst (handle env msg a))"
  using assms
  by (cases msg)
    (auto simp: on_propose_def handle_append_entries_def handle_install_snapshot_def handle_request_vote_def
      handle_vote_reply_def on_tick_def accept_replication_callback_def append_answer_def install_answer_def vote_answer_def)

lemma length_filter_le_mono: "(\<And>x. P x \<Longrightarrow> Q x) \<Longrightarrow> length (filter P xs) \<le> length (filter Q xs)"
  by (induction xs) auto

text \<open>C39. A leader commits only with a majority. When the commit step of a leader raises its commit index, the entry
  there is of its own term, and that index is reached by at least a majority of the members, counting the leader by
  its own log and each peer by the match index the leader has recorded for it.\<close>

theorem leader_commits_with_a_majority:
  assumes "ra_leader a = Some ls" "ra_commit_index a < ra_commit_index (maybe_advance_commit env a)"
  shows "term_at (ra_commit_index (maybe_advance_commit env a)) a = ra_current_term a \<and>
    majority a \<le> length (filter (\<lambda>m. ra_commit_index (maybe_advance_commit env a) \<le> m)
      (last_log_index a # map (lookup_or 0 (ld_match_index ls)) (ra_peers a)))"
proof -
  let ?xs = "last_log_index a # map (lookup_or 0 (ld_match_index ls)) (ra_peers a)"
  define n where "n = (if st_command_protocol (ra_state a) < CURRENT_COMMAND_PROTOCOL \<and> \<not> all_peers_support_current_command_protocol a
    then (case first_newer a of None \<Rightarrow> quorum_index a | Some e \<Rightarrow> min (quorum_index a) (sat_sub (rg_index e) 1)) else quorum_index a)"
  obtain ok b where b: "persist_hard_state_at env ''persisting leader commit index'' n a = (ok, b)" by fastforce
  then have cb: "ra_commit_index b = ra_commit_index a"
    by (cases rule: persist_at_place) (metis place_sel(6) place.simps(6) place.surjective place.update_convs(9))+
  have adv: "maybe_advance_commit env a = (if ra_role a \<noteq> Leader \<or> ra_storage_fault a \<noteq> None \<or>
      \<not> (n > ra_commit_index a \<and> term_at n a = ra_current_term a) then a
      else if ok then apply_committed env (b\<lparr>ra_commit_index := n\<rparr>) else fail_storage ''persisting leader commit index'' b)"
    using b unfolding maybe_advance_commit_def Let_def n_def [symmetric] by simp
  have n: "ra_commit_index (maybe_advance_commit env a) = n" "term_at n a = ra_current_term a"
    using assms(2) cb commit_fail_storage [of "''persisting leader commit index''" b] unfolding adv by (simp_all split: if_splits)
  have "n \<le> quorum_index a" by (auto simp: n_def split: option.split)
  also have "quorum_index a = rev (sort ?xs) ! (majority a - 1)" using assms(1) by (simp add: quorum_index_def Let_def)
  finally have le: "n \<le> rev (sort ?xs) ! (majority a - 1)" .
  have "majority a - 1 < length ?xs" by (simp add: majority_def members_def)
  from quorum_counts [OF this] have "majority a \<le> length (filter (\<lambda>m. rev (sort ?xs) ! (majority a - 1) \<le> m) ?xs)"
    by (simp add: majority_def)
  also have "\<dots> \<le> length (filter (\<lambda>m. n \<le> m) ?xs)"
    using le order_trans by (intro length_filter_le_mono) blast
  finally show ?thesis using n by simp
qed

text \<open>Stepping down leaves the log, its start and the commit index alone.\<close>

definition log_part :: "place \<Rightarrow> raft_entry list \<times> u64 \<times> u64" where
  "log_part p = (pl_log p, pl_index p, pl_commit p)"

lemma log_part_frame [simp]: "log_part (p\<lparr>pl_disk := d\<rparr>) = log_part p" "log_part (p\<lparr>pl_fault := f\<rparr>) = log_part p"
  by (simp_all add: log_part_def)

lemma log_part_persist: "log_part (place_of (snd (persist_hard_state env operation a))) = log_part (place_of a)"
proof -
  obtain ok b where b: "persist_hard_state_at env operation (ra_commit_index a) a = (ok, b)" by fastforce
  then have "log_part (place_of b) = log_part (place_of a)" by (cases rule: persist_at_place) simp_all
  then show ?thesis using b by (simp add: persist_hard_state_def)
qed

lemma log_part_step_down: "log_part (place_of (step_down env t leader a)) = log_part (place_of a)"
proof (cases "t < ra_current_term a")
  case True
  then show ?thesis by (simp add: step_down_def)
next
  case False
  define a1 where "a1 = record_leader_transfer (ra_role a) Follower a"
  define a2 where "a2 = (if t > ra_current_term a1 then a1\<lparr>ra_current_term := t, ra_voted_for := None\<rparr> else a1)
    \<lparr>ra_role := Follower, ra_leader := None, ra_votes := {||}, ra_leader_id := leader\<rparr>"
  have "log_part (place_of a2) = log_part (place_of a1)" by (simp add: a2_def log_part_def)
  also have "\<dots> = log_part (place_of a)" by (simp add: a1_def)
  finally show ?thesis
    using False log_part_persist [of env "''persisting higher term while stepping down''" a2]
    by (auto simp: step_down_def Let_def case_prod_unfold simp flip: a1_def a2_def)
qed

text \<open>C40. A follower commits entries that no leader has vouched for. When a follower that already has every entry of a
  batch accepts it and the leader's commit index reaches the end of the follower's log, the follower commits its whole
  log, however short the batch is: the entries behind the batch were not compared with the leader's.\<close>

theorem follower_commits_beyond_the_batch:
  assumes h: "handle_append_entries env req a = (resp, b)" "as_success resp"
    and known: "append_loop (ra_snapshot_index a) (ra_commit_index a) (aq_prev_log_index req) (aq_entries req) Unchanged (ra_log a) =
      (Some Unchanged, ra_log a)"
    and commit: "ra_commit_index a < last_log_index a" "last_log_index a \<le> aq_leader_commit req"
  shows "ra_commit_index b = last_log_index a"
proof -
  define a1 where "a1 = (if aq_term req > ra_current_term a then step_down env (aq_term req) None a else a)"
  define a2 where "a2 = become_follower_of env (aq_leader_id req) a1"
  have "log_part (place_of a2) = log_part (place_of a)" by (simp add: a2_def a1_def log_part_step_down)
  then have p: "ra_log a2 = ra_log a" "ra_snapshot_index a2 = ra_snapshot_index a" "ra_commit_index a2 = ra_commit_index a"
    by (simp_all add: log_part_def)
  have st: "store_entries env req a2 = (resp, b)"
    using h unfolding handle_append_entries_def Let_def a1_def [symmetric] a2_def [symmetric]
    by (auto simp: append_answer_def split: if_splits)
  moreover have "a2\<lparr>ra_log := ra_log a\<rparr> = a2" using p(1) by (cases a2) simp
  ultimately have f: "follow_commit env (aq_leader_commit req) a2 = (resp, b)"
    using p known by (simp add: store_entries_def persist_change_def)
  have last: "last_log_index a2 = last_log_index a" using p by (simp add: last_log_index_def)
  obtain ok c where c: "persist_hard_state_at env ''persisting follower commit index'' (last_log_index a) a2 = (ok, c)" by fastforce
  have "b = apply_committed env (c\<lparr>ra_commit_index := last_log_index a\<rparr>)"
    using f h(2) c commit p last unfolding follow_commit_def Let_def
    by (auto simp: append_answer_def min_def split: if_splits)
  then show ?thesis by simp
qed

subsection \<open>A follower at work\<close>

definition sample_batch :: "u64 \<Rightarrow> u64 \<Rightarrow> raft_entry list \<Rightarrow> u64 \<Rightarrow> append_req" where
  "sample_batch prev prev_term es commit = \<lparr>aq_term = 2, aq_leader_id = ''a'', aq_prev_log_index = prev, aq_prev_log_term = prev_term,
     aq_entries = es, aq_leader_commit = commit, aq_command_protocol = CURRENT_COMMAND_PROTOCOL\<rparr>"

definition follower0 :: shard where "follower0 = sample_actor ''b'' [''a'']"

definition follower1 :: shard where
  "follower1 = deliver (sample_env, AppendEntries (sample_batch 0 0 [sample_entry 1 2] 1)) follower0"

definition follower2 :: shard where
  "follower2 = deliver (sample_env, AppendEntries (sample_batch 1 2 [sample_entry 2 2] 2)) follower1"

lemmas follower_defs = follower0_def sample_actor_def sample_defs handle_append_entries_def store_entries_def append_answer_def
  persist_change_def persist_log_append_def persist_log_rewrite_def disk_rewrite_def follow_commit_def step_down_def
  become_follower_of_def record_leader_transfer_def persist_hard_state_def persist_hard_state_at_def fail_pending_def
  entries_def send_def last_log_index_def term_at_def apply_committed_def apply_loop.simps maybe_compact_def
  finish_completed_def sample_entry_def sample_batch_def checked_add_def sat_add_def Let_def

lemma follower1_place: "place_of follower1 = \<lparr>pl_term = 2, pl_index = 0, pl_sterm = 0, pl_state = [], pl_log = [sample_entry 1 2],
   pl_commit = 1, pl_applied = 1, pl_fault = False, pl_disk = Some \<lparr>du_meta = \<lparr>me_current_term = 2, me_voted_for = None, me_commit_index = 1\<rparr>,
     du_log = [sample_entry 1 2], du_snapshot = None, du_len = 1\<rparr>\<rparr>"
  by (simp add: follower1_def deliver_def follower_defs)

lemma follower2_place: "place_of follower2 = \<lparr>pl_term = 2, pl_index = 0, pl_sterm = 0, pl_state = [],
   pl_log = [sample_entry 1 2, sample_entry 2 2], pl_commit = 2, pl_applied = 2, pl_fault = False,
   pl_disk = Some \<lparr>du_meta = \<lparr>me_current_term = 2, me_voted_for = None, me_commit_index = 2\<rparr>,
     du_log = [sample_entry 1 2, sample_entry 2 2], du_snapshot = None, du_len = 2\<rparr>\<rparr>"
  by (simp add: follower2_def follower1_def deliver_def follower_defs)

lemma follower1_run: "actor_run follower1"
proof -
  have "boots 0 ''b'' [''a''] sample_timing empty_disk follower0" unfolding follower0_def by (rule sample_boots) simp
  moreover have "admissible [(sample_env, AppendEntries (sample_batch 0 0 [sample_entry 1 2] 1))] follower0"
    by (simp add: room_def anchored_def sample_batch_def) (simp add: follower_defs)
  moreover have "follower1 = fold deliver [(sample_env, AppendEntries (sample_batch 0 0 [sample_entry 1 2] 1))] follower0"
    by (simp add: follower1_def)
  ultimately show ?thesis unfolding actor_run_def by blast
qed

lemma follower2_admissible: "admissible [(sample_env, AppendEntries (sample_batch 1 2 [sample_entry 2 2] 2))] follower1"
  by (simp add: room_def anchored_def sample_batch_def del: place_sel) (simp add: follower1_place)

theorem committed_entries_never_change_witness:
  "ra_commit_index follower1 = 1 \<and> log_at 1 (place_of follower1) = Some (sample_entry 1 2) \<and>
   log_at 1 (place_of follower2) = Some (sample_entry 1 2)"
proof -
  have sel: "ra_commit_index follower1 = 1" "ra_snapshot_index follower2 = 0"
    using arg_cong [OF follower1_place, of pl_commit] arg_cong [OF follower2_place, of pl_index] by simp_all
  have "follower2 = fold deliver [(sample_env, AppendEntries (sample_batch 1 2 [sample_entry 2 2] 2))] follower1"
    by (simp add: follower2_def)
  from committed_entries_never_change [OF follower1_run follower2_admissible this] sel
  obtain e where "log_at 1 (place_of follower1) = Some e" "log_at 1 (place_of follower2) = Some e" by auto
  moreover have "log_at 1 (place_of follower1) = Some (sample_entry 1 2)" by (simp add: follower1_place log_at_def del: place_sel)
  ultimately show ?thesis using sel by simp
qed

theorem acknowledged_batch_is_durable_witness:
  "\<exists>resp b d. handle_append_entries sample_env (sample_batch 1 2 [sample_entry 2 2] 2) follower1 = (resp, b) \<and> as_success resp \<and>
   ra_disk b = Some d \<and> du_log d = ra_log b \<and> (\<exists>e\<in>set (du_log d). rg_index e = 2 \<and> rg_term e = 2)"
proof -
  obtain resp b where h: "handle_append_entries sample_env (sample_batch 1 2 [sample_entry 2 2] 2) follower1 = (resp, b)" by fastforce
  have "as_success (fst (handle_append_entries sample_env (sample_batch 1 2 [sample_entry 2 2] 2) follower1))"
    by (simp add: follower1_def deliver_def follower_defs)
  then have s: "as_success resp" using h by simp
  have b: "b = follower2" using h by (simp add: follower2_def deliver_def)
  obtain d where d: "ra_disk b = Some d" "ra_snapshot_index b = 0"
    using arg_cong [OF follower2_place, of pl_disk] arg_cong [OF follower2_place, of pl_index] b by simp
  have "anchored (sample_batch 1 2 [sample_entry 2 2] 2)" by (simp add: anchored_def sample_batch_def)
  from acknowledged_batch_is_durable [OF follower1_run this h s d(1)] d(2) h s d
  show ?thesis by (auto simp: sample_batch_def sample_entry_def)
qed



definition acked_leader :: shard where
  "acked_leader = (sample_actor ''a'' [''b''])\<lparr>ra_role := Leader, ra_current_term := 2, ra_log := [sample_entry 1 2],
     ra_leader := Some (leader_state_default\<lparr>ld_match_index := fmap_of_list [(''b'', 1)]\<rparr>)\<rparr>"

lemma acked_quorum: "quorum_index acked_leader = 1" "ra_commit_index acked_leader = 0" "first_newer acked_leader = None"
    "ra_role acked_leader = Leader" "ra_storage_fault acked_leader = None" "term_at 1 acked_leader = 2" "ra_current_term acked_leader = 2"
  by (simp_all add: acked_leader_def follower_defs quorum_index_def majority_def members_def lookup_or_def first_newer_def)

theorem leader_commits_with_a_majority_witness:
  "ra_commit_index acked_leader = 0 \<and> ra_commit_index (maybe_advance_commit sample_env acked_leader) = 1 \<and>
   term_at 1 acked_leader = ra_current_term acked_leader"
proof -
  have "fst (persist_hard_state_at sample_env what 1 acked_leader)" for what
    by (simp add: acked_leader_def follower_defs)
  then have c: "ra_commit_index (maybe_advance_commit sample_env acked_leader) = 1"
    using acked_quorum by (simp add: maybe_advance_commit_def Let_def case_prod_unfold)
  have l: "ra_leader acked_leader = Some (leader_state_default\<lparr>ld_match_index := fmap_of_list [(''b'', 1)]\<rparr>)"
    by (simp add: acked_leader_def)
  show ?thesis using leader_commits_with_a_majority [OF l, of sample_env] c acked_quorum(2) by simp
qed

definition follower3 :: shard where
  "follower3 = deliver (sample_env, AppendEntries (sample_batch 0 0 [sample_entry 1 2, sample_entry 2 2] 0)) follower0"

theorem follower_commits_beyond_the_batch_witness:
  "let (resp, b) = handle_append_entries sample_env (sample_batch 0 0 [sample_entry 1 2] 2) follower3
   in as_success resp \<and> ra_commit_index b = 2"
proof -
  let ?req = "sample_batch 0 0 [sample_entry 1 2] 2"
  obtain resp b where h: "handle_append_entries sample_env ?req follower3 = (resp, b)" by fastforce
  have "as_success (fst (handle_append_entries sample_env ?req follower3))"
    by (simp add: follower3_def deliver_def follower_defs)
  then have s: "as_success resp" using h by simp
  have "ra_snapshot_index follower3 = 0" "ra_commit_index follower3 = 0" "ra_log follower3 = [sample_entry 1 2, sample_entry 2 2]"
    by (simp_all add: follower3_def deliver_def follower_defs)
  then have "ra_commit_index b = 2"
    using follower_commits_beyond_the_batch [OF h s] by (simp add: last_log_index_def sample_batch_def sample_entry_def sat_add_def)
  then show ?thesis using h s by simp
qed

end
