(* ===== verification/Spec2Isabelle.thy ===== *)
theory Spec2Isabelle
  imports Restore Org_Scope Raft_Safety
begin

text \<open>
  \<^bold>\<open>A verification of the coordination node.\<close>

  The node replicates a coordination store (locks, semaphores, key-value entries, counters, barriers, tasks, effects,
  handoffs, decisions, budgets, claims, idempotency records, elections, services, schedules and rate limits) over shards.
  Each shard is a Raft group. A client request is validated, its keys are scoped to the organisation of the caller, and
  one command is proposed to the actor of a shard. The actor writes the command to its log and its disk, replicates it,
  and applies committed entries in log order to its state machine, whose answer goes back to the client.

  \<^bold>\<open>The boundary.\<close> \<open>Validate\<close> models \<^verbatim>\<open>src/src/validate.rs\<close>: the limits and checks of requests. \<open>Org_Scope\<close> models
  \<^verbatim>\<open>src/src/org_scope.rs\<close>: scoping of keys, the rewriting of responses and the decision of the middleware. Its lemmas
  show that organisations share no stored key, and describe which strings of a response are compared with the prefix of
  the caller, which lose it, and when the response is replaced by an error.

  \<^bold>\<open>The state machine\<close>, \<^verbatim>\<open>src/src/state.rs\<close>. Every component is a record or a finite map, with one definition per
  \<open>apply_\<close> handler, its part of the sweep \<open>expire_due\<close> and its reads:
  \<^item> \<open>Indexed_Queue\<close> (\<^verbatim>\<open>src/src/indexed_queue.rs\<close>): the slab queue, and its refinement of a list. The interface is a
    locale that the queue and its specification both interpret.
  \<^item> \<open>Fencing\<close>, \<open>Cancellation\<close>: the token counter and the ledger of cancelled acquisitions.
  \<^item> \<open>Lock_Model\<close> and \<open>Locks\<close>, \<open>Semaphore_Model\<close> and \<open>Semaphores\<close>: the definitions, then exclusion, order of service,
    and what a promotion admits.
  \<^item> \<open>Leases\<close> and \<open>Lifecycles\<close>: the interfaces that several components share, maps whose entries lapse and records with
    terminal states, each with the lemmas proved once and interpreted per component.
  \<^item> \<open>Kv_Counters\<close>, \<open>Barriers\<close>, \<open>Tasks\<close>, \<open>Effects\<close>, \<open>Handoffs\<close>, \<open>Decisions\<close>, \<open>Budgets\<close>, \<open>Claims_Ledger\<close>,
    \<open>Idempotency\<close>, \<open>Elections\<close>, \<open>Services\<close>: one component each, with what it promises over whole logs.
  \<^item> \<open>Cron\<close> (\<^verbatim>\<open>src/src/cron.rs\<close>) and \<open>Schedules\<close>: the parser, the calendar, the next fire and the claims of fires.
  \<^item> \<open>Floats\<close> and \<open>Rate_Limit\<close>: binary64 arithmetic over the rationals, the token bucket and the sliding window.
  \<^item> \<open>Store_Machine\<close>: the whole store, the commands and \<open>apply_at\<close> as the composition of the components over one token
    counter. \<open>Store_Invariants\<close>: the invariants of the components hold together in every log, and no token comes back.
  \<^item> \<open>Restore\<close>: snapshots, and what the validation of a restored store guarantees and refuses.

  \<^bold>\<open>Replication.\<close>
  \<^item> \<open>Persist\<close> (\<^verbatim>\<open>src/src/persist.rs\<close>): the three files of a shard as bytes; recovery after torn appends and interrupted
    compactions.
  \<^item> \<open>Raft\<close> (\<open>ShardActor\<close> of \<^verbatim>\<open>src/src/consensus.rs\<close>, the messages of \<^verbatim>\<open>src/src/transport.rs\<close>, and
    \<^verbatim>\<open>src/src/raft_callback.rs\<close> and \<^verbatim>\<open>src/src/raft_reply.rs\<close>): the actor as one record, one definition per method, and
    \<open>handle\<close> for a message. What it sends goes to an outbox; each write to its disk succeeds, is lost, or happens without
    being reported.
  \<^item> \<open>Raft_Core\<close> and \<open>Raft_Election\<close>: the projection of an actor that elections depend on, one lemma per method, and the
    cluster as a step relation with lost, repeated and reordered messages, failing writes and restarts. No term has two
    leaders.
  \<^item> \<open>Raft_Place\<close>, \<open>Raft_Log\<close> and \<open>Raft_Safety\<close>: the projection that the log depends on, one lemma per method, and runs
    of one actor from its recovered disk. Committed entries never change and stay on disk, acknowledged batches are
    durable, applying reaches the commit index, a leader commits only with a majority, and a faulted shard refuses
    everything. That followers of one term commit the same entries is not proved: \<open>Raft_Safety\<close> shows that a follower can
    commit entries that were not compared with the leader's.

  \<^bold>\<open>Conventions.\<close> Machine integers are words of their width, with saturating, checked and wrapping operations as the code
  has them; lengths are natural numbers; strings are lists of bytes. A \<open>HashMap\<close> whose iteration order can be observed
  takes the order as an argument. Errors are values of a sum or an option. Loops are structural, or have a termination
  proof with a measure on words: the queue, the promotion of waiters, the calendar search, which is bounded by the number
  of minutes the code tries, and the apply loop, which is bounded by the commit index. Only the two
  walks along the links of the slab queue, \<open>iter_from\<close> and \<open>position_from\<close>, take fuel, one more than the number of slots; the
  refinement shows that it suffices.
  SHA-256, the routing crate and \<open>serde_json\<close> are parameters; what a theorem relies on of them is a named hypothesis.

  \<^bold>\<open>Not modelled.\<close> The axum handlers, which call the modelled checks, scopes and commands; the node layer, which routes
  messages over channels; the delivery of messages, for which the cluster model allows any order, loss and repetition;
  queries, subscriptions and the status report of an actor, which do not change it; the delivery of schedules over
  HTTP; the encryption of key-value payloads; configuration, metrics and logging. Instants are natural numbers of
  nanoseconds. The cluster model has fixed members, as the code has. The calendar arithmetic of \<open>Cron\<close> uses
  unbounded integers for the signed 64-bit ones of the code; the days of a 64-bit number of milliseconds are far from
  the bounds.
\<close>

end
